(* ===== verification/Sctp_Prelude.thy ===== *)
theory Sctp_Prelude
  imports Main "HOL-Library.Word"
begin

text \<open>
  Shared vocabulary of the development: machine integers at their width, results
  that may be an error, the host's byte order (\<open>htons\<close>, \<open>htonl\<close> and the memory
  image of an integer, for a little-endian host), the four-byte padding rule of the wire
  format, and the generic facts on words, lists and results that the component
  theories use through the collections declared here.

  \<^item> \<open>uint8_t\<close>, \<open>uint16_t\<close>, \<open>uint32_t\<close>, \<open>uint64_t\<close> are \<open>u8\<close>, \<open>u16\<close>,
    \<open>u32\<close>, \<open>u64\<close>; their arithmetic wraps.
  \<^item> \<open>size_t\<close>, used for sizes and offsets of objects in memory, is \<open>nat\<close>.
  \<^item> \<open>std::vector<uint8_t>\<close> and \<open>(const uint8_t*, size_t)\<close> pairs are \<open>bytes\<close>.
\<close>

unbundle bit_operations_syntax

text \<open>Offsets stay sums of numerals.\<close>

declare add_2_eq_Suc [simp del] add_2_eq_Suc' [simp del]

named_theorems res_simps \<open>simplification of computations that may fail\<close>
named_theorems byte_simps \<open>byte order and memory images of integers\<close>
named_theorems pad_simps \<open>the four-byte padding rule\<close>

type_synonym u8 = "8 word"
type_synonym u16 = "16 word"
type_synonym u32 = "32 word"
type_synonym u64 = "64 word"
type_synonym bytes = "u8 list"

text \<open>A \<open>steady_clock\<close> time point or duration, in nanoseconds, the clock's tick.\<close>

type_synonym time = int

abbreviation (input) microseconds :: "int \<Rightarrow> time" where "microseconds n \<equiv> n * 1000"
abbreviation (input) milliseconds :: "int \<Rightarrow> time" where "milliseconds n \<equiv> n * 1000000"
abbreviation (input) seconds :: "int \<Rightarrow> time" where "seconds n \<equiv> n * 1000000000"

text \<open>Integer division of C++, which truncates towards zero; \<open>std::chrono::duration_cast\<close> uses it.\<close>

definition trunc_div :: "int \<Rightarrow> int \<Rightarrow> int" where
  "trunc_div a b = sgn a * sgn b * (\<bar>a\<bar> div \<bar>b\<bar>)"

subsection \<open>Results\<close>

definition bind_res :: "'e + 'a \<Rightarrow> ('a \<Rightarrow> 'e + 'b) \<Rightarrow> 'e + 'b" where
  "bind_res m f = (case m of Inl e \<Rightarrow> Inl e | Inr x \<Rightarrow> f x)"

fun map_res :: "('a \<Rightarrow> 'e + 'b) \<Rightarrow> 'a list \<Rightarrow> 'e + 'b list" where
  "map_res f [] = Inr []"
| "map_res f (x # xs) = bind_res (f x) (\<lambda>y. bind_res (map_res f xs) (\<lambda>ys. Inr (y # ys)))"

subsection \<open>Byte order\<close>

text \<open>The memory image of an integer on a little-endian host, and the integer read back.\<close>

definition mem16 :: "u16 \<Rightarrow> bytes" where
  "mem16 v = [ucast v, ucast (drop_bit 8 v)]"

definition mem32 :: "u32 \<Rightarrow> bytes" where
  "mem32 v = [ucast v, ucast (drop_bit 8 v), ucast (drop_bit 16 v), ucast (drop_bit 24 v)]"

definition load16 :: "u8 \<Rightarrow> u8 \<Rightarrow> u16" where
  "load16 a b = ucast a OR push_bit 8 (ucast b)"

definition load32 :: "u8 \<Rightarrow> u8 \<Rightarrow> u8 \<Rightarrow> u8 \<Rightarrow> u32" where
  "load32 a b c d =
     ucast a OR push_bit 8 (ucast b) OR push_bit 16 (ucast c) OR push_bit 24 (ucast d)"

text \<open>\<open>htons\<close> and \<open>htonl\<close> reverse the bytes; so do \<open>ntohs\<close> and \<open>ntohl\<close>.\<close>

definition htons :: "u16 \<Rightarrow> u16" where
  "htons v = load16 (ucast (drop_bit 8 v)) (ucast v)"

definition htonl :: "u32 \<Rightarrow> u32" where
  "htonl v =
     load32 (ucast (drop_bit 24 v)) (ucast (drop_bit 16 v)) (ucast (drop_bit 8 v)) (ucast v)"

abbreviation ntohs :: "u16 \<Rightarrow> u16" where
  "ntohs \<equiv> htons"

abbreviation ntohl :: "u32 \<Rightarrow> u32" where
  "ntohl \<equiv> htonl"

subsection \<open>Padding\<close>

text \<open>\<open>(n + 3) & ~size_t{3}\<close>: the length rounded up to a multiple of four.\<close>

definition pad4 :: "nat \<Rightarrow> nat" where
  "pad4 n = (n + 3) div 4 * 4"

text \<open>\<open>std::vector::resize(n, 0)\<close>: cuts a longer vector, extends a shorter one with zeros.\<close>

definition resize0 :: "nat \<Rightarrow> bytes \<Rightarrow> bytes" where
  "resize0 n xs = take n xs @ replicate (n - length xs) 0"

subsection \<open>Facts on results\<close>

lemma bind_res_Inl [simp, res_simps]: "bind_res (Inl e) f = Inl e"
  by (simp add: bind_res_def)

lemma bind_res_Inr [simp, res_simps]: "bind_res (Inr x) f = f x"
  by (simp add: bind_res_def)

lemma bind_res_eq_Inr_iff [res_simps]:
  "bind_res m f = Inr y \<longleftrightarrow> (\<exists>x. m = Inr x \<and> f x = Inr y)"
  by (cases m) auto

lemma bind_res_eq_Inl_iff [res_simps]:
  "bind_res m f = Inl e \<longleftrightarrow> m = Inl e \<or> (\<exists>x. m = Inr x \<and> f x = Inl e)"
  by (cases m) auto

lemma bind_res_if [res_simps]:
  "bind_res (if b then m else n) f = (if b then bind_res m f else bind_res n f)"
  by simp

lemma bind_res_assoc: "bind_res (bind_res m f) g = bind_res m (\<lambda>x. bind_res (f x) g)"
  by (cases m) auto

lemma map_res_Inr:
  assumes "\<And>x. x \<in> set xs \<Longrightarrow> f x = Inr (g x)"
  shows "map_res f xs = Inr (map g xs)"
  using assms by (induction xs) auto

lemma map_res_length: "map_res f xs = Inr ys \<Longrightarrow> length ys = length xs"
  by (induction xs arbitrary: ys) (auto simp: res_simps)

subsection \<open>Facts on bytes and words\<close>

lemma unat_u8_less: "unat (w::u8) < 2 ^ 8"
  by (rule order_less_le_trans [OF unsigned_less]) simp

lemma unat_u16_less: "unat (w::u16) < 2 ^ 16"
  by (rule order_less_le_trans [OF unsigned_less]) simp

lemma unat_u32_less: "unat (w::u32) < 2 ^ 32"
  by (rule order_less_le_trans [OF unsigned_less]) simp

lemma unat_u64_less: "unat (w::u64) < 2 ^ 64"
  by (rule order_less_le_trans [OF unsigned_less]) simp

lemma unat_word_of_int_u64: "0 \<le> i \<Longrightarrow> i < 2 ^ 64 \<Longrightarrow> unat (word_of_int i :: u64) = nat i"
  by (simp add: unsigned_of_int nat_take_bit_eq take_bit_int_eq_self)

lemma unat_ucast_widen:
  "unat (ucast (a::u8) :: u16) = unat a" "unat (ucast (b::u16) :: u32) = unat b"
  "unat (ucast (c::u32) :: u64) = unat c" "unat (ucast (a::u8) :: u32) = unat a"
  "unat (ucast (b::u16) :: u64) = unat b"
  using unat_u8_less [of a] unat_u16_less [of b] unat_u32_less [of c]
  by (simp_all add: unsigned_ucast_eq take_bit_nat_eq_self)

lemma trunc_div_nonneg: "0 \<le> a \<Longrightarrow> 0 < b \<Longrightarrow> trunc_div a b = a div b"
  by (cases "a = 0") (simp_all add: trunc_div_def)

lemma bit_u8_ge [byte_simps]: "8 \<le> n \<Longrightarrow> bit (a::u8) n \<longleftrightarrow> False"
  by (auto dest: bit_imp_le_length)

lemma mem16_load16 [simp, byte_simps]: "mem16 (load16 a b) = [a, b]"
  by (auto simp: mem16_def load16_def bit_simps bit_u8_ge intro!: bit_word_eqI)

lemma mem32_load32 [simp, byte_simps]: "mem32 (load32 a b c d) = [a, b, c, d]"
  by (auto simp: mem32_def load32_def bit_simps bit_u8_ge intro!: bit_word_eqI)

lemma load16_mem16: "load16 (ucast v) (ucast (drop_bit 8 v)) = v"
  by (auto simp: load16_def bit_simps intro!: bit_word_eqI)

lemma load32_mem32:
  "load32 (ucast v) (ucast (drop_bit 8 v)) (ucast (drop_bit 16 v)) (ucast (drop_bit 24 v)) = v"
proof (rule bit_word_eqI)
  fix n assume "n < LENGTH(32)"
  then consider "n < 8" | "8 \<le> n" "n < 16" | "16 \<le> n" "n < 24" | "24 \<le> n" "n < 32"
    by fastforce
  then show "bit (load32 (ucast v) (ucast (drop_bit 8 v)) (ucast (drop_bit 16 v))
      (ucast (drop_bit 24 v))) n = bit v n"
    by cases (auto simp: load32_def bit_simps)
qed

lemma length_mem16 [simp, byte_simps]: "length (mem16 v) = 2"
  by (simp add: mem16_def)

lemma length_mem32 [simp, byte_simps]: "length (mem32 v) = 4"
  by (simp add: mem32_def)

lemma mem16_htons [byte_simps]: "mem16 (htons v) = [ucast (drop_bit 8 v), ucast v]"
  by (simp add: htons_def)

lemma mem32_htonl [byte_simps]:
  "mem32 (htonl v) = [ucast (drop_bit 24 v), ucast (drop_bit 16 v), ucast (drop_bit 8 v), ucast v]"
  by (simp add: htonl_def)

lemma htons_load16 [byte_simps]: "htons (load16 a b) = load16 b a"
proof -
  have "[ucast (load16 a b), ucast (drop_bit 8 (load16 a b))] = [a, b]"
    using mem16_load16 [of a b] by (simp only: mem16_def)
  then show ?thesis by (simp add: htons_def)
qed

lemma htonl_load32 [byte_simps]: "htonl (load32 a b c d) = load32 d c b a"
proof -
  have "[ucast (load32 a b c d), ucast (drop_bit 8 (load32 a b c d)),
      ucast (drop_bit 16 (load32 a b c d)), ucast (drop_bit 24 (load32 a b c d))] = [a, b, c, d]"
    using mem32_load32 [of a b c d] by (simp only: mem32_def)
  then show ?thesis by (simp add: htonl_def)
qed

lemma htons_htons [simp, byte_simps]: "htons (htons v) = v"
  by (simp add: htons_def [of v] htons_load16 load16_mem16)

lemma htonl_htonl [simp, byte_simps]: "htonl (htonl v) = v"
  by (simp add: htonl_def [of v] htonl_load32 load32_mem32)

lemma htons_eq_iff [simp, byte_simps]: "htons v = htons w \<longleftrightarrow> v = w"
  by (metis htons_htons)

lemma htonl_eq_iff [simp, byte_simps]: "htonl v = htonl w \<longleftrightarrow> v = w"
  by (metis htonl_htonl)

subsection \<open>Facts on padding\<close>

lemma pad4_ge [pad_simps]: "n \<le> pad4 n"
  unfolding pad4_def by presburger

lemma pad4_less [pad_simps]: "pad4 n < n + 4"
  unfolding pad4_def by presburger

lemma pad4_mod [pad_simps]: "pad4 n mod 4 = 0"
  by (simp add: pad4_def)

lemma pad4_idem [pad_simps]: "n mod 4 = 0 \<Longrightarrow> pad4 n = n"
  unfolding pad4_def by presburger

lemma pad4_mono: "m \<le> n \<Longrightarrow> pad4 m \<le> pad4 n"
  unfolding pad4_def by (simp add: div_le_mono)

lemma pad4_pos: "0 < n \<Longrightarrow> 0 < pad4 n"
  using pad4_ge [of n] by linarith

lemma pad4_eq_missing: "pad4 n = n + (4 - n mod 4) mod 4"
proof -
  consider "n mod 4 = 0" | "n mod 4 = 1" | "n mod 4 = 2" | "n mod 4 = 3"
    by linarith
  then show ?thesis
    by cases (simp_all add: pad4_def, presburger+)
qed

lemma length_resize0 [simp]: "length (resize0 n xs) = n"
  by (simp add: resize0_def)

lemma resize0_ge: "length xs \<le> n \<Longrightarrow> resize0 n xs = xs @ replicate (n - length xs) 0"
  by (simp add: resize0_def)

lemma resize0_same [simp]: "resize0 (length xs) xs = xs"
  by (simp add: resize0_def)

subsection \<open>Facts on lists and sums\<close>

lemma drop_append_length [simp]: "drop (length xs) (xs @ ys) = ys"
  by simp

lemma nth_append_right: "length xs \<le> n \<Longrightarrow> (xs @ ys) ! n = ys ! (n - length xs)"
  by (simp add: nth_append)

lemma sum_list_filter_split:
  "sum_list (map f xs) = sum_list (map f (filter P xs)) + sum_list (map f (filter (Not \<circ> P) xs))"
  for f :: "'a \<Rightarrow> nat"
  by (induction xs) auto

lemma distinct_map_filter: "distinct (map f xs) \<Longrightarrow> distinct (map f (filter P xs))"
  by (induction xs) auto

end
