(* ===== verification/Sctp_Types.thy ===== *)
theory Sctp_Types
  imports Sctp_Prelude
begin

text \<open>
  The protocol types and wire constants of \<open>include/sctp/sctp.hpp\<close>, the socket address
  the platform header provides, and the errors the codec throws.

  A chunk type is an \<open>enum\<close> over \<open>uint8_t\<close>: the deserializer casts any received byte to
  it, so it is a \<open>u8\<close> and the enumerators are the numerals of the header. The same holds for
  parameter types and error causes, which are \<open>u16\<close>. The \<open>std::variant\<close> of chunk bodies is
  the datatype \<open>Chunk_Value_Type\<close>, with one constructor for each alternative, and
  \<open>std::get\<close> on another alternative is the error \<open>Bad_Variant_Access\<close>.
\<close>

subsection \<open>Sizes and constants\<close>

abbreviation (input) SCTP_COMMON_HEADER_SIZE :: nat where "SCTP_COMMON_HEADER_SIZE \<equiv> 12"
abbreviation (input) SCTP_CHUNK_HEADER_SIZE :: nat where "SCTP_CHUNK_HEADER_SIZE \<equiv> 4"
abbreviation (input) DATA_CHUNK_HEADER_SIZE :: nat where "DATA_CHUNK_HEADER_SIZE \<equiv> 16"
abbreviation (input) SCTP_CHECKSUM_OFFSET :: nat where "SCTP_CHECKSUM_OFFSET \<equiv> 8"
abbreviation (input) UINT16_MAX :: nat where "UINT16_MAX \<equiv> 65535"
abbreviation (input) RWND :: nat where "RWND \<equiv> 65535"
abbreviation (input) LOCAL_OUT_STREAMS :: u16 where "LOCAL_OUT_STREAMS \<equiv> 10"
abbreviation (input) LOCAL_MAX_IN_STREAMS :: u16 where "LOCAL_MAX_IN_STREAMS \<equiv> 65535"

abbreviation (input) DATA :: u8 where "DATA \<equiv> 0"
abbreviation (input) INIT :: u8 where "INIT \<equiv> 1"
abbreviation (input) INIT_ACK :: u8 where "INIT_ACK \<equiv> 2"
abbreviation (input) SACK :: u8 where "SACK \<equiv> 3"
abbreviation (input) HEARTBEAT :: u8 where "HEARTBEAT \<equiv> 4"
abbreviation (input) HEARTBEAT_ACK :: u8 where "HEARTBEAT_ACK \<equiv> 5"
abbreviation (input) ABORT :: u8 where "ABORT \<equiv> 6"
abbreviation (input) SHUTDOWN :: u8 where "SHUTDOWN \<equiv> 7"
abbreviation (input) SHUTDOWN_ACK :: u8 where "SHUTDOWN_ACK \<equiv> 8"
abbreviation (input) OP_ERROR :: u8 where "OP_ERROR \<equiv> 9"
abbreviation (input) COOKIE_ECHO :: u8 where "COOKIE_ECHO \<equiv> 10"
abbreviation (input) COOKIE_ACK :: u8 where "COOKIE_ACK \<equiv> 11"
abbreviation (input) SHUTDOWN_COMPLETE :: u8 where "SHUTDOWN_COMPLETE \<equiv> 14"

abbreviation (input) CHUNK_FLAG_T_BIT :: u8 where "CHUNK_FLAG_T_BIT \<equiv> 1"
abbreviation (input) DATA_FLAG_E :: u8 where "DATA_FLAG_E \<equiv> 1"
abbreviation (input) DATA_FLAG_B :: u8 where "DATA_FLAG_B \<equiv> 2"
abbreviation (input) DATA_FLAG_U :: u8 where "DATA_FLAG_U \<equiv> 4"

abbreviation (input) PARAM_HEARTBEAT_INFO :: u16 where "PARAM_HEARTBEAT_INFO \<equiv> 1"
abbreviation (input) PARAM_IPV4_ADDRESS :: u16 where "PARAM_IPV4_ADDRESS \<equiv> 5"
abbreviation (input) PARAM_IPV6_ADDRESS :: u16 where "PARAM_IPV6_ADDRESS \<equiv> 6"
abbreviation (input) PARAM_STATE_COOKIE :: u16 where "PARAM_STATE_COOKIE \<equiv> 7"
abbreviation (input) PARAM_UNRECOGNIZED :: u16 where "PARAM_UNRECOGNIZED \<equiv> 8"
abbreviation (input) PARAM_COOKIE_PRESERVATIVE :: u16 where "PARAM_COOKIE_PRESERVATIVE \<equiv> 9"
abbreviation (input) PARAM_HOST_NAME_ADDRESS :: u16 where "PARAM_HOST_NAME_ADDRESS \<equiv> 11"
abbreviation (input) PARAM_SUPPORTED_ADDRESS_TYPES :: u16 where "PARAM_SUPPORTED_ADDRESS_TYPES \<equiv> 12"

abbreviation (input) CAUSE_INVALID_STREAM_ID :: u16 where "CAUSE_INVALID_STREAM_ID \<equiv> 1"
abbreviation (input) CAUSE_MISSING_MANDATORY_PARAM :: u16 where "CAUSE_MISSING_MANDATORY_PARAM \<equiv> 2"
abbreviation (input) CAUSE_STALE_COOKIE :: u16 where "CAUSE_STALE_COOKIE \<equiv> 3"
abbreviation (input) CAUSE_UNRESOLVABLE_ADDRESS :: u16 where "CAUSE_UNRESOLVABLE_ADDRESS \<equiv> 5"
abbreviation (input) CAUSE_UNRECOGNIZED_CHUNK :: u16 where "CAUSE_UNRECOGNIZED_CHUNK \<equiv> 6"
abbreviation (input) CAUSE_INVALID_MANDATORY_PARAM :: u16 where "CAUSE_INVALID_MANDATORY_PARAM \<equiv> 7"
abbreviation (input) CAUSE_UNRECOGNIZED_PARAMS :: u16 where "CAUSE_UNRECOGNIZED_PARAMS \<equiv> 8"
abbreviation (input) CAUSE_NO_USER_DATA :: u16 where "CAUSE_NO_USER_DATA \<equiv> 9"
abbreviation (input) CAUSE_COOKIE_WHILE_SHUTTING_DOWN :: u16 where "CAUSE_COOKIE_WHILE_SHUTTING_DOWN \<equiv> 10"
abbreviation (input) CAUSE_RESTART_WITH_NEW_ADDRESSES :: u16 where "CAUSE_RESTART_WITH_NEW_ADDRESSES \<equiv> 11"
abbreviation (input) CAUSE_USER_INITIATED_ABORT :: u16 where "CAUSE_USER_INITIATED_ABORT \<equiv> 12"
abbreviation (input) CAUSE_PROTOCOL_VIOLATION :: u16 where "CAUSE_PROTOCOL_VIOLATION \<equiv> 13"

abbreviation (input) STATE_COOKIE_BODY_SIZE :: nat where "STATE_COOKIE_BODY_SIZE \<equiv> 64"
abbreviation (input) STATE_COOKIE_MAC_SIZE :: nat where "STATE_COOKIE_MAC_SIZE \<equiv> 32"
abbreviation (input) STATE_COOKIE_SIZE :: nat where "STATE_COOKIE_SIZE \<equiv> 96"
abbreviation (input) STATE_COOKIE_VERSION :: u8 where "STATE_COOKIE_VERSION \<equiv> 1"
abbreviation (input) COOKIE_SECRET_SIZE :: nat where "COOKIE_SECRET_SIZE \<equiv> 32"

subsection \<open>Errors thrown by the codec\<close>

text \<open>
  One constructor for each message of a \<open>std::runtime_error\<close>, one for
  \<open>std::bad_variant_access\<close>, and \<open>Out_Of_Bounds\<close> for a read past the end of a buffer, which
  is undefined behaviour in the source.
\<close>

datatype sctp_error =
    Out_Of_Bounds
  | Bad_Variant_Access
  | Parameter_Too_Long
  | State_Cookie_Body_Size
  | Buffer_Underflow
  | Truncated_Chunk_Header
  | Chunk_Length_Below_Header
  | Truncated_Chunk_Body
  | Init_Too_Short
  | Shutdown_Wrong_Length
  | No_Heartbeat_Info
  | Cause_Length_Below_Header
  | Cause_Overruns_Chunk
  | Data_Too_Short
  | Sack_Too_Short
  | Sack_Inconsistent_Counts
  | Sack_Invalid_Gap_Ack_Block
  | Too_Many_Sack_Entries
  | Sack_Counts_Do_Not_Match
  | Invalid_Sack_Gap_Ack_Block

type_synonym 'a res = "sctp_error + 'a"

subsection \<open>Socket addresses\<close>

text \<open>
  \<open>sockaddr_in\<close>: the fields the source reads and writes, holding values in network byte order
  as the C structure does. \<open>sin_family\<close> is always \<open>AF_INET\<close>.
\<close>

record sockaddr_in =
  s_addr :: u32
  sin_port :: u16

subsection \<open>Chunk bodies\<close>

record init_chunk_value =
  initiate_tag :: u32
  init_a_rwnd :: u32
  init_out_streams :: u16
  init_in_streams :: u16
  initial_tsn :: u32
  optional_parameters :: bytes

record data_chunk_value =
  data_tsn :: u32
  stream_identifier :: u16
  stream_seq_num :: u16
  payload_protocal :: u32
  user_data :: bytes
  data_flags :: u8

record sack_gap_ack_block =
  gap_start :: u16
  gap_end :: u16

record sack_chunk_value =
  sack_cumulative_tsn_ack :: u32
  sack_a_rwnd :: u32
  number_of_gap_ack_blocks :: u16
  number_of_duplicate_tsns :: u16
  gap_ack_blocks :: "sack_gap_ack_block list"
  sack_duplicate_tsns :: "u32 list"

record error_cause =
  cause_code :: u16
  cause_info :: bytes

text \<open>The structs with one member are that member.\<close>

type_synonym cookie_echo_chunk_value = bytes
type_synonym shutdown_chunk_value = u32
type_synonym heartbeat_chunk_value = bytes
type_synonym unknown_chunk_value = bytes
type_synonym error_chunk_value = "error_cause list"

datatype Chunk_Value_Type =
    Init_Value init_chunk_value
  | Cookie_Echo_Value (cookie_data: cookie_echo_chunk_value)
  | Empty_Value
  | Data_Value data_chunk_value
  | Sack_Value sack_chunk_value
  | Error_Value (causes: error_chunk_value)
  | Shutdown_Value (shutdown_cumulative_tsn_ack: shutdown_chunk_value)
  | Heartbeat_Value (heartbeat_info_bytes: heartbeat_chunk_value)
  | Unknown_Value (unknown_body: unknown_chunk_value)

subsection \<open>Packets\<close>

record SCTP_Common_Header =
  src_port :: u16
  des_port :: u16
  verification_tag :: u32
  hdr_checksum :: u32

record SCTP_Chunk_Header =
  ch_type :: u8
  ch_flag :: u8
  ch_length :: u16

record SCTP_Chunk =
  chunk_header :: SCTP_Chunk_Header
  chunk_value :: Chunk_Value_Type

record SCTP_Packet =
  pkt_header :: SCTP_Common_Header
  pkt_chunks :: "SCTP_Chunk list"

abbreviation chunk_type :: "SCTP_Chunk \<Rightarrow> u8" where
  "chunk_type c \<equiv> ch_type (chunk_header c)"

text \<open>
  \<open>std::get\<close> on the alternatives the source asks for; \<open>data_of\<close> is \<open>std::get\<close> behind a
  test of the chunk type, which every packet the stack builds or parses satisfies.
\<close>

definition get_data :: "Chunk_Value_Type \<Rightarrow> data_chunk_value res" where
  "get_data v = (case v of Data_Value d \<Rightarrow> Inr d | _ \<Rightarrow> Inl Bad_Variant_Access)"

subsection \<open>Associations and deliverables\<close>

text \<open>
  \<open>Association_Key\<close> compares the address and the port of its \<open>sockaddr_in\<close>, which are the fields of the
  model's record, so it is that record. A \<open>Deliverable\<close> is an outbound packet, the association it
  belongs to and the address it goes to.
\<close>

type_synonym Association_Key = sockaddr_in

record Deliverable =
  dl_location :: Association_Key
  dl_destination :: sockaddr_in
  dl_packet :: SCTP_Packet

subsection \<open>State cookie\<close>

record State_Cookie =
  ck_version :: u8
  secret_generation :: u8
  created_us :: u64
  lifespan_us :: u32
  sctp_src_port :: u16
  sctp_dst_port :: u16
  peer_ipv4 :: u32
  peer_udp_port :: u16
  local_ver_tag :: u32
  ck_peer_ver_tag :: u32
  local_initial_tsn :: u32
  peer_initial_tsn :: u32
  peer_a_rwnd :: u32
  local_out_streams :: u16
  local_in_streams :: u16
  peer_out_streams :: u16
  peer_in_streams :: u16
  ck_local_tie_tag :: u32
  ck_peer_tie_tag :: u32
  ck_peer_addresses :: "u32 list"
  mac :: bytes

end
