(* ===== verification/Codec_Contract.thy ===== *)
theory Codec_Contract
  imports Sctp_Types
begin

text \<open>
  The contract of a serializer and its parser: what can be serialized is, without an error, and the parser finds in the bytes the image of
  what was serialized. The packet codec and the codec of the state cookie interpret it; the receiving side of the handshake rests on it.
\<close>

locale codec =
  fixes encode :: "'a \<Rightarrow> bytes res" and decode :: "bytes \<Rightarrow> 'b res" and encodable :: "'a \<Rightarrow> bool" and image_of :: "'a \<Rightarrow> 'b"
  assumes encodes: "encodable x \<Longrightarrow> \<exists>bs. encode x = Inr bs"
    and decodes: "encodable x \<Longrightarrow> encode x = Inr bs \<Longrightarrow> decode bs = Inr (image_of x)"
begin

lemma codec_roundtrip: "encodable x \<Longrightarrow> bind_res (encode x) decode = Inr (image_of x)"
  using encodes [of x] decodes [of x] by auto

lemma codec_unambiguous: "encodable x \<Longrightarrow> encodable y \<Longrightarrow> encode x = encode y \<Longrightarrow> image_of x = image_of y"
  using encodes [of x] decodes [of x] decodes [of y] by auto

lemma codec_total: "encodable x \<Longrightarrow> \<exists>bs. encode x = Inr bs \<and> decode bs = Inr (image_of x)"
  using encodes [of x] decodes [of x] by blast

end

end
