(* ===== verification/Serial_Arith.thy ===== *)
theory Serial_Arith
  imports Sctp_Types
begin

text \<open>
  Serial number arithmetic, \<open>include/sctp/utils.hpp\<close>: the circular comparison of
  Transmission Sequence Numbers and Stream Sequence Numbers, and the test whether a SACK
  reports a TSN as received.

  The comparison is no order on all of \<open>uint32_t\<close>. The locale \<open>serial_order\<close> is the contract
  clients rely on: on every window of half the number space it is the strict total order of
  the distances from the window's start. It is interpreted for TSNs and for SSNs.
\<close>

subsection \<open>The comparisons\<close>

definition tsn_lt :: "u32 \<Rightarrow> u32 \<Rightarrow> bool" where
  "tsn_lt a b = (let distance = b - a in distance \<noteq> 0 \<and> distance < push_bit 31 1)"

definition tsn_lte :: "u32 \<Rightarrow> u32 \<Rightarrow> bool" where
  "tsn_lte a b = (a = b \<or> tsn_lt a b)"

definition tsn_gt :: "u32 \<Rightarrow> u32 \<Rightarrow> bool" where
  "tsn_gt a b = tsn_lt b a"

definition tsn_gte :: "u32 \<Rightarrow> u32 \<Rightarrow> bool" where
  "tsn_gte a b = (a = b \<or> tsn_gt a b)"

definition ssn_gt :: "u16 \<Rightarrow> u16 \<Rightarrow> bool" where
  "ssn_gt a b = (let distance = a - b in distance \<noteq> 0 \<and> distance < push_bit 15 1)"

definition sack_acknowledges :: "sack_chunk_value \<Rightarrow> u32 \<Rightarrow> bool" where
  "sack_acknowledges sack tsn =
     (if tsn_lte tsn (sack_cumulative_tsn_ack sack) then True
      else let offset = unat (tsn - sack_cumulative_tsn_ack sack)
           in if offset > UINT16_MAX then False
              else list_ex (\<lambda>block. unat (gap_start block) \<le> offset \<and> offset \<le> unat (gap_end block))
                     (gap_ack_blocks sack))"

text \<open>The keys of a window of half the number space starting at \<open>base\<close>.\<close>

definition tsn_window :: "u32 \<Rightarrow> u32 \<Rightarrow> bool" where
  "tsn_window base k \<longleftrightarrow> unat (k - base) < 2 ^ 31"

definition ssn_window :: "u16 \<Rightarrow> u16 \<Rightarrow> bool" where
  "ssn_window base k \<longleftrightarrow> unat (k - base) < 2 ^ 15"

subsection \<open>The contract of a circular comparison\<close>

locale serial_order =
  fixes lt :: "'n \<Rightarrow> 'n \<Rightarrow> bool"
    and rank :: "'n \<Rightarrow> 'n \<Rightarrow> nat"
    and window :: "'n \<Rightarrow> 'n \<Rightarrow> bool"
  assumes lt_rank: "window b x \<Longrightarrow> window b y \<Longrightarrow> lt x y \<longleftrightarrow> rank b x < rank b y"
    and rank_inj: "rank b x = rank b y \<Longrightarrow> x = y"
begin

lemma irrefl: "window b x \<Longrightarrow> \<not> lt x x"
  by (simp add: lt_rank)

lemma asym: "window b x \<Longrightarrow> window b y \<Longrightarrow> lt x y \<Longrightarrow> \<not> lt y x"
  by (simp add: lt_rank)

lemma trans: "window b x \<Longrightarrow> window b y \<Longrightarrow> window b z \<Longrightarrow> lt x y \<Longrightarrow> lt y z \<Longrightarrow> lt x z"
  by (simp add: lt_rank)

lemma total: "window b x \<Longrightarrow> window b y \<Longrightarrow> x \<noteq> y \<Longrightarrow> lt x y \<or> lt y x"
  using rank_inj by (metis lt_rank nat_neq_iff)

lemma equivalent_eq: "window b x \<Longrightarrow> window b y \<Longrightarrow> \<not> lt x y \<Longrightarrow> \<not> lt y x \<Longrightarrow> x = y"
  using total by blast

lemma sorted_rank:
  "\<forall>x\<in>set xs. window b x \<Longrightarrow> sorted_wrt lt xs \<longleftrightarrow> sorted_wrt (<) (map (rank b) xs)"
  by (induction xs) (auto simp: lt_rank)

end

subsection \<open>Interpretation for TSNs and SSNs\<close>

lemma tsn_lt_alt: "tsn_lt a b \<longleftrightarrow> a \<noteq> b \<and> unat (b - a) < 2 ^ 31"
  by (auto simp: tsn_lt_def Let_def word_less_nat_alt)

lemma ssn_gt_alt: "ssn_gt a b \<longleftrightarrow> a \<noteq> b \<and> unat (a - b) < 2 ^ 15"
  by (auto simp: ssn_gt_def Let_def word_less_nat_alt)

lemma unat_sub_u32: "unat (x - y :: u32) = (if y \<le> x then unat x - unat y else unat x + 2 ^ 32 - unat y)"
  by (simp add: unat_sub_if' word_le_nat_alt)

lemma unat_sub_u16: "unat (x - y :: u16) = (if y \<le> x then unat x - unat y else unat x + 2 ^ 16 - unat y)"
  by (simp add: unat_sub_if' word_le_nat_alt)

lemma tsn_lt_window:
  assumes "tsn_window b x" "tsn_window b y"
  shows "tsn_lt x y \<longleftrightarrow> unat (x - b) < unat (y - b)"
proof -
  define p q where "p = x - b" and "q = y - b"
  have "y - x = q - p" and "x = y \<longleftrightarrow> p = q"
    by (auto simp: p_def q_def)
  moreover have "unat p < 2 ^ 31" "unat q < 2 ^ 31"
    using assms by (auto simp: tsn_window_def p_def q_def)
  moreover have "p = q \<longleftrightarrow> unat p = unat q" by (simp add: word_unat_eq_iff)
  ultimately have "tsn_lt x y \<longleftrightarrow> unat p < unat q"
    by (auto simp: tsn_lt_alt unat_sub_u32 word_le_nat_alt)
  then show ?thesis by (simp add: p_def q_def)
qed

lemma ssn_gt_window:
  assumes "ssn_window b x" "ssn_window b y"
  shows "ssn_gt y x \<longleftrightarrow> unat (x - b) < unat (y - b)"
proof -
  define p q where "p = x - b" and "q = y - b"
  have "y - x = q - p" and "x = y \<longleftrightarrow> p = q"
    by (auto simp: p_def q_def)
  moreover have "unat p < 2 ^ 15" "unat q < 2 ^ 15"
    using assms by (auto simp: ssn_window_def p_def q_def)
  moreover have "p = q \<longleftrightarrow> unat p = unat q" by (simp add: word_unat_eq_iff)
  ultimately have "ssn_gt y x \<longleftrightarrow> unat p < unat q"
    by (auto simp: ssn_gt_alt unat_sub_u16 word_le_nat_alt)
  then show ?thesis by (simp add: p_def q_def)
qed

interpretation tsn: serial_order tsn_lt "\<lambda>b k. unat (k - b)" tsn_window
  by unfold_locales (simp_all add: tsn_lt_window flip: word_unat_eq_iff)

interpretation ssn: serial_order "\<lambda>x y. ssn_gt y x" "\<lambda>b k. unat (k - b)" ssn_window
  by unfold_locales (simp_all add: ssn_gt_window flip: word_unat_eq_iff)

subsection \<open>Facts used by the components\<close>

lemma tsn_lt_irrefl [simp]: "\<not> tsn_lt a a"
  by (simp add: tsn_lt_alt)

lemma tsn_lte_refl [simp]: "tsn_lte a a"
  by (simp add: tsn_lte_def)

lemma tsn_lt_asym: "tsn_lt a b \<Longrightarrow> \<not> tsn_lt b a"
  by (auto simp: tsn_lt_alt unat_sub_u32 word_le_nat_alt word_unat_eq_iff split: if_splits)

lemma tsn_window_self [simp]: "tsn_window b b"
  by (simp add: tsn_window_def)

lemma tsn_lt_imp_window: "tsn_lt a b \<Longrightarrow> tsn_window a b"
  by (simp add: tsn_lt_alt tsn_window_def)

lemma tsn_lt_Suc [simp]: "tsn_lt a (a + 1)"
  by (simp add: tsn_lt_alt)

lemma tsn_lt_iff_not_lte: "tsn_window b x \<Longrightarrow> tsn_window b y \<Longrightarrow> \<not> tsn_lte x y \<longleftrightarrow> tsn_lt y x"
  by (metis tsn.asym tsn.total tsn_lt_irrefl tsn_lte_def)

lemma ssn_gt_irrefl [simp]: "\<not> ssn_gt a a"
  by (simp add: ssn_gt_alt)

subsection \<open>Properties\<close>

text \<open>On TSNs that lie within half the number space of a common base, wrap-around included, the
  circular comparison is the strict total order of their distances from that base; so it is the
  strict weak ordering that \<open>std::map\<close> requires of \<open>Tsn_Less\<close>.\<close>

theorem tsn_less_strict_total_order:
  assumes "tsn_window b x" "tsn_window b y" "tsn_window b z"
  shows "(tsn_lt x y \<longleftrightarrow> unat (x - b) < unat (y - b)) \<and> (tsn_lt x y \<and> tsn_lt y z \<longrightarrow> tsn_lt x z) \<and>
    (\<not> tsn_lt x y \<and> \<not> tsn_lt y x \<longrightarrow> x = y)"
  using assms tsn.lt_rank tsn.trans tsn.equivalent_eq by blast

theorem tsn_less_strict_total_order_witness:
  "tsn_window 0xFFFFFFF0 0xFFFFFFFF \<and> tsn_window 0xFFFFFFF0 2 \<and> tsn_window 0xFFFFFFF0 5 \<and>
   tsn_lt 0xFFFFFFFF 2 \<and> tsn_lt 2 5 \<and> tsn_lt 0xFFFFFFFF 5"
proof -
  have w: "tsn_window 0xFFFFFFF0 0xFFFFFFFF" "tsn_window 0xFFFFFFF0 2" "tsn_window 0xFFFFFFF0 5"
    by (simp_all add: tsn_window_def)
  note order = tsn_less_strict_total_order [OF w]
  have "tsn_lt 0xFFFFFFFF 2" "tsn_lt 2 5" by (simp_all add: tsn_lt_alt)
  then show ?thesis using w order by blast
qed

text \<open>A SACK reports exactly the TSNs at or below its Cumulative TSN Ack, and those at a
  distance covered by one of its Gap Ack Blocks; in particular nothing farther than the
  largest 16-bit offset.\<close>

theorem sack_acknowledges_iff:
  "sack_acknowledges sack tsn \<longleftrightarrow>
     tsn_lte tsn (sack_cumulative_tsn_ack sack) \<or>
     (\<exists>block \<in> set (gap_ack_blocks sack). \<exists>d. unat (gap_start block) \<le> d \<and> d \<le> unat (gap_end block) \<and>
        tsn = sack_cumulative_tsn_ack sack + of_nat d)"
proof -
  let ?c = "sack_cumulative_tsn_ack sack"
  have offset: "tsn = ?c + of_nat d \<longleftrightarrow> unat (tsn - ?c) = d" if "d \<le> UINT16_MAX" for d
  proof -
    have "unat (of_nat d :: u32) = d" using that by (simp add: unat_of_nat)
    then show ?thesis by (metis add.commute add_diff_cancel_left' diff_add_cancel unat_of_nat word_unat_eq_iff)
  qed
  have bound: "unat (gap_end b) \<le> UINT16_MAX" for b
    using unat_u16_less [of "gap_end b"] by simp
  have block: "(\<exists>d. unat (gap_start b) \<le> d \<and> d \<le> unat (gap_end b) \<and> tsn = ?c + of_nat d) \<longleftrightarrow>
      unat (gap_start b) \<le> unat (tsn - ?c) \<and> unat (tsn - ?c) \<le> unat (gap_end b)"
    (is "?l \<longleftrightarrow> ?r") for b
  proof
    assume ?l
    then obtain d where "unat (gap_start b) \<le> d" "d \<le> unat (gap_end b)" "tsn = ?c + of_nat d" by blast
    then show ?r using offset [of d] bound [of b] by linarith
  next
    assume ?r
    then show ?l using offset [of "unat (tsn - ?c)"] bound [of b] by (meson le_trans)
  qed
  have small: "unat (tsn - ?c) \<le> UINT16_MAX" if "unat (tsn - ?c) \<le> unat (gap_end b)" for b
    using that bound [of b] by linarith
  show ?thesis
    unfolding block sack_acknowledges_def Let_def list_ex_iff
    by (auto simp del: unat_sub_if' dest: small)
qed

end
