(* ===== verification/Ordered_Map.thy ===== *)
theory Ordered_Map
  imports Serial_Arith
begin

text \<open>
  \<open>std::map\<close> with a comparison object, as the sorted list of its entries. Every operation
  looks its key up the way the container does: it skips the entries whose key is less, and the
  key found is the one not less than it and not greater. The association keeps its
  outstanding DATA and its reordering buffer in maps ordered by \<open>Tsn_Less\<close>, and the messages
  waiting for their stream in a map ordered by \<open><\<close> on \<open>uint16_t\<close>.

  The locale \<open>key_order\<close> states what a comparison must satisfy on the keys in use for the
  container to behave as a finite map; it is interpreted for \<open>Tsn_Less\<close> on every window of half
  the TSN space, which is the condition the comment on \<open>Tsn_Less\<close> gives.
\<close>

type_synonym ('k, 'v) omap = "('k \<times> 'v) list"

fun omap_find :: "('k \<Rightarrow> 'k \<Rightarrow> bool) \<Rightarrow> 'k \<Rightarrow> ('k, 'v) omap \<Rightarrow> 'v option" where
  "omap_find lt k [] = None"
| "omap_find lt k ((k', v) # m) =
     (if lt k' k then omap_find lt k m else if lt k k' then None else Some v)"

text \<open>\<open>std::map::emplace\<close>: an equivalent key already present is left as it is.\<close>

fun omap_emplace :: "('k \<Rightarrow> 'k \<Rightarrow> bool) \<Rightarrow> 'k \<Rightarrow> 'v \<Rightarrow> ('k, 'v) omap \<Rightarrow> ('k, 'v) omap" where
  "omap_emplace lt k v [] = [(k, v)]"
| "omap_emplace lt k v ((k', v') # m) =
     (if lt k' k then (k', v') # omap_emplace lt k v m
      else if lt k k' then (k, v) # (k', v') # m else (k', v') # m)"

fun omap_erase :: "('k \<Rightarrow> 'k \<Rightarrow> bool) \<Rightarrow> 'k \<Rightarrow> ('k, 'v) omap \<Rightarrow> ('k, 'v) omap" where
  "omap_erase lt k [] = []"
| "omap_erase lt k ((k', v) # m) =
     (if lt k' k then (k', v) # omap_erase lt k m else if lt k k' then (k', v) # m else m)"

text \<open>Assignment through the reference or iterator a lookup returned.\<close>

fun omap_modify :: "('k \<Rightarrow> 'k \<Rightarrow> bool) \<Rightarrow> 'k \<Rightarrow> ('v \<Rightarrow> 'v) \<Rightarrow> ('k, 'v) omap \<Rightarrow> ('k, 'v) omap" where
  "omap_modify lt k f [] = []"
| "omap_modify lt k f ((k', v) # m) =
     (if lt k' k then (k', v) # omap_modify lt k f m
      else if lt k k' then (k', v) # m else (k', f v) # m)"

definition omap_keys :: "('k, 'v) omap \<Rightarrow> 'k list" where
  "omap_keys m = map fst m"

text \<open>The entries are in the order of the comparison.\<close>

definition omap_sorted :: "('k \<Rightarrow> 'k \<Rightarrow> bool) \<Rightarrow> ('k, 'v) omap \<Rightarrow> bool" where
  "omap_sorted lt m \<longleftrightarrow> sorted_wrt lt (omap_keys m)"

text \<open>A map whose keys lie in a set on which the comparison is an order.\<close>

definition omap_ok :: "('k \<Rightarrow> 'k \<Rightarrow> bool) \<Rightarrow> 'k set \<Rightarrow> ('k, 'v) omap \<Rightarrow> bool" where
  "omap_ok lt keys m \<longleftrightarrow> omap_sorted lt m \<and> set (omap_keys m) \<subseteq> keys"

subsection \<open>The contract of a comparison object\<close>

locale key_order =
  fixes lt :: "'k \<Rightarrow> 'k \<Rightarrow> bool"
    and keys :: "'k set"
  assumes lt_irrefl: "x \<in> keys \<Longrightarrow> \<not> lt x x"
    and lt_trans: "x \<in> keys \<Longrightarrow> y \<in> keys \<Longrightarrow> z \<in> keys \<Longrightarrow> lt x y \<Longrightarrow> lt y z \<Longrightarrow> lt x z"
    and lt_total: "x \<in> keys \<Longrightarrow> y \<in> keys \<Longrightarrow> x \<noteq> y \<Longrightarrow> lt x y \<or> lt y x"
begin

lemma ok_Nil [simp]: "omap_ok lt keys []"
  by (simp add: omap_ok_def omap_sorted_def omap_keys_def)

lemma ok_Cons:
  "omap_ok lt keys ((k, v) # m) \<longleftrightarrow> k \<in> keys \<and> (\<forall>k'\<in>fst ` set m. lt k k') \<and> omap_ok lt keys m"
  by (auto simp: omap_ok_def omap_sorted_def omap_keys_def)

lemma ok_distinct: "omap_ok lt keys m \<Longrightarrow> distinct (map fst m)"
  by (induction m) (fastforce simp: ok_Cons dest: lt_irrefl)+

lemma lt_asym: "x \<in> keys \<Longrightarrow> y \<in> keys \<Longrightarrow> lt x y \<Longrightarrow> \<not> lt y x"
  using lt_irrefl lt_trans by blast

lemma ok_keys: "omap_ok lt keys m \<Longrightarrow> k \<in> fst ` set m \<Longrightarrow> k \<in> keys"
  by (auto simp: omap_ok_def omap_keys_def)

lemma find_map_of: "omap_ok lt keys m \<Longrightarrow> k \<in> keys \<Longrightarrow> omap_find lt k m = map_of m k"
proof (induction m)
  case (Cons e m)
  obtain k' v where e: "e = (k', v)" by force
  with Cons.prems have ok: "omap_ok lt keys m" "k' \<in> keys" and less: "\<forall>k''\<in>fst ` set m. lt k' k''"
    by (auto simp: ok_Cons)
  consider "k = k'" | "k \<noteq> k'" "lt k' k" | "k \<noteq> k'" "lt k k'"
    using lt_total [of k k'] ok(2) Cons.prems(2) by blast
  then show ?case
  proof cases
    case 3
    have "k \<notin> fst ` set m"
      using less 3 lt_asym ok(2) Cons.prems(2) by blast
    then have "map_of m k = None" by (simp add: map_of_eq_None_iff)
    with 3 e lt_asym [of k k'] ok(2) Cons.prems(2) show ?thesis by auto
  qed (use e Cons ok lt_irrefl in \<open>auto simp: e\<close>)
qed simp

lemma set_emplace:
  "omap_ok lt keys m \<Longrightarrow> k \<in> keys \<Longrightarrow> k \<notin> fst ` set m \<Longrightarrow> set (omap_emplace lt k v m) = insert (k, v) (set m)"
proof (induction m)
  case (Cons e m)
  then show ?case
    using lt_total [of k "fst e"] by (cases e) (auto simp: ok_Cons)
qed simp

lemma emplace_present:
  "omap_ok lt keys m \<Longrightarrow> k \<in> keys \<Longrightarrow> k \<in> fst ` set m \<Longrightarrow> omap_emplace lt k v m = m"
proof (induction m)
  case (Cons e m)
  then show ?case
    using lt_asym [of k "fst e"] lt_irrefl [of k] by (cases e) (auto simp: ok_Cons)
qed simp

lemma keys_emplace_subset:
  "fst ` set (omap_emplace lt k v m) \<subseteq> insert k (fst ` set m)"
  by (induction m) (force split: if_splits)+

lemma ok_emplace: "omap_ok lt keys m \<Longrightarrow> k \<in> keys \<Longrightarrow> omap_ok lt keys (omap_emplace lt k v m)"
proof (induction m)
  case Nil
  then show ?case by (simp add: ok_Cons)
next
  case (Cons e m)
  obtain k' v' where e: "e = (k', v')" by force
  from Cons.prems e have ok: "omap_ok lt keys m" "k' \<in> keys" and less: "\<forall>k''\<in>fst ` set m. lt k' k''"
    by (auto simp: ok_Cons)
  have "lt k' k \<Longrightarrow> \<forall>k''\<in>fst ` set (omap_emplace lt k v m). lt k' k''"
    using keys_emplace_subset [of k v m] less by blast
  moreover have "lt k k' \<Longrightarrow> \<forall>k''\<in>fst ` set m. lt k k''"
    using less lt_trans ok ok_keys Cons.prems(2) by blast
  ultimately show ?case
    using Cons ok less e by (auto simp: ok_Cons)
qed

lemma map_of_emplace:
  assumes "omap_ok lt keys m" "k \<in> keys"
  shows "map_of (omap_emplace lt k v m) = (if k \<in> fst ` set m then map_of m else (map_of m)(k \<mapsto> v))"
proof (cases "k \<in> fst ` set m")
  case False
  have dist: "distinct (map fst m)" "distinct (map fst (omap_emplace lt k v m))"
    using assms by (simp_all only: ok_distinct ok_emplace)
  have "map_of (omap_emplace lt k v m) x = Some w \<longleftrightarrow> ((map_of m)(k \<mapsto> v)) x = Some w" for x w
    using False set_emplace [OF assms False, of v]
    by (cases "x = k") (simp_all add: map_of_eq_Some_iff [OF dist(1)] map_of_eq_Some_iff [OF dist(2)], force)
  then have "map_of (omap_emplace lt k v m) x = ((map_of m)(k \<mapsto> v)) x" for x
    by (metis not_Some_eq)
  with False show ?thesis by auto
qed (use assms in \<open>simp add: emplace_present\<close>)

lemma find_emplace:
  assumes "omap_ok lt keys m" "k \<in> keys" "k' \<in> keys"
  shows "omap_find lt k' (omap_emplace lt k v m) =
    (if k' = k \<and> omap_find lt k m = None then Some v else omap_find lt k' m)"
  using assms
  by (auto simp: find_map_of ok_emplace map_of_emplace map_of_eq_None_iff)

lemma erase_eq_filter:
  "omap_ok lt keys m \<Longrightarrow> k \<in> keys \<Longrightarrow> omap_erase lt k m = filter (\<lambda>e. fst e \<noteq> k) m"
proof (induction m)
  case (Cons e m)
  obtain k' v where e: "e = (k', v)" by force
  with Cons.prems have ok: "omap_ok lt keys m" "k' \<in> keys" and less: "\<forall>k''\<in>fst ` set m. lt k' k''"
    by (auto simp: ok_Cons)
  consider "k = k'" | "k \<noteq> k'" "lt k' k" | "k \<noteq> k'" "lt k k'"
    using lt_total [of k k'] ok(2) Cons.prems(2) by blast
  then show ?case
  proof cases
    case 1
    then have "\<forall>e\<in>set m. fst e \<noteq> k" using less lt_irrefl ok(2) by auto
    then have "filter (\<lambda>e. fst e \<noteq> k) m = m" by (simp add: filter_id_conv)
    with 1 e lt_irrefl ok(2) show ?thesis by simp
  next
    case 2
    with e Cons ok show ?thesis by simp
  next
    case 3
    then have "\<forall>e\<in>set m. fst e \<noteq> k" using less lt_asym ok(2) Cons.prems(2) by fastforce
    then have "filter (\<lambda>e. fst e \<noteq> k) m = m" by (simp add: filter_id_conv)
    with 3 e lt_asym ok(2) Cons.prems(2) show ?thesis by auto
  qed
qed simp

lemma ok_filter: "omap_ok lt keys m \<Longrightarrow> omap_ok lt keys (filter P m)"
  by (induction m) (auto simp: ok_Cons)

lemma ok_erase: "omap_ok lt keys m \<Longrightarrow> k \<in> keys \<Longrightarrow> omap_ok lt keys (omap_erase lt k m)"
  by (simp add: erase_eq_filter ok_filter)

lemma find_erase:
  assumes "omap_ok lt keys m" "k \<in> keys" "k' \<in> keys"
  shows "omap_find lt k' (omap_erase lt k m) = (if k' = k then None else omap_find lt k' m)"
proof -
  have "map_of (filter (\<lambda>e. fst e \<noteq> k) m) k' = (if k' = k then None else map_of m k')"
    by (induction m) auto
  then show ?thesis
    using assms by (simp add: find_map_of ok_erase erase_eq_filter [symmetric])
qed

lemma keys_modify: "map fst (omap_modify lt k f m) = map fst m"
  by (induction m) auto

lemma ok_modify: "omap_ok lt keys m \<Longrightarrow> omap_ok lt keys (omap_modify lt k f m)"
  by (simp add: omap_ok_def omap_sorted_def omap_keys_def keys_modify)

lemma find_modify:
  "omap_ok lt keys m \<Longrightarrow> k \<in> keys \<Longrightarrow> k' \<in> keys \<Longrightarrow>
   omap_find lt k' (omap_modify lt k f m) =
     (if k' = k then map_option f (omap_find lt k m) else omap_find lt k' m)"
proof (induction m)
  case (Cons e m)
  obtain k1 v where e: "e = (k1, v)" by force
  with Cons.prems have ok: "omap_ok lt keys m" "k1 \<in> keys"
    by (auto simp: ok_Cons)
  note IH = Cons.IH [OF ok(1) Cons.prems(2,3)]
  consider "k = k1" | "k \<noteq> k1" "lt k1 k" "\<not> lt k k1" | "k \<noteq> k1" "lt k k1" "\<not> lt k1 k"
    using lt_total [of k k1] lt_asym [of k k1] ok(2) Cons.prems(2) by blast
  then show ?case
  proof cases
    case 1
    then show ?thesis
      using e lt_irrefl [of k1] lt_total [of k' k1] ok(2) Cons.prems(3) by auto
  next
    case 2
    with e IH show ?thesis by auto
  next
    case 3
    with e show ?thesis by simp
  qed
qed simp

lemmas map_laws = find_emplace find_erase find_modify ok_emplace ok_erase ok_modify

end

subsection \<open>Interpretations\<close>

lemma tsn_window_keys:
  "x \<in> {k. tsn_window b k} \<Longrightarrow> y \<in> {k. tsn_window b k} \<Longrightarrow> tsn_lt x y \<longleftrightarrow> unat (x - b) < unat (y - b)"
  by (simp add: tsn_lt_window)

interpretation tsn_map: key_order tsn_lt "{k. tsn_window b k}" for b
  by unfold_locales (auto dest: tsn.trans tsn.total)

interpretation u16_map: key_order "(<) :: u16 \<Rightarrow> u16 \<Rightarrow> bool" UNIV
  by unfold_locales auto

end
