(* ===== verification/Checksum.thy ===== *)
theory Checksum
  imports Sctp_Types
begin

text \<open>
  The CRC-32C of \<open>src/checksum.cpp\<close>: the lookup table with one entry per byte value, and the
  byte-at-a-time checksum that uses it. The reference is the bit-at-a-time division by the
  reflected Castagnoli polynomial. The lemmas show that one table step is eight bit steps, that a
  bit step is linear over exclusive-or and injective, and from that what the checksum detects.
\<close>

subsection \<open>The code\<close>

abbreviation (input) crc32c_poly :: u32 where "crc32c_poly \<equiv> 0x82F63B78"

text \<open>The inner loop of the table's initializer: \<open>n\<close> rounds on one entry.\<close>

fun crc32c_rounds :: "nat \<Rightarrow> u32 \<Rightarrow> u32" where
  "crc32c_rounds 0 crc = crc"
| "crc32c_rounds (Suc n) crc =
     crc32c_rounds n (if crc AND 1 \<noteq> 0 then drop_bit 1 crc XOR crc32c_poly else drop_bit 1 crc)"

definition crc32c_table :: "u32 list" where
  "crc32c_table = map (\<lambda>i. crc32c_rounds 8 (of_nat i)) [0..<256]"

definition crc32c_step :: "u32 \<Rightarrow> u8 \<Rightarrow> u32" where
  "crc32c_step crc byte = crc32c_table ! unat ((crc XOR ucast byte) AND 0xFF) XOR drop_bit 8 crc"

definition calculate_sctp_checksum :: "bytes \<Rightarrow> u32" where
  "calculate_sctp_checksum data = foldl crc32c_step 0xFFFFFFFF data XOR 0xFFFFFFFF"

subsection \<open>The reference\<close>

definition crc_bit :: "u32 \<Rightarrow> u32" where
  "crc_bit x = (if bit x 0 then drop_bit 1 x XOR crc32c_poly else drop_bit 1 x)"

definition crc32c_reference :: "bytes \<Rightarrow> u32" where
  "crc32c_reference data =
     foldl (\<lambda>crc byte. (crc_bit ^^ 8) (crc XOR ucast byte)) 0xFFFFFFFF data XOR 0xFFFFFFFF"

subsection \<open>A bit step is linear and injective\<close>

lemma xor_cancel_right: "x XOR z = y XOR z \<Longrightarrow> x = y" for x y z :: u32
proof -
  assume "x XOR z = y XOR z"
  then have "(x XOR z) XOR z = (y XOR z) XOR z" by simp
  then show ?thesis by (simp add: xor.assoc)
qed

lemma crc32c_rounds_funpow: "crc32c_rounds n x = (crc_bit ^^ n) x"
proof -
  have "x AND 1 \<noteq> 0 \<longleftrightarrow> bit x 0" for x :: u32
    by (simp add: and_one_eq odd_iff_mod_2_eq_one bit_0)
  then show ?thesis
    by (induction n arbitrary: x) (simp_all add: crc_bit_def funpow_swap1)
qed

lemma crc_bit_xor: "crc_bit (x XOR y) = crc_bit x XOR crc_bit y"
  by (auto simp: crc_bit_def bit_xor_iff ac_simps drop_bit_xor)

lemma crc_bits_xor: "(crc_bit ^^ n) (x XOR y) = (crc_bit ^^ n) x XOR (crc_bit ^^ n) y"
  by (induction n) (simp_all add: crc_bit_xor)

lemma crc_bit_zero: "crc_bit x = 0 \<Longrightarrow> x = 0"
proof -
  assume zero: "crc_bit x = 0"
  have top: "bit crc32c_poly 31" by simp
  have "\<not> bit x 0"
  proof
    assume "bit x 0"
    then have "drop_bit 1 x XOR crc32c_poly = 0" using zero by (simp add: crc_bit_def)
    then have "bit (drop_bit 1 x XOR crc32c_poly) 31 = bit (0::u32) 31" by simp
    then show False using top by (auto simp: bit_simps dest: bit_imp_le_length)
  qed
  then have "drop_bit 1 x = 0" using zero by (simp add: crc_bit_def)
  then have "bit (drop_bit 1 x) n = bit (0::u32) n" for n by simp
  then have "\<not> bit x (Suc n)" for n by (simp add: bit_simps)
  with \<open>\<not> bit x 0\<close> have "\<not> bit x n" for n by (cases n) auto
  then show "x = 0" by (intro bit_word_eqI) simp
qed

lemma crc_bits_inj: "(crc_bit ^^ n) x = (crc_bit ^^ n) y \<Longrightarrow> x = y"
proof (induction n)
  case (Suc n)
  then have "crc_bit ((crc_bit ^^ n) x XOR (crc_bit ^^ n) y) = 0"
    by (simp add: crc_bit_xor)
  then have "(crc_bit ^^ n) x XOR (crc_bit ^^ n) y = 0" by (rule crc_bit_zero)
  then have "(crc_bit ^^ n) x XOR (crc_bit ^^ n) y = (crc_bit ^^ n) y XOR (crc_bit ^^ n) y"
    by simp
  then have "(crc_bit ^^ n) x = (crc_bit ^^ n) y" by (rule xor_cancel_right)
  then show ?case by (rule Suc.IH)
qed simp

lemma crc_bit_push: "\<not> bit (push_bit m x) 31 \<Longrightarrow> crc_bit (push_bit (Suc m) x) = push_bit m x"
proof (rule bit_word_eqI)
  fix n assume "\<not> bit (push_bit m x) 31" "n < LENGTH(32)"
  then show "bit (crc_bit (push_bit (Suc m) x)) n = bit (push_bit m x) n"
    by (cases "n = 31") (auto simp: crc_bit_def bit_simps simp del: push_bit_Suc)
qed

lemma crc_bits_push:
  "n \<le> 32 \<Longrightarrow> (\<And>i. 32 - n \<le> i \<Longrightarrow> \<not> bit x i) \<Longrightarrow> (crc_bit ^^ n) (push_bit n x) = (x::u32)"
proof (induction n)
  case (Suc n)
  have "\<not> bit (push_bit n x) 31"
    using Suc.prems by (auto simp: bit_simps)
  then have "(crc_bit ^^ Suc n) (push_bit (Suc n) x) = (crc_bit ^^ n) (push_bit n x)"
    by (simp add: crc_bit_push funpow_Suc_right del: funpow.simps push_bit_Suc)
  then show ?case using Suc by simp
qed simp

subsection \<open>One table step is eight bit steps\<close>

lemma crc_split8: "x = (x AND 0xFF) XOR push_bit 8 (drop_bit 8 x)" for x :: u32
proof -
  have "x AND 0xFF = take_bit 8 x" by (simp add: take_bit_eq_mask mask_eq_exp_minus_1)
  then show ?thesis by (auto simp: bit_simps intro!: bit_word_eqI)
qed

lemma crc32c_table_nth:
  "crc32c_table ! unat (x AND 0xFF) = (crc_bit ^^ 8) (x AND 0xFF)" for x :: u32
proof -
  have "unat (x AND 0xFF) < 256"
    using word_and_le1 [of x "0xFF"] by (simp add: word_le_nat_alt)
  then show ?thesis by (simp add: crc32c_table_def crc32c_rounds_funpow)
qed

lemma crc32c_step_bits: "crc32c_step crc byte = (crc_bit ^^ 8) (crc XOR ucast byte)"
proof -
  let ?x = "crc XOR ucast byte"
  have high: "drop_bit 8 ?x = drop_bit 8 crc"
    by (rule bit_word_eqI) (auto simp: bit_simps bit_u8_ge)
  have "(crc_bit ^^ 8) (push_bit 8 (drop_bit 8 ?x)) = drop_bit 8 ?x"
    by (rule crc_bits_push) (auto simp: bit_simps dest: bit_imp_le_length)
  then have "(crc_bit ^^ 8) ?x = (crc_bit ^^ 8) (?x AND 0xFF) XOR drop_bit 8 crc"
    by (metis crc_bits_xor crc_split8 high)
  then show ?thesis by (simp only: crc32c_step_def crc32c_table_nth)
qed

lemma crc32c_step_inj_state: "crc32c_step c b = crc32c_step c' b \<Longrightarrow> c = c'"
proof -
  assume "crc32c_step c b = crc32c_step c' b"
  then have "c XOR ucast b = c' XOR ucast b"
    unfolding crc32c_step_bits by (rule crc_bits_inj)
  then show ?thesis by (rule xor_cancel_right)
qed

lemma crc32c_fold_inj_state: "foldl crc32c_step c bs = foldl crc32c_step c' bs \<Longrightarrow> c = c'"
  by (induction bs arbitrary: c c') (auto dest: crc32c_step_inj_state)

subsection \<open>Up to four bytes enter the state without loss\<close>

fun le_bytes :: "bytes \<Rightarrow> u32" where
  "le_bytes [] = 0"
| "le_bytes (b # bs) = ucast b XOR push_bit 8 (le_bytes bs)"

lemma le_bytes_bound: "8 * length bs \<le> i \<Longrightarrow> \<not> bit (le_bytes bs) i"
proof (induction bs arbitrary: i)
  case (Cons b bs)
  then have "\<not> bit (le_bytes bs) (i - 8)" by simp
  then show ?case using Cons.prems by (auto simp: bit_simps bit_u8_ge)
qed simp

lemma crc32c_fold_bits:
  "length bs \<le> 4 \<Longrightarrow> foldl crc32c_step c bs = (crc_bit ^^ (8 * length bs)) (c XOR le_bytes bs)"
proof (induction bs arbitrary: c)
  case (Cons b bs)
  have "(crc_bit ^^ 8) (push_bit 8 (le_bytes bs)) = le_bytes bs"
    using Cons.prems by (intro crc_bits_push) (auto intro!: le_bytes_bound)
  then have step: "crc32c_step c b XOR le_bytes bs = (crc_bit ^^ 8) (c XOR le_bytes (b # bs))"
    by (simp add: crc32c_step_bits crc_bits_xor ac_simps)
  have "8 * length (b # bs) = 8 * length bs + 8" by simp
  then show ?case
    using Cons by (simp only: foldl_Cons funpow_add o_apply step [symmetric] list.size)
qed simp

lemma le_bytes_inj:
  "length xs = length ys \<Longrightarrow> length xs \<le> 4 \<Longrightarrow> le_bytes xs = le_bytes ys \<Longrightarrow> xs = ys"
proof (induction xs ys rule: list_induct2)
  case (Cons x xs y ys)
  have "bit x i = bit y i" if "i < 8" for i
    using arg_cong [OF Cons.prems(2), of "\<lambda>w. bit w i"] that by (simp add: bit_simps)
  then have "x = y" by (intro bit_word_eqI) simp
  moreover have "bit (le_bytes xs) i = bit (le_bytes ys) i" if "i < 32" for i
  proof (cases "i < 24")
    case True
    then show ?thesis
      using arg_cong [OF Cons.prems(2), of "\<lambda>w. bit w (i + 8)"]
      by (simp add: bit_simps bit_u8_ge)
  next
    case False
    then show ?thesis
      using Cons.hyps Cons.prems(1) le_bytes_bound [of xs i] le_bytes_bound [of ys i] by simp
  qed
  then have "le_bytes xs = le_bytes ys" by (intro bit_word_eqI) simp
  ultimately show ?case using Cons by simp
qed simp

subsection \<open>Properties\<close>

text \<open>C27: The table-driven checksum of a packet is the CRC-32C computed bit by bit: reflected
  division by the Castagnoli polynomial with an all-ones start value and final inversion.\<close>

theorem checksum_is_crc32c: "calculate_sctp_checksum data = crc32c_reference data"
  unfolding calculate_sctp_checksum_def crc32c_reference_def crc32c_step_bits ..

text \<open>The checksum detects every error burst confined to four consecutive bytes: two packets
  that differ only there never have the same checksum.\<close>

theorem checksum_detects_burst:
  assumes "length xs = length ys" "length xs \<le> 4" "xs \<noteq> ys"
  shows "calculate_sctp_checksum (pre @ xs @ post) \<noteq> calculate_sctp_checksum (pre @ ys @ post)"
proof
  let ?c = "foldl crc32c_step 0xFFFFFFFF pre"
  assume "calculate_sctp_checksum (pre @ xs @ post) = calculate_sctp_checksum (pre @ ys @ post)"
  then have "foldl crc32c_step (foldl crc32c_step ?c xs) post = foldl crc32c_step (foldl crc32c_step ?c ys) post"
    unfolding calculate_sctp_checksum_def foldl_append by (rule xor_cancel_right)
  then have "foldl crc32c_step ?c xs = foldl crc32c_step ?c ys"
    by (rule crc32c_fold_inj_state)
  then have "(crc_bit ^^ (8 * length xs)) (?c XOR le_bytes xs) = (crc_bit ^^ (8 * length xs)) (?c XOR le_bytes ys)"
    using assms by (simp add: crc32c_fold_bits)
  then have "le_bytes xs XOR ?c = le_bytes ys XOR ?c"
    by (metis crc_bits_inj xor.commute)
  then have "xs = ys"
    using assms le_bytes_inj xor_cancel_right by blast
  with assms show False by simp
qed

theorem checksum_detects_burst_witness:
  "length [1, 2, 3, 4::u8] = length [4, 3, 2, 1::u8] \<and>
   calculate_sctp_checksum ([7, 7] @ [1, 2, 3, 4] @ [9]) \<noteq> calculate_sctp_checksum ([7, 7] @ [4, 3, 2, 1] @ [9])"
  using checksum_detects_burst [of "[1, 2, 3, 4]" "[4, 3, 2, 1]" "[7, 7]" "[9]"] by simp

end
