(* ===== verification/Wire_Codec.thy ===== *)
theory Wire_Codec
  imports Checksum Codec_Contract
begin

text \<open>
  The wire codec of \<open>src/serialize.cpp\<close>: byte order helpers, parameters, and the
  serializer and deserializer of packets. The state cookie has its own theory.

  A buffer and its length are one list. A read of the source at an offset, and a copy of a range
  of bytes (\<open>read_range\<close>: an \<open>assign\<close>, an \<open>insert\<close> or a constructor from two iterators or pointers), return
  \<open>Out_Of_Bounds\<close> unless they lie within that list, and a body handed on as a pointer and a length is
  such a range. So every guard in front of a read or a copy matters, and the lemmas of the section on
  memory safety say that no input makes the parser read outside the bytes it was given. Every \<open>throw\<close> is its own error value.
  The serializers append to a vector and return the extended vector.
\<close>

subsection \<open>Byte order helpers\<close>

definition append16 :: "bytes \<Rightarrow> u16 \<Rightarrow> bytes" where
  "append16 out v = out @ mem16 (htons v)"

definition append32 :: "bytes \<Rightarrow> u32 \<Rightarrow> bytes" where
  "append32 out v = out @ mem32 (htonl v)"

definition read8 :: "bytes \<Rightarrow> nat \<Rightarrow> u8 res" where
  "read8 p i = (if i < length p then Inr (p ! i) else Inl Out_Of_Bounds)"

definition read16 :: "bytes \<Rightarrow> nat \<Rightarrow> u16 res" where
  "read16 p i =
     (if i + 2 \<le> length p then Inr (ntohs (load16 (p ! i) (p ! (i + 1)))) else Inl Out_Of_Bounds)"

definition read32 :: "bytes \<Rightarrow> nat \<Rightarrow> u32 res" where
  "read32 p i =
     (if i + 4 \<le> length p
      then Inr (ntohl (load32 (p ! i) (p ! (i + 1)) (p ! (i + 2)) (p ! (i + 3))))
      else Inl Out_Of_Bounds)"

definition write_checksum_le :: "bytes \<Rightarrow> nat \<Rightarrow> u32 \<Rightarrow> bytes" where
  "write_checksum_le p i v =
     p[i := ucast v, i + 1 := ucast (drop_bit 8 v), i + 2 := ucast (drop_bit 16 v),
       i + 3 := ucast (drop_bit 24 v)]"

definition read_checksum_le :: "bytes \<Rightarrow> nat \<Rightarrow> u32 res" where
  "read_checksum_le p i =
     (if i + 4 \<le> length p
      then Inr (ucast (p ! i) OR push_bit 8 (ucast (p ! (i + 1)))
                OR push_bit 16 (ucast (p ! (i + 2))) OR push_bit 24 (ucast (p ! (i + 3))))
      else Inl Out_Of_Bounds)"

text \<open>The bytes of a range given by its first offset and its size, as a copy reads them.\<close>

definition read_range :: "bytes \<Rightarrow> nat \<Rightarrow> nat \<Rightarrow> bytes res" where
  "read_range p i n = (if i + n \<le> length p then Inr (take n (drop i p)) else Inl Out_Of_Bounds)"

lemma read_range_in [simp]: "i + n \<le> length p \<Longrightarrow> read_range p i n = Inr (take n (drop i p))"
  by (simp add: read_range_def)

lemma bind_res_cong [fundef_cong]:
  "m = m' \<Longrightarrow> (\<And>x. m' = Inr x \<Longrightarrow> f x = f' x) \<Longrightarrow> bind_res m f = bind_res m' f'"
  by (cases m') auto

lemma walk_progress: "4 \<le> l \<Longrightarrow> offset + l \<le> n \<Longrightarrow> n - (offset + pad4 l) < n - offset"
  using pad4_ge [of l] by linarith

subsection \<open>Parameters\<close>

definition append_parameter :: "bytes \<Rightarrow> u16 \<Rightarrow> bytes \<Rightarrow> bytes res" where
  "append_parameter out type value =
     (let total = SCTP_CHUNK_HEADER_SIZE + length value
      in if total > UINT16_MAX then Inl Parameter_Too_Long
         else Inr (append16 (append16 out type) (of_nat total) @ value
                   @ replicate ((4 - total mod 4) mod 4) 0))"

text \<open>
  The three walks over a parameter list. Each stops at a length below the header or past the
  end; otherwise it advances by the padded length, which is at least four.
\<close>

function find_parameter_at :: "bytes \<Rightarrow> u16 \<Rightarrow> nat \<Rightarrow> bytes option res" where
  "find_parameter_at params type offset =
     (if offset + SCTP_CHUNK_HEADER_SIZE \<le> length params then
        bind_res (read16 params offset) (\<lambda>parameter_type.
        bind_res (read16 params (offset + 2)) (\<lambda>len.
          if unat len < SCTP_CHUNK_HEADER_SIZE \<or> offset + unat len > length params then Inr None
          else if parameter_type = type
          then bind_res (read_range params (offset + SCTP_CHUNK_HEADER_SIZE) (unat len - SCTP_CHUNK_HEADER_SIZE))
                 (\<lambda>value. Inr (Some value))
          else find_parameter_at params type (offset + pad4 (unat len))))
      else Inr None)"
  by pat_completeness auto
termination
  by (relation "measure (\<lambda>(params, type, offset). length params - offset)")
    (auto simp: not_less intro!: walk_progress)

definition find_parameter :: "bytes \<Rightarrow> u16 \<Rightarrow> bytes option res" where
  "find_parameter params type = find_parameter_at params type 0"

function find_ipv4_addresses_at :: "bytes \<Rightarrow> nat \<Rightarrow> u32 list \<Rightarrow> u32 list res" where
  "find_ipv4_addresses_at params offset out =
     (if offset + SCTP_CHUNK_HEADER_SIZE \<le> length params then
        bind_res (read16 params offset) (\<lambda>type.
        bind_res (read16 params (offset + 2)) (\<lambda>len.
          if unat len < SCTP_CHUNK_HEADER_SIZE \<or> offset + unat len > length params then Inr out
          else if type = PARAM_IPV4_ADDRESS \<and> unat len = 8
          then bind_res (read32 params (offset + 4)) (\<lambda>address.
                 find_ipv4_addresses_at params (offset + pad4 (unat len)) (out @ [address]))
          else find_ipv4_addresses_at params (offset + pad4 (unat len)) out))
      else Inr out)"
  by pat_completeness auto
termination
  by (relation "measure (\<lambda>(params, offset, out). length params - offset)")
    (auto simp: not_less intro!: walk_progress)

definition find_ipv4_addresses :: "bytes \<Rightarrow> u32 list res" where
  "find_ipv4_addresses params = find_ipv4_addresses_at params 0 []"

record Parameter_Scan =
  recognized :: bytes
  reported :: "bytes list"

function scan_parameters_at ::
    "bytes \<Rightarrow> u16 list \<Rightarrow> nat \<Rightarrow> Parameter_Scan \<Rightarrow> Parameter_Scan res" where
  "scan_parameters_at params known offset scan =
     (if offset + SCTP_CHUNK_HEADER_SIZE \<le> length params then
        bind_res (read16 params offset) (\<lambda>type.
        bind_res (read16 params (offset + 2)) (\<lambda>len.
          let padded = pad4 (unat len) in
          if unat len < SCTP_CHUNK_HEADER_SIZE \<or> offset + unat len > length params then Inr scan
          else if type \<in> set known
          then bind_res (read_range params offset (min padded (length params - offset))) (\<lambda>tlv.
                 scan_parameters_at params known (offset + padded) (scan\<lparr>recognized := recognized scan @ tlv\<rparr>))
          else
            bind_res (if type AND 0x4000 \<noteq> 0
                      then bind_res (read_range params offset (unat len)) (\<lambda>tlv.
                             Inr (scan\<lparr>reported := reported scan @ [resize0 padded tlv]\<rparr>))
                      else Inr scan) (\<lambda>scan'.
              if type AND 0x8000 = 0 then Inr scan'
              else scan_parameters_at params known (offset + padded) scan')))
      else Inr scan)"
  by pat_completeness auto
termination
  by (relation "measure (\<lambda>(params, known, offset, scan). length params - offset)")
    (auto simp: not_less intro!: walk_progress)

definition scan_parameters :: "bytes \<Rightarrow> u16 list \<Rightarrow> Parameter_Scan res" where
  "scan_parameters params known =
     scan_parameters_at params known 0 \<lparr>recognized = [], reported = []\<rparr>"

subsection \<open>The checksum field of a packet in place\<close>

definition sctp_read_wire_checksum :: "bytes \<Rightarrow> u32 res" where
  "sctp_read_wire_checksum data = read_checksum_le data SCTP_CHECKSUM_OFFSET"

definition sctp_clear_wire_checksum :: "bytes \<Rightarrow> bytes" where
  "sctp_clear_wire_checksum data =
     data[SCTP_CHECKSUM_OFFSET := 0, SCTP_CHECKSUM_OFFSET + 1 := 0,
          SCTP_CHECKSUM_OFFSET + 2 := 0, SCTP_CHECKSUM_OFFSET + 3 := 0]"

subsection \<open>Deserializing chunk bodies\<close>

definition deserialize_init_chunk :: "bytes \<Rightarrow> init_chunk_value res" where
  "deserialize_init_chunk data =
     (if length data < 16 then Inl Init_Too_Short
      else bind_res (read32 data 0) (\<lambda>tag.
           bind_res (read32 data 4) (\<lambda>rwnd.
           bind_res (read16 data 8) (\<lambda>outs.
           bind_res (read16 data 10) (\<lambda>ins.
           bind_res (read32 data 12) (\<lambda>tsn.
           bind_res (read_range data 16 (length data - 16)) (\<lambda>parameters.
             Inr \<lparr>initiate_tag = tag, init_a_rwnd = rwnd, init_out_streams = outs,
                  init_in_streams = ins, initial_tsn = tsn,
                  optional_parameters = parameters\<rparr>)))))))"

definition deserialize_cookie_echo_chunk :: "bytes \<Rightarrow> bytes" where
  "deserialize_cookie_echo_chunk data = data"

definition deserialize_shutdown_chunk :: "bytes \<Rightarrow> u32 res" where
  "deserialize_shutdown_chunk data =
     (if length data \<noteq> 4 then Inl Shutdown_Wrong_Length else read32 data 0)"

definition deserialize_heartbeat_chunk :: "bytes \<Rightarrow> bytes res" where
  "deserialize_heartbeat_chunk data =
     bind_res (find_parameter data PARAM_HEARTBEAT_INFO) (\<lambda>found.
       case found of None \<Rightarrow> Inl No_Heartbeat_Info | Some info \<Rightarrow> Inr info)"

function deserialize_error_chunk_at :: "bytes \<Rightarrow> nat \<Rightarrow> error_cause list \<Rightarrow> error_cause list res" where
  "deserialize_error_chunk_at data offset out =
     (if offset + SCTP_CHUNK_HEADER_SIZE \<le> length data then
        bind_res (read16 data offset) (\<lambda>code.
        bind_res (read16 data (offset + 2)) (\<lambda>len.
          if unat len < SCTP_CHUNK_HEADER_SIZE then Inl Cause_Length_Below_Header
          else if offset + unat len > length data then Inl Cause_Overruns_Chunk
          else bind_res (read_range data (offset + SCTP_CHUNK_HEADER_SIZE) (unat len - SCTP_CHUNK_HEADER_SIZE)) (\<lambda>info.
                 deserialize_error_chunk_at data (offset + pad4 (unat len))
                   (out @ [\<lparr>cause_code = code, cause_info = info\<rparr>]))))
      else Inr out)"
  by pat_completeness auto
termination
  by (relation "measure (\<lambda>(data, offset, out). length data - offset)")
    (auto simp: not_less intro!: walk_progress)

definition deserialize_error_chunk :: "bytes \<Rightarrow> error_cause list res" where
  "deserialize_error_chunk data = deserialize_error_chunk_at data 0 []"

definition deserialize_data_chunk :: "bytes \<Rightarrow> data_chunk_value res" where
  "deserialize_data_chunk data =
     (if length data < 12 then Inl Data_Too_Short
      else bind_res (read32 data 0) (\<lambda>tsn.
           bind_res (read16 data 4) (\<lambda>stream.
           bind_res (read16 data 6) (\<lambda>ssn.
           bind_res (read32 data 8) (\<lambda>ppid.
           bind_res (read_range data 12 (length data - 12)) (\<lambda>payload.
             Inr \<lparr>data_tsn = tsn, stream_identifier = stream, stream_seq_num = ssn,
                  payload_protocal = ppid, user_data = payload,
                  data_flags = DATA_FLAG_B OR DATA_FLAG_E\<rparr>))))))"

text \<open>The loop over Gap Ack Blocks: \<open>first\<close> is \<open>i == 0\<close>.\<close>

fun read_gap_ack_blocks :: "bytes \<Rightarrow> nat \<Rightarrow> nat \<Rightarrow> bool \<Rightarrow> u16 \<Rightarrow> sack_gap_ack_block list res" where
  "read_gap_ack_blocks data offset 0 first previous_end = Inr []"
| "read_gap_ack_blocks data offset (Suc n) first previous_end =
     bind_res (read16 data offset) (\<lambda>start.
     bind_res (read16 data (offset + 2)) (\<lambda>last.
       if start = 0 \<or> last < start \<or> (\<not> first \<and> start \<le> previous_end)
       then Inl Sack_Invalid_Gap_Ack_Block
       else bind_res (read_gap_ack_blocks data (offset + 4) n False last) (\<lambda>blocks.
              Inr (\<lparr>gap_start = start, gap_end = last\<rparr> # blocks))))"

fun read_duplicate_tsns :: "bytes \<Rightarrow> nat \<Rightarrow> nat \<Rightarrow> u32 list res" where
  "read_duplicate_tsns data offset 0 = Inr []"
| "read_duplicate_tsns data offset (Suc n) =
     bind_res (read32 data offset) (\<lambda>tsn.
     bind_res (read_duplicate_tsns data (offset + 4) n) (\<lambda>tsns. Inr (tsn # tsns)))"

definition deserialize_sack_chunk :: "bytes \<Rightarrow> sack_chunk_value res" where
  "deserialize_sack_chunk data =
     (if length data < 12 then Inl Sack_Too_Short
      else bind_res (read16 data 8) (\<lambda>gap_count.
           bind_res (read16 data 10) (\<lambda>duplicate_count.
             if 12 + unat gap_count * 4 + unat duplicate_count * 4 \<noteq> length data
             then Inl Sack_Inconsistent_Counts
             else bind_res (read_gap_ack_blocks data 12 (unat gap_count) True 0) (\<lambda>gaps.
                  bind_res (read_duplicate_tsns data (12 + unat gap_count * 4) (unat duplicate_count))
                    (\<lambda>duplicates.
                  bind_res (read32 data 0) (\<lambda>cumulative.
                  bind_res (read32 data 4) (\<lambda>rwnd.
                    Inr \<lparr>sack_cumulative_tsn_ack = cumulative, sack_a_rwnd = rwnd,
                         number_of_gap_ack_blocks = gap_count,
                         number_of_duplicate_tsns = duplicate_count,
                         gap_ack_blocks = gaps, sack_duplicate_tsns = duplicates\<rparr>)))))))"

definition deserialize_chunk_value :: "u8 \<Rightarrow> bytes \<Rightarrow> Chunk_Value_Type res" where
  "deserialize_chunk_value type data =
     (if type = INIT \<or> type = INIT_ACK
      then bind_res (deserialize_init_chunk data) (\<lambda>v. Inr (Init_Value v))
      else if type = COOKIE_ECHO then Inr (Cookie_Echo_Value (deserialize_cookie_echo_chunk data))
      else if type = COOKIE_ACK \<or> type = SHUTDOWN_ACK \<or> type = SHUTDOWN_COMPLETE
      then Inr Empty_Value
      else if type = SHUTDOWN
      then bind_res (deserialize_shutdown_chunk data) (\<lambda>v. Inr (Shutdown_Value v))
      else if type = HEARTBEAT \<or> type = HEARTBEAT_ACK
      then bind_res (deserialize_heartbeat_chunk data) (\<lambda>v. Inr (Heartbeat_Value v))
      else if type = DATA
      then bind_res (deserialize_data_chunk data) (\<lambda>v. Inr (Data_Value v))
      else if type = SACK
      then bind_res (deserialize_sack_chunk data) (\<lambda>v. Inr (Sack_Value v))
      else if type = OP_ERROR \<or> type = ABORT
      then bind_res (deserialize_error_chunk data) (\<lambda>v. Inr (Error_Value v))
      else Inr (Unknown_Value data))"

subsection \<open>Deserializing packets\<close>

text \<open>The flags of a DATA body come from the chunk header.\<close>

definition take_data_flags :: "u8 \<Rightarrow> u8 \<Rightarrow> Chunk_Value_Type \<Rightarrow> Chunk_Value_Type res" where
  "take_data_flags type flag v =
     (if type = DATA
      then (case v of
              Data_Value d \<Rightarrow>
                Inr (Data_Value (d\<lparr>data_flags := flag AND (DATA_FLAG_U OR DATA_FLAG_B OR DATA_FLAG_E)\<rparr>))
            | _ \<Rightarrow> Inl Bad_Variant_Access)
      else Inr v)"

text \<open>
  The parser's lambda \<open>read_ptr\<close>: it throws when fewer than \<open>n\<close> bytes are left and otherwise
  hands on the next \<open>n\<close> bytes (\<open>can_read n\<close> is \<open>n \<le> len - offset\<close>).
\<close>

definition read_ptr :: "bytes \<Rightarrow> nat \<Rightarrow> nat \<Rightarrow> bytes res" where
  "read_ptr data offset n =
     (if \<not> n \<le> length data - offset then Inl Buffer_Underflow else read_range data offset n)"

text \<open>The loop over chunks; the padding of the last chunk may be missing.\<close>

function deserialize_chunks :: "bytes \<Rightarrow> nat \<Rightarrow> SCTP_Chunk list \<Rightarrow> SCTP_Chunk list res" where
  "deserialize_chunks data offset out =
     (if offset < length data then
        if \<not> SCTP_CHUNK_HEADER_SIZE \<le> length data - offset then Inl Truncated_Chunk_Header
        else
          bind_res (read_ptr data offset SCTP_CHUNK_HEADER_SIZE) (\<lambda>ch_p.
          bind_res (read8 ch_p 0) (\<lambda>type.
          bind_res (read8 ch_p 1) (\<lambda>flag.
          bind_res (read16 ch_p 2) (\<lambda>len.
            if unat len < SCTP_CHUNK_HEADER_SIZE then Inl Chunk_Length_Below_Header
            else
              let body_offset = offset + SCTP_CHUNK_HEADER_SIZE;
                  body_len = unat len - SCTP_CHUNK_HEADER_SIZE
              in if \<not> body_len \<le> length data - body_offset then Inl Truncated_Chunk_Body
                 else
                   bind_res (read_ptr data body_offset body_len) (\<lambda>body.
                   bind_res (deserialize_chunk_value type body) (\<lambda>v0.
                   bind_res (take_data_flags type flag v0) (\<lambda>v.
                       let next = body_offset + body_len;
                           pad = pad4 (unat len) - unat len
                       in deserialize_chunks data
                            (next + (if pad \<le> length data - next then pad else length data - next))
                            (out @ [\<lparr>chunk_header = \<lparr>ch_type = type, ch_flag = flag, ch_length = len\<rparr>,
                                     chunk_value = v\<rparr>]))))))))
      else Inr out)"
  by pat_completeness auto
termination
  by (relation "measure (\<lambda>(data, offset, out). length data - offset)") auto

definition deserialize_sctp_packet :: "bytes \<Rightarrow> SCTP_Packet res" where
  "deserialize_sctp_packet data =
     bind_res (read_ptr data 0 SCTP_COMMON_HEADER_SIZE) (\<lambda>h.
           bind_res (read16 h 0) (\<lambda>src.
           bind_res (read16 h 2) (\<lambda>des.
           bind_res (read32 h 4) (\<lambda>tag.
           bind_res (read_checksum_le h 8) (\<lambda>crc.
           bind_res (deserialize_chunks data SCTP_COMMON_HEADER_SIZE []) (\<lambda>chunks.
             Inr \<lparr>pkt_header = \<lparr>src_port = src, des_port = des, verification_tag = tag,
                                hdr_checksum = crc\<rparr>,
                  pkt_chunks = chunks\<rparr>))))))"

subsection \<open>Serializing chunk bodies\<close>

definition serialize_init_chunk :: "init_chunk_value \<Rightarrow> bytes \<Rightarrow> bytes" where
  "serialize_init_chunk v out =
     append32 (append16 (append16 (append32 (append32 out (initiate_tag v)) (init_a_rwnd v))
       (init_out_streams v)) (init_in_streams v)) (initial_tsn v) @ optional_parameters v"

definition serialize_cookie_echo_chunk :: "bytes \<Rightarrow> bytes \<Rightarrow> bytes" where
  "serialize_cookie_echo_chunk v out = out @ v"

fun serialize_error_chunk :: "error_cause list \<Rightarrow> bytes \<Rightarrow> bytes res" where
  "serialize_error_chunk [] out = Inr out"
| "serialize_error_chunk (cause # rest) out =
     bind_res (append_parameter out (cause_code cause) (cause_info cause)) (serialize_error_chunk rest)"

definition serialize_data_chunk :: "data_chunk_value \<Rightarrow> bytes \<Rightarrow> bytes" where
  "serialize_data_chunk v out =
     append32 (append16 (append16 (append32 out (data_tsn v)) (stream_identifier v))
       (stream_seq_num v)) (payload_protocal v) @ user_data v"

fun serialize_gap_ack_blocks :: "sack_gap_ack_block list \<Rightarrow> bytes \<Rightarrow> bytes res" where
  "serialize_gap_ack_blocks [] out = Inr out"
| "serialize_gap_ack_blocks (block # rest) out =
     (if gap_start block = 0 \<or> gap_end block < gap_start block then Inl Invalid_Sack_Gap_Ack_Block
      else serialize_gap_ack_blocks rest (append16 (append16 out (gap_start block)) (gap_end block)))"

definition serialize_sack_chunk :: "sack_chunk_value \<Rightarrow> bytes \<Rightarrow> bytes res" where
  "serialize_sack_chunk v out =
     (if length (gap_ack_blocks v) > UINT16_MAX \<or> length (sack_duplicate_tsns v) > UINT16_MAX
      then Inl Too_Many_Sack_Entries
      else if unat (number_of_gap_ack_blocks v) \<noteq> length (gap_ack_blocks v)
            \<or> unat (number_of_duplicate_tsns v) \<noteq> length (sack_duplicate_tsns v)
      then Inl Sack_Counts_Do_Not_Match
      else bind_res
             (serialize_gap_ack_blocks (gap_ack_blocks v)
                (append16 (append16 (append32 (append32 out (sack_cumulative_tsn_ack v))
                   (sack_a_rwnd v)) (number_of_gap_ack_blocks v)) (number_of_duplicate_tsns v)))
             (\<lambda>out'. Inr (foldl append32 out' (sack_duplicate_tsns v))))"

definition serialize_chunk_body :: "SCTP_Chunk \<Rightarrow> bytes \<Rightarrow> bytes res" where
  "serialize_chunk_body chunk out =
     (let type = chunk_type chunk in
      if type = INIT \<or> type = INIT_ACK
      then (case chunk_value chunk of Init_Value v \<Rightarrow> Inr (serialize_init_chunk v out)
                                    | _ \<Rightarrow> Inl Bad_Variant_Access)
      else if type = COOKIE_ECHO
      then (case chunk_value chunk of Cookie_Echo_Value v \<Rightarrow> Inr (serialize_cookie_echo_chunk v out)
                                    | _ \<Rightarrow> Inl Bad_Variant_Access)
      else if type = COOKIE_ACK \<or> type = SHUTDOWN_ACK \<or> type = SHUTDOWN_COMPLETE
      then (case chunk_value chunk of Empty_Value \<Rightarrow> Inr out | _ \<Rightarrow> Inl Bad_Variant_Access)
      else if type = SHUTDOWN
      then (case chunk_value chunk of Shutdown_Value v \<Rightarrow> Inr (append32 out v)
                                    | _ \<Rightarrow> Inl Bad_Variant_Access)
      else if type = HEARTBEAT \<or> type = HEARTBEAT_ACK
      then (case chunk_value chunk of Heartbeat_Value v \<Rightarrow> append_parameter out PARAM_HEARTBEAT_INFO v
                                    | _ \<Rightarrow> Inl Bad_Variant_Access)
      else if type = OP_ERROR \<or> type = ABORT
      then (case chunk_value chunk of Error_Value v \<Rightarrow> serialize_error_chunk v out
                                    | _ \<Rightarrow> Inl Bad_Variant_Access)
      else if type = DATA
      then (case chunk_value chunk of Data_Value v \<Rightarrow> Inr (serialize_data_chunk v out)
                                    | _ \<Rightarrow> Inl Bad_Variant_Access)
      else if type = SACK
      then (case chunk_value chunk of Sack_Value v \<Rightarrow> serialize_sack_chunk v out
                                    | _ \<Rightarrow> Inl Bad_Variant_Access)
      else (case chunk_value chunk of Unknown_Value v \<Rightarrow> Inr (out @ v)
                                    | _ \<Rightarrow> Inl Bad_Variant_Access))"

subsection \<open>Serializing packets\<close>

text \<open>
  The chunk's length is taken modulo \<open>2^16\<close>, and the vector is resized to the padded value of
  that length: a body too large for the length field is cut.
\<close>

definition serialize_chunk :: "SCTP_Chunk \<Rightarrow> bytes \<Rightarrow> bytes res" where
  "serialize_chunk chunk out =
     (let start = length out in
      bind_res (serialize_chunk_body chunk (out @ replicate SCTP_CHUNK_HEADER_SIZE 0)) (\<lambda>out2.
        let len = of_nat (length out2 - start) :: u16;
            len_be = mem16 (htons len);
            out3 = out2[start := chunk_type chunk, start + 1 := ch_flag (chunk_header chunk),
                        start + 2 := len_be ! 0, start + 3 := len_be ! 1]
        in Inr (resize0 (start + pad4 (unat len)) out3)))"

fun serialize_chunks :: "SCTP_Chunk list \<Rightarrow> bytes \<Rightarrow> bytes res" where
  "serialize_chunks [] out = Inr out"
| "serialize_chunks (chunk # rest) out = bind_res (serialize_chunk chunk out) (serialize_chunks rest)"

definition serialize_sctp_packet :: "SCTP_Packet \<Rightarrow> bytes res" where
  "serialize_sctp_packet pkt =
     (let h = pkt_header pkt;
          out = append32 (append32 (append16 (append16 [] (src_port h)) (des_port h))
                  (verification_tag h)) 0
      in bind_res (serialize_chunks (pkt_chunks pkt) out) (\<lambda>out'.
           Inr (write_checksum_le out' SCTP_CHECKSUM_OFFSET (calculate_sctp_checksum out'))))"

declare find_parameter_at.simps [simp del]
declare find_ipv4_addresses_at.simps [simp del]
declare scan_parameters_at.simps [simp del]
declare deserialize_error_chunk_at.simps [simp del]
declare deserialize_chunks.simps [simp del]

subsection \<open>What a chunk must satisfy to survive the wire\<close>

text \<open>The alternative of the variant that a chunk type selects, on both sides of the codec.\<close>

fun value_typed :: "u8 \<Rightarrow> Chunk_Value_Type \<Rightarrow> bool" where
  "value_typed t (Init_Value v) = (t = INIT \<or> t = INIT_ACK)"
| "value_typed t (Cookie_Echo_Value v) = (t = COOKIE_ECHO)"
| "value_typed t Empty_Value = (t = COOKIE_ACK \<or> t = SHUTDOWN_ACK \<or> t = SHUTDOWN_COMPLETE)"
| "value_typed t (Data_Value v) = (t = DATA)"
| "value_typed t (Sack_Value v) = (t = SACK)"
| "value_typed t (Error_Value v) = (t = OP_ERROR \<or> t = ABORT)"
| "value_typed t (Shutdown_Value v) = (t = SHUTDOWN)"
| "value_typed t (Heartbeat_Value v) = (t = HEARTBEAT \<or> t = HEARTBEAT_ACK)"
| "value_typed t (Unknown_Value v) = (t \<notin> {0, 1, 2, 3, 4, 5, 6, 7, 8, 9, 10, 11, 14})"

definition chunk_typed :: "SCTP_Chunk \<Rightarrow> bool" where
  "chunk_typed c = value_typed (chunk_type c) (chunk_value c)"

fun gap_blocks_ok :: "bool \<Rightarrow> u16 \<Rightarrow> sack_gap_ack_block list \<Rightarrow> bool" where
  "gap_blocks_ok first previous_end [] = True"
| "gap_blocks_ok first previous_end (b # bs) =
     (gap_start b \<noteq> 0 \<and> gap_start b \<le> gap_end b \<and> (first \<or> previous_end < gap_start b)
      \<and> gap_blocks_ok False (gap_end b) bs)"

definition sack_ok :: "sack_chunk_value \<Rightarrow> bool" where
  "sack_ok v \<longleftrightarrow>
     unat (number_of_gap_ack_blocks v) = length (gap_ack_blocks v) \<and>
     unat (number_of_duplicate_tsns v) = length (sack_duplicate_tsns v) \<and>
     gap_blocks_ok True 0 (gap_ack_blocks v)"

definition param_fits :: "bytes \<Rightarrow> bool" where
  "param_fits v \<longleftrightarrow> SCTP_CHUNK_HEADER_SIZE + length v \<le> UINT16_MAX"

fun value_ok :: "u8 \<Rightarrow> Chunk_Value_Type \<Rightarrow> bool" where
  "value_ok flag (Data_Value d) = (data_flags d = flag AND 7)"
| "value_ok flag (Sack_Value v) = sack_ok v"
| "value_ok flag (Error_Value cs) = list_all (\<lambda>c. param_fits (cause_info c)) cs"
| "value_ok flag (Heartbeat_Value v) = param_fits v"
| "value_ok flag v = True"

text \<open>The encodings, as lists rather than as appends to a vector.\<close>

definition param_bytes :: "u16 \<Rightarrow> bytes \<Rightarrow> bytes" where
  "param_bytes type v =
     mem16 (htons type) @ mem16 (htons (of_nat (4 + length v))) @ v
     @ replicate (pad4 (4 + length v) - (4 + length v)) 0"

definition error_bytes :: "error_cause list \<Rightarrow> bytes" where
  "error_bytes cs = concat (map (\<lambda>c. param_bytes (cause_code c) (cause_info c)) cs)"

definition gap_bytes :: "sack_gap_ack_block list \<Rightarrow> bytes" where
  "gap_bytes bs = concat (map (\<lambda>b. mem16 (htons (gap_start b)) @ mem16 (htons (gap_end b))) bs)"

definition tsn_bytes :: "u32 list \<Rightarrow> bytes" where
  "tsn_bytes ts = concat (map (\<lambda>t. mem32 (htonl t)) ts)"

fun value_bytes :: "Chunk_Value_Type \<Rightarrow> bytes" where
  "value_bytes (Init_Value v) = serialize_init_chunk v []"
| "value_bytes (Cookie_Echo_Value v) = v"
| "value_bytes Empty_Value = []"
| "value_bytes (Data_Value v) = serialize_data_chunk v []"
| "value_bytes (Sack_Value v) =
     mem32 (htonl (sack_cumulative_tsn_ack v)) @ mem32 (htonl (sack_a_rwnd v)) @
     mem16 (htons (number_of_gap_ack_blocks v)) @ mem16 (htons (number_of_duplicate_tsns v)) @
     gap_bytes (gap_ack_blocks v) @ tsn_bytes (sack_duplicate_tsns v)"
| "value_bytes (Error_Value cs) = error_bytes cs"
| "value_bytes (Shutdown_Value v) = mem32 (htonl v)"
| "value_bytes (Heartbeat_Value v) = param_bytes PARAM_HEARTBEAT_INFO v"
| "value_bytes (Unknown_Value v) = v"

definition chunk_ok :: "SCTP_Chunk \<Rightarrow> bool" where
  "chunk_ok c \<longleftrightarrow>
     chunk_typed c \<and> value_ok (ch_flag (chunk_header c)) (chunk_value c) \<and>
     SCTP_CHUNK_HEADER_SIZE + length (value_bytes (chunk_value c)) \<le> UINT16_MAX"

definition chunk_bytes :: "SCTP_Chunk \<Rightarrow> bytes" where
  "chunk_bytes c =
     (let body = value_bytes (chunk_value c)
      in [chunk_type c, ch_flag (chunk_header c)] @ mem16 (htons (of_nat (4 + length body)))
         @ body @ replicate (pad4 (4 + length body) - (4 + length body)) 0)"

text \<open>The chunk as it is read back: its header carries the length that was on the wire.\<close>

definition with_wire_length :: "SCTP_Chunk \<Rightarrow> SCTP_Chunk" where
  "with_wire_length c =
     c\<lparr>chunk_header := (chunk_header c)\<lparr>ch_length := of_nat (4 + length (value_bytes (chunk_value c)))\<rparr>\<rparr>"

subsection \<open>Reads\<close>

lemma read16_in: "i + 2 \<le> length p \<Longrightarrow> \<exists>v. read16 p i = Inr v"
  by (simp add: read16_def)

lemma read16_at [simp]: "read16 (pre @ mem16 (htons v) @ post) (length pre) = Inr v"
  by (simp add: read16_def nth_append mem16_htons htons_load16 load16_mem16)

lemma read32_at [simp]: "read32 (pre @ mem32 (htonl v) @ post) (length pre) = Inr v"
  by (simp add: read32_def nth_append mem32_htonl htonl_load32 load32_mem32)

lemma read16_at2 [simp]:
  "read16 (pre @ mem16 w @ mem16 (htons v) @ post) (length pre + 2) = Inr v"
  using read16_at [of "pre @ mem16 w" v post] by simp

lemma read8_at [simp]: "read8 (pre @ b # post) (length pre) = Inr b"
  by (simp add: read8_def)

text \<open>Reading within a range is reading the buffer it was taken from.\<close>

lemma read_within_range [simp]:
  "i < n \<Longrightarrow> j + n \<le> length p \<Longrightarrow> read8 (take n (drop j p)) i = read8 p (j + i)"
  "i + 2 \<le> n \<Longrightarrow> j + n \<le> length p \<Longrightarrow> read16 (take n (drop j p)) i = read16 p (j + i)"
  "i + 4 \<le> n \<Longrightarrow> j + n \<le> length p \<Longrightarrow> read32 (take n (drop j p)) i = read32 p (j + i)"
  "i + 4 \<le> n \<Longrightarrow> j + n \<le> length p \<Longrightarrow> read_checksum_le (take n (drop j p)) i = read_checksum_le p (j + i)"
  by (simp_all add: read8_def read16_def read32_def read_checksum_le_def add.assoc)

text \<open>What \<open>read_ptr\<close> hands on, given that the offset is within the buffer.\<close>

lemma read_ptr_in [simp]: "j + n \<le> length p \<Longrightarrow> read_ptr p j n = Inr (take n (drop j p))"
  by (simp add: read_ptr_def)

lemma read_ptr_out: "\<not> j + n \<le> length p \<Longrightarrow> j \<le> length p \<Longrightarrow> read_ptr p j n = Inl Buffer_Underflow"
  by (simp add: read_ptr_def)

subsection \<open>Memory safety of the parsers\<close>

lemma find_parameter_at_total: "\<exists>r. find_parameter_at params type offset = Inr r"
proof (induction params type offset rule: find_parameter_at.induct)
  case (1 params type offset)
  show ?case
  proof (cases "offset + 4 \<le> length params")
    case True
    obtain t l where "read16 params offset = Inr t" "read16 params (offset + 2) = Inr l"
      using True read16_in [of offset params] read16_in [of "offset + 2" params] by auto
    then show ?thesis
      using "1.IH" True by (subst find_parameter_at.simps) (auto)
  qed (simp add: find_parameter_at.simps)
qed

lemma find_parameter_total: "\<exists>r. find_parameter params type = Inr r"
  by (simp add: find_parameter_def find_parameter_at_total)

lemma find_ipv4_addresses_at_total: "\<exists>r. find_ipv4_addresses_at params offset out = Inr r"
proof (induction params offset out rule: find_ipv4_addresses_at.induct)
  case (1 params offset out)
  show ?case
  proof (cases "offset + 4 \<le> length params")
    case True
    obtain t l where rd: "read16 params offset = Inr t" "read16 params (offset + 2) = Inr l"
      using True read16_in [of offset params] read16_in [of "offset + 2" params] by auto
    have "unat l = 8 \<Longrightarrow> \<not> offset + unat l > length params \<Longrightarrow> \<exists>a. read32 params (offset + 4) = Inr a"
      by (simp add: read32_def)
    then show ?thesis
      using "1.IH" True rd
      by (subst find_ipv4_addresses_at.simps) (auto)
  qed (simp add: find_ipv4_addresses_at.simps)
qed

lemma scan_parameters_at_total: "\<exists>r. scan_parameters_at params known offset scan = Inr r"
proof (induction params known offset scan rule: scan_parameters_at.induct)
  case (1 params known offset scan)
  show ?case
  proof (cases "offset + 4 \<le> length params")
    case True
    obtain t l where rd: "read16 params offset = Inr t" "read16 params (offset + 2) = Inr l"
      using True read16_in [of offset params] read16_in [of "offset + 2" params] by auto
    then show ?thesis
      using "1.IH" True
      by (subst scan_parameters_at.simps) (auto simp: Let_def)
  qed (simp add: scan_parameters_at.simps)
qed

text \<open>Neither a read past the end nor a body of the wrong alternative.\<close>

definition parse_safe :: "'a res \<Rightarrow> bool" where
  "parse_safe r \<longleftrightarrow> r \<noteq> Inl Out_Of_Bounds \<and> r \<noteq> Inl Bad_Variant_Access"

lemma parse_safe_Inr [simp]: "parse_safe (Inr v)"
  by (simp add: parse_safe_def)

lemma parse_safe_bind:
  "parse_safe m \<Longrightarrow> (\<And>x. m = Inr x \<Longrightarrow> parse_safe (f x)) \<Longrightarrow> parse_safe (bind_res m f)"
  by (cases m) (auto simp: parse_safe_def)

lemma parse_safe_read:
  "i < length p \<Longrightarrow> parse_safe (read8 p i)"
  "i + 2 \<le> length p \<Longrightarrow> parse_safe (read16 p i)"
  "i + 4 \<le> length p \<Longrightarrow> parse_safe (read32 p i)"
  "i + 4 \<le> length p \<Longrightarrow> parse_safe (read_checksum_le p i)"
  by (simp_all add: read8_def read16_def read32_def read_checksum_le_def)

lemma parse_safe_read_ptr: "j \<le> length p \<Longrightarrow> parse_safe (read_ptr p j n)"
  by (cases "j + n \<le> length p") (simp_all add: read_ptr_out parse_safe_def)

lemma length_read_ptr: "read_ptr p j n = Inr x \<Longrightarrow> length x = n"
  by (auto simp: read_ptr_def read_range_def split: if_splits)

lemma deserialize_error_chunk_at_safe: "parse_safe (deserialize_error_chunk_at data offset out)"
proof (induction data offset out rule: deserialize_error_chunk_at.induct)
  case (1 data offset out)
  show ?case
    by (subst deserialize_error_chunk_at.simps)
      (auto intro!: parse_safe_bind parse_safe_read "1.IH"
        simp: parse_safe_def [of "Inl _"])
qed

lemma read_gap_ack_blocks_safe:
  "offset + 4 * n \<le> length data \<Longrightarrow> parse_safe (read_gap_ack_blocks data offset n first e)"
  by (induction n arbitrary: offset first e)
    (auto intro!: parse_safe_bind parse_safe_read
      simp: parse_safe_def [of "Inl _"])

lemma read_duplicate_tsns_safe:
  "offset + 4 * n \<le> length data \<Longrightarrow> parse_safe (read_duplicate_tsns data offset n)"
  by (induction n arbitrary: offset) (auto intro!: parse_safe_bind parse_safe_read)

lemma deserialize_chunk_value_safe: "parse_safe (deserialize_chunk_value type data)"
proof -
  have "parse_safe (deserialize_init_chunk data)"
    by (auto simp: deserialize_init_chunk_def parse_safe_def [of "Inl _"]
        intro!: parse_safe_bind parse_safe_read)
  moreover have "parse_safe (deserialize_shutdown_chunk data)"
    by (auto simp: deserialize_shutdown_chunk_def parse_safe_def [of "Inl _"] intro!: parse_safe_read)
  moreover have "parse_safe (deserialize_heartbeat_chunk data)"
    using find_parameter_total [of data 1]
    by (auto simp: deserialize_heartbeat_chunk_def parse_safe_def split: option.splits)
  moreover have "parse_safe (deserialize_data_chunk data)"
    by (auto simp: deserialize_data_chunk_def parse_safe_def [of "Inl _"]
        intro!: parse_safe_bind parse_safe_read)
  moreover have "parse_safe (deserialize_sack_chunk data)"
    by (auto simp: deserialize_sack_chunk_def parse_safe_def [of "Inl _"]
        intro!: parse_safe_bind parse_safe_read read_gap_ack_blocks_safe read_duplicate_tsns_safe)
  moreover have "parse_safe (deserialize_error_chunk data)"
    by (simp add: deserialize_error_chunk_def deserialize_error_chunk_at_safe)
  ultimately show ?thesis
    by (simp add: deserialize_chunk_value_def parse_safe_bind)
qed

lemma deserialize_chunk_value_typed:
  "deserialize_chunk_value type data = Inr v \<Longrightarrow> value_typed type v"
  by (auto simp: deserialize_chunk_value_def res_simps split: if_splits)

lemma take_data_flags_typed:
  assumes "value_typed type v"
  shows "\<exists>v'. take_data_flags type flag v = Inr v' \<and> value_typed type v'"
  using assms by (cases v) (auto simp: take_data_flags_def)

text \<open>
  One turn of the chunk loop: it throws an error of the format, or it appends one chunk of the
  right alternative and moves on.
\<close>

lemma deserialize_chunks_body:
  assumes "offset < length data" "4 \<le> length data - offset"
    and "read8 data offset = Inr t" "read8 data (offset + 1) = Inr f" "read16 data (offset + 2) = Inr l"
    and "\<not> unat l < 4" "unat l - 4 \<le> length data - (offset + 4)"
  shows "(\<exists>e. deserialize_chunks data offset out = Inl e \<and> parse_safe (Inl e :: unit res)) \<or>
    (\<exists>c nxt. offset < nxt \<and> chunk_typed c \<and> deserialize_chunks data offset out = deserialize_chunks data nxt (out @ [c]))"
proof (cases "deserialize_chunk_value t (take (unat l - 4) (drop (offset + 4) data))")
  case (Inl e)
  then have "deserialize_chunks data offset out = Inl e"
    using assms by (simp add: deserialize_chunks.simps [of data offset out] Let_def)
  then show ?thesis
    using deserialize_chunk_value_safe [of t "take (unat l - 4) (drop (offset + 4) data)"] Inl by (simp add: parse_safe_def)
next
  case (Inr v)
  obtain v' where v': "take_data_flags t f v = Inr v'" "value_typed t v'"
    using take_data_flags_typed [OF deserialize_chunk_value_typed [OF Inr]] by blast
  let ?nxt = "offset + 4 + (unat l - 4) + (if pad4 (unat l) - unat l \<le> length data - (offset + 4 + (unat l - 4))
    then pad4 (unat l) - unat l else length data - (offset + 4 + (unat l - 4)))"
  have "deserialize_chunks data offset out =
      deserialize_chunks data ?nxt (out @ [\<lparr>chunk_header = \<lparr>ch_type = t, ch_flag = f, ch_length = l\<rparr>, chunk_value = v'\<rparr>])"
    using assms Inr v' by (simp add: deserialize_chunks.simps [of data offset out] Let_def)
  moreover have "offset < ?nxt" by simp
  moreover have "chunk_typed \<lparr>chunk_header = \<lparr>ch_type = t, ch_flag = f, ch_length = l\<rparr>, chunk_value = v'\<rparr>"
    using v'(2) by (simp add: chunk_typed_def)
  ultimately show ?thesis by blast
qed

lemma deserialize_chunks_step:
  assumes "offset < length data"
  obtains (error) e where "deserialize_chunks data offset out = Inl e" "parse_safe (Inl e :: unit res)"
  | (chunk) c nxt where "offset < nxt" "chunk_typed c"
      "deserialize_chunks data offset out = deserialize_chunks data nxt (out @ [c])"
proof (cases "4 \<le> length data - offset")
  case False
  with assms have "deserialize_chunks data offset out = Inl Truncated_Chunk_Header"
    by (simp add: deserialize_chunks.simps [of data offset out])
  then show thesis using error by (simp add: parse_safe_def)
next
  case True
  then have "\<exists>l. read16 data (offset + 2) = Inr l" by (intro read16_in) simp
  with True obtain t f l where rd: "read8 data offset = Inr t" "read8 data (offset + 1) = Inr f"
    "read16 data (offset + 2) = Inr l"
    using that by (fastforce simp: read8_def)
  note unfold = deserialize_chunks.simps [of data offset out]
  consider "unat l < 4" | "\<not> unat l < 4" "\<not> unat l - 4 \<le> length data - (offset + 4)"
    | "\<not> unat l < 4" "unat l - 4 \<le> length data - (offset + 4)" by blast
  then show thesis
  proof cases
    case 1
    then have "deserialize_chunks data offset out = Inl Chunk_Length_Below_Header"
      using assms True rd by (simp add: unfold)
    then show thesis using error by (simp add: parse_safe_def)
  next
    case 2
    then have "deserialize_chunks data offset out = Inl Truncated_Chunk_Body"
      using assms True rd by (simp add: unfold Let_def)
    then show thesis using error by (simp add: parse_safe_def)
  next
    case 3
    from deserialize_chunks_body [OF assms True rd this] show thesis using error chunk by blast
  qed
qed

lemma deserialize_chunks_sound:
  "parse_safe (deserialize_chunks data offset out) \<and>
   (list_all chunk_typed out \<longrightarrow>
     (\<forall>cs. deserialize_chunks data offset out = Inr cs \<longrightarrow> list_all chunk_typed cs))"
proof (induction "length data - offset" arbitrary: offset out rule: less_induct)
  case less
  show ?case
  proof (cases "offset < length data")
    case False
    then show ?thesis by (simp add: deserialize_chunks.simps [of data offset out])
  next
    case True
    then show ?thesis
    proof (cases rule: deserialize_chunks_step [of offset data out])
      case (error e)
      then show ?thesis by (simp add: parse_safe_def)
    next
      case (chunk c nxt)
      then have "length data - nxt < length data - offset" using True by simp
      from less [OF this, of "out @ [c]"] chunk show ?thesis by simp
    qed
  qed
qed

lemmas deserialize_chunks_safe = deserialize_chunks_sound [THEN conjunct1]

lemma deserialize_sctp_packet_safe: "parse_safe (deserialize_sctp_packet data)"
  by (auto simp: deserialize_sctp_packet_def length_read_ptr
      intro!: parse_safe_bind parse_safe_read parse_safe_read_ptr deserialize_chunks_safe)

subsection \<open>Round trips of parameters and chunk bodies\<close>

lemma length_param_bytes [simp]: "length (param_bytes type v) = pad4 (4 + length v)"
  using pad4_ge [of "4 + length v"] by (simp add: param_bytes_def)

lemma append_parameter_eq: "param_fits v \<Longrightarrow> append_parameter out type v = Inr (out @ param_bytes type v)"
  by (simp add: append_parameter_def param_fits_def param_bytes_def append16_def pad4_eq_missing Let_def)

lemma unat_of_nat_u16: "n \<le> UINT16_MAX \<Longrightarrow> unat (of_nat n :: u16) = n"
  by (simp add: unat_of_nat)

text \<open>The header of a parameter at an offset, and its value after the header.\<close>

lemma param_header:
  assumes "param_fits v"
  obtains len where "read16 (pre @ param_bytes type v @ post) (length pre) = Inr type"
    "read16 (pre @ param_bytes type v @ post) (length pre + 2) = Inr len" "unat len = 4 + length v"
proof
  show "read16 (pre @ param_bytes type v @ post) (length pre) = Inr type"
    by (simp only: param_bytes_def append_assoc read16_at)
  show "read16 (pre @ param_bytes type v @ post) (length pre + 2) = Inr (of_nat (4 + length v))"
    by (simp only: param_bytes_def append_assoc read16_at2)
  show "unat (of_nat (4 + length v) :: u16) = 4 + length v"
    using assms by (intro unat_of_nat_u16) (simp add: param_fits_def)
qed

lemma param_value: "take (length v) (drop 4 (param_bytes type v)) = v"
  by (simp add: param_bytes_def mem16_htons)

lemma find_parameter_at_param:
  assumes "param_fits v"
  shows "find_parameter_at (pre @ param_bytes type v @ post) type' (length pre) =
    (if type = type' then Inr (Some v)
     else find_parameter_at (pre @ param_bytes type v @ post) type' (length pre + pad4 (4 + length v)))"
proof -
  have "4 + length v \<le> pad4 (4 + length v)" by (rule pad4_ge)
  moreover obtain len where "read16 (pre @ param_bytes type v @ post) (length pre) = Inr type"
    "read16 (pre @ param_bytes type v @ post) (length pre + 2) = Inr len" "unat len = 4 + length v"
    by (rule param_header [OF assms, of pre type post])
  ultimately show ?thesis
    by (subst find_parameter_at.simps) (simp add: param_value)
qed

lemma deserialize_error_chunk_at_cause:
  assumes "param_fits v"
  shows "deserialize_error_chunk_at (pre @ param_bytes type v @ post) (length pre) out =
    deserialize_error_chunk_at (pre @ param_bytes type v @ post) (length pre + pad4 (4 + length v))
      (out @ [\<lparr>cause_code = type, cause_info = v\<rparr>])"
proof -
  have "4 + length v \<le> pad4 (4 + length v)" by (rule pad4_ge)
  moreover obtain len where "read16 (pre @ param_bytes type v @ post) (length pre) = Inr type"
    "read16 (pre @ param_bytes type v @ post) (length pre + 2) = Inr len" "unat len = 4 + length v"
    by (rule param_header [OF assms, of pre type post])
  ultimately show ?thesis
    by (subst deserialize_error_chunk_at.simps) (simp add: param_value)
qed

lemma error_cause_eta: "\<lparr>cause_code = cause_code c, cause_info = cause_info c\<rparr> = c"
  by simp

lemma deserialize_error_bytes_at:
  "list_all (\<lambda>c. param_fits (cause_info c)) cs \<Longrightarrow>
   deserialize_error_chunk_at (pre @ error_bytes cs) (length pre) out = Inr (out @ cs)"
proof (induction cs arbitrary: pre out)
  case Nil
  then show ?case by (simp add: error_bytes_def deserialize_error_chunk_at.simps)
next
  case (Cons c cs)
  let ?b = "param_bytes (cause_code c) (cause_info c)"
  have "deserialize_error_chunk_at (pre @ error_bytes (c # cs)) (length pre) out =
      deserialize_error_chunk_at (pre @ ?b @ error_bytes cs) (length pre + pad4 (4 + length (cause_info c)))
        (out @ [c])"
    using deserialize_error_chunk_at_cause [of "cause_info c" pre "cause_code c" "error_bytes cs" out] Cons.prems
    by (simp add: error_bytes_def error_cause_eta)
  also have "\<dots> = Inr ((out @ [c]) @ cs)"
    using Cons.IH [of "pre @ ?b" "out @ [c]"] Cons.prems by simp
  finally show ?case by simp
qed

lemma serialize_error_bytes:
  "list_all (\<lambda>c. param_fits (cause_info c)) cs \<Longrightarrow> serialize_error_chunk cs out = Inr (out @ error_bytes cs)"
  by (induction cs arbitrary: out) (simp_all add: append_parameter_eq error_bytes_def)

lemma deserialize_error_bytes:
  "list_all (\<lambda>c. param_fits (cause_info c)) cs \<Longrightarrow> deserialize_error_chunk (error_bytes cs) = Inr cs"
  using deserialize_error_bytes_at [of cs "[]" "[]"] by (simp add: deserialize_error_chunk_def)

lemma deserialize_heartbeat_bytes:
  "param_fits v \<Longrightarrow> deserialize_heartbeat_chunk (param_bytes PARAM_HEARTBEAT_INFO v) = Inr v"
  using find_parameter_at_param [of v "[]" 1 "[]" 1]
  by (simp add: deserialize_heartbeat_chunk_def find_parameter_def)

lemma deserialize_init_bytes: "deserialize_init_chunk (serialize_init_chunk v []) = Inr v"
  by (simp add: deserialize_init_chunk_def serialize_init_chunk_def append16_def append32_def
      read16_def read32_def mem16_htons mem32_htonl htons_load16 htonl_load32 load16_mem16 load32_mem32)

lemma deserialize_data_bytes:
  "deserialize_data_chunk (serialize_data_chunk v []) = Inr (v\<lparr>data_flags := 3\<rparr>)"
  by (simp add: deserialize_data_chunk_def serialize_data_chunk_def append16_def append32_def
      read16_def read32_def mem16_htons mem32_htonl htons_load16 htonl_load32 load16_mem16 load32_mem32)

lemma deserialize_shutdown_bytes: "deserialize_shutdown_chunk (mem32 (htonl v)) = Inr v"
  using read32_at [of "[]" v "[]"] by (simp add: deserialize_shutdown_chunk_def)

lemma length_gap_bytes [simp]: "length (gap_bytes bs) = 4 * length bs"
  by (induction bs) (simp_all add: gap_bytes_def)

lemma length_tsn_bytes [simp]: "length (tsn_bytes ts) = 4 * length ts"
  by (induction ts) (simp_all add: tsn_bytes_def)

lemma read_gap_bytes_at:
  "gap_blocks_ok first e bs \<Longrightarrow>
   read_gap_ack_blocks (pre @ gap_bytes bs @ post) (length pre) (length bs) first e = Inr bs"
proof (induction bs arbitrary: pre first e)
  case (Cons b bs)
  let ?h = "mem16 (htons (gap_start b)) @ mem16 (htons (gap_end b))"
  have split: "pre @ gap_bytes (b # bs) @ post = pre @ mem16 (htons (gap_start b)) @
      mem16 (htons (gap_end b)) @ gap_bytes bs @ post"
    by (simp add: gap_bytes_def)
  have "read_gap_ack_blocks ((pre @ ?h) @ gap_bytes bs @ post) (length (pre @ ?h)) (length bs) False (gap_end b)
      = Inr bs"
    using Cons.prems by (intro Cons.IH) simp
  then show ?case
    using Cons.prems by (auto simp: split not_less not_le)
qed simp

lemma read_tsn_bytes_at: "read_duplicate_tsns (pre @ tsn_bytes ts @ post) (length pre) (length ts) = Inr ts"
proof (induction ts arbitrary: pre)
  case (Cons t ts)
  have split: "pre @ tsn_bytes (t # ts) @ post = pre @ mem32 (htonl t) @ tsn_bytes ts @ post"
    by (simp add: tsn_bytes_def)
  have "read_duplicate_tsns ((pre @ mem32 (htonl t)) @ tsn_bytes ts @ post) (length (pre @ mem32 (htonl t)))
      (length ts) = Inr ts"
    by (rule Cons.IH)
  then show ?case by (simp add: split)
qed simp

lemma deserialize_sack_bytes:
  assumes "sack_ok v"
  shows "deserialize_sack_chunk (value_bytes (Sack_Value v)) = Inr v"
proof -
  let ?h = "mem32 (htonl (sack_cumulative_tsn_ack v)) @ mem32 (htonl (sack_a_rwnd v)) @
     mem16 (htons (number_of_gap_ack_blocks v)) @ mem16 (htons (number_of_duplicate_tsns v))"
  let ?g = "gap_bytes (gap_ack_blocks v)" and ?t = "tsn_bytes (sack_duplicate_tsns v)"
  have counts: "length (gap_ack_blocks v) = unat (number_of_gap_ack_blocks v)"
    "length (sack_duplicate_tsns v) = unat (number_of_duplicate_tsns v)"
    using assms by (simp_all add: sack_ok_def)
  have "read_gap_ack_blocks (?h @ ?g @ ?t) 12 (unat (number_of_gap_ack_blocks v)) True 0 = Inr (gap_ack_blocks v)"
    using read_gap_bytes_at [of True 0 "gap_ack_blocks v" ?h ?t] assms by (simp add: sack_ok_def)
  moreover have "read_duplicate_tsns (?h @ ?g @ ?t) (12 + unat (number_of_gap_ack_blocks v) * 4)
      (unat (number_of_duplicate_tsns v)) = Inr (sack_duplicate_tsns v)"
    using read_tsn_bytes_at [of "?h @ ?g" "sack_duplicate_tsns v" "[]"] counts by (simp add: mult.commute)
  moreover have "read32 (?h @ ?g @ ?t) 0 = Inr (sack_cumulative_tsn_ack v)"
    "read32 (?h @ ?g @ ?t) 4 = Inr (sack_a_rwnd v)"
    "read16 (?h @ ?g @ ?t) 8 = Inr (number_of_gap_ack_blocks v)"
    "read16 (?h @ ?g @ ?t) 10 = Inr (number_of_duplicate_tsns v)"
    by (simp_all add: read16_def read32_def mem16_htons mem32_htonl htons_load16 htonl_load32
        load16_mem16 load32_mem32)
  ultimately show ?thesis
    using counts by (simp add: deserialize_sack_chunk_def)
qed

lemma serialize_gap_bytes:
  "gap_blocks_ok first e bs \<Longrightarrow> serialize_gap_ack_blocks bs out = Inr (out @ gap_bytes bs)"
  by (induction bs arbitrary: first e out) (auto simp: gap_bytes_def append16_def not_less)

lemma foldl_append32: "foldl append32 out ts = out @ tsn_bytes ts"
  by (induction ts arbitrary: out) (simp_all add: tsn_bytes_def append32_def)

lemma serialize_sack_bytes:
  "sack_ok v \<Longrightarrow> serialize_sack_chunk v out = Inr (out @ value_bytes (Sack_Value v))"
  using unat_u16_less [of "number_of_gap_ack_blocks v"] unat_u16_less [of "number_of_duplicate_tsns v"]
  by (auto simp: serialize_sack_chunk_def sack_ok_def serialize_gap_bytes foldl_append32
      append16_def append32_def)

subsection \<open>Round trips of chunks\<close>

lemma serialize_chunk_body_eq:
  assumes "chunk_ok c"
  shows "serialize_chunk_body c out = Inr (out @ value_bytes (chunk_value c))"
proof -
  have "serialize_init_chunk v out = out @ serialize_init_chunk v []"
    "serialize_data_chunk d out = out @ serialize_data_chunk d []" for v d
    by (simp_all add: serialize_init_chunk_def serialize_data_chunk_def append16_def append32_def)
  then show ?thesis
    using assms unfolding chunk_ok_def chunk_typed_def
    by (cases "chunk_value c")
      (auto simp: serialize_chunk_body_def serialize_cookie_echo_chunk_def append32_def
        append_parameter_eq serialize_error_bytes serialize_sack_bytes simp del: value_bytes.simps(5))
qed

lemma length_chunk_bytes: "length (chunk_bytes c) = pad4 (4 + length (value_bytes (chunk_value c)))"
  using pad4_ge [of "4 + length (value_bytes (chunk_value c))"] by (simp add: chunk_bytes_def Let_def)

lemma serialize_chunk_eq:
  assumes "chunk_ok c"
  shows "serialize_chunk c out = Inr (out @ chunk_bytes c)"
proof -
  let ?b = "value_bytes (chunk_value c)"
  have len: "unat (of_nat (4 + length ?b) :: u16) = 4 + length ?b"
    using assms by (intro unat_of_nat_u16) (simp add: chunk_ok_def)
  have "serialize_chunk_body c (out @ [0, 0, 0, 0]) = Inr (out @ [0, 0, 0, 0] @ ?b)"
    using serialize_chunk_body_eq [OF assms, of "out @ [0, 0, 0, 0]"] by simp
  then show ?thesis
    using pad4_ge [of "4 + length ?b"] len
    by (simp add: serialize_chunk_def Let_def chunk_bytes_def mem16_htons list_update_append
        resize0_ge numeral_eq_Suc)
qed

lemma deserialize_value_bytes:
  assumes "value_typed t v" "value_ok f v"
  shows "bind_res (deserialize_chunk_value t (value_bytes v)) (take_data_flags t f) = Inr v"
proof (cases v)
  case (Data_Value d)
  then show ?thesis
    using assms by (simp add: deserialize_chunk_value_def take_data_flags_def deserialize_data_bytes)
qed (use assms in \<open>auto simp: deserialize_chunk_value_def take_data_flags_def deserialize_init_bytes
    deserialize_cookie_echo_chunk_def deserialize_shutdown_bytes deserialize_heartbeat_bytes
    deserialize_error_bytes deserialize_sack_bytes simp del: value_bytes.simps(5)\<close>)

text \<open>The header of an encoded chunk, and its body, as the loop of the parser sees them.\<close>

lemma chunk_bytes_header:
  assumes "chunk_ok c"
  shows "read8 (pre @ chunk_bytes c @ post) (length pre) = Inr (chunk_type c)"
    "read8 (pre @ chunk_bytes c @ post) (length pre + 1) = Inr (ch_flag (chunk_header c))"
    "read16 (pre @ chunk_bytes c @ post) (length pre + 2) =
      Inr (of_nat (4 + length (value_bytes (chunk_value c))))"
proof -
  let ?t = "chunk_type c" and ?f = "ch_flag (chunk_header c)" and ?b = "value_bytes (chunk_value c)"
  let ?rest = "?b @ replicate (pad4 (4 + length ?b) - (4 + length ?b)) 0 @ post"
  have eq: "pre @ chunk_bytes c @ post = pre @ ?t # ?f # mem16 (htons (of_nat (4 + length ?b))) @ ?rest"
    by (simp add: chunk_bytes_def Let_def)
  show "read8 (pre @ chunk_bytes c @ post) (length pre) = Inr ?t"
    unfolding eq by (rule read8_at)
  show "read8 (pre @ chunk_bytes c @ post) (length pre + 1) = Inr ?f"
    unfolding eq using read8_at [of "pre @ [?t]" ?f] by simp
  show "read16 (pre @ chunk_bytes c @ post) (length pre + 2) = Inr (of_nat (4 + length ?b))"
    unfolding eq using read16_at [of "pre @ [?t, ?f]" "of_nat (4 + length ?b)" ?rest]
    by (simp add: numeral_2_eq_2)
qed

lemma chunk_bytes_body:
  "take (length (value_bytes (chunk_value c))) (drop (length pre + 4) (pre @ chunk_bytes c @ post)) =
   value_bytes (chunk_value c)"
  by (simp add: chunk_bytes_def Let_def mem16_htons)

lemma deserialize_chunks_chunk:
  assumes "chunk_ok c"
  shows "deserialize_chunks (pre @ chunk_bytes c @ post) (length pre) out =
    deserialize_chunks (pre @ chunk_bytes c @ post) (length pre + length (chunk_bytes c))
      (out @ [with_wire_length c])"
proof -
  let ?b = "value_bytes (chunk_value c)" and ?d = "pre @ chunk_bytes c @ post"
  have len: "unat (of_nat (4 + length ?b) :: u16) = 4 + length ?b"
    using assms by (intro unat_of_nat_u16) (simp add: chunk_ok_def)
  have ge: "4 + length ?b \<le> pad4 (4 + length ?b)" by (rule pad4_ge)
  obtain v0 where v0: "deserialize_chunk_value (chunk_type c) ?b = Inr v0"
    "take_data_flags (chunk_type c) (ch_flag (chunk_header c)) v0 = Inr (chunk_value c)"
    using assms deserialize_value_bytes [of "chunk_type c" "chunk_value c" "ch_flag (chunk_header c)"]
    by (auto simp: chunk_ok_def chunk_typed_def res_simps)
  have after: "length pre + 4 + length ?b + (pad4 (4 + length ?b) - (4 + length ?b)) =
      length pre + length (chunk_bytes c)"
    using ge by (simp add: length_chunk_bytes)
  have fits: "4 \<le> length ?d - length pre" "length ?b \<le> length ?d - (length pre + 4)"
    "pad4 (4 + length ?b) - (4 + length ?b) \<le> length ?d - (length pre + 4 + length ?b)"
    using ge by (simp_all add: length_chunk_bytes)
  have wire: "with_wire_length c = \<lparr>chunk_header = \<lparr>ch_type = chunk_type c,
      ch_flag = ch_flag (chunk_header c), ch_length = of_nat (4 + length ?b)\<rparr>, chunk_value = chunk_value c\<rparr>"
    by (simp add: with_wire_length_def)
  have "length pre + 4 \<le> length ?d" "length pre + 4 + length ?b \<le> length ?d" using fits by linarith+
  then have header: "read_ptr ?d (length pre) 4 = Inr (take 4 (drop (length pre) ?d))"
    "read8 (take 4 (drop (length pre) ?d)) 0 = Inr (chunk_type c)"
    "read8 (take 4 (drop (length pre) ?d)) 1 = Inr (ch_flag (chunk_header c))"
    "read16 (take 4 (drop (length pre) ?d)) 2 = Inr (of_nat (4 + length ?b))"
    "read_ptr ?d (length pre + 4) (length ?b) = Inr ?b"
    using chunk_bytes_header [OF assms, of pre post] chunk_bytes_body [of c pre post]
      read_within_range(1) [of 0 4 "length pre" ?d] read_within_range(1) [of 1 4 "length pre" ?d]
      read_within_range(2) [of 2 4 "length pre" ?d]
    by (simp_all del: drop_append take_append)
  have "length pre < length ?d" "\<not> 4 + length ?b < 4" using fits(1) by linarith+
  then show ?thesis
    by (subst deserialize_chunks.simps)
      (simp only: header bind_res_Inr len Let_def v0 fits after
        add_diff_cancel_left' if_True if_False not_True_eq_False simp_thms wire)
qed

lemma deserialize_chunks_bytes:
  "list_all chunk_ok cs \<Longrightarrow>
   deserialize_chunks (pre @ concat (map chunk_bytes cs)) (length pre) out =
     Inr (out @ map with_wire_length cs)"
proof (induction cs arbitrary: pre out)
  case Nil
  then show ?case by (simp add: deserialize_chunks.simps)
next
  case (Cons c cs)
  have "deserialize_chunks (pre @ concat (map chunk_bytes (c # cs))) (length pre) out =
      deserialize_chunks ((pre @ chunk_bytes c) @ concat (map chunk_bytes cs)) (length (pre @ chunk_bytes c))
        (out @ [with_wire_length c])"
    using deserialize_chunks_chunk [of c pre "concat (map chunk_bytes cs)" out] Cons.prems by simp
  also have "\<dots> = Inr ((out @ [with_wire_length c]) @ map with_wire_length cs)"
    using Cons.prems by (intro Cons.IH) simp
  finally show ?case by simp
qed

lemma serialize_chunks_eq:
  "list_all chunk_ok cs \<Longrightarrow> serialize_chunks cs out = Inr (out @ concat (map chunk_bytes cs))"
  by (induction cs arbitrary: out) (simp_all add: serialize_chunk_eq)

subsection \<open>Round trips of packets\<close>

text \<open>The bytes before the chunks, with a given checksum field.\<close>

definition header_bytes :: "SCTP_Common_Header \<Rightarrow> u32 \<Rightarrow> bytes" where
  "header_bytes h crc =
     mem16 (htons (src_port h)) @ mem16 (htons (des_port h)) @ mem32 (htonl (verification_tag h)) @ mem32 crc"

definition packet_bytes :: "SCTP_Packet \<Rightarrow> u32 \<Rightarrow> bytes" where
  "packet_bytes pkt crc = header_bytes (pkt_header pkt) crc @ concat (map chunk_bytes (pkt_chunks pkt))"

lemma length_header_bytes [simp]: "length (header_bytes h crc) = 12"
  by (simp add: header_bytes_def)

lemma mem32_zero: "mem32 0 = [0, 0, 0, 0]"
  by (simp add: mem32_def)

lemma write_checksum_header:
  "write_checksum_le (header_bytes h s @ rest) 8 crc = header_bytes h crc @ rest"
  by (simp add: write_checksum_le_def header_bytes_def mem16_def mem32_def numeral_eq_Suc)

lemma clear_checksum_header:
  "sctp_clear_wire_checksum (header_bytes h crc @ rest) = header_bytes h 0 @ rest"
  by (simp add: sctp_clear_wire_checksum_def header_bytes_def mem16_def mem32_def numeral_eq_Suc)

lemma read_checksum_header: "read_checksum_le (header_bytes h crc @ rest) 8 = Inr crc"
proof -
  have "read_checksum_le (header_bytes h crc @ rest) 8 =
      Inr (load32 (ucast crc) (ucast (drop_bit 8 crc)) (ucast (drop_bit 16 crc)) (ucast (drop_bit 24 crc)))"
    by (simp add: read_checksum_le_def header_bytes_def mem16_def mem32_def load32_def numeral_eq_Suc)
  then show ?thesis by (simp add: load32_mem32)
qed

lemma serialize_packet_eq:
  assumes "list_all chunk_ok (pkt_chunks pkt)"
  shows "serialize_sctp_packet pkt =
    Inr (packet_bytes pkt (calculate_sctp_checksum (packet_bytes pkt 0)))"
proof -
  have "append32 (append32 (append16 (append16 [] (src_port h)) (des_port h)) (verification_tag h)) 0 =
      header_bytes h 0" for h
    by (simp add: append16_def append32_def header_bytes_def mem32_htonl mem32_zero)
  then show ?thesis
    using assms by (simp add: serialize_sctp_packet_def Let_def serialize_chunks_eq packet_bytes_def
        write_checksum_header)
qed

lemma deserialize_packet_bytes:
  assumes "list_all chunk_ok (pkt_chunks pkt)"
  shows "deserialize_sctp_packet (packet_bytes pkt crc) =
    Inr \<lparr>pkt_header = (pkt_header pkt)\<lparr>hdr_checksum := crc\<rparr>,
         pkt_chunks = map with_wire_length (pkt_chunks pkt)\<rparr>"
proof -
  let ?h = "pkt_header pkt" and ?r = "concat (map chunk_bytes (pkt_chunks pkt))"
  have "read16 (header_bytes ?h crc) 0 = Inr (src_port ?h)"
    "read16 (header_bytes ?h crc) 2 = Inr (des_port ?h)"
    "read32 (header_bytes ?h crc) 4 = Inr (verification_tag ?h)"
    "read_checksum_le (header_bytes ?h crc) 8 = Inr crc"
    using read_checksum_header [of ?h crc "[]"] read16_at [of "[]" "src_port ?h"] read16_at [of "mem16 (htons (src_port ?h))" "des_port ?h"]
      read32_at [of "mem16 (htons (src_port ?h)) @ mem16 (htons (des_port ?h))" "verification_tag ?h"]
    by (simp_all add: header_bytes_def)
  moreover have "deserialize_chunks (header_bytes ?h crc @ ?r) 12 [] = Inr (map with_wire_length (pkt_chunks pkt))"
    using deserialize_chunks_bytes [OF assms, of "header_bytes ?h crc" "[]"] by simp
  ultimately show ?thesis
    by (simp add: deserialize_sctp_packet_def packet_bytes_def)
qed

lemma wire_checksum_packet_bytes:
  "sctp_read_wire_checksum (packet_bytes pkt crc) = Inr crc"
  "sctp_clear_wire_checksum (packet_bytes pkt crc) = packet_bytes pkt 0"
  by (simp_all add: sctp_read_wire_checksum_def packet_bytes_def read_checksum_header clear_checksum_header)

subsection \<open>A serializer only appends\<close>

lemma append_parameter_appends: "append_parameter out type v = Inr out' \<Longrightarrow> \<exists>x. out' = out @ x"
  by (auto simp: append_parameter_def append16_def Let_def split: if_splits)

lemma serialize_error_appends: "serialize_error_chunk cs out = Inr out' \<Longrightarrow> \<exists>x. out' = out @ x"
proof (induction cs arbitrary: out)
  case (Cons c cs)
  then obtain mid where "append_parameter out (cause_code c) (cause_info c) = Inr mid"
    "serialize_error_chunk cs mid = Inr out'" by (auto simp: res_simps)
  then show ?case using Cons.IH append_parameter_appends by fastforce
qed simp

lemma serialize_gap_appends: "serialize_gap_ack_blocks bs out = Inr out' \<Longrightarrow> \<exists>x. out' = out @ x"
  by (induction bs arbitrary: out) (fastforce simp: append16_def split: if_splits)+

lemma serialize_sack_appends: "serialize_sack_chunk v out = Inr out' \<Longrightarrow> \<exists>x. out' = out @ x"
  by (fastforce simp: serialize_sack_chunk_def append16_def append32_def foldl_append32 res_simps
      split: if_splits dest: serialize_gap_appends)

lemmas serialize_appends =
  append_parameter_appends serialize_error_appends serialize_sack_appends

lemma serialize_chunk_body_appends: "serialize_chunk_body c out = Inr out' \<Longrightarrow> \<exists>x. out' = out @ x"
  by (auto simp: serialize_chunk_body_def Let_def serialize_init_chunk_def serialize_data_chunk_def
      serialize_cookie_echo_chunk_def append16_def append32_def
      split: if_splits Chunk_Value_Type.splits dest: serialize_appends)

lemma resize0_append: "resize0 (length xs + n) (xs @ ys) = xs @ resize0 n ys"
  by (simp add: resize0_def)

lemma serialize_chunk_appends:
  assumes "serialize_chunk c out = Inr out'"
  shows "\<exists>x. out' = out @ x"
proof -
  obtain x where "serialize_chunk_body c (out @ replicate 4 0) = Inr (out @ replicate 4 0 @ x)"
    using assms serialize_chunk_body_appends [of c "out @ replicate 4 0"]
    by (auto simp: serialize_chunk_def Let_def res_simps)
  then show ?thesis
    using assms by (auto simp: serialize_chunk_def Let_def list_update_append resize0_append)
qed

lemma serialize_chunks_appends: "serialize_chunks cs out = Inr out' \<Longrightarrow> \<exists>x. out' = out @ x"
proof (induction cs arbitrary: out)
  case (Cons c cs)
  then obtain mid where "serialize_chunk c out = Inr mid" "serialize_chunks cs mid = Inr out'"
    by (auto simp: res_simps)
  then show ?case using Cons.IH serialize_chunk_appends by fastforce
qed simp

subsection \<open>Parameter lists\<close>

text \<open>
  A list of parameters as the sender means it, and what RFC 9260 3.2.1 says a receiver does with
  it: the type's highest bit decides whether the walk goes on after an unknown parameter, the
  next bit whether it is reported.
\<close>

definition params_bytes :: "(u16 \<times> bytes) list \<Rightarrow> bytes" where
  "params_bytes ps = concat (map (\<lambda>(t, v). param_bytes t v) ps)"

fun scan_spec :: "u16 list \<Rightarrow> (u16 \<times> bytes) list \<Rightarrow> (u16 \<times> bytes) list \<times> (u16 \<times> bytes) list" where
  "scan_spec known [] = ([], [])"
| "scan_spec known ((t, v) # ps) =
     (if t \<in> set known then (case scan_spec known ps of (k, r) \<Rightarrow> ((t, v) # k, r))
      else let here = (if bit t 14 then [(t, v)] else [])
           in if bit t 15 then (case scan_spec known ps of (k, r) \<Rightarrow> (k, here @ r)) else ([], here))"

lemma and_0x4000: "t AND 0x4000 \<noteq> 0 \<longleftrightarrow> bit t 14" for t :: u16
  using and_exp_eq_0_iff_not_bit [of t 14] by simp

lemma and_0x8000: "t AND 0x8000 = 0 \<longleftrightarrow> \<not> bit t 15" for t :: u16
  using and_exp_eq_0_iff_not_bit [of t 15] by simp

lemma params_bytes_Cons: "params_bytes ((t, v) # ps) = param_bytes t v @ params_bytes ps"
  by (simp add: params_bytes_def)

lemma param_resize: "resize0 (pad4 (4 + length v)) (take (4 + length v) (param_bytes t v)) = param_bytes t v"
proof -
  let ?x = "mem16 (htons t) @ mem16 (htons (of_nat (4 + length v))) @ v"
  have "length ?x = 4 + length v" by simp
  then have "take (4 + length v) (param_bytes t v) = ?x"
    using append_eq_conv_conj [of ?x] by (metis append_assoc param_bytes_def)
  then show ?thesis
    using pad4_ge [of "4 + length v"] by (simp add: resize0_ge param_bytes_def)
qed

lemma scan_parameters_at_spec:
  "list_all (\<lambda>(t, v). param_fits v) ps \<Longrightarrow>
   scan_parameters_at (pre @ params_bytes ps) known (length pre) scan =
     (case scan_spec known ps of (k, r) \<Rightarrow>
        Inr \<lparr>recognized = recognized scan @ params_bytes k,
             reported = reported scan @ map (\<lambda>(t, v). param_bytes t v) r\<rparr>)"
proof (induction ps arbitrary: pre scan)
  case Nil
  then show ?case by (simp add: params_bytes_def scan_parameters_at.simps)
next
  case (Cons p ps)
  obtain t v where p: "p = (t, v)" by (cases p)
  let ?b = "param_bytes t v" and ?post = "params_bytes ps"
  let ?d = "pre @ ?b @ ?post"
  have fits: "param_fits v" using Cons.prems p by simp
  have ge: "4 + length v \<le> pad4 (4 + length v)" by (rule pad4_ge)
  obtain len where rd: "read16 ?d (length pre) = Inr t" "read16 ?d (length pre + 2) = Inr len"
    "unat len = 4 + length v"
    by (rule param_header [OF fits, of pre t ?post])
  have IH: "scan_parameters_at ?d known (length pre + pad4 (4 + length v)) scan' =
     (case scan_spec known ps of (k, r) \<Rightarrow>
        Inr \<lparr>recognized = recognized scan' @ params_bytes k,
             reported = reported scan' @ map (\<lambda>(t, v). param_bytes t v) r\<rparr>)" for scan'
    using Cons.IH [of "pre @ ?b" scan'] Cons.prems by simp
  have tlv: "take (min (pad4 (4 + length v)) (length ?d - length pre)) (drop (length pre) ?d) = ?b"
    by simp
  have "scan_parameters_at ?d known (length pre) scan =
      (if t \<in> set known
       then scan_parameters_at ?d known (length pre + pad4 (4 + length v)) (scan\<lparr>recognized := recognized scan @ ?b\<rparr>)
       else let scan' = (if bit t 14 then scan\<lparr>reported := reported scan @ [?b]\<rparr> else scan)
            in if \<not> bit t 15 then Inr scan'
               else scan_parameters_at ?d known (length pre + pad4 (4 + length v)) scan')"
    using ge by (subst scan_parameters_at.simps)
      (simp add: rd Let_def and_0x4000 and_0x8000 tlv param_resize)
  also have "\<dots> = (case scan_spec known (p # ps) of (k, r) \<Rightarrow>
        Inr \<lparr>recognized = recognized scan @ params_bytes k,
             reported = reported scan @ map (\<lambda>(t, v). param_bytes t v) r\<rparr>)"
    by (auto simp: p IH Let_def params_bytes_Cons split: prod.splits)
      (auto simp: params_bytes_def)
  finally show ?case by (simp add: p params_bytes_Cons)
qed

subsection \<open>The packet codec\<close>

text \<open>What the receiver sees of a packet: the checksum field filled in and each chunk's length as it was written.\<close>

definition on_wire :: "SCTP_Packet \<Rightarrow> SCTP_Packet" where
  "on_wire pkt = \<lparr>pkt_header = (pkt_header pkt)\<lparr>hdr_checksum := calculate_sctp_checksum (packet_bytes pkt 0)\<rparr>,
     pkt_chunks = map with_wire_length (pkt_chunks pkt)\<rparr>"

interpretation packets: codec serialize_sctp_packet deserialize_sctp_packet "\<lambda>pkt. list_all chunk_ok (pkt_chunks pkt)" on_wire
  by unfold_locales (auto simp: serialize_packet_eq deserialize_packet_bytes on_wire_def)

subsection \<open>Properties\<close>

text \<open>C26: Parsing is memory safe for every input, however malformed: it never reads a field or copies a range
  outside the datagram or a chunk body (such an access yields \<open>Out_Of_Bounds\<close>) and never asks a chunk body for an alternative it does not
  hold. It either throws one of
  the format errors or returns chunks whose body is the alternative their type selects.\<close>

theorem deserialize_packet_safe:
  "case deserialize_sctp_packet data of
     Inl e \<Rightarrow> e \<noteq> Out_Of_Bounds \<and> e \<noteq> Bad_Variant_Access
   | Inr pkt \<Rightarrow> list_all chunk_typed (pkt_chunks pkt)"
  using deserialize_sctp_packet_safe [of data] deserialize_chunks_sound [of data 12 "[]"]
  by (auto simp: parse_safe_def deserialize_sctp_packet_def res_simps split: sum.splits if_splits)

text \<open>C25: Round trip of packets: a packet whose chunks fit the wire format is serialized without
  error, and parsing the bytes gives back the same packet, with the checksum field filled in
  and each chunk's length field as it was written.\<close>

theorem packet_roundtrip:
  assumes "list_all chunk_ok (pkt_chunks pkt)"
  shows "bind_res (serialize_sctp_packet pkt) deserialize_sctp_packet =
    Inr \<lparr>pkt_header = (pkt_header pkt)\<lparr>hdr_checksum := calculate_sctp_checksum (packet_bytes pkt 0)\<rparr>,
         pkt_chunks = map with_wire_length (pkt_chunks pkt)\<rparr>"
  using packets.codec_roundtrip [OF assms] by (simp add: on_wire_def)

definition example_packet :: SCTP_Packet where
  "example_packet =
     \<lparr>pkt_header = \<lparr>src_port = 5000, des_port = 5001, verification_tag = 0xDEADBEEF, hdr_checksum = 0\<rparr>,
      pkt_chunks =
        [\<lparr>chunk_header = \<lparr>ch_type = SACK, ch_flag = 0, ch_length = 0\<rparr>,
          chunk_value = Sack_Value \<lparr>sack_cumulative_tsn_ack = 10, sack_a_rwnd = 65535,
            number_of_gap_ack_blocks = 1, number_of_duplicate_tsns = 1,
            gap_ack_blocks = [\<lparr>gap_start = 2, gap_end = 3\<rparr>], sack_duplicate_tsns = [9]\<rparr>\<rparr>,
         \<lparr>chunk_header = \<lparr>ch_type = DATA, ch_flag = 3, ch_length = 0\<rparr>,
          chunk_value = Data_Value \<lparr>data_tsn = 7, stream_identifier = 1, stream_seq_num = 4,
            payload_protocal = 0, user_data = [1, 2, 3, 4, 5], data_flags = 3\<rparr>\<rparr>]\<rparr>"

lemma example_packet_ok: "list_all chunk_ok (pkt_chunks example_packet)"
  by (simp add: example_packet_def chunk_ok_def chunk_typed_def sack_ok_def serialize_data_chunk_def
      append16_def append32_def)

theorem packet_roundtrip_witness:
  "list_all chunk_ok (pkt_chunks example_packet) \<and>
   map (\<lambda>c. ch_length (chunk_header c)) (map with_wire_length (pkt_chunks example_packet)) = [24, 21] \<and>
   bind_res (serialize_sctp_packet example_packet) deserialize_sctp_packet =
    Inr \<lparr>pkt_header = (pkt_header example_packet)
           \<lparr>hdr_checksum := calculate_sctp_checksum (packet_bytes example_packet 0)\<rparr>,
         pkt_chunks = map with_wire_length (pkt_chunks example_packet)\<rparr>"
  using example_packet_ok packet_roundtrip [OF example_packet_ok]
  by (simp add: example_packet_def with_wire_length_def serialize_data_chunk_def append16_def append32_def)

text \<open>Whatever packet the serializer accepts, the receiver's integrity check passes on its bytes:
  the checksum field read from the wire equals the checksum of the packet with that field cleared.\<close>

theorem serialized_checksum_verifies:
  assumes "serialize_sctp_packet pkt = Inr data"
  shows "sctp_read_wire_checksum data = Inr (calculate_sctp_checksum (sctp_clear_wire_checksum data))"
proof -
  let ?h = "pkt_header pkt"
  have "append32 (append32 (append16 (append16 [] (src_port ?h)) (des_port ?h)) (verification_tag ?h)) 0 =
      header_bytes ?h 0"
    by (simp add: append16_def append32_def header_bytes_def mem32_htonl mem32_zero)
  then obtain rest where "data = write_checksum_le (header_bytes ?h 0 @ rest) 8
      (calculate_sctp_checksum (header_bytes ?h 0 @ rest))"
    using assms by (auto simp: serialize_sctp_packet_def Let_def res_simps dest: serialize_chunks_appends)
  then show ?thesis
    by (simp add: write_checksum_header clear_checksum_header sctp_read_wire_checksum_def read_checksum_header)
qed

theorem serialized_checksum_verifies_witness:
  "\<exists>data. serialize_sctp_packet example_packet = Inr data \<and>
     sctp_read_wire_checksum data = Inr (calculate_sctp_checksum (sctp_clear_wire_checksum data))"
  using serialized_checksum_verifies serialize_packet_eq [OF example_packet_ok] by blast

text \<open>C28: On a list of well-formed parameters the scan does what RFC 9260 3.2.1 prescribes: it keeps
  the known parameters, reports the unknown ones whose type has bit 14 set, goes on after an unknown one
  only when bit 15 is set, and reproduces the parameters byte for byte with their padding.\<close>

theorem scan_parameters_rfc:
  assumes "list_all (\<lambda>(t, v). param_fits v) ps"
  shows "scan_parameters (params_bytes ps) known =
    (case scan_spec known ps of (k, r) \<Rightarrow>
       Inr \<lparr>recognized = params_bytes k, reported = map (\<lambda>(t, v). param_bytes t v) r\<rparr>)"
  using scan_parameters_at_spec [OF assms, of "[]" known "\<lparr>recognized = [], reported = []\<rparr>"]
  by (simp add: scan_parameters_def)

theorem scan_parameters_rfc_witness:
  "scan_parameters (params_bytes [(7, [1, 2]), (0xC001, [9]), (5, [1, 2, 3, 4]), (0x4002, []), (7, [])]) [5, 7] =
     Inr \<lparr>recognized = params_bytes [(7, [1, 2]), (5, [1, 2, 3, 4])],
          reported = [param_bytes 0xC001 [9], param_bytes 0x4002 []]\<rparr>"
proof -
  have "list_all (\<lambda>(t::u16, v). param_fits v)
      [(7, [1, 2]), (0xC001, [9]), (5, [1, 2, 3, 4]), (0x4002, []), (7, [])]"
    by (simp add: param_fits_def)
  from scan_parameters_rfc [OF this, of "[5, 7]"] show ?thesis by simp
qed

end
