(* ===== verification/State_Cookie_Codec.thy ===== *)
theory State_Cookie_Codec
  imports Wire_Codec
begin

text \<open>
  The state cookie of \<open>src/serialize.cpp\<close>: \<open>serialize_state_cookie\<close> and
  \<open>deserialize_state_cookie\<close>. The cookie's MAC is an array of 32 bytes in the source; here it is a
  list, and \<open>cookie_ok\<close> says that it has that length, that the version is the one the parser accepts and that
  the address count fits its 16-bit field. The two functions are inverse in both directions, but for the two reserved bytes.
\<close>

subsection \<open>The code\<close>

text \<open>The fixed part of the cookie, up to the check of its size.\<close>

definition serialize_cookie_fields :: "State_Cookie \<Rightarrow> bytes" where
  "serialize_cookie_fields cookie =
     (let out = [ck_version cookie, secret_generation cookie];
          out = append16 out 0;
          out = append32 out (ucast (drop_bit 32 (created_us cookie)));
          out = append32 out (ucast (created_us cookie));
          out = append32 out (lifespan_us cookie);
          out = append16 out (sctp_src_port cookie);
          out = append16 out (sctp_dst_port cookie);
          out = append32 out (peer_ipv4 cookie);
          out = append16 out (peer_udp_port cookie);
          out = append16 out (of_nat (length (ck_peer_addresses cookie)));
          out = append32 out (local_ver_tag cookie);
          out = append32 out (ck_peer_ver_tag cookie);
          out = append32 out (local_initial_tsn cookie);
          out = append32 out (peer_initial_tsn cookie);
          out = append32 out (peer_a_rwnd cookie);
          out = append16 out (local_out_streams cookie);
          out = append16 out (local_in_streams cookie);
          out = append16 out (peer_out_streams cookie);
          out = append16 out (peer_in_streams cookie);
          out = append32 out (ck_local_tie_tag cookie);
          out = append32 out (ck_peer_tie_tag cookie)
      in out)"

definition serialize_state_cookie :: "State_Cookie \<Rightarrow> bytes res" where
  "serialize_state_cookie cookie =
     (let out = serialize_cookie_fields cookie in
      if length out \<noteq> STATE_COOKIE_BODY_SIZE then Inl State_Cookie_Body_Size
      else Inr (foldl append32 out (ck_peer_addresses cookie) @ mac cookie))"

text \<open>The loop that reads the addresses is the one that reads a SACK's duplicate TSNs:
  successive four-byte integers.\<close>

definition deserialize_state_cookie :: "bytes \<Rightarrow> State_Cookie option res" where
  "deserialize_state_cookie data =
     (if length data < STATE_COOKIE_SIZE then Inr None
      else
        bind_res (read16 data 26) (\<lambda>count.
        bind_res (read8 data 0) (\<lambda>version.
        if version \<noteq> STATE_COOKIE_VERSION \<or> length data \<noteq> STATE_COOKIE_SIZE + 4 * unat count then Inr None
        else
          bind_res (read8 data 1) (\<lambda>generation.
          bind_res (read32 data 4) (\<lambda>created_high.
          bind_res (read32 data 8) (\<lambda>created_low.
          bind_res (read32 data 12) (\<lambda>lifespan.
          bind_res (read16 data 16) (\<lambda>source_port.
          bind_res (read16 data 18) (\<lambda>destination_port.
          bind_res (read32 data 20) (\<lambda>ipv4.
          bind_res (read16 data 24) (\<lambda>udp_port.
          bind_res (read32 data 28) (\<lambda>local_tag.
          bind_res (read32 data 32) (\<lambda>peer_tag.
          bind_res (read32 data 36) (\<lambda>local_tsn.
          bind_res (read32 data 40) (\<lambda>peer_tsn.
          bind_res (read32 data 44) (\<lambda>rwnd.
          bind_res (read16 data 48) (\<lambda>local_outs.
          bind_res (read16 data 50) (\<lambda>local_ins.
          bind_res (read16 data 52) (\<lambda>peer_outs.
          bind_res (read16 data 54) (\<lambda>peer_ins.
          bind_res (read32 data 56) (\<lambda>local_tie.
          bind_res (read32 data 60) (\<lambda>peer_tie.
          bind_res (read_duplicate_tsns data STATE_COOKIE_BODY_SIZE (unat count)) (\<lambda>addresses.
          bind_res (read_range data (length data - STATE_COOKIE_MAC_SIZE) STATE_COOKIE_MAC_SIZE) (\<lambda>tail.
            Inr (Some \<lparr>ck_version = version, secret_generation = generation,
              created_us = push_bit 32 (ucast created_high) OR ucast created_low,
              lifespan_us = lifespan, sctp_src_port = source_port, sctp_dst_port = destination_port,
              peer_ipv4 = ipv4, peer_udp_port = udp_port, local_ver_tag = local_tag,
              ck_peer_ver_tag = peer_tag, local_initial_tsn = local_tsn,
              peer_initial_tsn = peer_tsn, peer_a_rwnd = rwnd,
              local_out_streams = local_outs, local_in_streams = local_ins,
              peer_out_streams = peer_outs, peer_in_streams = peer_ins,
              ck_local_tie_tag = local_tie, ck_peer_tie_tag = peer_tie,
              ck_peer_addresses = addresses,
              mac = tail\<rparr>)))))))))))))))))))))))))"

subsection \<open>Well-formed cookies\<close>

definition cookie_ok :: "State_Cookie \<Rightarrow> bool" where
  "cookie_ok c \<longleftrightarrow>
     ck_version c = STATE_COOKIE_VERSION \<and> length (mac c) = STATE_COOKIE_MAC_SIZE \<and>
     length (ck_peer_addresses c) \<le> UINT16_MAX"

lemma length_cookie_fields [simp]: "length (serialize_cookie_fields c) = 64"
  by (simp add: serialize_cookie_fields_def Let_def append16_def append32_def)

lemma serialize_state_cookie_eq:
  "serialize_state_cookie c = Inr (serialize_cookie_fields c @ tsn_bytes (ck_peer_addresses c) @ mac c)"
  by (simp add: serialize_state_cookie_def Let_def foldl_append32)

lemma created_us_split: "push_bit 32 (ucast (ucast (drop_bit 32 t) :: u32)) OR ucast (ucast t :: u32) = t"
  for t :: u64
  by (rule bit_word_eqI) (auto simp: bit_simps)

text \<open>A field read back from the fixed part, whatever follows it.\<close>

lemma cookie_fields_read:
  fixes c rest
  defines "d \<equiv> serialize_cookie_fields c @ rest"
  shows "read8 d 0 = Inr (ck_version c)" "read8 d 1 = Inr (secret_generation c)"
    "read32 d 4 = Inr (ucast (drop_bit 32 (created_us c)))" "read32 d 8 = Inr (ucast (created_us c))"
    "read32 d 12 = Inr (lifespan_us c)" "read16 d 16 = Inr (sctp_src_port c)"
    "read16 d 18 = Inr (sctp_dst_port c)" "read32 d 20 = Inr (peer_ipv4 c)"
    "read16 d 24 = Inr (peer_udp_port c)" "read16 d 26 = Inr (of_nat (length (ck_peer_addresses c)))"
    "read32 d 28 = Inr (local_ver_tag c)" "read32 d 32 = Inr (ck_peer_ver_tag c)"
    "read32 d 36 = Inr (local_initial_tsn c)" "read32 d 40 = Inr (peer_initial_tsn c)"
    "read32 d 44 = Inr (peer_a_rwnd c)" "read16 d 48 = Inr (local_out_streams c)"
    "read16 d 50 = Inr (local_in_streams c)" "read16 d 52 = Inr (peer_out_streams c)"
    "read16 d 54 = Inr (peer_in_streams c)" "read32 d 56 = Inr (ck_local_tie_tag c)"
    "read32 d 60 = Inr (ck_peer_tie_tag c)"
  unfolding d_def
  by (simp_all add: read8_def read16_def read32_def serialize_cookie_fields_def Let_def append16_def append32_def
      mem16_htons mem32_htonl htons_load16 htonl_load32 load16_mem16 load32_mem32)

lemma deserialize_state_cookie_safe: "parse_safe (deserialize_state_cookie data)"
  unfolding deserialize_state_cookie_def
  by (auto intro!: parse_safe_bind parse_safe_read read_duplicate_tsns_safe)

lemma read_duplicate_tsns_total:
  "offset + 4 * n \<le> length data \<Longrightarrow> \<exists>ts. read_duplicate_tsns data offset n = Inr ts \<and> length ts = n"
proof (induction n arbitrary: offset)
  case (Suc n)
  obtain ts where "read_duplicate_tsns data (offset + 4) n = Inr ts" "length ts = n"
    using Suc.IH [of "offset + 4"] Suc.prems by auto
  then show ?case using Suc.prems by (simp add: read32_def)
qed simp

lemma reads_in:
  "i < length p \<Longrightarrow> read8 p i = Inr (p ! i)"
  "i + 2 \<le> length p \<Longrightarrow> read16 p i = Inr (ntohs (load16 (p ! i) (p ! (i + 1))))"
  "i + 4 \<le> length p \<Longrightarrow> read32 p i = Inr (ntohl (load32 (p ! i) (p ! (i + 1)) (p ! (i + 2)) (p ! (i + 3))))"
  by (simp_all add: read8_def read16_def read32_def)

lemma cookie_roundtrip:
  assumes "cookie_ok c"
  shows "\<exists>data. serialize_state_cookie c = Inr data \<and>
    length data = STATE_COOKIE_SIZE + 4 * length (ck_peer_addresses c) \<and>
    deserialize_state_cookie data = Inr (Some c)"
proof -
  let ?d = "serialize_cookie_fields c @ tsn_bytes (ck_peer_addresses c) @ mac c"
  have count: "unat (of_nat (length (ck_peer_addresses c)) :: u16) = length (ck_peer_addresses c)"
    using assms by (intro unat_of_nat_u16) (simp add: cookie_ok_def)
  have len: "length ?d = 96 + 4 * length (ck_peer_addresses c)"
    using assms by (simp add: cookie_ok_def)
  have addresses: "read_duplicate_tsns ?d 64 (length (ck_peer_addresses c)) = Inr (ck_peer_addresses c)"
    using read_tsn_bytes_at [of "serialize_cookie_fields c" "ck_peer_addresses c" "mac c"] by simp
  have mac: "take 32 (drop (length ?d - 32) ?d) = mac c"
    using assms by (simp add: cookie_ok_def)
  have "deserialize_state_cookie ?d = Inr (Some c)"
    using assms unfolding deserialize_state_cookie_def cookie_fields_read bind_res_Inr count mac addresses len
    by (simp add: cookie_ok_def created_us_split)
  then show ?thesis using len by (simp add: serialize_state_cookie_eq)
qed

lemma state_cookie_exact:
  "case deserialize_state_cookie data of
     Inl e \<Rightarrow> False
   | Inr None \<Rightarrow> True
   | Inr (Some c) \<Rightarrow> cookie_ok c \<and> length data = STATE_COOKIE_SIZE + 4 * length (ck_peer_addresses c)"
proof (cases "length data < 96")
  case False
  obtain count where count: "read16 data 26 = Inr count" using False by (simp add: read16_def)
  show ?thesis
  proof (cases "data ! 0 = 1 \<and> length data = 96 + 4 * unat count")
    case True
    obtain ts where "read_duplicate_tsns data 64 (unat count) = Inr ts" "length ts = unat count"
      using True read_duplicate_tsns_total [of 64 "unat count" data] by auto
    then show ?thesis
      using True count unat_u16_less [of count]
      by (simp add: deserialize_state_cookie_def reads_in(1,3) reads_in(2) [of 16] reads_in(2) [of 18]
          reads_in(2) [of 24] reads_in(2) [of 48] reads_in(2) [of 50] reads_in(2) [of 52] reads_in(2) [of 54]
          cookie_ok_def)
  next
    case mismatch: False
    have "read8 data 0 = Inr (data ! 0)" using False by (intro reads_in) linarith
    then show ?thesis using False count mismatch by (auto simp: deserialize_state_cookie_def)
  qed
qed (simp add: deserialize_state_cookie_def)

interpretation cookies: codec serialize_state_cookie deserialize_state_cookie cookie_ok Some
  using cookie_roundtrip by unfold_locales fastforce+

subsection \<open>Parsing a cookie loses nothing but two reserved bytes\<close>

lemma take_drop_join: "take n (drop i p) @ take m (drop (i + n) p) = take (n + m) (drop i p)"
  by (simp add: take_add add.commute [of i n])

lemma take_drop_2: "i + 2 \<le> length p \<Longrightarrow> take 2 (drop i p) = [p ! i, p ! (i + 1)]"
  by (rule nth_equalityI) (auto simp: less_Suc_eq numeral_eq_Suc)

lemma take_drop_4: "i + 4 \<le> length p \<Longrightarrow> take 4 (drop i p) = [p ! i, p ! (i + 1), p ! (i + 2), p ! (i + 3)]"
  by (rule nth_equalityI) (auto simp: less_Suc_eq numeral_eq_Suc)

lemma read16_bytes: "read16 p i = Inr v \<Longrightarrow> mem16 (htons v) = take 2 (drop i p)"
  by (auto simp: read16_def htons_load16 take_drop_2 split: if_splits)

lemma read32_bytes: "read32 p i = Inr v \<Longrightarrow> mem32 (htonl v) = take 4 (drop i p)"
  by (auto simp: read32_def htonl_load32 take_drop_4 split: if_splits)

lemma mem16_zero: "mem16 (htons 0) = [0, 0]"
  by (simp add: mem16_htons)

lemma read_tsns_bytes: "read_duplicate_tsns p i n = Inr ts \<Longrightarrow> tsn_bytes ts = take (4 * n) (drop i p)"
proof (induction n arbitrary: i ts)
  case (Suc n)
  then obtain t rest where t: "read32 p i = Inr t" "read_duplicate_tsns p (i + 4) n = Inr rest" "ts = t # rest"
    by (auto simp: res_simps)
  have "tsn_bytes ts = take 4 (drop i p) @ take (4 * n) (drop (i + 4) p)"
    using Suc.IH [OF t(2)] read32_bytes [OF t(1)] by (simp add: t(3) tsn_bytes_def)
  then show ?case by (simp only: take_drop_join) simp
qed (simp add: tsn_bytes_def)

lemma created_us_parts:
  "ucast (drop_bit 32 (push_bit 32 (ucast h)) OR drop_bit 32 (ucast l) :: u64) = h" "ucast (push_bit 32 (ucast h) OR ucast l :: u64) = l"
  for h l :: u32
  by (rule bit_word_eqI; auto simp: bit_simps dest: bit_imp_le_length)+

lemma take_drop_split: "take (n + m) (drop i p) = take n (drop i p) @ take m (drop (i + n) p)"
  by (simp add: take_drop_join)

lemma cookie_field_slices:
  "take 60 (drop 4 p) =
     take 4 (drop 4 p) @ take 4 (drop 8 p) @ take 4 (drop 12 p) @ take 2 (drop 16 p) @ take 2 (drop 18 p) @ take 4 (drop 20
     p) @ take 2 (drop 24 p) @ take 2 (drop 26 p) @ take 4 (drop 28 p) @ take 4 (drop 32 p) @ take 4 (drop 36 p) @ take 4
     (drop 40 p) @ take 4 (drop 44 p) @ take 2 (drop 48 p) @ take 2 (drop 50 p) @ take 2 (drop 52 p) @ take 2 (drop 54 p) @
     take 4 (drop 56 p) @ take 4 (drop 60 p)"
  using take_drop_split [of 4 56 4 p] take_drop_split [of 4 52 8 p] take_drop_split [of 4 48 12 p] take_drop_split [of 2 46 16 p]
    take_drop_split [of 2 44 18 p] take_drop_split [of 4 40 20 p] take_drop_split [of 2 38 24 p] take_drop_split [of 2 36 26 p]
    take_drop_split [of 4 32 28 p] take_drop_split [of 4 28 32 p] take_drop_split [of 4 24 36 p] take_drop_split [of 4 20 40 p]
    take_drop_split [of 4 16 44 p] take_drop_split [of 2 14 48 p] take_drop_split [of 2 12 50 p] take_drop_split [of 2 10 52 p]
    take_drop_split [of 2 8 54 p] take_drop_split [of 4 4 56 p]
  by simp

text \<open>The bytes of each field, from the field that was read.\<close>

lemma parsed_cookie_reads:
  assumes "deserialize_state_cookie data = Inr (Some c)"
  shows "read8 data 0 = Inr (ck_version c) \<and> read8 data 1 = Inr (secret_generation c) \<and>
    read32 data 4 = Inr (ucast (drop_bit 32 (created_us c))) \<and> read32 data 8 = Inr (ucast (created_us c)) \<and>
    read32 data 12 = Inr (lifespan_us c) \<and> read16 data 16 = Inr (sctp_src_port c) \<and> read16 data 18 = Inr (sctp_dst_port c) \<and>
    read32 data 20 = Inr (peer_ipv4 c) \<and> read16 data 24 = Inr (peer_udp_port c) \<and>
    read16 data 26 = Inr (of_nat (length (ck_peer_addresses c))) \<and> read32 data 28 = Inr (local_ver_tag c) \<and>
    read32 data 32 = Inr (ck_peer_ver_tag c) \<and> read32 data 36 = Inr (local_initial_tsn c) \<and>
    read32 data 40 = Inr (peer_initial_tsn c) \<and> read32 data 44 = Inr (peer_a_rwnd c) \<and>
    read16 data 48 = Inr (local_out_streams c) \<and> read16 data 50 = Inr (local_in_streams c) \<and>
    read16 data 52 = Inr (peer_out_streams c) \<and> read16 data 54 = Inr (peer_in_streams c) \<and>
    read32 data 56 = Inr (ck_local_tie_tag c) \<and> read32 data 60 = Inr (ck_peer_tie_tag c) \<and>
    read_duplicate_tsns data 64 (length (ck_peer_addresses c)) = Inr (ck_peer_addresses c) \<and> mac c = drop (length data - 32) data"
proof -
  have len: "96 \<le> length data" using state_cookie_exact [of data] assms by simp
  obtain count where count: "read16 data 26 = Inr count" using len by (simp add: read16_def)
  have ok: "data ! 0 = 1" "length data = 96 + 4 * unat count"
    using assms len count by (auto simp: deserialize_state_cookie_def read8_def split: if_splits)
  obtain ts where ts: "read_duplicate_tsns data 64 (unat count) = Inr ts" "length ts = unat count"
    using ok read_duplicate_tsns_total [of 64 "unat count" data] by auto
  have reads: "read8 data 0 = Inr 1" "read8 data 1 = Inr (data ! 1)" using len ok(1) by (auto simp: read8_def)
  have r16: "\<exists>v. read16 data i = Inr v" if "i \<le> 94" for i using len that by (simp add: read16_def)
  have r32: "\<exists>v. read32 data i = Inr v" if "i \<le> 92" for i using len that by (simp add: read32_def)
  obtain a1 a2 a3 a4 a5 a6 a7 where w: "read16 data 16 = Inr a1" "read16 data 18 = Inr a2" "read16 data 24 = Inr a3"
      "read16 data 48 = Inr a4" "read16 data 50 = Inr a5" "read16 data 52 = Inr a6" "read16 data 54 = Inr a7"
    using r16 [of 16] r16 [of 18] r16 [of 24] r16 [of 48] r16 [of 50] r16 [of 52] r16 [of 54] by auto
  obtain b1 b2 b3 b4 b5 where q: "read32 data 4 = Inr b1" "read32 data 8 = Inr b2" "read32 data 12 = Inr b3" "read32 data 20 = Inr b4"
      "read32 data 28 = Inr b5"
    using r32 [of 4] r32 [of 8] r32 [of 12] r32 [of 20] r32 [of 28] by auto
  obtain d1 d2 d3 d4 d5 d6 where q': "read32 data 32 = Inr d1" "read32 data 36 = Inr d2" "read32 data 40 = Inr d3"
      "read32 data 44 = Inr d4" "read32 data 56 = Inr d5" "read32 data 60 = Inr d6"
    using r32 [of 32] r32 [of 36] r32 [of 40] r32 [of 44] r32 [of 56] r32 [of 60] by auto
  note simps = deserialize_state_cookie_def count reads w q q' ts ok(2) bind_res_Inr
  show ?thesis using assms len unfolding simps
    by (auto simp: created_us_parts ts count reads w q q' ok(2))
qed

lemma parsed_generation: "deserialize_state_cookie data = Inr (Some c) \<Longrightarrow> secret_generation c = data ! 1"
  using parsed_cookie_reads [of data c] by (simp add: read8_def split: if_splits)

lemma parsed_cookie_fields:
  assumes "deserialize_state_cookie data = Inr (Some c)"
  shows "serialize_cookie_fields c = [data ! 0, data ! 1, 0, 0] @ take 60 (drop 4 data)"
    "tsn_bytes (ck_peer_addresses c) = take (4 * length (ck_peer_addresses c)) (drop 64 data)"
    "mac c = drop (length data - 32) data"
proof -
  note r = parsed_cookie_reads [OF assms]
  have "read8 data 0 = Inr (ck_version c)" "read8 data 1 = Inr (secret_generation c)" using r by blast+
  then have "ck_version c = data ! 0" "secret_generation c = data ! 1" by (simp_all add: read8_def split: if_splits)
  then show "serialize_cookie_fields c = [data ! 0, data ! 1, 0, 0] @ take 60 (drop 4 data)"
    unfolding cookie_field_slices using r
    by (simp add: serialize_cookie_fields_def append16_def append32_def mem16_zero read16_bytes [symmetric] read32_bytes [symmetric])
  show "tsn_bytes (ck_peer_addresses c) = take (4 * length (ck_peer_addresses c)) (drop 64 data)" "mac c = drop (length data - 32) data"
    using r read_tsns_bytes by blast+
qed

lemma cookie_reserializes:
  assumes "deserialize_state_cookie data = Inr (Some c)"
  shows "\<exists>wire. serialize_state_cookie c = Inr wire \<and> wire[2 := data ! 2, 3 := data ! 3] = data"
proof -
  define n where "n = length (ck_peer_addresses c)"
  have len: "length data = 96 + 4 * n" using state_cookie_exact [of data] assms by (simp add: n_def)
  note f = parsed_cookie_fields [OF assms, folded n_def]
  have "data = take 4 data @ take 60 (drop 4 data) @ take (4 * n) (drop 64 data) @ drop (64 + 4 * n) data"
    using take_drop_split [of 60 "4 * n" 4 data] append_take_drop_id [of "60 + 4 * n" "drop 4 data"] append_take_drop_id [of 4 data]
    by (simp add: add.commute)
  moreover have "take 4 data = [data ! 0, data ! 1, data ! 2, data ! 3]" using take_drop_4 [of 0 data] len by simp
  ultimately have data: "data = [data ! 0, data ! 1, data ! 2, data ! 3] @ take 60 (drop 4 data) @ take (4 * n) (drop 64 data) @ mac c"
    using f(3) len by simp
  let ?wire = "([data ! 0, data ! 1, 0, 0] @ take 60 (drop 4 data)) @ take (4 * n) (drop 64 data) @ mac c"
  have "?wire[2 := data ! 2, 3 := data ! 3] = [data ! 0, data ! 1, data ! 2, data ! 3] @ take 60 (drop 4 data) @ take (4 * n) (drop 64 data) @ mac c"
    by (simp add: numeral_eq_Suc)
  then have "?wire[2 := data ! 2, 3 := data ! 3] = data" using data by (simp only:)
  then show ?thesis using f by (simp add: serialize_state_cookie_eq)
qed

subsection \<open>Properties\<close>

text \<open>C31: Round trip of the state cookie: a cookie with a 32-byte MAC and at most 65535 peer addresses
  serializes to 96 bytes plus four for each address, and parsing those bytes gives back the same
  cookie.\<close>

theorem state_cookie_roundtrip:
  assumes "cookie_ok c"
  shows "\<exists>data. serialize_state_cookie c = Inr data \<and>
    length data = STATE_COOKIE_SIZE + 4 * length (ck_peer_addresses c) \<and>
    deserialize_state_cookie data = Inr (Some c)"
  using assms by (rule cookie_roundtrip)

definition example_cookie :: State_Cookie where
  "example_cookie = \<lparr>ck_version = 1, secret_generation = 3, created_us = 0x123456789A, lifespan_us = 60000000,
     sctp_src_port = 5000, sctp_dst_port = 5001, peer_ipv4 = 0x7F000001, peer_udp_port = 9899,
     local_ver_tag = 1, ck_peer_ver_tag = 2, local_initial_tsn = 3, peer_initial_tsn = 4,
     peer_a_rwnd = 65535, local_out_streams = 10, local_in_streams = 10, peer_out_streams = 10,
     peer_in_streams = 10, ck_local_tie_tag = 0, ck_peer_tie_tag = 0, ck_peer_addresses = [0x7F000002],
     mac = replicate 32 7\<rparr>"

theorem state_cookie_roundtrip_witness:
  "cookie_ok example_cookie \<and> (\<exists>data. serialize_state_cookie example_cookie = Inr data \<and>
    length data = 100 \<and> deserialize_state_cookie data = Inr (Some example_cookie))"
proof -
  have "cookie_ok example_cookie" by (simp add: cookie_ok_def example_cookie_def)
  moreover have "length (ck_peer_addresses example_cookie) = 1" by (simp add: example_cookie_def)
  ultimately show ?thesis using state_cookie_roundtrip [of example_cookie] by simp
qed

text \<open>Parsing a cookie echoed by a peer is memory safe and exact: any byte string is either
  rejected or a well-formed cookie whose length is the one its address count announces.\<close>

theorem deserialize_state_cookie_exact:
  "case deserialize_state_cookie data of
     Inl e \<Rightarrow> False
   | Inr None \<Rightarrow> True
   | Inr (Some c) \<Rightarrow> cookie_ok c \<and> length data = STATE_COOKIE_SIZE + 4 * length (ck_peer_addresses c)"
  by (rule state_cookie_exact)

end
