(* ===== verification/Hmac.thy ===== *)
theory Hmac
  imports Sctp_Types
begin

text \<open>
  SHA-256, HMAC and the constant-time comparison of \<open>src/hmac.cpp\<close>. The working variables
  \<open>a .. hh\<close> of a round are a tuple of eight words. The reference pads the whole message as
  FIPS 180-4 writes it and folds the compression function over all blocks, where the code handles the
  full blocks in place and the padding in a separate two-block buffer.
\<close>

subsection \<open>The code\<close>

abbreviation (input) SHA256_BLOCK_SIZE :: nat where "SHA256_BLOCK_SIZE \<equiv> 64"
abbreviation (input) SHA256_DIGEST_SIZE :: nat where "SHA256_DIGEST_SIZE \<equiv> 32"

text \<open>The table of round constants, one row of the source a list.\<close>

definition sha256_K :: "u32 list" where
  "sha256_K = concat
    [[0x428a2f98, 0x71374491, 0xb5c0fbcf, 0xe9b5dba5, 0x3956c25b, 0x59f111f1, 0x923f82a4, 0xab1c5ed5],
     [0xd807aa98, 0x12835b01, 0x243185be, 0x550c7dc3, 0x72be5d74, 0x80deb1fe, 0x9bdc06a7, 0xc19bf174],
     [0xe49b69c1, 0xefbe4786, 0x0fc19dc6, 0x240ca1cc, 0x2de92c6f, 0x4a7484aa, 0x5cb0a9dc, 0x76f988da],
     [0x983e5152, 0xa831c66d, 0xb00327c8, 0xbf597fc7, 0xc6e00bf3, 0xd5a79147, 0x06ca6351, 0x14292967],
     [0x27b70a85, 0x2e1b2138, 0x4d2c6dfc, 0x53380d13, 0x650a7354, 0x766a0abb, 0x81c2c92e, 0x92722c85],
     [0xa2bfe8a1, 0xa81a664b, 0xc24b8b70, 0xc76c51a3, 0xd192e819, 0xd6990624, 0xf40e3585, 0x106aa070],
     [0x19a4c116, 0x1e376c08, 0x2748774c, 0x34b0bcb5, 0x391c0cb3, 0x4ed8aa4a, 0x5b9cca4f, 0x682e6ff3],
     [0x748f82ee, 0x78a5636f, 0x84c87814, 0x8cc70208, 0x90befffa, 0xa4506ceb, 0xbef9a3f7, 0xc67178f2]]"

type_synonym sha_state = "u32 \<times> u32 \<times> u32 \<times> u32 \<times> u32 \<times> u32 \<times> u32 \<times> u32"

definition rotr :: "u32 \<Rightarrow> nat \<Rightarrow> u32" where
  "rotr x n = drop_bit n x OR push_bit (32 - n) x"

definition block_word :: "bytes \<Rightarrow> nat \<Rightarrow> u32" where
  "block_word block i =
     push_bit 24 (ucast (block ! (i * 4))) OR push_bit 16 (ucast (block ! (i * 4 + 1)))
     OR push_bit 8 (ucast (block ! (i * 4 + 2))) OR ucast (block ! (i * 4 + 3))"

text \<open>The message schedule: the loop from 16 appends one word for each turn.\<close>

definition schedule_step :: "u32 list \<Rightarrow> nat \<Rightarrow> u32 list" where
  "schedule_step w i =
     (let s0 = rotr (w ! (i - 15)) 7 XOR rotr (w ! (i - 15)) 18 XOR drop_bit 3 (w ! (i - 15));
          s1 = rotr (w ! (i - 2)) 17 XOR rotr (w ! (i - 2)) 19 XOR drop_bit 10 (w ! (i - 2))
      in w @ [w ! (i - 16) + s0 + w ! (i - 7) + s1])"

definition message_schedule :: "bytes \<Rightarrow> u32 list" where
  "message_schedule block = foldl schedule_step (map (block_word block) [0..<16]) [16..<64]"

fun sha256_round :: "sha_state \<Rightarrow> u32 \<times> u32 \<Rightarrow> sha_state" where
  "sha256_round (a, b, c, d, e, f, g, hh) (k, w) =
     (let s1 = rotr e 6 XOR rotr e 11 XOR rotr e 25;
          ch = (e AND f) XOR (NOT e AND g);
          t1 = hh + s1 + ch + k + w;
          s0 = rotr a 2 XOR rotr a 13 XOR rotr a 22;
          maj = (a AND b) XOR (a AND c) XOR (b AND c);
          t2 = s0 + maj
      in (t1 + t2, a, b, c, d + t1, e, f, g))"

fun sha256_add :: "sha_state \<Rightarrow> sha_state \<Rightarrow> sha_state" where
  "sha256_add (h0, h1, h2, h3, h4, h5, h6, h7) (a, b, c, d, e, f, g, hh) =
     (h0 + a, h1 + b, h2 + c, h3 + d, h4 + e, h5 + f, h6 + g, h7 + hh)"

definition compress :: "sha_state \<Rightarrow> bytes \<Rightarrow> sha_state" where
  "compress h block = sha256_add h (foldl sha256_round h (zip sha256_K (message_schedule block)))"

definition sha256_initial :: sha_state where
  "sha256_initial =
     (0x6a09e667, 0xbb67ae85, 0x3c6ef372, 0xa54ff53a, 0x510e527f, 0x9b05688c, 0x1f83d9ab, 0x5be0cd19)"

text \<open>One block of a buffer at an index.\<close>

definition sha256_block :: "bytes \<Rightarrow> nat \<Rightarrow> bytes" where
  "sha256_block data i = take SHA256_BLOCK_SIZE (drop (i * SHA256_BLOCK_SIZE) data)"

text \<open>The padding buffer, a zeroed array of two blocks.\<close>

definition sha256_tail :: "bytes \<Rightarrow> bytes" where
  "sha256_tail data =
     (let full_blocks = length data div SHA256_BLOCK_SIZE;
          remainder = length data - full_blocks * SHA256_BLOCK_SIZE;
          tail = resize0 (2 * SHA256_BLOCK_SIZE) (drop (full_blocks * SHA256_BLOCK_SIZE) data);
          tail = tail[remainder := 0x80];
          tail_len = (if remainder < 56 then SHA256_BLOCK_SIZE else 2 * SHA256_BLOCK_SIZE);
          bits = of_nat (length data) * 8 :: u64
      in take tail_len (foldl (\<lambda>t i. t[tail_len - 1 - i := ucast (drop_bit (8 * i) bits)]) tail [0..<8]))"

fun sha256_digest :: "sha_state \<Rightarrow> bytes" where
  "sha256_digest (h0, h1, h2, h3, h4, h5, h6, h7) =
     concat (map (\<lambda>h. [ucast (drop_bit 24 h), ucast (drop_bit 16 h), ucast (drop_bit 8 h), ucast h])
       [h0, h1, h2, h3, h4, h5, h6, h7])"

definition sha256 :: "bytes \<Rightarrow> bytes" where
  "sha256 data =
     (let h = foldl (\<lambda>h i. compress h (sha256_block data i)) sha256_initial
                [0..<length data div SHA256_BLOCK_SIZE];
          tail = sha256_tail data;
          h = foldl (\<lambda>h i. compress h (sha256_block tail i)) h [0..<length tail div SHA256_BLOCK_SIZE]
      in sha256_digest h)"

definition hmac_sha256 :: "bytes \<Rightarrow> bytes \<Rightarrow> bytes" where
  "hmac_sha256 key data =
     (let padded_key = resize0 SHA256_BLOCK_SIZE (if length key > SHA256_BLOCK_SIZE then sha256 key else key);
          inner_key = map (\<lambda>b. b XOR 0x36) padded_key;
          outer_key = map (\<lambda>b. b XOR 0x5c) padded_key;
          inner_digest = sha256 (inner_key @ data)
      in sha256 (outer_key @ inner_digest))"

definition constant_time_equal :: "bytes \<Rightarrow> bytes \<Rightarrow> nat \<Rightarrow> bool" where
  "constant_time_equal a b len = (foldl (\<lambda>difference i. difference OR (a ! i XOR b ! i)) 0 [0..<len] = 0)"

subsection \<open>The reference: padding of FIPS 180-4\<close>

definition be64 :: "u64 \<Rightarrow> bytes" where
  "be64 v = map (\<lambda>i. ucast (drop_bit (8 * (7 - i)) v)) [0..<8]"

definition sha256_padded :: "bytes \<Rightarrow> bytes" where
  "sha256_padded data =
     data @ 0x80 # replicate ((119 - length data mod 64) mod 64) 0 @ be64 (of_nat (8 * length data))"

definition sha256_reference :: "bytes \<Rightarrow> bytes" where
  "sha256_reference data =
     (let m = sha256_padded data
      in sha256_digest (foldl (\<lambda>h i. compress h (sha256_block m i)) sha256_initial [0..<length m div 64]))"

subsection \<open>The padding buffer holds the end of the padded message\<close>

lemma upt_8: "[0..<8] = [0, 1, 2, 3, 4, 5, 6, 7]"
  by (simp add: upt_rec)

lemma write_length_field:
  "foldl (\<lambda>t i. t[length pre + 8 - 1 - i := f i]) (pre @ replicate 8 z @ suf) [0..<8] =
   pre @ map (\<lambda>i. f (7 - i)) [0..<8] @ suf"
  unfolding upt_8 by (simp add: list_update_append numeral_eq_Suc)

lemma sha256_tail_at:
  fixes z :: nat
  assumes "length rest < 64" "length rest + 1 + z = 56 \<or> length rest + 1 + z = 120"
    and "z < 64" "rest = drop (length data div 64 * 64) data"
  shows "sha256_tail data = rest @ 0x80 # replicate z 0 @ be64 (of_nat (length data) * 8)"
proof -
  let ?len = "if length rest < 56 then 64 else 128 :: nat"
  let ?pre = "rest @ 0x80 # replicate z 0"
  have rest: "length data - length data div 64 * 64 = length rest"
    using assms(4) by simp
  have pre: "length ?pre + 8 = ?len" using assms by auto
  define k where "k = 128 - ?len"
  have k: "128 = length ?pre + 8 + k" unfolding pre k_def by simp
  have "(resize0 128 rest)[length rest := 0x80] = rest @ 0x80 # replicate (127 - length rest) 0"
  proof -
    have "resize0 128 rest = rest @ 0 # replicate (127 - length rest) 0"
      using assms(1) by (simp add: resize0_ge flip: replicate_Suc)
    then show ?thesis by simp
  qed
  also have "127 - length rest = z + 8 + k" using k by simp
  also have "rest @ 0x80 # replicate (z + 8 + k) 0 = ?pre @ replicate 8 0 @ replicate k 0"
    by (simp add: replicate_add)
  finally have buffer: "(resize0 128 rest)[length rest := 0x80] = ?pre @ replicate 8 0 @ replicate k 0" .
  let ?f = "\<lambda>i. ucast (drop_bit (8 * i) (of_nat (length data) * 8 :: u64)) :: u8"
  have two: "2 * 64 = (128::nat)" by simp
  have "sha256_tail data = take ?len (foldl (\<lambda>t i. t[?len - 1 - i := ?f i])
      ((resize0 128 rest)[length rest := 0x80]) [0..<8])"
    unfolding sha256_tail_def Let_def rest assms(4) [symmetric] two ..
  also have "\<dots> = take (length ?pre + 8) (?pre @ map (\<lambda>i. ?f (7 - i)) [0..<8] @ replicate k 0)"
    unfolding buffer pre [symmetric] write_length_field ..
  also have "\<dots> = ?pre @ be64 (of_nat (length data) * 8)"
  proof -
    have "take (length (?pre @ M)) ((?pre @ M) @ suf) = ?pre @ M" for M suf by simp
    from this [of "be64 (of_nat (length data) * 8)" "replicate k 0"] show ?thesis
      unfolding length_append append_assoc be64_def by simp
  qed
  finally show ?thesis by simp
qed

lemma sha256_padded_split:
  "sha256_padded data = take (length data div 64 * 64) data @ sha256_tail data"
  "length (sha256_tail data) mod 64 = 0"
proof -
  define n where "n = length data div 64 * 64"
  define rest where "rest = drop n data"
  define z where "z = (119 - length data mod 64) mod 64"
  have r: "length rest = length data mod 64"
    by (simp add: rest_def n_def minus_div_mult_eq_mod)
  then have small: "length rest < 64" by simp
  have zeros: "length rest + 1 + z = 56 \<or> length rest + 1 + z = 120"
  proof (cases "length rest < 56")
    case True
    then have "119 - length rest = 64 + (55 - length rest)" by simp
    then have "z = 55 - length rest" unfolding z_def r [symmetric] by (simp only: mod_add_self1) simp
    then show ?thesis using True by simp
  next
    case False
    then have "z = 119 - length rest" unfolding z_def r [symmetric] by simp
    then show ?thesis using small by simp
  qed
  have "z < 64" by (simp add: z_def)
  with small zeros have tail: "sha256_tail data = rest @ 0x80 # replicate z 0 @ be64 (of_nat (length data) * 8)"
    using sha256_tail_at [of rest z data] by (simp add: rest_def n_def)
  have bits: "of_nat (8 * length data) = (of_nat (length data) * 8 :: u64)"
    by (simp add: mult.commute)
  have "take n data @ rest = data" by (simp add: rest_def)
  then show "sha256_padded data = take (length data div 64 * 64) data @ sha256_tail data"
    unfolding sha256_padded_def tail n_def [symmetric] z_def [symmetric] bits
    by (metis append_assoc)
  have "length (sha256_tail data) = length rest + 1 + z + 8"
    unfolding tail by (simp add: be64_def)
  then show "length (sha256_tail data) mod 64 = 0"
    using zeros by auto
qed

lemma sha256_block_append:
  "length xs = n * 64 \<Longrightarrow> i < n \<Longrightarrow> sha256_block (xs @ ys) i = sha256_block xs i"
  "length xs = n * 64 \<Longrightarrow> sha256_block (xs @ ys) (n + i) = sha256_block ys i"
proof -
  assume len: "length xs = n * 64"
  { assume "i < n"
    then have "i * 64 + 64 \<le> n * 64" by presburger
    with len show "sha256_block (xs @ ys) i = sha256_block xs i" by (simp add: sha256_block_def) }
  have "(n + i) * 64 - n * 64 = i * 64" "n * 64 \<le> (n + i) * 64" by (simp_all add: algebra_simps)
  with len show "sha256_block (xs @ ys) (n + i) = sha256_block ys i"
    by (simp add: sha256_block_def)
qed

lemma compress_blocks_append:
  assumes "length xs = n * 64"
  shows "foldl (\<lambda>h i. compress h (sha256_block (xs @ ys) i)) s [0..<n + k] =
    foldl (\<lambda>h i. compress h (sha256_block ys i)) (foldl (\<lambda>h i. compress h (sha256_block xs i)) s [0..<n]) [0..<k]"
proof -
  have upto: "foldl (\<lambda>h i. compress h (sha256_block (xs @ ys) i)) t [0..<m] =
      foldl (\<lambda>h i. compress h (sha256_block xs i)) t [0..<m]" if "m \<le> n" for t m
    using that by (induction m) (simp_all add: sha256_block_append(1) [OF assms])
  have "foldl (\<lambda>h i. compress h (sha256_block (xs @ ys) i)) t [n..<n + m] =
      foldl (\<lambda>h i. compress h (sha256_block ys i)) t [0..<m]" for t m
    by (induction m) (simp_all add: sha256_block_append(2) [OF assms])
  with upto [of n] show ?thesis
    by (simp add: upt_add_eq_append [of 0 n k])
qed

lemma length_sha256_digest [simp]: "length (sha256_digest h) = 32"
  by (cases h rule: sha256_digest.cases) simp

lemma length_hmac_sha256 [simp]: "length (hmac_sha256 key data) = 32"
  by (simp add: hmac_sha256_def sha256_def Let_def)

lemma or_word_eq_0_iff: "x OR y = 0 \<longleftrightarrow> x = 0 \<and> y = 0" for x y :: u8
  by (auto simp: bit_eq_iff bit_or_iff)

lemma xor_word_eq_0_iff: "x XOR y = 0 \<longleftrightarrow> x = y" for x y :: u8
  by (auto simp: bit_eq_iff bit_xor_iff)

lemma constant_time_fold:
  "foldl (\<lambda>difference i. difference OR (a ! i XOR b ! i)) d [0..<len] = 0 \<longleftrightarrow>
   d = 0 \<and> (\<forall>i<len. a ! i = (b ! i :: u8))"
  by (induction len) (auto simp: or_word_eq_0_iff xor_word_eq_0_iff less_Suc_eq)

lemma constant_time_equal_iff:
  "length a = len \<Longrightarrow> length b = len \<Longrightarrow> constant_time_equal a b len \<longleftrightarrow> a = b"
  by (auto simp: constant_time_equal_def constant_time_fold list_eq_iff_nth_eq)

subsection \<open>Properties\<close>

text \<open>C32: The hash of the code, which compresses the full blocks in place and then one or two blocks of a
  padding buffer, is SHA-256 of the message padded as FIPS 180-4 says: a one bit, zeros, and the bit length, to a
  multiple of 64 bytes. This covers the remainder of 56 to 63 bytes, which needs the second block.\<close>

theorem sha256_is_reference: "sha256 data = sha256_reference data"
proof -
  let ?n = "length data div 64"
  let ?xs = "take (?n * 64) data"
  have len: "length ?xs = ?n * 64" by simp
  have "length (sha256_padded data) div 64 = ?n + length (sha256_tail data) div 64"
    by (simp add: sha256_padded_split(1))
  moreover have "data = ?xs @ drop (?n * 64) data" by simp
  then have "foldl (\<lambda>h i. compress h (sha256_block data i)) sha256_initial [0..<?n] =
      foldl (\<lambda>h i. compress h (sha256_block ?xs i)) sha256_initial [0..<?n]"
    using compress_blocks_append [OF len, of "drop (?n * 64) data" sha256_initial 0] by simp
  ultimately show ?thesis
    using compress_blocks_append [OF len, of "sha256_tail data" sha256_initial "length (sha256_tail data) div 64"]
    by (simp add: sha256_def sha256_reference_def Let_def sha256_padded_split(1))
qed

end
