(* ===== verification/Cookie_Auth.thy ===== *)
theory Cookie_Auth
  imports State_Cookie_Codec Hmac
begin

text \<open>
  Signing and checking of state cookies, \<open>src/cookie_auth.cpp\<close>. The random bytes of a new secret and
  each reading of the clock are arguments; \<open>generate\<close> reads the clock twice, once for the
  rotation and once for the creation time. \<open>verify\<close> returns its result together with its two
  output parameters.

  The inductive relation \<open>auth_run\<close> is any sequence of \<open>generate\<close> calls on one object with a clock
  that does not go back: it is the only operation that changes the secrets.
\<close>

subsection \<open>The code\<close>

datatype Cookie_Result = VALID | MALFORMED | UNKNOWN_SECRET | BAD_MAC | WRONG_ENDPOINT | STALE

record Cookie_Auth =
  current_secret :: bytes
  previous_secret :: bytes
  generation :: u8
  have_previous :: bool
  auth_initialized :: bool
  rotated_at :: time

abbreviation (input) COOKIE_SECRET_ROTATION :: time where "COOKIE_SECRET_ROTATION \<equiv> seconds 3600"
abbreviation (input) VALID_COOKIE_LIFE :: time where "VALID_COOKIE_LIFE \<equiv> seconds 60"
abbreviation (input) MAX_COOKIE_LIFE :: time where "MAX_COOKIE_LIFE \<equiv> seconds 120"

definition now_us :: "time \<Rightarrow> u64" where
  "now_us t = word_of_int (trunc_div t 1000)"

definition rotate_if_due :: "bytes \<Rightarrow> time \<Rightarrow> Cookie_Auth \<Rightarrow> Cookie_Auth" where
  "rotate_if_due fresh now ca =
     (if \<not> auth_initialized ca
      then ca\<lparr>current_secret := fresh, auth_initialized := True, rotated_at := now\<rparr>
      else if now - rotated_at ca < COOKIE_SECRET_ROTATION then ca
      else ca\<lparr>previous_secret := current_secret ca, have_previous := True, current_secret := fresh,
              generation := generation ca + 1, rotated_at := now\<rparr>)"

definition secret_for :: "Cookie_Auth \<Rightarrow> u8 \<Rightarrow> bytes option" where
  "secret_for ca wanted_generation =
     (if \<not> auth_initialized ca then None
      else if wanted_generation = generation ca then Some (current_secret ca)
      else if have_previous ca \<and> wanted_generation = generation ca - 1 then Some (previous_secret ca)
      else None)"

text \<open>The lifespan in microseconds: the configured life plus the peer's increment, capped.\<close>

definition cookie_lifespan :: "u32 \<Rightarrow> int" where
  "cookie_lifespan lifespan_increment_ms =
     min ((VALID_COOKIE_LIFE + milliseconds (uint lifespan_increment_ms)) div 1000) (MAX_COOKIE_LIFE div 1000)"

text \<open>The fields of the cookie before it is signed; its MAC is zero.\<close>

definition cookie_for ::
    "Cookie_Auth \<Rightarrow> time \<Rightarrow> SCTP_Common_Header \<Rightarrow> init_chunk_value \<Rightarrow> sockaddr_in \<Rightarrow>
     u32 \<Rightarrow> u32 \<Rightarrow> u32 \<Rightarrow> u32 \<Rightarrow> u32 \<Rightarrow> u32 list \<Rightarrow> State_Cookie" where
  "cookie_for ca t_created header init src local_tag local_tsn local_tie peer_tie lifespan_increment_ms
     peer_addresses =
     \<lparr>ck_version = STATE_COOKIE_VERSION, secret_generation = generation ca,
      created_us = now_us t_created,
      lifespan_us = word_of_int (cookie_lifespan lifespan_increment_ms),
      sctp_src_port = src_port header, sctp_dst_port = des_port header,
      peer_ipv4 = ntohl (s_addr src), peer_udp_port = ntohs (sin_port src),
      local_ver_tag = local_tag, ck_peer_ver_tag = initiate_tag init,
      local_initial_tsn = local_tsn, peer_initial_tsn = initial_tsn init,
      peer_a_rwnd = init_a_rwnd init, local_out_streams = LOCAL_OUT_STREAMS,
      local_in_streams = LOCAL_MAX_IN_STREAMS, peer_out_streams = init_out_streams init,
      peer_in_streams = init_in_streams init, ck_local_tie_tag = local_tie,
      ck_peer_tie_tag = peer_tie, ck_peer_addresses = peer_addresses,
      mac = replicate STATE_COOKIE_MAC_SIZE 0\<rparr>"

definition generate ::
    "bytes \<Rightarrow> time \<Rightarrow> time \<Rightarrow> Cookie_Auth \<Rightarrow> SCTP_Common_Header \<Rightarrow> init_chunk_value \<Rightarrow> sockaddr_in \<Rightarrow>
     u32 \<Rightarrow> u32 \<Rightarrow> u32 \<Rightarrow> u32 \<Rightarrow> u32 \<Rightarrow> u32 list \<Rightarrow> Cookie_Auth \<times> bytes res" where
  "generate fresh t_rotate t_created ca header init src local_tag local_tsn local_tie peer_tie
     lifespan_increment_ms peer_addresses =
     (let ca = rotate_if_due fresh t_rotate ca;
          cookie = cookie_for ca t_created header init src local_tag local_tsn local_tie peer_tie
            lifespan_increment_ms peer_addresses
      in (ca, bind_res (serialize_state_cookie cookie) (\<lambda>out.
            let body_size = length out - STATE_COOKIE_MAC_SIZE
            in Inr (take body_size out @ hmac_sha256 (current_secret ca) (take body_size out)))))"

definition verify ::
    "Cookie_Auth \<Rightarrow> time \<Rightarrow> bytes \<Rightarrow> SCTP_Common_Header \<Rightarrow> sockaddr_in \<Rightarrow>
     (Cookie_Result \<times> State_Cookie option \<times> u32) res" where
  "verify ca now_time cookie header src =
     bind_res (deserialize_state_cookie cookie) (\<lambda>parsed.
       case parsed of
         None \<Rightarrow> Inr (MALFORMED, None, 0)
       | Some out \<Rightarrow>
           (case secret_for ca (secret_generation out) of
              None \<Rightarrow> Inr (UNKNOWN_SECRET, Some out, 0)
            | Some secret \<Rightarrow>
                let body_size = length cookie - STATE_COOKIE_MAC_SIZE in
                bind_res (read_range cookie 0 body_size) (\<lambda>body.
                bind_res (read_range cookie body_size STATE_COOKIE_MAC_SIZE) (\<lambda>tail.
                   if \<not> constant_time_equal (hmac_sha256 secret body) tail STATE_COOKIE_MAC_SIZE
                   then Inr (BAD_MAC, Some out, 0)
                   else
                     let from = ntohl (s_addr src);
                         listed = (from = peer_ipv4 out \<or> from \<in> set (ck_peer_addresses out))
                     in if sctp_src_port out \<noteq> src_port header \<or> sctp_dst_port out \<noteq> des_port header
                           \<or> local_ver_tag out \<noteq> verification_tag header \<or> \<not> listed
                        then Inr (WRONG_ENDPOINT, Some out, 0)
                        else
                          let now = now_us now_time in
                          if now < created_us out then Inr (STALE, Some out, 0)
                          else
                            let age_us = now - created_us out in
                            if age_us > ucast (lifespan_us out)
                            then let overshoot = age_us - ucast (lifespan_us out)
                                 in Inr (STALE, Some out,
                                      if overshoot > ucast (- 1 :: u32) then - 1 else ucast overshoot)
                            else Inr (VALID, Some out, 0)))))"

text \<open>Any sequence of \<open>generate\<close> calls between two times.\<close>

inductive auth_run :: "Cookie_Auth \<Rightarrow> time \<Rightarrow> Cookie_Auth \<Rightarrow> time \<Rightarrow> bool" where
  run_wait: "t \<le> t' \<Longrightarrow> auth_run ca t ca t'"
| run_generate:
    "auth_run ca t ca1 t1 \<Longrightarrow> t1 \<le> t_rotate \<Longrightarrow> t_rotate \<le> t_created \<Longrightarrow> t_created \<le> t2 \<Longrightarrow>
     fst (generate fresh t_rotate t_created ca1 header init src local_tag local_tsn local_tie peer_tie inc addresses) = ca2 \<Longrightarrow>
     auth_run ca t ca2 t2"

subsection \<open>A secret stays available for one rotation period\<close>

lemma fst_generate [simp]:
  "fst (generate fresh t_rotate t_created ca header init src local_tag local_tsn local_tie peer_tie inc addresses) =
   rotate_if_due fresh t_rotate ca"
  by (simp add: generate_def Let_def)

lemma auth_run_mono: "auth_run ca t ca' t' \<Longrightarrow> t \<le> t'"
  by (induction rule: auth_run.induct) simp_all

lemma auth_run_secret_cases:
  assumes "auth_run ca t ca' t'" "auth_initialized ca" "rotated_at ca \<le> t" "t' - t < COOKIE_SECRET_ROTATION"
  shows "auth_initialized ca' \<and>
    (generation ca' = generation ca \<and> current_secret ca' = current_secret ca \<or>
     generation ca' = generation ca + 1 \<and> have_previous ca' \<and> previous_secret ca' = current_secret ca
       \<and> t \<le> rotated_at ca')"
  using assms
proof (induction rule: auth_run.induct)
  case (run_generate ca t ca1 t1 t_rotate t_created t2 fresh header init src local_tag local_tsn local_tie peer_tie
      inc addresses ca2)
  note mono = auth_run_mono [OF run_generate.hyps(1)]
  have ca2: "ca2 = rotate_if_due fresh t_rotate ca1" using run_generate.hyps by simp
  have IH: "auth_initialized ca1 \<and> (generation ca1 = generation ca \<and> current_secret ca1 = current_secret ca \<or>
      generation ca1 = generation ca + 1 \<and> have_previous ca1 \<and> previous_secret ca1 = current_secret ca
       \<and> t \<le> rotated_at ca1)"
    using run_generate by simp
  show ?case
  proof (cases "t_rotate - rotated_at ca1 < COOKIE_SECRET_ROTATION")
    case True
    then show ?thesis using IH ca2 by (simp add: rotate_if_due_def)
  next
    case False
    then show ?thesis using IH ca2 mono run_generate.hyps run_generate.prems by (simp add: rotate_if_due_def)
  qed
qed simp

lemma auth_run_secret_for:
  assumes "auth_run ca t ca' t'" "auth_initialized ca" "rotated_at ca \<le> t" "t' - t < COOKIE_SECRET_ROTATION"
  shows "secret_for ca' (generation ca) = Some (current_secret ca)"
proof -
  have "(g::u8) \<noteq> g + 1" for g by simp
  then show ?thesis
    using auth_run_secret_cases [OF assms] by (auto simp: secret_for_def)
qed

lemma rotate_initialized: "auth_initialized (rotate_if_due fresh t ca)"
  by (simp add: rotate_if_due_def)

lemma rotate_rotated_at:
  "(auth_initialized ca \<Longrightarrow> rotated_at ca \<le> t) \<Longrightarrow> rotated_at (rotate_if_due fresh t ca) \<le> t"
  by (auto simp: rotate_if_due_def)

subsection \<open>What a generated cookie looks like to the verifier\<close>

text \<open>The cookie that \<open>generate\<close> signs, with the MAC it puts behind the body.\<close>

definition signed_cookie :: "bytes \<Rightarrow> State_Cookie \<Rightarrow> bytes" where
  "signed_cookie secret c =
     (let body = serialize_cookie_fields c @ tsn_bytes (ck_peer_addresses c)
      in body @ hmac_sha256 secret body)"

lemma cookie_fields_mac [simp]: "serialize_cookie_fields (c\<lparr>mac := m\<rparr>) = serialize_cookie_fields c"
  by (simp add: serialize_cookie_fields_def)

lemma deserialize_signed:
  assumes "ck_version c = STATE_COOKIE_VERSION" "length (ck_peer_addresses c) \<le> UINT16_MAX"
  shows "deserialize_state_cookie (signed_cookie secret c) =
    Inr (Some (c\<lparr>mac := hmac_sha256 secret (serialize_cookie_fields c @ tsn_bytes (ck_peer_addresses c))\<rparr>))"
proof -
  let ?c = "c\<lparr>mac := hmac_sha256 secret (serialize_cookie_fields c @ tsn_bytes (ck_peer_addresses c))\<rparr>"
  have "cookie_ok ?c" using assms by (simp add: cookie_ok_def)
  moreover have "serialize_state_cookie ?c = Inr (signed_cookie secret c)"
    by (simp add: serialize_state_cookie_eq signed_cookie_def Let_def)
  ultimately show ?thesis using cookies.codec_total by fastforce
qed

lemma signed_cookie_mac:
  "take (length (signed_cookie secret c) - 32) (signed_cookie secret c) =
     serialize_cookie_fields c @ tsn_bytes (ck_peer_addresses c)"
  "drop (length (signed_cookie secret c) - 32) (signed_cookie secret c) =
     hmac_sha256 secret (serialize_cookie_fields c @ tsn_bytes (ck_peer_addresses c))"
  by (simp_all add: signed_cookie_def Let_def)

text \<open>The two ranges \<open>verify\<close> reads of a cookie that was parsed, which has room for both.\<close>

lemma cookie_ranges:
  assumes "deserialize_state_cookie cookie = Inr (Some out)"
  shows "read_range cookie 0 (length cookie - 32) = Inr (take (length cookie - 32) cookie)"
    "read_range cookie (length cookie - 32) 32 = Inr (drop (length cookie - 32) cookie)"
proof -
  have "32 \<le> length cookie" using assms by (auto simp: deserialize_state_cookie_def split: if_splits)
  then show "read_range cookie 0 (length cookie - 32) = Inr (take (length cookie - 32) cookie)"
    "read_range cookie (length cookie - 32) 32 = Inr (drop (length cookie - 32) cookie)"
    by (simp_all add: read_range_def)
qed

lemma cookie_lifespan_bounds: "60000000 \<le> cookie_lifespan inc \<and> cookie_lifespan inc \<le> 120000000"
proof -
  have "cookie_lifespan inc = min (60000000 + 1000 * uint inc) 120000000"
    by (simp add: cookie_lifespan_def)
  then show ?thesis using uint_nonnegative [of inc] by linarith
qed

lemma unat_lifespan: "unat (word_of_int (cookie_lifespan inc) :: u32) = nat (cookie_lifespan inc)"
  using cookie_lifespan_bounds [of inc] by (simp add: unsigned_of_int nat_take_bit_eq take_bit_int_eq_self)

lemma unat_now_us:
  "0 \<le> t \<Longrightarrow> t < 2 ^ 63 \<Longrightarrow> unat (now_us t) = nat (t div 1000)"
  by (simp add: now_us_def trunc_div_nonneg unat_word_of_int_u64)

lemma generate_eq:
  fixes fresh t_rotate ca
  defines "ca1 \<equiv> rotate_if_due fresh t_rotate ca"
  shows "generate fresh t_rotate t_created ca header init src tag tsn lt pt inc addresses =
    (ca1, Inr (signed_cookie (current_secret ca1) (cookie_for ca1 t_created header init src tag tsn lt pt inc addresses)))"
proof -
  have "length (mac (cookie_for ca1 t_created header init src tag tsn lt pt inc addresses)) = 32"
    by (simp add: cookie_for_def)
  then show ?thesis
    by (simp add: generate_def Let_def serialize_state_cookie_eq signed_cookie_def ca1_def)
qed

lemma verify_signed:
  fixes secret c
  defines "out \<equiv> c\<lparr>mac := hmac_sha256 secret (serialize_cookie_fields c @ tsn_bytes (ck_peer_addresses c))\<rparr>"
  assumes "ck_version c = STATE_COOKIE_VERSION" "length (ck_peer_addresses c) \<le> UINT16_MAX"
    and "secret_for ca (secret_generation c) = Some secret"
    and "sctp_src_port c = src_port header" "sctp_dst_port c = des_port header"
    and "local_ver_tag c = verification_tag header"
    and "ntohl (s_addr src) = peer_ipv4 c \<or> ntohl (s_addr src) \<in> set (ck_peer_addresses c)"
    and "created_us c \<le> now_us t" "now_us t - created_us c \<le> ucast (lifespan_us c)"
  shows "verify ca t (signed_cookie secret c) header src = Inr (VALID, Some out, 0)"
  using assms by (simp add: verify_def deserialize_signed cookie_ranges [OF deserialize_signed] signed_cookie_mac
      constant_time_equal_iff Let_def not_less)

lemma signed_cookie_age:
  assumes "0 \<le> t2" "t2 \<le> t" "t < 2 ^ 63" "t - t2 \<le> microseconds (cookie_lifespan inc)"
  shows "now_us t2 \<le> now_us t"
    "now_us t - now_us t2 \<le> ucast (word_of_int (cookie_lifespan inc) :: u32)"
proof -
  have us: "unat (now_us t2) = nat (t2 div 1000)" "unat (now_us t) = nat (t div 1000)"
    using assms by (simp_all add: unat_now_us)
  show le: "now_us t2 \<le> now_us t"
    using assms(2) by (simp add: word_le_nat_alt us nat_mono zdiv_mono1)
  have "t div 1000 \<le> t2 div 1000 + cookie_lifespan inc"
    using assms(4) by linarith
  then have "nat (t div 1000) - nat (t2 div 1000) \<le> nat (cookie_lifespan inc)"
    using assms(1,2) by linarith
  then show "now_us t - now_us t2 \<le> ucast (word_of_int (cookie_lifespan inc) :: u32)"
    using le us unat_lifespan [of inc] by (simp add: word_le_nat_alt unat_sub unat_ucast_widen)
qed

lemma verify_valid_eq:
  "verify ca t cookie header src = Inr (VALID, Some out, stale) \<longleftrightarrow>
     deserialize_state_cookie cookie = Inr (Some out) \<and> stale = 0 \<and>
     (\<exists>secret. secret_for ca (secret_generation out) = Some secret \<and>
        drop (length cookie - 32) cookie = hmac_sha256 secret (take (length cookie - 32) cookie)) \<and>
     sctp_src_port out = src_port header \<and> sctp_dst_port out = des_port header \<and>
     local_ver_tag out = verification_tag header \<and>
     ntohl (s_addr src) \<in> set (peer_ipv4 out # ck_peer_addresses out) \<and>
     created_us out \<le> now_us t \<and> now_us t - created_us out \<le> ucast (lifespan_us out)"
proof (cases "deserialize_state_cookie cookie = Inr (Some out)")
  case True
  then have "length cookie \<ge> 96"
    using state_cookie_exact [of cookie] by simp
  then have "length (drop (length cookie - 32) cookie) = 32" by simp
  then show ?thesis
    using True by (auto simp: verify_def Let_def constant_time_equal_iff not_less split: option.splits if_splits)
qed (auto simp: verify_def res_simps Let_def split: option.splits if_splits)

subsection \<open>Properties\<close>

text \<open>C29: A cookie this endpoint hands out is accepted when it is echoed within its lifespan by the peer it was
  made for, from any of the peer's listed addresses, however many other cookies were generated and
  whether or not the secret was rotated in between; and the verifier recovers the handshake state
  that was put into it.\<close>

theorem generated_cookie_verifies:
  assumes "generate fresh t1 t2 ca header init src tag tsn lt pt inc addresses = (ca1, Inr cookie)"
    and "auth_initialized ca \<longrightarrow> rotated_at ca \<le> t1" "t1 \<le> t2" "0 \<le> t2"
    and "length addresses \<le> UINT16_MAX"
    and "auth_run ca1 t2 ca2 t" "t < 2 ^ 63" "t - t2 \<le> microseconds (cookie_lifespan inc)"
    and "src_port echo = src_port header" "des_port echo = des_port header" "verification_tag echo = tag"
    and "s_addr src' = s_addr src \<or> ntohl (s_addr src') \<in> set addresses"
  shows "\<exists>out. verify ca2 t cookie echo src' = Inr (VALID, Some out, 0) \<and>
    local_ver_tag out = tag \<and> ck_peer_ver_tag out = initiate_tag init \<and>
    local_initial_tsn out = tsn \<and> peer_initial_tsn out = initial_tsn init \<and>
    ck_local_tie_tag out = lt \<and> ck_peer_tie_tag out = pt \<and> ck_peer_addresses out = addresses"
proof -
  let ?c = "cookie_for ca1 t2 header init src tag tsn lt pt inc addresses"
  have ca1: "ca1 = rotate_if_due fresh t1 ca" and cookie: "cookie = signed_cookie (current_secret ca1) ?c"
    using assms(1) by (auto simp: generate_eq)
  have "rotated_at ca1 \<le> t2"
    using rotate_rotated_at [of ca t1 fresh] assms(2,3) ca1 by simp
  moreover have "t - t2 < COOKIE_SECRET_ROTATION"
    using assms(8) cookie_lifespan_bounds [of inc] by linarith
  ultimately have "secret_for ca2 (generation ca1) = Some (current_secret ca1)"
    using assms(6) ca1 by (intro auth_run_secret_for) (simp_all add: rotate_initialized)
  then have "verify ca2 t cookie echo src' = Inr (VALID, Some (?c\<lparr>mac := hmac_sha256 (current_secret ca1)
      (serialize_cookie_fields ?c @ tsn_bytes (ck_peer_addresses ?c))\<rparr>), 0)"
    unfolding cookie using assms(5,9-12) signed_cookie_age [OF assms(4) auth_run_mono [OF assms(6)] assms(7,8)]
    by (intro verify_signed) (auto simp: cookie_for_def)
  then show ?thesis by (simp add: cookie_for_def)
qed

text \<open>C30: The verifier accepts a cookie only if its last 32 bytes are the HMAC of the rest under a secret
  that is current or the one before it, the packet carries the cookie's ports and tag and comes from one
  of its addresses, and it is not past its lifespan; and it accepts every cookie of that kind.\<close>

theorem verify_valid_iff:
  "verify ca t cookie header src = Inr (VALID, Some out, stale) \<longleftrightarrow>
     deserialize_state_cookie cookie = Inr (Some out) \<and> stale = 0 \<and>
     (\<exists>secret. secret_for ca (secret_generation out) = Some secret \<and>
        drop (length cookie - 32) cookie = hmac_sha256 secret (take (length cookie - 32) cookie)) \<and>
     sctp_src_port out = src_port header \<and> sctp_dst_port out = des_port header \<and>
     local_ver_tag out = verification_tag header \<and>
     ntohl (s_addr src) \<in> set (peer_ipv4 out # ck_peer_addresses out) \<and>
     created_us out \<le> now_us t \<and> now_us t - created_us out \<le> ucast (lifespan_us out)"
  by (rule verify_valid_eq)

text \<open>An endpoint with an old secret, an INIT, and a rotation one second after the cookie was made.\<close>

definition example_auth :: Cookie_Auth where
  "example_auth = \<lparr>current_secret = replicate 32 1, previous_secret = replicate 32 0, generation = 255,
     have_previous = False, auth_initialized = True, rotated_at = 0\<rparr>"

definition example_header :: SCTP_Common_Header where
  "example_header = \<lparr>src_port = 5000, des_port = 5001, verification_tag = 77, hdr_checksum = 0\<rparr>"

definition example_init :: init_chunk_value where
  "example_init = \<lparr>initiate_tag = 9, init_a_rwnd = 65535, init_out_streams = 10, init_in_streams = 10,
     initial_tsn = 5, optional_parameters = []\<rparr>"

theorem generated_cookie_verifies_witness:
  "\<exists>cookie ca2 out. generate [] (seconds 3599) (seconds 3599) example_auth example_header example_init
       \<lparr>s_addr = 1, sin_port = 2\<rparr> 77 6 0 0 0 [] = (example_auth, Inr cookie) \<and>
     auth_run example_auth (seconds 3599) ca2 (seconds 3601) \<and> generation ca2 = 0 \<and>
     verify ca2 (seconds 3601) cookie example_header \<lparr>s_addr = 1, sin_port = 3\<rparr> = Inr (VALID, Some out, 0) \<and>
     ck_peer_ver_tag out = 9"
proof -
  let ?src = "\<lparr>s_addr = 1, sin_port = 2\<rparr> :: sockaddr_in"
  have same: "rotate_if_due [] (seconds 3599) example_auth = example_auth"
    by (simp add: rotate_if_due_def example_auth_def)
  then obtain cookie where gen: "generate [] (seconds 3599) (seconds 3599) example_auth example_header example_init
      ?src 77 6 0 0 0 [] = (example_auth, Inr cookie)"
    using generate_eq [of "[]" "seconds 3599" "seconds 3599" example_auth example_header example_init ?src 77 6 0 0 0 "[]"]
    by simp
  define ca2 where "ca2 = rotate_if_due (replicate 32 2) (seconds 3600) example_auth"
  have run: "auth_run example_auth (seconds 3599) ca2 (seconds 3601)"
    by (rule run_generate [OF run_wait [where t' = "seconds 3600"], where t_rotate = "seconds 3600" and t_created = "seconds 3600"])
      (simp_all add: ca2_def)
  have "60000000 \<le> cookie_lifespan 0" using cookie_lifespan_bounds by blast
  then have "\<exists>out. verify ca2 (seconds 3601) cookie example_header \<lparr>s_addr = 1, sin_port = 3\<rparr> =
      Inr (VALID, Some out, 0) \<and> local_ver_tag out = 77 \<and> ck_peer_ver_tag out = initiate_tag example_init \<and>
    local_initial_tsn out = 6 \<and> peer_initial_tsn out = initial_tsn example_init \<and>
    ck_local_tie_tag out = 0 \<and> ck_peer_tie_tag out = 0 \<and> ck_peer_addresses out = []"
    by (intro generated_cookie_verifies [OF gen _ _ _ _ run])
      (simp_all add: example_auth_def example_header_def)
  moreover have "generation ca2 = 0" by (simp add: ca2_def rotate_if_due_def example_auth_def)
  ultimately show ?thesis using gen run by (auto simp: example_init_def)
qed

end
