(* ===== verification/Builders.thy ===== *)
theory Builders
  imports Wire_Codec
begin

text \<open>
  The packet builders of \<open>src/builders.cpp\<close>, and the byte helpers and error causes of
  \<open>src/socket_internal.hpp\<close> they and the handlers use. A builder that appends parameters may throw, so it
  returns a result. The lemmas show that what the builders produce survives the wire: the packets
  serialize without error and the peer's parser recovers the fields and parameters.
\<close>

subsection \<open>Helpers\<close>

definition be32_bytes :: "u32 \<Rightarrow> bytes" where
  "be32_bytes v = [ucast (drop_bit 24 v), ucast (drop_bit 16 v), ucast (drop_bit 8 v), ucast v]"

definition read_be32 :: "bytes \<Rightarrow> nat \<Rightarrow> u32 res" where
  "read_be32 p i =
     (if i + 4 \<le> length p
      then Inr (push_bit 24 (ucast (p ! i)) OR push_bit 16 (ucast (p ! (i + 1)))
                OR push_bit 8 (ucast (p ! (i + 2))) OR ucast (p ! (i + 3)))
      else Inl Out_Of_Bounds)"

definition invalid_stream_cause :: "u16 \<Rightarrow> error_cause" where
  "invalid_stream_cause stream_id =
     \<lparr>cause_code = CAUSE_INVALID_STREAM_ID, cause_info = [ucast (drop_bit 8 stream_id), ucast stream_id, 0, 0]\<rparr>"

definition stale_cookie_cause :: "u32 \<Rightarrow> error_cause" where
  "stale_cookie_cause staleness_us = \<lparr>cause_code = CAUSE_STALE_COOKIE, cause_info = be32_bytes staleness_us\<rparr>"

definition packet_with_header :: "u16 \<Rightarrow> u16 \<Rightarrow> u32 \<Rightarrow> SCTP_Packet" where
  "packet_with_header src des tag =
     \<lparr>pkt_header = \<lparr>src_port = src, des_port = des, verification_tag = tag, hdr_checksum = 0\<rparr>, pkt_chunks = []\<rparr>"

definition append_chunk :: "SCTP_Packet \<Rightarrow> u8 \<Rightarrow> Chunk_Value_Type \<Rightarrow> u8 \<Rightarrow> SCTP_Packet" where
  "append_chunk packet type v flag =
     packet\<lparr>pkt_chunks := pkt_chunks packet @
       [\<lparr>chunk_header = \<lparr>ch_type = type, ch_flag = flag, ch_length = 0\<rparr>, chunk_value = v\<rparr>]\<rparr>"

subsection \<open>Builders\<close>

definition build_init :: "u16 \<Rightarrow> u16 \<Rightarrow> u32 \<Rightarrow> u32 \<Rightarrow> u32 \<Rightarrow> SCTP_Packet res" where
  "build_init src des tag tsn cookie_preservative_ms =
     bind_res
       (if cookie_preservative_ms \<noteq> 0
        then append_parameter [] PARAM_COOKIE_PRESERVATIVE (be32_bytes cookie_preservative_ms)
        else Inr [])
       (\<lambda>parameters.
         Inr (append_chunk (packet_with_header src des 0) INIT
           (Init_Value \<lparr>initiate_tag = tag, init_a_rwnd = of_nat RWND, init_out_streams = LOCAL_OUT_STREAMS,
              init_in_streams = LOCAL_MAX_IN_STREAMS, initial_tsn = tsn,
              optional_parameters = parameters\<rparr>) 0))"

fun append_unrecognized :: "bytes list \<Rightarrow> bytes \<Rightarrow> bytes res" where
  "append_unrecognized [] parameters = Inr parameters"
| "append_unrecognized (parameter # rest) parameters =
     bind_res (append_parameter parameters PARAM_UNRECOGNIZED parameter) (append_unrecognized rest)"

definition build_init_ack ::
    "u16 \<Rightarrow> u16 \<Rightarrow> u32 \<Rightarrow> u32 \<Rightarrow> u32 \<Rightarrow> bytes \<Rightarrow> bytes list \<Rightarrow> SCTP_Packet res" where
  "build_init_ack src des peer_tag tag tsn cookie unrecognized =
     bind_res (append_parameter [] PARAM_STATE_COOKIE cookie) (\<lambda>parameters0.
     bind_res (append_unrecognized unrecognized parameters0) (\<lambda>parameters.
       Inr (append_chunk (packet_with_header src des peer_tag) INIT_ACK
         (Init_Value \<lparr>initiate_tag = tag, init_a_rwnd = of_nat RWND, init_out_streams = LOCAL_OUT_STREAMS,
            init_in_streams = LOCAL_MAX_IN_STREAMS, initial_tsn = tsn,
            optional_parameters = parameters\<rparr>) 0)))"

definition build_cookie_echo :: "u16 \<Rightarrow> u16 \<Rightarrow> u32 \<Rightarrow> bytes \<Rightarrow> error_cause list \<Rightarrow> SCTP_Packet" where
  "build_cookie_echo src des peer_tag cookie errors =
     (let packet = append_chunk (packet_with_header src des peer_tag) COOKIE_ECHO (Cookie_Echo_Value cookie) 0
      in if errors \<noteq> [] then append_chunk packet OP_ERROR (Error_Value errors) 0 else packet)"

definition build_cookie_ack :: "u16 \<Rightarrow> u16 \<Rightarrow> u32 \<Rightarrow> SCTP_Packet" where
  "build_cookie_ack src des peer_tag =
     append_chunk (packet_with_header src des peer_tag) COOKIE_ACK Empty_Value 0"

definition build_data :: "u16 \<Rightarrow> u16 \<Rightarrow> u32 \<Rightarrow> data_chunk_value list \<Rightarrow> SCTP_Packet" where
  "build_data src des peer_tag chunks =
     foldl (\<lambda>packet d. append_chunk packet DATA (Data_Value d) (data_flags d))
       (packet_with_header src des peer_tag) chunks"

definition build_sack ::
    "u16 \<Rightarrow> u16 \<Rightarrow> u32 \<Rightarrow> u32 \<Rightarrow> u32 \<Rightarrow> sack_gap_ack_block list \<Rightarrow> u32 list \<Rightarrow> SCTP_Packet" where
  "build_sack src des peer_tag cumulative a_rwnd gaps duplicates =
     append_chunk (packet_with_header src des peer_tag) SACK
       (Sack_Value \<lparr>sack_cumulative_tsn_ack = cumulative, sack_a_rwnd = a_rwnd,
          number_of_gap_ack_blocks = of_nat (length gaps),
          number_of_duplicate_tsns = of_nat (length duplicates),
          gap_ack_blocks = gaps, sack_duplicate_tsns = duplicates\<rparr>) 0"

definition build_error :: "u16 \<Rightarrow> u16 \<Rightarrow> u32 \<Rightarrow> error_cause list \<Rightarrow> SCTP_Packet" where
  "build_error src des peer_tag cs =
     append_chunk (packet_with_header src des peer_tag) OP_ERROR (Error_Value cs) 0"

definition build_abort :: "u16 \<Rightarrow> u16 \<Rightarrow> u32 \<Rightarrow> bool \<Rightarrow> error_cause list \<Rightarrow> SCTP_Packet" where
  "build_abort src des tag reflected cs =
     append_chunk (packet_with_header src des tag) ABORT (Error_Value cs)
       (if reflected then CHUNK_FLAG_T_BIT else 0)"

definition build_shutdown :: "u16 \<Rightarrow> u16 \<Rightarrow> u32 \<Rightarrow> u32 \<Rightarrow> SCTP_Packet" where
  "build_shutdown src des peer_tag cumulative =
     append_chunk (packet_with_header src des peer_tag) SHUTDOWN (Shutdown_Value cumulative) 0"

definition build_shutdown_ack :: "u16 \<Rightarrow> u16 \<Rightarrow> u32 \<Rightarrow> SCTP_Packet" where
  "build_shutdown_ack src des peer_tag =
     append_chunk (packet_with_header src des peer_tag) SHUTDOWN_ACK Empty_Value 0"

definition build_shutdown_complete :: "u16 \<Rightarrow> u16 \<Rightarrow> u32 \<Rightarrow> bool \<Rightarrow> SCTP_Packet" where
  "build_shutdown_complete src des tag reflected =
     append_chunk (packet_with_header src des tag) SHUTDOWN_COMPLETE Empty_Value
       (if reflected then CHUNK_FLAG_T_BIT else 0)"

definition build_heartbeat :: "u16 \<Rightarrow> u16 \<Rightarrow> u32 \<Rightarrow> bytes \<Rightarrow> SCTP_Packet" where
  "build_heartbeat src des peer_tag info =
     append_chunk (packet_with_header src des peer_tag) HEARTBEAT (Heartbeat_Value info) 0"

definition build_heartbeat_ack :: "u16 \<Rightarrow> u16 \<Rightarrow> u32 \<Rightarrow> bytes \<Rightarrow> SCTP_Packet" where
  "build_heartbeat_ack src des peer_tag info =
     append_chunk (packet_with_header src des peer_tag) HEARTBEAT_ACK (Heartbeat_Value info) 0"

definition data_chunk_wire_size :: "data_chunk_value \<Rightarrow> nat" where
  "data_chunk_wire_size d = pad4 (DATA_CHUNK_HEADER_SIZE + length (user_data d))"

subsection \<open>Facts\<close>

lemmas single_chunk_builders =
  build_cookie_ack_def build_sack_def build_error_def build_abort_def build_shutdown_def build_shutdown_ack_def
  build_shutdown_complete_def build_heartbeat_def build_heartbeat_ack_def append_chunk_def packet_with_header_def

lemma length_be32_bytes [simp]: "length (be32_bytes v) = 4"
  by (simp add: be32_bytes_def)

lemma read_be32_be32_bytes: "read_be32 (pre @ be32_bytes v @ post) (length pre) = Inr v"
proof -
  have "push_bit 24 (ucast (ucast (drop_bit 24 v) :: u8)) OR push_bit 16 (ucast (ucast (drop_bit 16 v) :: u8)) OR
      push_bit 8 (ucast (ucast (drop_bit 8 v) :: u8)) OR ucast (ucast v :: u8) = v"
    using load32_mem32 [of v] by (simp add: load32_def ac_simps)
  then show ?thesis by (simp add: read_be32_def be32_bytes_def nth_append)
qed

definition data_chunk :: "data_chunk_value \<Rightarrow> SCTP_Chunk" where
  "data_chunk d = \<lparr>chunk_header = \<lparr>ch_type = DATA, ch_flag = data_flags d, ch_length = 0\<rparr>, chunk_value = Data_Value d\<rparr>"

text \<open>DATA that fits a chunk, with no flag but U, B and E.\<close>

definition data_fits :: "data_chunk_value \<Rightarrow> bool" where
  "data_fits d \<longleftrightarrow>
     data_flags d AND 7 = data_flags d \<and> DATA_CHUNK_HEADER_SIZE + length (user_data d) \<le> UINT16_MAX"

lemma build_data_eq:
  "build_data src des tag ds = (packet_with_header src des tag)\<lparr>pkt_chunks := map data_chunk ds\<rparr>"
proof -
  have "foldl (\<lambda>packet d. append_chunk packet DATA (Data_Value d) (data_flags d)) p ds =
      p\<lparr>pkt_chunks := pkt_chunks p @ map data_chunk ds\<rparr>" for p
    by (induction ds arbitrary: p) (simp_all add: append_chunk_def data_chunk_def)
  then show ?thesis by (simp add: build_data_def packet_with_header_def)
qed

lemma length_data_value_bytes: "length (value_bytes (Data_Value d)) = 12 + length (user_data d)"
  by (simp add: serialize_data_chunk_def append16_def append32_def)

lemma length_data_chunk_bytes: "length (chunk_bytes (data_chunk d)) = data_chunk_wire_size d"
  unfolding length_chunk_bytes data_chunk_def data_chunk_wire_size_def
  by (simp only: SCTP_Chunk.simps length_data_value_bytes) (simp add: add.assoc [symmetric])

lemma data_chunk_ok: "data_fits d \<Longrightarrow> chunk_ok (data_chunk d)"
  unfolding chunk_ok_def chunk_typed_def data_chunk_def SCTP_Chunk.simps SCTP_Chunk_Header.simps length_data_value_bytes
  by (simp add: data_fits_def)

lemma with_wire_length_value [simp]: "chunk_value (with_wire_length c) = chunk_value c"
  "chunk_type (with_wire_length c) = chunk_type c"
  by (simp_all add: with_wire_length_def)

lemma append_unrecognized_eq:
  "list_all param_fits us \<Longrightarrow>
   append_unrecognized us ps = Inr (ps @ params_bytes (map (Pair PARAM_UNRECOGNIZED) us))"
  by (induction us arbitrary: ps) (simp_all add: append_parameter_eq params_bytes_def)

lemma length_init_value_bytes: "length (value_bytes (Init_Value v)) = 16 + length (optional_parameters v)"
  by (simp add: serialize_init_chunk_def append16_def append32_def)

lemma member_le_length_params: "(t, v) \<in> set ps \<Longrightarrow> length (param_bytes t v) \<le> length (params_bytes ps)"
proof (induction ps)
  case (Cons p ps)
  then show ?case by (cases p) (auto simp: params_bytes_Cons intro: trans_le_add2)
qed simp

subsection \<open>Properties\<close>

text \<open>A packet of DATA chunks takes exactly the bytes that \<open>data_chunk_wire_size\<close> counts for flow and
  congestion control, plus the common header, and the peer's parser recovers every chunk: TSN, stream, SSN,
  flags and user data.\<close>

theorem data_packet_on_the_wire:
  assumes "list_all data_fits ds"
  shows "\<exists>data packet. serialize_sctp_packet (build_data src des tag ds) = Inr data \<and>
    length data = SCTP_COMMON_HEADER_SIZE + sum_list (map data_chunk_wire_size ds) \<and>
    deserialize_sctp_packet data = Inr packet \<and> verification_tag (pkt_header packet) = tag \<and>
    map chunk_value (pkt_chunks packet) = map Data_Value ds"
proof -
  let ?p = "build_data src des tag ds"
  have ok: "list_all chunk_ok (pkt_chunks ?p)"
    using assms by (auto simp: build_data_eq list_all_iff data_chunk_ok)
  have "length (packet_bytes ?p crc) = 12 + sum_list (map data_chunk_wire_size ds)" for crc
    by (simp add: packet_bytes_def build_data_eq length_concat comp_def length_data_chunk_bytes)
  then show ?thesis
    using serialize_packet_eq [OF ok] deserialize_packet_bytes [OF ok]
    by (simp add: build_data_eq packet_with_header_def comp_def data_chunk_def)
qed

definition example_data :: "data_chunk_value list" where
  "example_data =
     [\<lparr>data_tsn = 1, stream_identifier = 0, stream_seq_num = 0, payload_protocal = 0, user_data = [1, 2, 3, 4, 5], data_flags = 3\<rparr>,
      \<lparr>data_tsn = 2, stream_identifier = 1, stream_seq_num = 9, payload_protocal = 0, user_data = [6], data_flags = 6\<rparr>]"

theorem data_packet_on_the_wire_witness:
  "\<exists>data packet. serialize_sctp_packet (build_data 1 2 3 example_data) = Inr data \<and> length data = 56 \<and>
    deserialize_sctp_packet data = Inr packet \<and> verification_tag (pkt_header packet) = 3 \<and>
    map chunk_value (pkt_chunks packet) = map Data_Value example_data"
proof -
  have "list_all data_fits example_data" by (simp add: example_data_def data_fits_def)
  moreover have "sum_list (map data_chunk_wire_size example_data) = 44"
    by (simp add: example_data_def data_chunk_wire_size_def pad4_def)
  ultimately show ?thesis using data_packet_on_the_wire [of example_data 1 2 3] by simp
qed

text \<open>An INIT ACK whose parameters fit the chunk is built and serialized without error, and the peer that
  parses it finds the state cookie unchanged, however many unrecognized parameters are reported behind it.\<close>

theorem init_ack_carries_cookie:
  assumes "20 + length (params_bytes ((PARAM_STATE_COOKIE, cookie) # map (Pair PARAM_UNRECOGNIZED) us)) \<le> UINT16_MAX"
  shows "\<exists>data packet c v.
    bind_res (build_init_ack src des peer_tag tag tsn cookie us) serialize_sctp_packet = Inr data \<and>
    deserialize_sctp_packet data = Inr packet \<and> verification_tag (pkt_header packet) = peer_tag \<and>
    pkt_chunks packet = [c] \<and> chunk_type c = INIT_ACK \<and> chunk_value c = Init_Value v \<and>
    initiate_tag v = tag \<and> initial_tsn v = tsn \<and>
    find_parameter (optional_parameters v) PARAM_STATE_COOKIE = Inr (Some cookie)"
proof -
  let ?ps = "(PARAM_STATE_COOKIE, cookie) # map (Pair PARAM_UNRECOGNIZED) us"
  have fits: "param_fits v" if "(t, v) \<in> set ?ps" for t v
    using member_le_length_params [OF that] assms pad4_ge [of "4 + length v"] by (simp add: param_fits_def)
  then have fit: "param_fits cookie" "list_all param_fits us"
    by (auto simp: list_all_iff)
  define v where "v = \<lparr>initiate_tag = tag, init_a_rwnd = of_nat RWND, init_out_streams = LOCAL_OUT_STREAMS,
    init_in_streams = LOCAL_MAX_IN_STREAMS, initial_tsn = tsn, optional_parameters = params_bytes ?ps\<rparr>"
  define p where "p = append_chunk (packet_with_header src des peer_tag) INIT_ACK (Init_Value v) 0"
  have build: "build_init_ack src des peer_tag tag tsn cookie us = Inr p"
    using fit by (simp add: build_init_ack_def append_parameter_eq append_unrecognized_eq p_def v_def params_bytes_Cons)
  have ok: "list_all chunk_ok (pkt_chunks p)"
    using assms unfolding p_def append_chunk_def packet_with_header_def
    by (simp add: chunk_ok_def chunk_typed_def v_def length_init_value_bytes del: value_bytes.simps)
  have "find_parameter (params_bytes ?ps) PARAM_STATE_COOKIE = Inr (Some cookie)"
    using find_parameter_at_param [OF fit(1), of "[]" PARAM_STATE_COOKIE] by (simp add: find_parameter_def params_bytes_Cons)
  then show ?thesis
    using serialize_packet_eq [OF ok] deserialize_packet_bytes [OF ok] build
    by (simp add: p_def append_chunk_def packet_with_header_def v_def)
qed

theorem init_ack_carries_cookie_witness:
  "\<exists>data packet c v.
    bind_res (build_init_ack 1 2 3 4 5 [7, 8, 9] [[0xC0, 1, 0, 4]]) serialize_sctp_packet = Inr data \<and>
    deserialize_sctp_packet data = Inr packet \<and> verification_tag (pkt_header packet) = 3 \<and>
    pkt_chunks packet = [c] \<and> chunk_type c = INIT_ACK \<and> chunk_value c = Init_Value v \<and>
    initiate_tag v = 4 \<and> initial_tsn v = 5 \<and>
    find_parameter (optional_parameters v) PARAM_STATE_COOKIE = Inr (Some [7, 8, 9])"
  by (rule init_ack_carries_cookie) (simp add: params_bytes_def pad4_def)

end
