(* ===== verification/Send_Queue.thy ===== *)
theory Send_Queue
  imports Builders Serial_Arith
begin

text \<open>
  The outbound queue of \<open>src/send_queue.cpp\<close>: three tiers (control, retransmission, new data),
  with a peek that does not remove and a commit by identifier. Every operation holds the queue's mutex, so it is
  atomic and is a function on the queue's state; threads interleave between operations, which is
  what \<open>sq_step\<close>, the relation of any one operation of any thread, stands for.
  \<open>Send_Allowances\<close> is a hash map that is only looked up:
  a map.
\<close>

subsection \<open>State\<close>

datatype Send_Priority = CONTROL | RETRANSMISSION | NEW_DATA

record Send_Allowance =
  flight_size :: nat
  al_cwnd_open :: bool
  burst_spent :: bool
  al_rwnd :: u32
  zero_window_probe :: bool
  rwnd_blocked :: bool

type_synonym Send_Allowances = "Association_Key \<rightharpoonup> Send_Allowance"

record Queued =
  q_id :: u64
  q_deliverable :: Deliverable

record Pending =
  p_priority :: Send_Priority
  p_deliverable :: Deliverable
  p_id :: u64

record Send_Queue =
  control :: "Queued list"
  retransmission :: "Queued list"
  new_data :: "Queued list"
  next_id :: u64
  new_data_blocked :: bool
  next_send_attempt :: time

abbreviation (input) MAX_QUEUED_CONTROL :: nat where "MAX_QUEUED_CONTROL \<equiv> 256"

text \<open>\<open>time_point{}\<close> is the clock's epoch.\<close>

definition empty_send_queue :: Send_Queue where
  "empty_send_queue = \<lparr>control = [], retransmission = [], new_data = [], next_id = 0,
     new_data_blocked = False, next_send_attempt = 0\<rparr>"

abbreviation q_location :: "Queued \<Rightarrow> Association_Key" where
  "q_location q \<equiv> dl_location (q_deliverable q)"

subsection \<open>Operations\<close>

text \<open>\<open>std::get\<close> runs only on DATA chunks, and every queued packet is well typed; the other
  alternatives are never reached.\<close>

definition chunk_data_size :: "SCTP_Chunk \<Rightarrow> nat" where
  "chunk_data_size chunk =
     (if chunk_type chunk = DATA
      then (case chunk_value chunk of Data_Value d \<Rightarrow> data_chunk_wire_size d | _ \<Rightarrow> 0) else 0)"

definition data_bytes :: "SCTP_Packet \<Rightarrow> nat" where
  "data_bytes packet = foldl (\<lambda>total chunk. total + chunk_data_size chunk) 0 (pkt_chunks packet)"

definition admits :: "Send_Allowance \<Rightarrow> SCTP_Packet \<Rightarrow> bool \<times> Send_Allowance" where
  "admits allowance packet =
     (if \<not> al_cwnd_open allowance \<or> burst_spent allowance then (False, allowance)
      else if zero_window_probe allowance \<or> data_bytes packet \<le> unat (al_rwnd allowance) then (True, allowance)
      else (False, allowance\<lparr>rwnd_blocked := True\<rparr>))"

fun queue_for :: "Send_Priority \<Rightarrow> Send_Queue \<Rightarrow> Queued list" where
  "queue_for CONTROL sq = control sq"
| "queue_for RETRANSMISSION sq = retransmission sq"
| "queue_for NEW_DATA sq = new_data sq"

fun set_queue :: "Send_Priority \<Rightarrow> Queued list \<Rightarrow> Send_Queue \<Rightarrow> Send_Queue" where
  "set_queue CONTROL qs sq = sq\<lparr>control := qs\<rparr>"
| "set_queue RETRANSMISSION qs sq = sq\<lparr>retransmission := qs\<rparr>"
| "set_queue NEW_DATA qs sq = sq\<lparr>new_data := qs\<rparr>"

definition enqueue :: "Deliverable \<Rightarrow> Send_Priority \<Rightarrow> Send_Queue \<Rightarrow> Send_Queue" where
  "enqueue d prio sq =
     (if prio = CONTROL \<and> length (control sq) \<ge> MAX_QUEUED_CONTROL then sq
      else (set_queue prio (queue_for prio sq @ [\<lparr>q_id = next_id sq, q_deliverable = d\<rparr>]) sq)
             \<lparr>next_id := next_id sq + 1, new_data_blocked := False\<rparr>)"

text \<open>The scan of new data: it stops at the first packet admitted, and skips the associations it has refused
  a packet of, so that their packets keep their order.\<close>

fun scan_new_data ::
    "Queued list \<Rightarrow> Association_Key list \<Rightarrow> Send_Allowances \<Rightarrow> Queued option \<times> Send_Allowances" where
  "scan_new_data [] refused allowances = (None, allowances)"
| "scan_new_data (queued # rest) refused allowances =
     (let location = q_location queued in
      if location \<in> set refused then scan_new_data rest refused allowances
      else case allowances location of
             None \<Rightarrow> scan_new_data rest (refused @ [location]) allowances
           | Some allowance \<Rightarrow>
               (case admits allowance (dl_packet (q_deliverable queued)) of
                  (True, allowance') \<Rightarrow> (Some queued, allowances(location \<mapsto> allowance'))
                | (False, allowance') \<Rightarrow>
                    scan_new_data rest (refused @ [location]) (allowances(location \<mapsto> allowance'))))"

definition pending_of :: "Send_Priority \<Rightarrow> Queued \<Rightarrow> Pending" where
  "pending_of prio q = \<lparr>p_priority = prio, p_deliverable = q_deliverable q, p_id = q_id q\<rparr>"

text \<open>\<open>peek_locked\<close>; the allowances are absent for the overload that opens every window.\<close>

definition peek_locked ::
    "time \<Rightarrow> Send_Allowances option \<Rightarrow> Send_Queue \<Rightarrow> Pending option \<times> Send_Allowances option \<times> Send_Queue" where
  "peek_locked now allowances sq =
     (if now < next_send_attempt sq then (None, allowances, sq)
      else if control sq \<noteq> [] then (Some (pending_of CONTROL (hd (control sq))), allowances, sq)
      else if retransmission sq \<noteq> []
      then (Some (pending_of RETRANSMISSION (hd (retransmission sq))), allowances, sq)
      else case allowances of
             None \<Rightarrow>
               (case new_data sq of
                  q # _ \<Rightarrow> (Some (pending_of NEW_DATA q), None, sq)
                | [] \<Rightarrow> (None, None, sq\<lparr>new_data_blocked := False\<rparr>))
           | Some al \<Rightarrow>
               (case scan_new_data (new_data sq) [] al of
                  (Some q, al') \<Rightarrow> (Some (pending_of NEW_DATA q), Some al', sq)
                | (None, al') \<Rightarrow> (None, Some al', sq\<lparr>new_data_blocked := new_data sq \<noteq> []\<rparr>)))"

definition peek :: "time \<Rightarrow> Send_Allowances \<Rightarrow> Send_Queue \<Rightarrow> Pending option \<times> Send_Allowances \<times> Send_Queue" where
  "peek now allowances sq =
     (case peek_locked now (Some allowances) sq of (r, al, sq') \<Rightarrow> (r, the al, sq'))"

definition peek_open :: "time \<Rightarrow> Send_Queue \<Rightarrow> Pending option \<times> Send_Queue" where
  "peek_open now sq = (case peek_locked now None sq of (r, al, sq') \<Rightarrow> (r, sq'))"

text \<open>\<open>find_if\<close> and \<open>erase\<close>: removes the first entry with the identifier.\<close>

fun erase_id :: "u64 \<Rightarrow> Queued list \<Rightarrow> Queued list" where
  "erase_id i [] = []"
| "erase_id i (q # qs) = (if q_id q = i then qs else q # erase_id i qs)"

definition commit :: "Pending \<Rightarrow> Send_Queue \<Rightarrow> Send_Queue" where
  "commit pending sq =
     (set_queue (p_priority pending) (erase_id (p_id pending) (queue_for (p_priority pending) sq)) sq)
       \<lparr>next_send_attempt := 0\<rparr>"

definition defer_send :: "time \<Rightarrow> Send_Queue \<Rightarrow> Send_Queue" where
  "defer_send retry_at sq = sq\<lparr>next_send_attempt := retry_at\<rparr>"

definition purge_one :: "Association_Key \<Rightarrow> Queued list \<Rightarrow> Queued list" where
  "purge_one location qs = filter (\<lambda>q. q_location q \<noteq> location) qs"

definition purge :: "Association_Key \<Rightarrow> Send_Queue \<Rightarrow> Send_Queue" where
  "purge location sq =
     sq\<lparr>control := purge_one location (control sq),
        retransmission := purge_one location (retransmission sq),
        new_data := purge_one location (new_data sq)\<rparr>"

definition chunk_acked :: "sack_chunk_value \<Rightarrow> SCTP_Chunk \<Rightarrow> bool" where
  "chunk_acked sack chunk =
     (chunk_type chunk = DATA \<and>
      (case chunk_value chunk of Data_Value d \<Rightarrow> sack_acknowledges sack (data_tsn d) | _ \<Rightarrow> False))"

text \<open>The loops that rebuild the retransmission tier: a packet of the association loses the chunks
  that \<open>drop\<close> selects, and a packet left without chunks is dropped.\<close>

definition keep_chunks :: "(SCTP_Chunk \<Rightarrow> bool) \<Rightarrow> Queued \<Rightarrow> Queued" where
  "keep_chunks keep q =
     q\<lparr>q_deliverable := (q_deliverable q)\<lparr>dl_packet := (dl_packet (q_deliverable q))
         \<lparr>pkt_chunks := filter keep (pkt_chunks (dl_packet (q_deliverable q)))\<rparr>\<rparr>\<rparr>"

abbreviation q_chunks :: "Queued \<Rightarrow> SCTP_Chunk list" where
  "q_chunks q \<equiv> pkt_chunks (dl_packet (q_deliverable q))"

fun remove_acked_loop :: "Association_Key \<Rightarrow> sack_chunk_value \<Rightarrow> Queued list \<Rightarrow> Queued list" where
  "remove_acked_loop location sack [] = []"
| "remove_acked_loop location sack (queued # rest) =
     (let queued' = (if q_location queued = location then keep_chunks (\<lambda>c. \<not> chunk_acked sack c) queued else queued)
      in (if q_chunks queued' \<noteq> [] then [queued'] else []) @ remove_acked_loop location sack rest)"

definition remove_acked_retransmissions :: "Association_Key \<Rightarrow> sack_chunk_value \<Rightarrow> Send_Queue \<Rightarrow> Send_Queue" where
  "remove_acked_retransmissions location sack sq =
     sq\<lparr>retransmission := remove_acked_loop location sack (retransmission sq)\<rparr>"

fun remove_type_loop :: "Association_Key \<Rightarrow> u8 \<Rightarrow> sockaddr_in option \<Rightarrow> Queued list \<Rightarrow> Queued list" where
  "remove_type_loop location type destination [] = []"
| "remove_type_loop location type destination (queued # rest) =
     (let queued' =
            (if q_location queued = location
                \<and> (case destination of None \<Rightarrow> True
                   | Some d \<Rightarrow> s_addr d = s_addr (dl_destination (q_deliverable queued)))
             then let carried = list_ex (\<lambda>c. chunk_type c = type) (q_chunks queued)
                  in keep_chunks (\<lambda>c. \<not> (carried \<and> (chunk_type c = type \<or> chunk_type c = OP_ERROR))) queued
             else queued)
      in (if q_chunks queued' \<noteq> [] then [queued'] else []) @ remove_type_loop location type destination rest)"

definition remove_retransmissions_of_type ::
    "Association_Key \<Rightarrow> u8 \<Rightarrow> sockaddr_in option \<Rightarrow> Send_Queue \<Rightarrow> Send_Queue" where
  "remove_retransmissions_of_type location type destination sq =
     sq\<lparr>retransmission := remove_type_loop location type destination (retransmission sq)\<rparr>"

definition clear_queue :: "Send_Queue \<Rightarrow> Send_Queue" where
  "clear_queue sq =
     sq\<lparr>control := [], retransmission := [], new_data := [], new_data_blocked := False, next_send_attempt := 0\<rparr>"

definition next_deadline :: "Send_Queue \<Rightarrow> time option" where
  "next_deadline sq =
     (if control sq = [] \<and> retransmission sq = [] \<and> (new_data sq = [] \<or> new_data_blocked sq) then None
      else Some (next_send_attempt sq))"

definition queue_size :: "Send_Queue \<Rightarrow> nat" where
  "queue_size sq = length (control sq) + length (retransmission sq) + length (new_data sq)"

definition queue_contains :: "Association_Key \<Rightarrow> Queued list \<Rightarrow> bool" where
  "queue_contains location qs = list_ex (\<lambda>q. q_location q = location) qs"

definition has_packets_for :: "Association_Key \<Rightarrow> Send_Queue \<Rightarrow> bool" where
  "has_packets_for location sq =
     (queue_contains location (control sq) \<or> queue_contains location (retransmission sq)
      \<or> queue_contains location (new_data sq))"

definition has_retransmission_for :: "Association_Key \<Rightarrow> Send_Queue \<Rightarrow> bool" where
  "has_retransmission_for location sq = queue_contains location (retransmission sq)"

definition has_new_data_for :: "Association_Key \<Rightarrow> Send_Queue \<Rightarrow> bool" where
  "has_new_data_for location sq = queue_contains location (new_data sq)"

definition front_data_tsns :: "Send_Priority \<Rightarrow> Send_Queue \<Rightarrow> u32 list" where
  "front_data_tsns prio sq =
     (case queue_for prio sq of [] \<Rightarrow> []
      | q # _ \<Rightarrow> concat (map (\<lambda>c. if chunk_type c = DATA
                               then (case chunk_value c of Data_Value d \<Rightarrow> [data_tsn d] | _ \<Rightarrow> []) else [])
                    (q_chunks q)))"

definition front_chunk_count :: "Send_Priority \<Rightarrow> Send_Queue \<Rightarrow> nat" where
  "front_chunk_count prio sq = (case queue_for prio sq of [] \<Rightarrow> 0 | q # _ \<Rightarrow> length (q_chunks q))"

subsection \<open>One operation of any thread\<close>

inductive sq_step :: "Send_Queue \<Rightarrow> Send_Queue \<Rightarrow> bool" where
  step_enqueue: "sq_step sq (enqueue d prio sq)"
| step_peek: "peek now al sq = (r, al', sq') \<Longrightarrow> sq_step sq sq'"
| step_peek_open: "peek_open now sq = (r, sq') \<Longrightarrow> sq_step sq sq'"
| step_commit: "sq_step sq (commit p sq)"
| step_defer: "sq_step sq (defer_send t sq)"
| step_purge: "sq_step sq (purge location sq)"
| step_remove_acked: "sq_step sq (remove_acked_retransmissions location sack sq)"
| step_remove_type: "sq_step sq (remove_retransmissions_of_type location type dest sq)"
| step_clear: "sq_step sq (clear_queue sq)"

abbreviation all_queued :: "Send_Queue \<Rightarrow> Queued list" where
  "all_queued sq \<equiv> control sq @ retransmission sq @ new_data sq"

text \<open>
  The invariant, with the number \<open>n\<close> of packets queued so far: identifiers are distinct and below
  \<open>n\<close>. It holds until \<open>2 ^ 64\<close> packets have been queued, when identifiers wrap around.
\<close>

definition sq_ok :: "nat \<Rightarrow> Send_Queue \<Rightarrow> bool" where
  "sq_ok n sq \<longleftrightarrow>
     next_id sq = of_nat n \<and> n < 2 ^ 64 \<and> distinct (map q_id (all_queued sq)) \<and>
     (\<forall>q \<in> set (all_queued sq). unat (q_id q) < n) \<and> length (control sq) \<le> MAX_QUEUED_CONTROL"

text \<open>A packet and what remains of it: the same identifier, association and destination, and
  some of its chunks in their order.\<close>

definition remains_of :: "Queued \<Rightarrow> Queued \<Rightarrow> bool" where
  "remains_of q q' \<longleftrightarrow>
     q_id q' = q_id q \<and> q_location q' = q_location q \<and>
     dl_destination (q_deliverable q') = dl_destination (q_deliverable q) \<and>
     (\<exists>keep. q_chunks q' = filter keep (q_chunks q))"

text \<open>How a tier changes without an enqueue: some entries go, some lose chunks, the order stays.\<close>

definition shrinks :: "Queued list \<Rightarrow> Queued list \<Rightarrow> bool" where
  "shrinks qs qs' \<longleftrightarrow> (\<exists>f keep. qs' = map f (filter keep qs) \<and> (\<forall>q. remains_of q (f q)))"

text \<open>How a tier changes over any operations after \<open>n\<close> packets were queued: what is there was there, or has a
  later identifier.\<close>

definition descends :: "nat \<Rightarrow> Queued list \<Rightarrow> Queued list \<Rightarrow> bool" where
  "descends n qs qs' \<longleftrightarrow> (\<forall>q' \<in> set qs'. n \<le> unat (q_id q') \<or> (\<exists>q \<in> set qs. remains_of q q'))"

subsection \<open>Facts on the operations\<close>

lemma remains_of_refl [simp]: "remains_of q q"
proof -
  have "q_chunks q = filter (\<lambda>_. True) (q_chunks q)" by simp
  then show ?thesis unfolding remains_of_def by blast
qed

lemma remains_of_keep [simp]: "remains_of q (keep_chunks keep q)"
  by (auto simp: remains_of_def keep_chunks_def)

lemma remains_of_trans: "remains_of q q' \<Longrightarrow> remains_of q' q'' \<Longrightarrow> remains_of q q''"
  unfolding remains_of_def by (metis filter_filter)

lemma remains_of_id: "remains_of q q' \<Longrightarrow> q_id q' = q_id q"
  by (simp add: remains_of_def)

lemma set_queue_simps [simp]:
  "queue_for p (set_queue p qs sq) = qs" "p \<noteq> p' \<Longrightarrow> queue_for p (set_queue p' qs sq) = queue_for p sq"
  "next_id (set_queue p qs sq) = next_id sq" "next_send_attempt (set_queue p qs sq) = next_send_attempt sq"
  by (cases p; cases p'; simp)+

lemma queue_for_update [simp]:
  "queue_for p (sq\<lparr>next_id := i\<rparr>) = queue_for p sq" "queue_for p (sq\<lparr>new_data_blocked := b\<rparr>) = queue_for p sq"
  "queue_for p (sq\<lparr>next_send_attempt := t\<rparr>) = queue_for p sq"
  by (cases p; simp)+

lemma erase_id_eq_filter: "distinct (map q_id qs) \<Longrightarrow> erase_id i qs = filter (\<lambda>q. q_id q \<noteq> i) qs"
proof (induction qs)
  case (Cons q qs)
  then have "q_id q = i \<Longrightarrow> filter (\<lambda>q. q_id q \<noteq> i) qs = qs"
    by (intro filter_True) (metis distinct.simps(2) image_eqI list.simps(9) set_map)
  with Cons show ?case by auto
qed simp

lemma shrinks_filter [intro]: "shrinks qs (filter keep qs)"
  unfolding shrinks_def by (rule exI [of _ id], rule exI [of _ keep]) simp

lemma shrinks_refl [intro, simp]: "shrinks qs qs"
  using shrinks_filter [of qs "\<lambda>_. True"] by simp

lemma shrinks_Nil [intro, simp]: "shrinks qs []"
  using shrinks_filter [of qs "\<lambda>_. False"] by simp

lemma shrinks_erase: "distinct (map q_id qs) \<Longrightarrow> shrinks qs (erase_id i qs)"
  by (simp add: erase_id_eq_filter shrinks_filter)

lemma shrinks_map_nonempty:
  "(\<And>q. remains_of q (f q)) \<Longrightarrow> shrinks qs (map f (filter (\<lambda>q. q_chunks (f q) \<noteq> []) qs))"
  unfolding shrinks_def by blast

lemma remove_acked_loop_eq:
  fixes location sack
  defines "f \<equiv> \<lambda>q. if q_location q = location then keep_chunks (\<lambda>c. \<not> chunk_acked sack c) q else q"
  shows "remove_acked_loop location sack qs = map f (filter (\<lambda>q. q_chunks (f q) \<noteq> []) qs)"
  by (induction qs) (simp_all add: f_def Let_def)

lemma shrinks_remove_acked: "shrinks qs (remove_acked_loop location sack qs)"
  unfolding remove_acked_loop_eq by (rule shrinks_map_nonempty) simp

lemma shrinks_remove_type: "shrinks qs (remove_type_loop location type dest qs)"
proof -
  let ?f = "\<lambda>q. if q_location q = location
      \<and> (case dest of None \<Rightarrow> True | Some d \<Rightarrow> s_addr d = s_addr (dl_destination (q_deliverable q)))
    then keep_chunks (\<lambda>c. \<not> (list_ex (\<lambda>c. chunk_type c = type) (q_chunks q)
           \<and> (chunk_type c = type \<or> chunk_type c = OP_ERROR))) q
    else q"
  have "remove_type_loop location type dest qs = map ?f (filter (\<lambda>q. q_chunks (?f q) \<noteq> []) qs)"
    by (induction qs) (simp_all add: Let_def)
  then show ?thesis using shrinks_map_nonempty [of ?f qs] by simp
qed

lemma shrinks_ids: "shrinks qs qs' \<Longrightarrow> \<exists>keep. map q_id qs' = map q_id (filter keep qs)"
proof -
  assume "shrinks qs qs'"
  then obtain f keep where "qs' = map f (filter keep qs)" "\<forall>q. q_id (f q) = q_id q"
    using remains_of_id by (auto simp: shrinks_def)
  then have "map q_id qs' = map q_id (filter keep qs)" by simp
  then show ?thesis by blast
qed

lemma shrinks_length: "shrinks qs qs' \<Longrightarrow> length qs' \<le> length qs"
  using length_filter_le by (auto simp: shrinks_def)

lemma shrinks_descends: "shrinks qs qs' \<Longrightarrow> descends n qs qs'"
  unfolding shrinks_def descends_def by (metis (no_types, lifting) filter_is_subset image_iff set_map subsetD)

lemma descends_append: "n \<le> unat (q_id q) \<Longrightarrow> descends n qs (qs @ [q])"
proof -
  assume n: "n \<le> unat (q_id q)"
  have "\<exists>q \<in> set qs. remains_of q q'" if "q' \<in> set qs" for q'
    using that remains_of_refl by blast
  then show ?thesis using n by (auto simp: descends_def)
qed

lemma peek_locked_queues:
  assumes "peek_locked now al sq = (r, al', sq')"
  shows "queue_for p sq' = queue_for p sq" "next_id sq' = next_id sq"
  using assms by (auto simp: peek_locked_def split: if_splits option.splits list.splits prod.splits)

subsection \<open>Every operation keeps the invariant\<close>

lemma sq_ok_shrinks:
  assumes "sq_ok n sq" "shrinks (control sq) (control sq')" "shrinks (retransmission sq) (retransmission sq')"
    "shrinks (new_data sq) (new_data sq')" "next_id sq' = next_id sq"
  shows "sq_ok n sq'"
proof -
  obtain k1 k2 k3 where ids: "map q_id (control sq') = map q_id (filter k1 (control sq))"
    "map q_id (retransmission sq') = map q_id (filter k2 (retransmission sq))"
    "map q_id (new_data sq') = map q_id (filter k3 (new_data sq))"
    using assms(2-4) shrinks_ids by meson
  have sub: "set (map q_id (all_queued sq')) \<subseteq> set (map q_id (all_queued sq))"
    unfolding map_append set_append ids by auto
  have "\<forall>i \<in> set (map q_id (all_queued sq)). unat i < n"
    using assms(1) by (auto simp: sq_ok_def)
  with sub have "\<forall>i \<in> set (map q_id (all_queued sq')). unat i < n" by blast
  then have "\<forall>q \<in> set (all_queued sq'). unat (q_id q) < n" by auto
  moreover have "distinct (map q_id (all_queued sq'))"
    using assms(1) unfolding map_append ids sq_ok_def by (auto simp: distinct_map_filter)
  ultimately show ?thesis
    using assms(1,5) shrinks_length [OF assms(2)] by (simp add: sq_ok_def)
qed

lemma sq_ok_enqueue:
  assumes "sq_ok n sq" "Suc n < 2 ^ 64"
  shows "\<exists>m. n \<le> m \<and> m \<le> Suc n \<and> sq_ok m (enqueue d prio sq) \<and>
    descends n (queue_for p sq) (queue_for p (enqueue d prio sq))"
proof (cases "prio = CONTROL \<and> length (control sq) \<ge> MAX_QUEUED_CONTROL")
  case True
  then have "enqueue d prio sq = sq" by (simp add: enqueue_def)
  then show ?thesis using assms(1) shrinks_descends [OF shrinks_refl] by auto
next
  case False
  have id: "unat (of_nat n :: u64) = n" using assms by (simp add: unat_of_nat)
  have fresh: "q_id q \<noteq> of_nat n" if "q \<in> set (all_queued sq)" for q
    using assms(1) that id unfolding sq_ok_def by (metis less_irrefl)
  have "sq_ok (Suc n) (enqueue d prio sq)"
    using assms fresh id False unfolding sq_ok_def enqueue_def
    by (cases prio) (auto simp: less_Suc_eq)
  moreover have "descends n (queue_for p sq) (queue_for p (enqueue d prio sq))"
  proof (cases "p = prio")
    case True
    have "next_id sq = of_nat n" using assms(1) by (simp add: sq_ok_def)
    then have "queue_for p (enqueue d prio sq) = queue_for p sq @ [\<lparr>q_id = of_nat n, q_deliverable = d\<rparr>]"
      using True False by (simp add: enqueue_def)
    then show ?thesis using id descends_append [of n "\<lparr>q_id = of_nat n, q_deliverable = d\<rparr>"] by simp
  next
    case other: False
    then show ?thesis using False shrinks_descends [OF shrinks_refl] by (simp add: enqueue_def)
  qed
  ultimately show ?thesis by (intro exI [of _ "Suc n"]) simp
qed

lemma sq_step_cases:
  assumes "sq_step sq sq'" "sq_ok n sq" "Suc n < 2 ^ 64"
  shows "\<exists>m. n \<le> m \<and> m \<le> Suc n \<and> sq_ok m sq' \<and> descends n (queue_for p sq) (queue_for p sq')"
proof (cases "\<exists>d prio. sq' = enqueue d prio sq")
  case True
  then show ?thesis using sq_ok_enqueue [OF assms(2,3)] by blast
next
  case False
  have distinct: "distinct (map q_id (queue_for p sq))" for p
    using assms(2) by (cases p) (auto simp: sq_ok_def)
  have "shrinks (queue_for p sq) (queue_for p sq') \<and> next_id sq' = next_id sq" for p
    using assms(1) False
  proof (cases rule: sq_step.cases)
    case (step_peek now al r al')
    then obtain al'' where "peek_locked now (Some al) sq = (r, al'', sq')"
      by (auto simp: peek_def split: prod.splits)
    then show ?thesis by (simp add: peek_locked_queues)
  next
    case (step_peek_open now r)
    then obtain al'' where "peek_locked now None sq = (r, al'', sq')"
      by (auto simp: peek_open_def split: prod.splits)
    then show ?thesis by (simp add: peek_locked_queues)
  next
    case (step_commit c)
    then show ?thesis
      by (cases "p = p_priority c") (simp_all add: commit_def shrinks_erase distinct)
  qed (cases p; auto simp: defer_send_def purge_def purge_one_def remove_acked_retransmissions_def
      remove_retransmissions_of_type_def clear_queue_def shrinks_remove_acked shrinks_remove_type)+
  then have sh: "shrinks (queue_for p sq) (queue_for p sq')" "next_id sq' = next_id sq" for p by blast+
  have "sq_ok n sq'"
    using sq_ok_shrinks [OF assms(2), of sq'] sh(1) [of CONTROL] sh(1) [of RETRANSMISSION] sh(1) [of NEW_DATA] sh(2)
    by simp
  moreover have "descends n (queue_for p sq) (queue_for p sq')"
    using sh(1) by (rule shrinks_descends)
  ultimately have "sq_ok n sq'" "descends n (queue_for p sq) (queue_for p sq')" by blast+
  then show ?thesis by auto
qed

lemma descends_trans: "descends n qs qs' \<Longrightarrow> descends m qs' qs'' \<Longrightarrow> n \<le> m \<Longrightarrow> descends n qs qs''"
proof -
  assume d: "descends n qs qs'" "descends m qs' qs''" "n \<le> m"
  have "n \<le> unat (q_id q) \<or> (\<exists>q0 \<in> set qs. remains_of q0 q)" if q: "q \<in> set qs''" for q
  proof (cases "m \<le> unat (q_id q)")
    case False
    then obtain q1 where q1: "q1 \<in> set qs'" "remains_of q1 q" using d(2) q by (auto simp: descends_def)
    then consider "n \<le> unat (q_id q1)" | q0 where "q0 \<in> set qs" "remains_of q0 q1"
      using d(1) unfolding descends_def by blast
    then show ?thesis using q1 remains_of_id [OF q1(2)] remains_of_trans by cases auto
  qed (use d(3) in linarith)
  then show ?thesis by (simp add: descends_def)
qed

lemma sq_run_ok:
  assumes "(sq_step ^^ k) sq sq'" "sq_ok n sq" "n + k < 2 ^ 64"
  shows "\<exists>m. n \<le> m \<and> m \<le> n + k \<and> sq_ok m sq' \<and> descends n (queue_for p sq) (queue_for p sq')"
  using assms
proof (induction k arbitrary: sq')
  case 0
  then show ?case using shrinks_descends [OF shrinks_refl] by auto
next
  case (Suc k)
  then obtain mid where mid: "(sq_step ^^ k) sq mid" "sq_step mid sq'" by auto
  with Suc obtain m where m: "n \<le> m" "m \<le> n + k" "sq_ok m mid" "descends n (queue_for p sq) (queue_for p mid)"
    by auto
  then have "Suc m < 2 ^ 64" using Suc.prems by simp
  from sq_step_cases [OF mid(2) m(3) this, of p] obtain m' where "m \<le> m'" "m' \<le> Suc m" "sq_ok m' sq'"
    "descends m (queue_for p mid) (queue_for p sq')" by blast
  then show ?case
    using m descends_trans [OF m(4), of m "queue_for p sq'"] by (intro exI [of _ m']) auto
qed

lemma sq_ok_empty: "sq_ok 0 empty_send_queue"
  by (simp add: sq_ok_def empty_send_queue_def)

subsection \<open>Scheduling of new data\<close>

text \<open>The specification: the first packet of each association, in queue order.\<close>

fun heads :: "Association_Key set \<Rightarrow> Queued list \<Rightarrow> Queued list" where
  "heads seen [] = []"
| "heads seen (q # qs) = (if q_location q \<in> seen then heads seen qs else q # heads (insert (q_location q) seen) qs)"

text \<open>Whether an association may send a packet now.\<close>

definition may_send :: "Send_Allowances \<Rightarrow> Queued \<Rightarrow> bool" where
  "may_send al q \<longleftrightarrow>
     (\<exists>a. al (q_location q) = Some a \<and> al_cwnd_open a \<and> \<not> burst_spent a \<and>
        (zero_window_probe a \<or> data_bytes (dl_packet (q_deliverable q)) \<le> unat (al_rwnd a)))"

lemma scan_new_data_spec:
  "\<forall>l. l \<notin> set refused \<longrightarrow> al' l = al l \<Longrightarrow>
   fst (scan_new_data qs refused al') = find (may_send al) (heads (set refused) qs)"
proof (induction qs arbitrary: refused al')
  case (Cons q qs)
  let ?l = "q_location q"
  show ?case
  proof (cases "?l \<in> set refused")
    case True
    then show ?thesis using Cons by simp
  next
    case False
    then have l: "al' ?l = al ?l" using Cons.prems by blast
    have IH: "fst (scan_new_data qs (refused @ [?l]) al'') = find (may_send al) (heads (insert ?l (set refused)) qs)"
      if "\<forall>l. l \<noteq> ?l \<longrightarrow> al'' l = al' l" for al''
      using Cons.IH [of "refused @ [?l]" al''] Cons.prems that by simp
    show ?thesis
      using False l IH [of al'] IH
      by (auto simp: Let_def may_send_def [of al q] admits_def split: option.splits)
  qed
qed simp

lemma heads_first:
  "q \<in> set (heads seen qs) \<longleftrightarrow> q_location q \<notin> seen \<and>
     (\<exists>before after. qs = before @ q # after \<and> (\<forall>q' \<in> set before. q_location q' \<noteq> q_location q))"
proof (induction qs arbitrary: seen)
  case (Cons x xs)
  have split: "(\<exists>before after. x # xs = before @ q # after \<and> (\<forall>q' \<in> set before. q_location q' \<noteq> q_location q)) \<longleftrightarrow>
    x = q \<or> q_location x \<noteq> q_location q \<and>
      (\<exists>before after. xs = before @ q # after \<and> (\<forall>q' \<in> set before. q_location q' \<noteq> q_location q))"
    (is "?l \<longleftrightarrow> ?r")
  proof
    assume ?l
    then obtain before after where "x # xs = before @ q # after" "\<forall>q' \<in> set before. q_location q' \<noteq> q_location q"
      by blast
    then show ?r by (cases before) auto
  next
    assume ?r
    then consider "x = q" | before after where "q_location x \<noteq> q_location q" "xs = before @ q # after"
      "\<forall>q' \<in> set before. q_location q' \<noteq> q_location q" by blast
    then show ?l
    proof cases
      case 1
      then have "x # xs = [] @ q # xs" by simp
      then show ?l by fastforce
    next
      case 2
      then have "x # xs = (x # before) @ q # after" "\<forall>q' \<in> set (x # before). q_location q' \<noteq> q_location q" by auto
      then show ?l by blast
    qed
  qed
  show ?case unfolding split by (auto simp: Cons.IH)
qed simp

text \<open>What \<open>peek\<close> offers is in the queue.\<close>

lemma peek_in_queue:
  assumes "peek_locked now (Some al) sq = (Some p, al', sq')"
  shows "\<lparr>q_id = p_id p, q_deliverable = p_deliverable p\<rparr> \<in> set (queue_for (p_priority p) sq)"
proof -
  have "\<exists>q \<in> set (queue_for (p_priority p) sq). p = pending_of (p_priority p) q"
  proof (cases "control sq = [] \<and> retransmission sq = []")
    case True
    then obtain q where q: "fst (scan_new_data (new_data sq) [] al) = Some q" "p = pending_of NEW_DATA q"
      using assms by (auto simp: peek_locked_def split: if_splits option.splits prod.splits)
    then have "q \<in> set (heads {} (new_data sq))"
      using scan_new_data_spec [of "[]" al al "new_data sq"] by (auto simp: find_Some_iff in_set_conv_nth)
    then have "q \<in> set (new_data sq)" by (auto simp: heads_first)
    with q show ?thesis by (auto simp: pending_of_def)
  qed (use assms in \<open>auto simp: peek_locked_def pending_of_def split: if_splits\<close>)
  then obtain q where "q \<in> set (queue_for (p_priority p) sq)" "p = pending_of (p_priority p) q" by blast
  moreover from this(2) have "\<lparr>q_id = p_id p, q_deliverable = p_deliverable p\<rparr> = q"
    by (metis Pending.select_convs(2,3) Queued.surjective old.unit.exhaust pending_of_def)
  ultimately show ?thesis by simp
qed

lemma sq_ok_distinct: "sq_ok n sq \<Longrightarrow> distinct (map q_id (queue_for prio sq))"
  by (cases prio) (auto simp: sq_ok_def)

lemma sq_ok_below: "sq_ok n sq \<Longrightarrow> q \<in> set (queue_for prio sq) \<Longrightarrow> unat (q_id q) < n"
  by (cases prio) (auto simp: sq_ok_def)

lemma sq_ok_peek: "sq_ok n sq \<Longrightarrow> peek_locked now al sq = (r, al', sq') \<Longrightarrow> sq_ok n sq'"
  using peek_locked_queues(1) [of now al sq r al' sq' CONTROL] peek_locked_queues(1) [of now al sq r al' sq' RETRANSMISSION]
    peek_locked_queues(1) [of now al sq r al' sq' NEW_DATA] peek_locked_queues(2) [of now al sq r al' sq']
  by (intro sq_ok_shrinks [of n sq sq']) simp_all

subsection \<open>Properties\<close>

text \<open>C33: The queue is safe to use from several threads although a packet is sent between \<open>peek\<close> and
  \<open>commit\<close> without holding the lock: whatever operations run in between, in any number and order, \<open>commit\<close>
  removes only what is left of the very packet that was peeked, and leaves every other packet of every tier, and
  their order, as they are. It holds until identifiers wrap around after \<open>2 ^ 64\<close> packets.\<close>

theorem commit_removes_only_peeked:
  assumes "sq_ok n sq" "n + k < 2 ^ 64" "peek now al sq = (Some p, al', sq0)" "(sq_step ^^ k) sq0 sq1"
  shows "queue_for prio (commit p sq1) =
      filter (\<lambda>q. \<not> (prio = p_priority p \<and> q_id q = p_id p)) (queue_for prio sq1) \<and>
    (\<forall>q \<in> set (queue_for (p_priority p) sq1). q_id q = p_id p \<longrightarrow>
       remains_of \<lparr>q_id = p_id p, q_deliverable = p_deliverable p\<rparr> q)"
proof -
  obtain al0 where peek: "peek_locked now (Some al) sq = (Some p, al0, sq0)"
    using assms(3) by (auto simp: peek_def split: prod.splits)
  let ?prio = "p_priority p" and ?q = "\<lparr>q_id = p_id p, q_deliverable = p_deliverable p\<rparr>"
  have q: "?q \<in> set (queue_for ?prio sq0)"
    using peek_in_queue [OF peek] peek_locked_queues [OF peek] by simp
  have ok0: "sq_ok n sq0" using assms(1) peek by (rule sq_ok_peek)
  obtain m where m: "sq_ok m sq1" "descends n (queue_for ?prio sq0) (queue_for ?prio sq1)"
    using sq_run_ok [OF assms(4) ok0 assms(2)] by blast
  have "remains_of ?q q'" if q': "q' \<in> set (queue_for ?prio sq1)" "q_id q' = p_id p" for q'
  proof -
    have "\<not> n \<le> unat (q_id q')" using sq_ok_below [OF ok0 q] q'(2) by simp
    then obtain q0 where q0: "q0 \<in> set (queue_for ?prio sq0)" "remains_of q0 q'"
      using m(2) q'(1) unfolding descends_def by blast
    then have "q_id q0 = q_id ?q" using q'(2) remains_of_id by fastforce
    then have "q0 = ?q"
      using sq_ok_distinct [OF ok0, of ?prio] q0(1) q unfolding distinct_map by (metis inj_onD)
    with q0 show ?thesis by simp
  qed
  moreover have "queue_for prio (commit p sq1) =
      filter (\<lambda>q. \<not> (prio = ?prio \<and> q_id q = p_id p)) (queue_for prio sq1)"
    using sq_ok_distinct [OF m(1), of prio] by (cases "prio = ?prio") (simp_all add: commit_def erase_id_eq_filter)
  ultimately show ?thesis by blast
qed

definition example_deliverable :: "u32 \<Rightarrow> u32 \<Rightarrow> Deliverable" where
  "example_deliverable address tsn =
     \<lparr>dl_location = \<lparr>s_addr = address, sin_port = 1\<rparr>, dl_destination = \<lparr>s_addr = address, sin_port = 2\<rparr>,
      dl_packet = build_data 1 2 3 [\<lparr>data_tsn = tsn, stream_identifier = 0, stream_seq_num = 0,
        payload_protocal = 0, user_data = [1, 2, 3, 4], data_flags = 3\<rparr>]\<rparr>"

definition example_send_queue :: Send_Queue where
  "example_send_queue =
     enqueue (example_deliverable 8 2) RETRANSMISSION (enqueue (example_deliverable 7 1) RETRANSMISSION empty_send_queue)"

theorem commit_removes_only_peeked_witness:
  "\<exists>p. sq_ok 2 example_send_queue \<and>
     peek 0 Map.empty example_send_queue = (Some p, Map.empty, example_send_queue) \<and>
     sq_step example_send_queue (purge \<lparr>s_addr = 7, sin_port = 1\<rparr> example_send_queue) \<and>
     queue_for RETRANSMISSION (commit p (purge \<lparr>s_addr = 7, sin_port = 1\<rparr> example_send_queue)) =
       filter (\<lambda>q. \<not> (RETRANSMISSION = p_priority p \<and> q_id q = p_id p))
         (queue_for RETRANSMISSION (purge \<lparr>s_addr = 7, sin_port = 1\<rparr> example_send_queue))"
proof -
  let ?sq = "example_send_queue" and ?l = "\<lparr>s_addr = 7, sin_port = 1\<rparr> :: Association_Key"
  have ok: "sq_ok 2 ?sq"
    by (simp add: sq_ok_def example_send_queue_def enqueue_def empty_send_queue_def)
  obtain p where p: "peek 0 Map.empty ?sq = (Some p, Map.empty, ?sq)"
    by (simp add: peek_def peek_locked_def example_send_queue_def enqueue_def empty_send_queue_def)
  have step: "sq_step ?sq (purge ?l ?sq)" by (rule step_purge)
  then have "(sq_step ^^ 1) ?sq (purge ?l ?sq)" by (simp only: relpowp_1)
  from commit_removes_only_peeked [OF ok _ p this, of RETRANSMISSION] ok p step show ?thesis by auto
qed

text \<open>The queue serves control packets first, then retransmissions, each in order of arrival, and new data only
  when both are empty. Of the new data it picks the first packet, in order of arrival, that is at the head of its
  association's packets and that its association's windows admit; so packets of one association are never
  reordered, no association waits behind another one that is blocked, and nothing is returned only when every
  association is blocked or the queue is backing off.\<close>

theorem peek_schedules:
  "fst (peek now al sq) =
     (if now < next_send_attempt sq then None
      else if control sq \<noteq> [] then Some (pending_of CONTROL (hd (control sq)))
      else if retransmission sq \<noteq> [] then Some (pending_of RETRANSMISSION (hd (retransmission sq)))
      else map_option (pending_of NEW_DATA) (find (may_send al) (heads {} (new_data sq))))"
proof -
  obtain r al' where scan: "scan_new_data (new_data sq) [] al = (r, al')" by fastforce
  then have "find (may_send al) (heads {} (new_data sq)) = r"
    using scan_new_data_spec [of "[]" al al "new_data sq"] by simp
  then show ?thesis by (cases r) (simp_all add: peek_def peek_locked_def scan)
qed

text \<open>In every state reached from an empty queue by fewer than \<open>2 ^ 64\<close> operations of any threads, packet
  identifiers are pairwise distinct across the three tiers and at most 256 control packets are queued.\<close>

theorem send_queue_invariant:
  assumes "(sq_step ^^ k) empty_send_queue sq" "k < 2 ^ 64"
  shows "distinct (map q_id (control sq @ retransmission sq @ new_data sq)) \<and>
    length (control sq) \<le> MAX_QUEUED_CONTROL"
proof -
  have "0 + k < 2 ^ 64" using assms(2) by simp
  from sq_run_ok [OF assms(1) sq_ok_empty this] obtain m where "sq_ok m sq" by blast
  then show ?thesis unfolding sq_ok_def by blast
qed

theorem send_queue_invariant_witness:
  "(sq_step ^^ 2) empty_send_queue example_send_queue \<and>
   distinct (map q_id (control example_send_queue @ retransmission example_send_queue @ new_data example_send_queue))"
proof -
  have "(sq_step ^^ Suc (Suc 0)) empty_send_queue example_send_queue"
    unfolding example_send_queue_def by (auto intro: step_enqueue)
  then have "(sq_step ^^ 2) empty_send_queue example_send_queue" by (simp only: numeral_2_eq_2)
  then show ?thesis using send_queue_invariant [of 2 example_send_queue] by simp
qed

text \<open>When a SACK arrives, no DATA chunk it acknowledges stays queued for retransmission on its association, no
  packet is left empty, and the packets of other associations and all other chunks stay, in order.\<close>

theorem remove_acked_exact:
  "retransmission (remove_acked_retransmissions location sack sq) =
     filter (\<lambda>q. q_chunks q \<noteq> [])
       (map (\<lambda>q. if q_location q = location then keep_chunks (\<lambda>c. \<not> chunk_acked sack c) q else q) (retransmission sq))"
  by (simp add: remove_acked_retransmissions_def remove_acked_loop_eq filter_map comp_def)

text \<open>After a purge the queue holds no packet of the association in any tier, and every other packet is still
  there, in its order.\<close>

theorem purge_exact:
  "\<not> has_packets_for location (purge location sq) \<and>
   queue_for prio (purge location sq) = filter (\<lambda>q. q_location q \<noteq> location) (queue_for prio sq)"
  by (cases prio) (auto simp: has_packets_for_def queue_contains_def purge_def purge_one_def list_ex_iff)

end
