(* ===== verification/Stream_Contract.thy ===== *)
theory Stream_Contract
  imports Sctp_Prelude
begin

text \<open>
  The contract of a first-in first-out store of items by key, and what follows from it for sequences of operations:
  what was taken out, followed by what is still inside, is what was inside and put in. The notification queue
  interprets it. A store that may also discard what it holds is specified by events on an abstract
  content; the receive queue interprets that contract for the bytes of each association.
\<close>

text \<open>A sequence of operations, and what one kind of observation of each adds up to.\<close>

fun run_ops :: "('op \<Rightarrow> 's \<Rightarrow> 's) \<Rightarrow> 'op list \<Rightarrow> 's \<Rightarrow> 's" where
  "run_ops step [] s = s"
| "run_ops step (op # ops) s = run_ops step ops (step op s)"

fun observe_ops :: "('op \<Rightarrow> 's \<Rightarrow> 's) \<Rightarrow> ('op \<Rightarrow> 's \<Rightarrow> 'b list) \<Rightarrow> 'op list \<Rightarrow> 's \<Rightarrow> 'b list" where
  "observe_ops step f [] s = []"
| "observe_ops step f (op # ops) s = f op s @ observe_ops step f ops (step op s)"

locale item_stream =
  fixes ok :: "'s \<Rightarrow> bool"
    and content :: "'s \<Rightarrow> 'k \<Rightarrow> 'b list"
    and step :: "'op \<Rightarrow> 's \<Rightarrow> 's"
    and put :: "'k \<Rightarrow> 'op \<Rightarrow> 's \<Rightarrow> 'b list"
    and got :: "'k \<Rightarrow> 'op \<Rightarrow> 's \<Rightarrow> 'b list"
  assumes step_ok: "ok s \<Longrightarrow> ok (step op s)"
    and conserved: "ok s \<Longrightarrow> content s k @ put k op s = got k op s @ content (step op s) k"
begin

lemma run_ok: "ok s \<Longrightarrow> ok (run_ops step ops s)"
  by (induction ops arbitrary: s) (auto intro: step_ok)

lemma run_conserved:
  "ok s \<Longrightarrow> content s k @ observe_ops step (put k) ops s =
     observe_ops step (got k) ops s @ content (run_ops step ops s) k"
proof (induction ops arbitrary: s)
  case (Cons op ops)
  have "content s k @ put k op s @ observe_ops step (put k) ops (step op s) =
      got k op s @ content (step op s) k @ observe_ops step (put k) ops (step op s)"
    using conserved [OF Cons.prems] by (metis append_assoc)
  then show ?case using Cons step_ok by simp
qed simp

end

locale item_trace =
  fixes ok :: "'s \<Rightarrow> bool"
    and content :: "'s \<Rightarrow> 'k \<Rightarrow> 'c"
    and step :: "'op \<Rightarrow> 's \<Rightarrow> 's"
    and event :: "'k \<Rightarrow> 'op \<Rightarrow> 's \<Rightarrow> 'e list"
    and got :: "'k \<Rightarrow> 'op \<Rightarrow> 's \<Rightarrow> 'b list"
    and spec :: "'e \<Rightarrow> 'b list \<times> 'c \<Rightarrow> 'b list \<times> 'c"
  assumes trace_ok: "ok s \<Longrightarrow> ok (step op s)"
    and simulated: "ok s \<Longrightarrow> fold spec (event k op s) (r, content s k) = (r @ got k op s, content (step op s) k)"
begin

lemma trace_run_ok: "ok s \<Longrightarrow> ok (run_ops step ops s)"
  by (induction ops arbitrary: s) (simp_all add: trace_ok)

lemma run_simulated:
  "ok s \<Longrightarrow> fold spec (observe_ops step (event k) ops s) (r, content s k) =
     (r @ observe_ops step (got k) ops s, content (run_ops step ops s) k)"
  by (induction ops arbitrary: s r) (simp_all add: simulated trace_ok)

end

end
