(* ===== verification/Receive_Queue.thy ===== *)
theory Receive_Queue
  imports Sctp_Types Stream_Contract
begin

text \<open>
  The inbound queue of \<open>src/receive_queue.cpp\<close>: per association the messages that wait to be read, possibly the
  last one still incomplete (partial delivery), and the round-robin list of associations with something to read.
  Every operation holds the mutex and is one function on the state. A read waits on a condition
  variable for its timeout; the model is the part after the wait, which finds the queue in
  whatever state it is then. What a read copies to the caller's buffer is returned as a list.

  The queue interprets the contract \<open>item_trace\<close>: over any sequence of its operations the bytes read and
  the bytes still unread are those of a tape to which messages are appended, of which \<open>abandon_open\<close> cuts
  off the unfinished message and which \<open>clear\<close> wipes.
\<close>

subsection \<open>State\<close>

record Message =
  msg_bytes :: bytes
  msg_offset :: nat
  msg_complete :: bool
  msg_stream :: u16

record Pending_Messages =
  pm_messages :: "Message list"
  pm_bytes :: nat
  pm_detached :: nat

record Read =
  rd_key :: Association_Key
  rd_bytes :: nat
  rd_partial :: bool
  rd_stream :: u16

record Receive_Queue =
  rq_pending :: "Association_Key \<rightharpoonup> Pending_Messages"
  rq_ready :: "Association_Key list"
  rq_closed :: bool

definition empty_receive_queue :: Receive_Queue where
  "empty_receive_queue = \<lparr>rq_pending = Map.empty, rq_ready = [], rq_closed = False\<rparr>"

subsection \<open>Operations\<close>

definition push :: "Association_Key \<Rightarrow> bytes \<Rightarrow> bool \<Rightarrow> u16 \<Rightarrow> Receive_Queue \<Rightarrow> Receive_Queue" where
  "push key bs complete stream rq =
     (let entry = (case rq_pending rq key of
                     Some e \<Rightarrow> e | None \<Rightarrow> \<lparr>pm_messages = [], pm_bytes = 0, pm_detached = 0\<rparr>);
          ready = (if pm_messages entry = [] then rq_ready rq @ [key] else rq_ready rq);
          messages = (if pm_messages entry \<noteq> [] \<and> \<not> msg_complete (last (pm_messages entry))
                      then butlast (pm_messages entry) @
                             [(last (pm_messages entry))
                                \<lparr>msg_bytes := msg_bytes (last (pm_messages entry)) @ bs, msg_complete := complete\<rparr>]
                      else pm_messages entry @
                             [\<lparr>msg_bytes = bs, msg_offset = 0, msg_complete = complete, msg_stream = stream\<rparr>])
      in rq\<lparr>rq_pending := (rq_pending rq)(key \<mapsto>
               entry\<lparr>pm_bytes := pm_bytes entry + length bs, pm_messages := messages\<rparr>),
            rq_ready := ready\<rparr>)"

text \<open>\<open>read_locked\<close>: the bytes copied out, the result, and the entry, erased once it is empty.\<close>

definition read_locked :: "Association_Key \<Rightarrow> Pending_Messages \<Rightarrow> nat \<Rightarrow> bytes \<times> Read \<times> Pending_Messages option" where
  "read_locked key entry capacity =
     (let front = hd (pm_messages entry);
          count = min capacity (length (msg_bytes front) - msg_offset front);
          out = take count (drop (msg_offset front) (msg_bytes front));
          front' = front\<lparr>msg_offset := msg_offset front + count\<rparr>;
          entry' = entry\<lparr>pm_bytes := pm_bytes entry - count,
                         pm_detached := pm_detached entry - min (pm_detached entry) count\<rparr>;
          read = \<lparr>rd_key = key, rd_bytes = count,
                  rd_partial = (msg_offset front' < length (msg_bytes front') \<or> \<not> msg_complete front'),
                  rd_stream = msg_stream front'\<rparr>
      in (out, read,
          if msg_offset front' = length (msg_bytes front')
          then (if tl (pm_messages entry) = [] then None
                else Some (entry'\<lparr>pm_messages := tl (pm_messages entry)\<rparr>))
          else Some (entry'\<lparr>pm_messages := front' # tl (pm_messages entry)\<rparr>)))"

definition read_any :: "nat \<Rightarrow> Receive_Queue \<Rightarrow> (bytes \<times> Read) option \<times> Receive_Queue" where
  "read_any capacity rq =
     (case rq_ready rq of
        [] \<Rightarrow> (None, rq)
      | key # rest \<Rightarrow>
          (case read_locked key (the (rq_pending rq key)) capacity of
             (out, read, entry) \<Rightarrow>
               (Some (out, read),
                rq\<lparr>rq_pending := (rq_pending rq)(key := entry),
                   rq_ready := (if entry = None then rest
                                else if rd_partial read then key # rest else rest @ [key])\<rparr>)))"

definition read_from :: "Association_Key \<Rightarrow> nat \<Rightarrow> Receive_Queue \<Rightarrow> (bytes \<times> Read) option \<times> Receive_Queue" where
  "read_from key capacity rq =
     (case rq_pending rq key of
        None \<Rightarrow> (None, rq)
      | Some e \<Rightarrow>
          (case read_locked key e capacity of
             (out, read, entry) \<Rightarrow>
               (Some (out, read),
                rq\<lparr>rq_pending := (rq_pending rq)(key := entry),
                   rq_ready := (if entry = None then remove1 key (rq_ready rq) else rq_ready rq)\<rparr>)))"

definition abandon_open :: "Association_Key \<Rightarrow> Receive_Queue \<Rightarrow> Receive_Queue" where
  "abandon_open key rq =
     (case rq_pending rq key of
        None \<Rightarrow> rq
      | Some e \<Rightarrow>
          (if msg_complete (last (pm_messages e)) then rq
           else
             let tail = last (pm_messages e);
                 bytes = pm_bytes e - (length (msg_bytes tail) - msg_offset tail);
                 e' = e\<lparr>pm_bytes := bytes, pm_detached := min (pm_detached e) bytes,
                        pm_messages := butlast (pm_messages e)\<rparr>
             in if butlast (pm_messages e) = []
                then rq\<lparr>rq_pending := (rq_pending rq)(key := None), rq_ready := remove1 key (rq_ready rq)\<rparr>
                else rq\<lparr>rq_pending := (rq_pending rq)(key \<mapsto> e')\<rparr>))"

definition detach :: "Association_Key \<Rightarrow> Receive_Queue \<Rightarrow> Receive_Queue" where
  "detach key rq =
     (case rq_pending rq key of
        None \<Rightarrow> rq
      | Some e \<Rightarrow> rq\<lparr>rq_pending := (rq_pending rq)(key \<mapsto> e\<lparr>pm_detached := pm_bytes e\<rparr>)\<rparr>)"

definition close_receive_queue :: "Receive_Queue \<Rightarrow> Receive_Queue" where
  "close_receive_queue rq = rq\<lparr>rq_closed := True\<rparr>"

definition clear_receive_queue :: "Receive_Queue \<Rightarrow> Receive_Queue" where
  "clear_receive_queue rq = rq\<lparr>rq_pending := Map.empty, rq_ready := []\<rparr>"

definition messages :: "Association_Key \<Rightarrow> Receive_Queue \<Rightarrow> nat" where
  "messages key rq = (case rq_pending rq key of None \<Rightarrow> 0 | Some e \<Rightarrow> length (pm_messages e))"

definition buffered_bytes :: "Association_Key \<Rightarrow> Receive_Queue \<Rightarrow> nat" where
  "buffered_bytes key rq = (case rq_pending rq key of None \<Rightarrow> 0 | Some e \<Rightarrow> pm_bytes e - pm_detached e)"

subsection \<open>Invariant and abstraction\<close>

definition msg_rest :: "Message \<Rightarrow> bytes" where
  "msg_rest m = drop (msg_offset m) (msg_bytes m)"

definition entry_ok :: "Pending_Messages \<Rightarrow> bool" where
  "entry_ok e \<longleftrightarrow>
     pm_messages e \<noteq> [] \<and> pm_bytes e = length (concat (map msg_rest (pm_messages e))) \<and>
     pm_detached e \<le> pm_bytes e \<and> list_all msg_complete (butlast (pm_messages e)) \<and>
     list_all (\<lambda>m. msg_offset m \<le> length (msg_bytes m)) (pm_messages e)"

text \<open>Every entry is counted right and is not empty, only its last message may be incomplete, and the
  ready list holds each association with an entry once.\<close>

definition rq_ok :: "Receive_Queue \<Rightarrow> bool" where
  "rq_ok rq \<longleftrightarrow>
     distinct (rq_ready rq) \<and> set (rq_ready rq) = dom (rq_pending rq) \<and>
     (\<forall>k e. rq_pending rq k = Some e \<longrightarrow> entry_ok e)"

text \<open>The unread bytes of an association.\<close>

definition unread :: "Receive_Queue \<Rightarrow> Association_Key \<Rightarrow> bytes" where
  "unread rq k = (case rq_pending rq k of None \<Rightarrow> [] | Some e \<Rightarrow> concat (map msg_rest (pm_messages e)))"

subsection \<open>Entries\<close>

lemma msg_rest_advance: "msg_rest (m\<lparr>msg_offset := msg_offset m + n\<rparr>) = drop n (msg_rest m)"
  by (simp add: msg_rest_def add.commute)

lemma length_msg_rest: "length (msg_rest m) = length (msg_bytes m) - msg_offset m"
  by (simp add: msg_rest_def)

definition entry_unread :: "Pending_Messages option \<Rightarrow> bytes" where
  "entry_unread e = (case e of None \<Rightarrow> [] | Some e \<Rightarrow> concat (map msg_rest (pm_messages e)))"

lemma unread_eq: "unread rq k = entry_unread (rq_pending rq k)"
  by (simp add: unread_def entry_unread_def)

lemma read_locked_spec:
  assumes "entry_ok e" "read_locked key e capacity = (out, read, e')"
  shows "out = take capacity (msg_rest (hd (pm_messages e)))"
    and "entry_unread (Some e) = out @ entry_unread e'"
    and "rd_key read = key" "rd_bytes read = length out" "rd_stream read = msg_stream (hd (pm_messages e))"
    and "rd_partial read \<longleftrightarrow>
      capacity < length (msg_rest (hd (pm_messages e))) \<or> \<not> msg_complete (hd (pm_messages e))"
proof -
  obtain m ms where e: "pm_messages e = m # ms"
    using assms(1) by (cases "pm_messages e") (auto simp: entry_ok_def)
  define c where "c = min capacity (length (msg_bytes m) - msg_offset m)"
  have off: "msg_offset m \<le> length (msg_bytes m)" using assms(1) e by (simp add: entry_ok_def)
  have r: "out = take c (msg_rest m)" "rd_key read = key" "rd_bytes read = c" "rd_stream read = msg_stream m"
    "rd_partial read \<longleftrightarrow> msg_offset m + c < length (msg_bytes m) \<or> \<not> msg_complete m"
    and e': "e' = (let e0 = e\<lparr>pm_bytes := pm_bytes e - c, pm_detached := pm_detached e - min (pm_detached e) c\<rparr>
      in if msg_offset m + c = length (msg_bytes m)
         then (if ms = [] then None else Some (e0\<lparr>pm_messages := ms\<rparr>))
         else Some (e0\<lparr>pm_messages := m\<lparr>msg_offset := msg_offset m + c\<rparr> # ms\<rparr>))"
    using assms(2) e by (auto simp: read_locked_def Let_def c_def msg_rest_def)
  have c: "c \<le> length (msg_rest m)" "take c (msg_rest m) = take capacity (msg_rest m)"
    by (auto simp: c_def length_msg_rest min_def)
  have last: "drop c (msg_rest m) = [] \<longleftrightarrow> msg_offset m + c = length (msg_bytes m)"
    using off c by (auto simp: length_msg_rest)
  have split: "msg_rest m = out @ drop c (msg_rest m)" by (simp add: r(1))
  show "entry_unread (Some e) = out @ entry_unread e'"
  proof (cases "msg_offset m + c = length (msg_bytes m)")
    case True
    then have "msg_rest m = out" using split last by simp
    then show ?thesis using True e by (auto simp: entry_unread_def e' Let_def)
  next
    case False
    then show ?thesis using e split by (simp add: entry_unread_def e' Let_def msg_rest_advance)
  qed
  show "out = take capacity (msg_rest (hd (pm_messages e)))" "rd_key read = key"
    "rd_bytes read = length out" "rd_stream read = msg_stream (hd (pm_messages e))"
    using r c e by (simp_all add: c_def length_msg_rest)
  show "rd_partial read \<longleftrightarrow>
      capacity < length (msg_rest (hd (pm_messages e))) \<or> \<not> msg_complete (hd (pm_messages e))"
    using r(5) off e by (auto simp: length_msg_rest c_def)
qed

lemma read_locked_entry_ok:
  assumes "entry_ok e" "read_locked key e capacity = (out, read, Some e'')"
  shows "entry_ok e''"
proof -
  obtain m ms where e: "pm_messages e = m # ms"
    using assms(1) by (cases "pm_messages e") (auto simp: entry_ok_def)
  define c where "c = min capacity (length (msg_bytes m) - msg_offset m)"
  have off: "msg_offset m \<le> length (msg_bytes m)" using assms(1) e by (simp add: entry_ok_def)
  have c: "c \<le> length (msg_rest m)" by (auto simp: c_def length_msg_rest)
  have e': "Some e'' = (let e0 = e\<lparr>pm_bytes := pm_bytes e - c, pm_detached := pm_detached e - min (pm_detached e) c\<rparr>
      in if msg_offset m + c = length (msg_bytes m)
         then (if ms = [] then None else Some (e0\<lparr>pm_messages := ms\<rparr>))
         else Some (e0\<lparr>pm_messages := m\<lparr>msg_offset := msg_offset m + c\<rparr> # ms\<rparr>))"
    using assms(2) e by (auto simp: read_locked_def Let_def c_def msg_rest_def)
  have bytes: "pm_bytes e = length (msg_rest m) + length (concat (map msg_rest ms))" "pm_detached e \<le> pm_bytes e"
    "list_all (\<lambda>m. msg_offset m \<le> length (msg_bytes m)) ms" "list_all msg_complete (butlast (m # ms))"
    using assms(1) e by (simp_all add: entry_ok_def)
  show ?thesis
  proof (cases "msg_offset m + c = length (msg_bytes m)")
    case True
    then have "ms \<noteq> []" "e'' = e\<lparr>pm_bytes := pm_bytes e - c, pm_detached := pm_detached e - min (pm_detached e) c,
        pm_messages := ms\<rparr>" using e' by (auto simp: Let_def split: if_splits)
    moreover have "c = length (msg_rest m)" using True by (simp add: length_msg_rest)
    ultimately show ?thesis using bytes by (auto simp: entry_ok_def)
  next
    case False
    then have "e'' = e\<lparr>pm_bytes := pm_bytes e - c, pm_detached := pm_detached e - min (pm_detached e) c,
        pm_messages := m\<lparr>msg_offset := msg_offset m + c\<rparr> # ms\<rparr>" using e' by (auto simp: Let_def)
    then show ?thesis using bytes c off by (auto simp: entry_ok_def msg_rest_advance length_msg_rest)
  qed
qed

definition push_entry :: "bytes \<Rightarrow> bool \<Rightarrow> u16 \<Rightarrow> Pending_Messages option \<Rightarrow> Pending_Messages" where
  "push_entry bs complete stream e =
     (let entry = (case e of Some e \<Rightarrow> e | None \<Rightarrow> \<lparr>pm_messages = [], pm_bytes = 0, pm_detached = 0\<rparr>)
      in entry\<lparr>pm_bytes := pm_bytes entry + length bs,
           pm_messages :=
             (if pm_messages entry \<noteq> [] \<and> \<not> msg_complete (last (pm_messages entry))
              then butlast (pm_messages entry) @
                     [(last (pm_messages entry))
                        \<lparr>msg_bytes := msg_bytes (last (pm_messages entry)) @ bs, msg_complete := complete\<rparr>]
              else pm_messages entry @
                     [\<lparr>msg_bytes = bs, msg_offset = 0, msg_complete = complete, msg_stream = stream\<rparr>])\<rparr>)"

lemma push_entry_spec:
  assumes "\<And>e0. e = Some e0 \<Longrightarrow> entry_ok e0"
  shows "entry_ok (push_entry bs complete stream e)"
    "entry_unread (Some (push_entry bs complete stream e)) = entry_unread e @ bs"
proof -
  have "entry_ok (push_entry bs complete stream e) \<and>
    entry_unread (Some (push_entry bs complete stream e)) = entry_unread e @ bs"
  proof (cases e)
    case None
    then show ?thesis by (simp add: push_entry_def entry_ok_def entry_unread_def msg_rest_def)
  next
    case (Some e0)
    then have ok: "entry_ok e0" using assms by simp
    then obtain ms m where ms: "pm_messages e0 = ms @ [m]"
      by (cases "pm_messages e0" rule: rev_cases) (auto simp: entry_ok_def)
    then show ?thesis
      using ok Some by (auto simp: push_entry_def entry_ok_def entry_unread_def msg_rest_def butlast_append)
  qed
  then show "entry_ok (push_entry bs complete stream e)"
    "entry_unread (Some (push_entry bs complete stream e)) = entry_unread e @ bs" by auto
qed

subsection \<open>Operations\<close>

lemma push_eq:
  assumes "rq_ok rq"
  shows "push key bs complete stream rq =
    rq\<lparr>rq_pending := (rq_pending rq)(key \<mapsto> push_entry bs complete stream (rq_pending rq key)),
       rq_ready := (if key \<in> dom (rq_pending rq) then rq_ready rq else rq_ready rq @ [key])\<rparr>"
  using assms by (auto simp: push_def push_entry_def Let_def rq_ok_def entry_ok_def split: option.splits)

lemma rq_ok_pending: "rq_ok rq \<Longrightarrow> rq_pending rq k = Some e \<Longrightarrow> entry_ok e"
  by (auto simp: rq_ok_def)

lemma push_ok: "rq_ok rq \<Longrightarrow> rq_ok (push key bs complete stream rq)"
  using push_entry_spec(1) [of "rq_pending rq key"] by (auto simp: push_eq rq_ok_def)

lemma read_from_cases:
  assumes "rq_ok rq" "read_from key capacity rq = (r, rq')"
  obtains "r = None" "rq' = rq" "unread rq key = []" "rq_pending rq key = None"
  | e out read e' where "rq_pending rq key = Some e" "read_locked key e capacity = (out, read, e')"
      "r = Some (out, read)" "rq_pending rq' = (rq_pending rq)(key := e')"
      "rq_ready rq' = (if e' = None then remove1 key (rq_ready rq) else rq_ready rq)"
proof (cases "rq_pending rq key")
  case None
  then show thesis using that(1) assms by (simp add: read_from_def unread_def)
next
  case (Some e)
  obtain out read e' where "read_locked key e capacity = (out, read, e')" by (metis prod_cases3)
  then show thesis using that(2) [OF Some] Some assms(2) by (auto simp: read_from_def)
qed

lemma read_any_cases:
  assumes "rq_ok rq" "read_any capacity rq = (r, rq')"
  obtains "r = None" "rq' = rq" "rq_ready rq = []"
  | key rest e out read e' where "rq_ready rq = key # rest" "rq_pending rq key = Some e"
      "read_locked key e capacity = (out, read, e')" "r = Some (out, read)" "rq_pending rq' = (rq_pending rq)(key := e')"
      "rq_ready rq' = (if e' = None then rest else if rd_partial read then key # rest else rest @ [key])"
proof (cases "rq_ready rq")
  case Nil
  then show thesis using that(1) assms by (simp add: read_any_def)
next
  case (Cons key rest)
  then obtain e where e: "rq_pending rq key = Some e" using assms(1) by (force simp: rq_ok_def)
  obtain out read e' where "read_locked key e capacity = (out, read, e')" by (metis prod_cases3)
  then show thesis using that(2) [OF Cons e] Cons e assms(2) by (auto simp: read_any_def)
qed

lemma rq_ok_read:
  assumes "rq_ok rq" "rq_pending rq key = Some e" "read_locked key e capacity = (out, read, e')"
    and "rq_pending rq' = (rq_pending rq)(key := e')"
    and "distinct (rq_ready rq')" "set (rq_ready rq') = (if e' = None then set (rq_ready rq) - {key} else set (rq_ready rq))"
  shows "rq_ok rq'"
proof -
  have "key \<in> dom (rq_pending rq)" using assms(2) by auto
  then have "set (rq_ready rq') = dom (rq_pending rq')"
    using assms(1,4,6) by (auto simp: rq_ok_def)
  then show ?thesis
    using assms(1,4,5) read_locked_entry_ok [OF rq_ok_pending [OF assms(1,2)]] assms(3) by (auto simp: rq_ok_def)
qed

lemma read_from_ok: "rq_ok rq \<Longrightarrow> rq_ok (snd (read_from key capacity rq))"
proof -
  assume ok: "rq_ok rq"
  obtain r rq' where r: "read_from key capacity rq = (r, rq')" by fastforce
  show ?thesis
  proof (cases rule: read_from_cases [OF ok r])
    case (2 e out read e')
    show ?thesis
      using 2 ok unfolding r by (intro rq_ok_read [OF ok 2(1,2)]) (auto simp: rq_ok_def)
  qed (use ok r in simp)
qed

lemma read_any_ok: "rq_ok rq \<Longrightarrow> rq_ok (snd (read_any capacity rq))"
proof -
  assume ok: "rq_ok rq"
  obtain r rq' where r: "read_any capacity rq = (r, rq')" by fastforce
  show ?thesis
  proof (cases rule: read_any_cases [OF ok r])
    case (2 key rest e out read e')
    show ?thesis
      using 2 ok unfolding r by (intro rq_ok_read [OF ok 2(2,3)]) (auto simp: rq_ok_def)
  qed (use ok r in simp)
qed

lemma abandon_open_ok: "rq_ok rq \<Longrightarrow> rq_ok (abandon_open key rq)"
proof (cases "rq_pending rq key")
  case (Some e)
  assume ok: "rq_ok rq"
  then have e: "entry_ok e" using Some by (rule rq_ok_pending)
  then obtain ms m where ms: "pm_messages e = ms @ [m]"
    by (cases "pm_messages e" rule: rev_cases) (auto simp: entry_ok_def)
  have "list_all msg_complete (butlast ms)" if "list_all msg_complete ms"
    using that by (auto simp: list_all_iff dest: in_set_butlastD)
  then have "entry_ok (e\<lparr>pm_bytes := n, pm_detached := min (pm_detached e) n, pm_messages := ms\<rparr>)"
    if "ms \<noteq> []" "n = pm_bytes e - length (msg_rest m)" for n
    using that e ms by (auto simp: entry_ok_def)
  then show ?thesis
    using ok Some ms by (auto simp: abandon_open_def rq_ok_def Let_def length_msg_rest)
qed (simp add: abandon_open_def)

lemma detach_ok: "rq_ok rq \<Longrightarrow> rq_ok (detach key rq)"
proof (cases "rq_pending rq key")
  case (Some e)
  assume ok: "rq_ok rq"
  then have "entry_ok (e\<lparr>pm_detached := pm_bytes e\<rparr>)" using Some by (auto simp: rq_ok_def entry_ok_def)
  then show ?thesis using ok Some by (auto simp: detach_def rq_ok_def)
qed (simp add: detach_def)

lemma close_ok: "rq_ok rq \<Longrightarrow> rq_ok (close_receive_queue rq)"
  by (simp add: close_receive_queue_def rq_ok_def)

lemma clear_ok: "rq_ok (clear_receive_queue rq)"
  by (simp add: clear_receive_queue_def rq_ok_def)

subsection \<open>The tape of an association\<close>

text \<open>
  What the queue promises of an association's bytes, without its messages, counts and lists: the bytes read so far, the unread bytes of
  finished messages, and the unread bytes of the message that is still arriving.
\<close>

datatype tape_event = Arrives bytes bool | Reads nat | Abandoned | Wiped

fun tape_step :: "tape_event \<Rightarrow> bytes \<times> bytes \<times> bytes \<Rightarrow> bytes \<times> bytes \<times> bytes" where
  "tape_step (Arrives bs complete) (read, finished, open) =
     (if complete then (read, finished @ open @ bs, []) else (read, finished, open @ bs))"
| "tape_step (Reads n) (read, finished, open) =
     (read @ take n (finished @ open), drop n finished, drop (n - length finished) open)"
| "tape_step Abandoned (read, finished, open) = (read, finished, [])"
| "tape_step Wiped (read, finished, open) = (read, [], [])"

text \<open>The same two parts in the queue.\<close>

definition entry_parts :: "Pending_Messages option \<Rightarrow> bytes \<times> bytes" where
  "entry_parts e =
     (case e of
        None \<Rightarrow> ([], [])
      | Some e \<Rightarrow>
          if msg_complete (last (pm_messages e)) then (concat (map msg_rest (pm_messages e)), [])
          else (concat (map msg_rest (butlast (pm_messages e))), msg_rest (last (pm_messages e))))"

definition unread_parts :: "Receive_Queue \<Rightarrow> Association_Key \<Rightarrow> bytes \<times> bytes" where
  "unread_parts rq k = entry_parts (rq_pending rq k)"

lemma entry_parts_unread:
  assumes "\<And>e0. e = Some e0 \<Longrightarrow> entry_ok e0"
  shows "fst (entry_parts e) @ snd (entry_parts e) = entry_unread e"
proof (cases e)
  case (Some e0)
  then obtain ms m where "pm_messages e0 = ms @ [m]"
    using assms by (cases "pm_messages e0" rule: rev_cases) (auto simp: entry_ok_def)
  then show ?thesis using Some by (simp add: entry_parts_def entry_unread_def)
qed (simp add: entry_parts_def entry_unread_def)

text \<open>All operations, what each does to the tape of an association and what each reads of it.\<close>

datatype rq_op =
    Op_Push Association_Key bytes bool u16
  | Op_Read_Any nat
  | Op_Read_From Association_Key nat
  | Op_Abandon_Open Association_Key
  | Op_Detach Association_Key
  | Op_Close
  | Op_Clear

fun rq_step :: "rq_op \<Rightarrow> Receive_Queue \<Rightarrow> Receive_Queue" where
  "rq_step (Op_Push key bs complete stream) rq = push key bs complete stream rq"
| "rq_step (Op_Read_Any capacity) rq = snd (read_any capacity rq)"
| "rq_step (Op_Read_From key capacity) rq = snd (read_from key capacity rq)"
| "rq_step (Op_Abandon_Open key) rq = abandon_open key rq"
| "rq_step (Op_Detach key) rq = detach key rq"
| "rq_step Op_Close rq = close_receive_queue rq"
| "rq_step Op_Clear rq = clear_receive_queue rq"

definition read_bytes :: "Association_Key \<Rightarrow> (bytes \<times> Read) option \<Rightarrow> bytes" where
  "read_bytes k r = (case r of None \<Rightarrow> [] | Some (out, read) \<Rightarrow> (if rd_key read = k then out else []))"

fun rq_got :: "Association_Key \<Rightarrow> rq_op \<Rightarrow> Receive_Queue \<Rightarrow> bytes" where
  "rq_got k (Op_Read_Any capacity) rq = read_bytes k (fst (read_any capacity rq))"
| "rq_got k (Op_Read_From key capacity) rq = read_bytes k (fst (read_from key capacity rq))"
| "rq_got k op rq = []"

fun rq_event :: "Association_Key \<Rightarrow> rq_op \<Rightarrow> Receive_Queue \<Rightarrow> tape_event list" where
  "rq_event k (Op_Push key bs complete stream) rq = (if key = k then [Arrives bs complete] else [])"
| "rq_event k (Op_Abandon_Open key) rq = (if key = k then [Abandoned] else [])"
| "rq_event k Op_Clear rq = [Wiped]"
| "rq_event k (Op_Detach key) rq = []"
| "rq_event k Op_Close rq = []"
| "rq_event k op rq = [Reads (length (rq_got k op rq))]"

lemma tape_step_Reads_0 [simp]: "tape_step (Reads 0) t = t"
  by (cases t) simp

lemma push_entry_parts:
  assumes "\<And>e0. e = Some e0 \<Longrightarrow> entry_ok e0"
  shows "(r, entry_parts (Some (push_entry bs complete stream e))) = tape_step (Arrives bs complete) (r, entry_parts e)"
proof (cases e)
  case (Some e0)
  then have ok: "entry_ok e0" using assms by simp
  then obtain ms m where "pm_messages e0 = ms @ [m]"
    by (cases "pm_messages e0" rule: rev_cases) (auto simp: entry_ok_def)
  then show ?thesis
    using ok Some by (auto simp: push_entry_def entry_parts_def msg_rest_def entry_ok_def butlast_append)
qed (simp add: push_entry_def entry_parts_def msg_rest_def)

lemma read_locked_parts:
  assumes "entry_ok e" "read_locked key e capacity = (out, read, e')"
  shows "tape_step (Reads (length out)) (r, entry_parts (Some e)) = (r @ out, entry_parts e')"
proof -
  obtain m ms where e: "pm_messages e = m # ms"
    using assms(1) by (cases "pm_messages e") (auto simp: entry_ok_def)
  define c where "c = min capacity (length (msg_bytes m) - msg_offset m)"
  have out: "out = take c (msg_rest m)" "length out = c"
    and e': "e' = (let e0 = e\<lparr>pm_bytes := pm_bytes e - c, pm_detached := pm_detached e - min (pm_detached e) c\<rparr>
      in if msg_offset m + c = length (msg_bytes m)
         then (if ms = [] then None else Some (e0\<lparr>pm_messages := ms\<rparr>))
         else Some (e0\<lparr>pm_messages := m\<lparr>msg_offset := msg_offset m + c\<rparr> # ms\<rparr>))"
    using assms(2) e by (auto simp: read_locked_def Let_def c_def msg_rest_def)
  have c: "c \<le> length (msg_rest m)" by (auto simp: c_def length_msg_rest)
  have off: "msg_offset m \<le> length (msg_bytes m)" using assms(1) e by (simp add: entry_ok_def)
  show ?thesis
  proof (cases "msg_offset m + c = length (msg_bytes m)")
    case True
    then have "c = length (msg_rest m)" by (simp add: length_msg_rest)
    then show ?thesis using True e out e' by (auto simp: entry_parts_def Let_def)
  next
    case False
    then show ?thesis using e out e' c by (auto simp: entry_parts_def Let_def msg_rest_advance)
  qed
qed

lemma read_simulated:
  assumes "rq_ok rq" "rq_pending rq key = Some e" "read_locked key e capacity = (out, read, e')"
    and "rq_pending rq' = (rq_pending rq)(key := e')"
  shows "tape_step (Reads (length (read_bytes k (Some (out, read))))) (r, unread_parts rq k) =
    (r @ read_bytes k (Some (out, read)), unread_parts rq' k)"
  using read_locked_parts [OF rq_ok_pending [OF assms(1,2)] assms(3)]
    read_locked_spec(3) [OF rq_ok_pending [OF assms(1,2)] assms(3)] assms(2,4)
  by (auto simp: unread_parts_def read_bytes_def)

lemma abandon_simulated:
  assumes "rq_ok rq"
  shows "(r, unread_parts (abandon_open key rq) key) = tape_step Abandoned (r, unread_parts rq key)"
proof (cases "rq_pending rq key")
  case (Some e)
  have ok: "entry_ok e" using assms Some by (rule rq_ok_pending)
  then obtain ms m where e: "pm_messages e = ms @ [m]"
    by (cases "pm_messages e" rule: rev_cases) (auto simp: entry_ok_def)
  have "msg_complete (last ms)" if "ms \<noteq> []" using ok e that by (simp add: entry_ok_def list_all_iff)
  then show ?thesis using Some e by (auto simp: abandon_open_def unread_parts_def entry_parts_def Let_def)
qed (simp add: abandon_open_def unread_parts_def entry_parts_def)

lemma unread_parts_simps [simp]:
  "rq_ok rq \<Longrightarrow> k \<noteq> key \<Longrightarrow> unread_parts (push key bs complete stream rq) k = unread_parts rq k"
  "k \<noteq> key \<Longrightarrow> unread_parts (abandon_open key rq) k = unread_parts rq k"
  "unread_parts (detach key rq) k = unread_parts rq k"
  "unread_parts (close_receive_queue rq) k = unread_parts rq k"
  "unread_parts (clear_receive_queue rq) k = ([], [])"
  by (auto simp: unread_parts_def push_eq abandon_open_def detach_def close_receive_queue_def clear_receive_queue_def
      entry_parts_def Let_def split: option.splits)

lemma rq_step_ok: "rq_ok rq \<Longrightarrow> rq_ok (rq_step op rq)"
  by (cases op) (simp_all add: push_ok read_any_ok read_from_ok abandon_open_ok detach_ok close_ok clear_ok)

lemma rq_step_simulated:
  assumes "rq_ok rq"
  shows "fold tape_step (rq_event k op rq) (r, unread_parts rq k) = (r @ rq_got k op rq, unread_parts (rq_step op rq) k)"
proof (cases op)
  case (Op_Push key bs complete stream)
  have "(r, unread_parts (push key bs complete stream rq) key) = tape_step (Arrives bs complete) (r, unread_parts rq key)"
    using push_entry_parts [of "rq_pending rq key"] rq_ok_pending [OF assms] by (simp add: push_eq [OF assms] unread_parts_def)
  then show ?thesis using Op_Push assms by (cases "key = k") auto
next
  case (Op_Read_Any capacity)
  obtain q rq' where q: "read_any capacity rq = (q, rq')" by fastforce
  show ?thesis
    using read_simulated [OF assms] Op_Read_Any q
    by (cases rule: read_any_cases [OF assms q]) (auto simp: read_bytes_def)
next
  case (Op_Read_From key capacity)
  obtain q rq' where q: "read_from key capacity rq = (q, rq')" by fastforce
  show ?thesis
    using read_simulated [OF assms] Op_Read_From q
    by (cases rule: read_from_cases [OF assms q]) (auto simp: read_bytes_def)
next
  case (Op_Abandon_Open key)
  then show ?thesis using abandon_simulated [OF assms, of r key] by (cases "key = k") auto
next
  case Op_Clear
  then show ?thesis by (cases "unread_parts rq k") simp
qed simp_all

interpretation rq: item_trace rq_ok unread_parts rq_step rq_event rq_got tape_step
  by unfold_locales (simp_all add: rq_step_ok rq_step_simulated)

lemma empty_receive_queue_ok: "rq_ok empty_receive_queue"
  by (simp add: rq_ok_def empty_receive_queue_def)

subsection \<open>Properties\<close>

lemma reads_first_message:
  "rq_got k (Op_Read_From k capacity) rq = (case rq_pending rq k of None \<Rightarrow> [] | Some e \<Rightarrow> take capacity (msg_rest (hd (pm_messages e))))"
  by (auto simp: read_from_def read_locked_def read_bytes_def msg_rest_def Let_def min_def split: option.split)

lemma read_any_turn:
  assumes "rq_ok rq"
  shows "fst (read_any capacity rq) = (case rq_ready rq of [] \<Rightarrow> None | key # rest \<Rightarrow> fst (read_from key capacity rq))"
proof (cases "rq_ready rq")
  case (Cons key rest)
  then obtain e where "rq_pending rq key = Some e" using assms by (force simp: rq_ok_def)
  then show ?thesis using Cons by (simp add: read_any_def read_from_def split_beta)
qed (simp add: read_any_def)


text \<open>A read returns bytes of one message only: as much of the oldest unread message as the buffer holds, with
  that message's stream, and it says whether more of that message remains, unread or yet to arrive. It returns nothing
  exactly when the association has nothing to read.\<close>

theorem read_from_one_message:
  assumes "rq_ok rq"
  shows "case rq_pending rq key of
      None \<Rightarrow> read_from key capacity rq = (None, rq)
    | Some e \<Rightarrow> (let front = hd (pm_messages e) in
        \<exists>read rq'. read_from key capacity rq = (Some (take capacity (msg_rest front), read), rq') \<and>
          rd_key read = key \<and> rd_stream read = msg_stream front \<and>
          (rd_partial read \<longleftrightarrow> capacity < length (msg_rest front) \<or> \<not> msg_complete front))"
proof (cases "rq_pending rq key")
  case (Some e)
  obtain out read e' where l: "read_locked key e capacity = (out, read, e')" by (metis prod_cases3)
  note spec = read_locked_spec [OF rq_ok_pending [OF assms Some] l]
  show ?thesis using Some l spec(1,3,5,6) by (auto simp: read_from_def Let_def)
qed (simp add: read_from_def)

text \<open>Every operation keeps the bookkeeping right: the ready list names each association with unread messages once,
  the counts behind the advertised window equal the unread bytes less those an ended association left, and only the
  last message of an association may be incomplete.\<close>

theorem receive_queue_invariant:
  assumes "rq_ok rq"
  shows "rq_ok (push key bs complete stream rq) \<and> rq_ok (snd (read_any capacity rq)) \<and>
    rq_ok (snd (read_from key capacity rq)) \<and> rq_ok (abandon_open key rq) \<and> rq_ok (detach key rq) \<and>
    rq_ok (close_receive_queue rq) \<and> rq_ok (clear_receive_queue rq) \<and>
    buffered_bytes key (push key bs complete stream rq) = buffered_bytes key rq + length bs \<and>
    buffered_bytes key (detach key rq) = 0"
proof -
  have "buffered_bytes key (push key bs complete stream rq) = buffered_bytes key rq + length bs"
    using rq_ok_pending [OF assms, of key]
    by (auto simp: push_eq [OF assms] push_entry_def buffered_bytes_def entry_ok_def split: option.splits)
  moreover have "buffered_bytes key (detach key rq) = 0"
    by (simp add: detach_def buffered_bytes_def split: option.splits)
  ultimately show ?thesis
    using assms by (simp add: push_ok read_any_ok read_from_ok abandon_open_ok detach_ok close_ok clear_ok)
qed

definition example_receive_queue :: Receive_Queue where
  "example_receive_queue =
     push \<lparr>s_addr = 1, sin_port = 2\<rparr> [5, 6] False 7
       (push \<lparr>s_addr = 1, sin_port = 2\<rparr> [1, 2, 3] True 3 empty_receive_queue)"

lemma example_receive_queue_ok: "rq_ok example_receive_queue"
  unfolding example_receive_queue_def by (intro push_ok empty_receive_queue_ok)

theorem read_from_one_message_witness:
  "rq_ok example_receive_queue \<and>
   (\<exists>read rq'. read_from \<lparr>s_addr = 1, sin_port = 2\<rparr> 2 example_receive_queue = (Some ([1, 2], read), rq') \<and>
      rd_stream read = 3 \<and> rd_partial read)"
  using read_from_one_message [OF example_receive_queue_ok, of "\<lparr>s_addr = 1, sin_port = 2\<rparr>" 2] example_receive_queue_ok
  by (auto simp: example_receive_queue_def empty_receive_queue_def push_def msg_rest_def)

theorem receive_queue_invariant_witness:
  "rq_ok example_receive_queue \<and>
   buffered_bytes \<lparr>s_addr = 1, sin_port = 2\<rparr> (push \<lparr>s_addr = 1, sin_port = 2\<rparr> [9] True 7 example_receive_queue) =
     buffered_bytes \<lparr>s_addr = 1, sin_port = 2\<rparr> example_receive_queue + 1"
  using receive_queue_invariant [OF example_receive_queue_ok, of "\<lparr>s_addr = 1, sin_port = 2\<rparr>" "[9]" True 7 0]
    example_receive_queue_ok by simp

end
