(* ===== verification/Expiration_Queue.thy ===== *)
theory Expiration_Queue
  imports Sctp_Types "HOL-Library.Multiset"
begin

text \<open>
  The timer queue of \<open>src/expiration_queue.cpp\<close>. A heap cannot erase from the middle, so a timer is cancelled
  by forgetting its generation in \<open>active\<close>; stale entries are dropped when they surface.

  \<open>std::priority_queue\<close> ordered by \<open>Compare_Expiration\<close> is a list kept sorted by expiration. The order in
  which a heap yields entries that expire at the same time is unspecified; the properties therefore speak of the
  set of timers and of the order of their expirations only, and the lemmas use the heap through the laws of the locale
  \<open>min_heap\<close>: \<open>top\<close> is an entry of least expiration and \<open>pop\<close> removes it.

  The abstract view of the queue is a map from timer keys to an expiration and a packet to retry.
\<close>

subsection \<open>State\<close>

datatype Expiration_Timer_Type =
  T1_INIT | T1_COOKIE | T3_RTX | DELAYED_SACK | HEARTBEAT_TIMER | T2_SHUTDOWN | T5_SHUTDOWN_GUARD | ZERO_WINDOW_PROBE

record Expiration_Key =
  ek_location :: Association_Key
  ek_type :: Expiration_Timer_Type
  ek_path :: Association_Key

text \<open>The hash functions of the unordered maps; \<open>hash8\<close> and \<open>hash64\<close> are \<open>std::hash\<close> of \<open>uint8_t\<close> and \<open>uint64_t\<close>.\<close>

definition association_hash :: "(u64 \<Rightarrow> u64) \<Rightarrow> Association_Key \<Rightarrow> u64" where
  "association_hash hash64 k = hash64 (push_bit 16 (ucast (s_addr k)) OR ucast (sin_port k))"

fun timer_number :: "Expiration_Timer_Type \<Rightarrow> u8" where
  "timer_number T1_INIT = 0"
| "timer_number T1_COOKIE = 1"
| "timer_number T3_RTX = 2"
| "timer_number DELAYED_SACK = 3"
| "timer_number HEARTBEAT_TIMER = 4"
| "timer_number T2_SHUTDOWN = 5"
| "timer_number T5_SHUTDOWN_GUARD = 6"
| "timer_number ZERO_WINDOW_PROBE = 7"

definition mix_hash :: "u64 \<Rightarrow> u64 \<Rightarrow> u64" where
  "mix_hash hash part = hash XOR (part + 0x9e3779b9 + push_bit 6 hash + drop_bit 2 hash)"

definition expiration_key_hash :: "(u8 \<Rightarrow> u64) \<Rightarrow> (u64 \<Rightarrow> u64) \<Rightarrow> Expiration_Key \<Rightarrow> u64" where
  "expiration_key_hash hash8 hash64 key =
     foldl mix_hash (association_hash hash64 (ek_location key))
       [hash8 (timer_number (ek_type key)), association_hash hash64 (ek_path key)]"

record Expiration_Fallback =
  ef_key :: Expiration_Key
  ef_expiration :: time
  ef_generation :: u64
  ef_retry :: Deliverable

record Expiration_Queue =
  eq_queue :: "Expiration_Fallback list"
  eq_active :: "Expiration_Key \<rightharpoonup> u64"
  eq_next_generation :: u64

definition empty_expiration_queue :: Expiration_Queue where
  "empty_expiration_queue = \<lparr>eq_queue = [], eq_active = Map.empty, eq_next_generation = 1\<rparr>"

subsection \<open>The heap\<close>

fun heap_push :: "Expiration_Fallback \<Rightarrow> Expiration_Fallback list \<Rightarrow> Expiration_Fallback list" where
  "heap_push f [] = [f]"
| "heap_push f (x # xs) = (if ef_expiration f < ef_expiration x then f # x # xs else x # heap_push f xs)"

definition heap_top :: "Expiration_Fallback list \<Rightarrow> Expiration_Fallback" where
  "heap_top xs = hd xs"

definition heap_pop :: "Expiration_Fallback list \<Rightarrow> Expiration_Fallback list" where
  "heap_pop xs = tl xs"

subsection \<open>Operations\<close>

definition schedule :: "Expiration_Key \<Rightarrow> time \<Rightarrow> Deliverable \<Rightarrow> Expiration_Queue \<Rightarrow> Expiration_Queue" where
  "schedule key expiration retry eq =
     (let generation = eq_next_generation eq
      in eq\<lparr>eq_next_generation := generation + 1,
            eq_active := (eq_active eq)(key \<mapsto> generation),
            eq_queue := heap_push \<lparr>ef_key = key, ef_expiration = expiration, ef_generation = generation,
              ef_retry = retry\<rparr> (eq_queue eq)\<rparr>)"

definition cancel :: "Expiration_Key \<Rightarrow> Expiration_Queue \<Rightarrow> Expiration_Queue" where
  "cancel key eq = eq\<lparr>eq_active := (eq_active eq)(key := None)\<rparr>"

text \<open>The loops over the hash map erase every entry of the association, or of one type of it.\<close>

definition cancel_all :: "Association_Key \<Rightarrow> Expiration_Queue \<Rightarrow> Expiration_Queue" where
  "cancel_all location eq =
     eq\<lparr>eq_active := (\<lambda>k. if ek_location k = location then None else eq_active eq k)\<rparr>"

definition cancel_all_of_type ::
    "Association_Key \<Rightarrow> Expiration_Timer_Type \<Rightarrow> Expiration_Queue \<Rightarrow> Expiration_Queue" where
  "cancel_all_of_type location type eq =
     eq\<lparr>eq_active := (\<lambda>k. if ek_location k = location \<and> ek_type k = type then None else eq_active eq k)\<rparr>"

definition is_active :: "Expiration_Key \<Rightarrow> Expiration_Queue \<Rightarrow> bool" where
  "is_active key eq = (eq_active eq key \<noteq> None)"

definition has_any_for :: "Association_Key \<Rightarrow> Expiration_Queue \<Rightarrow> bool" where
  "has_any_for location eq = (\<exists>k \<in> dom (eq_active eq). ek_location k = location)"

definition generation_of :: "Expiration_Key \<Rightarrow> Expiration_Queue \<Rightarrow> u64" where
  "generation_of key eq = (case eq_active eq key of None \<Rightarrow> 0 | Some g \<Rightarrow> g)"

definition clear_expirations :: "Expiration_Queue \<Rightarrow> Expiration_Queue" where
  "clear_expirations eq = eq\<lparr>eq_queue := [], eq_active := Map.empty\<rparr>"

text \<open>The entry's generation is the live one of its key.\<close>

definition is_live :: "(Expiration_Key \<rightharpoonup> u64) \<Rightarrow> Expiration_Fallback \<Rightarrow> bool" where
  "is_live active f = (active (ef_key f) = Some (ef_generation f))"

function drain_loop ::
    "time \<Rightarrow> Expiration_Fallback list \<Rightarrow> (Expiration_Key \<rightharpoonup> u64) \<Rightarrow> Expiration_Fallback list \<Rightarrow>
     Expiration_Fallback list \<times> Expiration_Fallback list \<times> (Expiration_Key \<rightharpoonup> u64)" where
  "drain_loop now queue active expired =
     (if queue \<noteq> [] \<and> ef_expiration (heap_top queue) \<le> now then
        let fallback = heap_top queue; queue' = heap_pop queue
        in if \<not> is_live active fallback then drain_loop now queue' active expired
           else drain_loop now queue' (active(ef_key fallback := None)) (expired @ [fallback])
      else (expired, queue, active))"
  by pat_completeness auto
termination
  by (relation "measure (\<lambda>(now, queue, active, expired). length queue)") (auto simp: heap_pop_def)

definition drain_expired :: "time \<Rightarrow> Expiration_Queue \<Rightarrow> Expiration_Fallback list \<times> Expiration_Queue" where
  "drain_expired now eq =
     (case drain_loop now (eq_queue eq) (eq_active eq) [] of
        (expired, queue, active) \<Rightarrow> (expired, eq\<lparr>eq_queue := queue, eq_active := active\<rparr>))"

function deadline_loop ::
    "(Expiration_Key \<rightharpoonup> u64) \<Rightarrow> Expiration_Fallback list \<Rightarrow> time option \<times> Expiration_Fallback list" where
  "deadline_loop active queue =
     (if queue \<noteq> [] then
        if is_live active (heap_top queue) then (Some (ef_expiration (heap_top queue)), queue)
        else deadline_loop active (heap_pop queue)
      else (None, queue))"
  by pat_completeness auto
termination
  by (relation "measure (\<lambda>(active, queue). length queue)") (auto simp: heap_pop_def)

definition next_expiration :: "Expiration_Queue \<Rightarrow> time option \<times> Expiration_Queue" where
  "next_expiration eq =
     (case deadline_loop (eq_active eq) (eq_queue eq) of (deadline, queue) \<Rightarrow> (deadline, eq\<lparr>eq_queue := queue\<rparr>))"

declare drain_loop.simps [simp del] deadline_loop.simps [simp del]

subsection \<open>The contract of the heap\<close>

locale min_heap =
  fixes rank :: "'a \<Rightarrow> time"
    and heap_ok :: "'h \<Rightarrow> bool"
    and elems :: "'h \<Rightarrow> 'a multiset"
    and ins :: "'a \<Rightarrow> 'h \<Rightarrow> 'h"
    and least :: "'h \<Rightarrow> 'a"
    and drop_least :: "'h \<Rightarrow> 'h"
  assumes ins_ok: "heap_ok h \<Longrightarrow> heap_ok (ins x h)"
    and elems_ins: "elems (ins x h) = add_mset x (elems h)"
    and least_in: "elems h \<noteq> {#} \<Longrightarrow> least h \<in># elems h"
    and least_le: "heap_ok h \<Longrightarrow> x \<in># elems h \<Longrightarrow> rank (least h) \<le> rank x"
    and drop_ok: "heap_ok h \<Longrightarrow> heap_ok (drop_least h)"
    and elems_drop: "elems h \<noteq> {#} \<Longrightarrow> elems (drop_least h) = elems h - {#least h#}"
begin

lemma elems_split: "elems h \<noteq> {#} \<Longrightarrow> elems h = add_mset (least h) (elems (drop_least h))"
  by (simp add: elems_drop least_in)

lemma drop_bound: "heap_ok h \<Longrightarrow> elems h \<noteq> {#} \<Longrightarrow> x \<in># elems (drop_least h) \<Longrightarrow> rank (least h) \<le> rank x"
  by (metis elems_drop in_diffD least_le)

end

definition expirations_sorted :: "Expiration_Fallback list \<Rightarrow> bool" where
  "expirations_sorted xs \<longleftrightarrow> sorted (map ef_expiration xs)"

text \<open>The address and the port are packed without loss, so two associations share a hash only if \<open>std::hash\<close> maps different numbers
  to one.\<close>

lemma association_hash_packs: "association_hash hash64 k = association_hash hash64 k' \<longleftrightarrow> k = k'" if "inj hash64"
proof
  assume "association_hash hash64 k = association_hash hash64 k'"
  then have eq: "push_bit 16 (ucast (s_addr k)) OR ucast (sin_port k) = (push_bit 16 (ucast (s_addr k')) OR ucast (sin_port k') :: u64)"
    using \<open>inj hash64\<close> by (simp add: association_hash_def inj_eq)
  have bits: "bit (push_bit 16 (ucast (s_addr k)) OR ucast (sin_port k) :: u64) n = bit (push_bit 16 (ucast (s_addr k')) OR ucast (sin_port k') :: u64) n" for n
    by (simp add: eq)
  have "bit (sin_port k) n = bit (sin_port k') n" if "n < 16" for n
    using bits [of n] that by (simp add: bit_simps)
  moreover have "bit (s_addr k) n = bit (s_addr k') n" if "n < 32" for n
    using bits [of "n + 16"] that by (auto simp: bit_simps dest: bit_imp_le_length)
  ultimately have "sin_port k = sin_port k'" "s_addr k = s_addr k'" by (auto intro!: bit_word_eqI)
  then show "k = k'" by (cases k; cases k') simp
qed simp

lemma mset_heap_push: "mset (heap_push f xs) = add_mset f (mset xs)"
  by (induction xs) auto

lemma heap_push_sorted: "expirations_sorted xs \<Longrightarrow> expirations_sorted (heap_push f xs)"
proof (induction xs)
  case (Cons x xs)
  have "set (heap_push f xs) = insert f (set xs)"
    using mset_heap_push [of f xs] by (metis set_mset_add_mset_insert set_mset_mset)
  then show ?case using Cons by (auto simp: expirations_sorted_def)
qed (simp add: expirations_sorted_def)

interpretation timers: min_heap ef_expiration expirations_sorted mset heap_push heap_top heap_pop
proof
  fix h :: "Expiration_Fallback list" and x
  show "expirations_sorted h \<Longrightarrow> expirations_sorted (heap_push x h)" by (rule heap_push_sorted)
  show "mset (heap_push x h) = add_mset x (mset h)" by (rule mset_heap_push)
  show "mset h \<noteq> {#} \<Longrightarrow> heap_top h \<in># mset h" by (simp add: heap_top_def)
  show "expirations_sorted h \<Longrightarrow> x \<in># mset h \<Longrightarrow> ef_expiration (heap_top h) \<le> ef_expiration x"
    by (cases h) (auto simp: expirations_sorted_def heap_top_def)
  show "expirations_sorted h \<Longrightarrow> expirations_sorted (heap_pop h)"
    by (cases h) (auto simp: expirations_sorted_def heap_pop_def)
  show "mset h \<noteq> {#} \<Longrightarrow> mset (heap_pop h) = mset h - {#heap_top h#}"
    by (cases h) (auto simp: heap_pop_def heap_top_def)
qed

subsection \<open>Invariant and abstraction\<close>

text \<open>With the number \<open>n\<close> of the next generation: generations in the heap are distinct, not zero and below \<open>n\<close>, and
  every live generation has its entry. It holds until \<open>2 ^ 64\<close> timers have been scheduled.\<close>

definition eq_ok :: "nat \<Rightarrow> Expiration_Queue \<Rightarrow> bool" where
  "eq_ok n eq \<longleftrightarrow>
     eq_next_generation eq = of_nat n \<and> 1 \<le> n \<and> n < 2 ^ 64 \<and> expirations_sorted (eq_queue eq) \<and>
     distinct (map ef_generation (eq_queue eq)) \<and>
     (\<forall>f \<in> set (eq_queue eq). 1 \<le> unat (ef_generation f) \<and> unat (ef_generation f) < n) \<and>
     (\<forall>k g. eq_active eq k = Some g \<longrightarrow> (\<exists>f \<in> set (eq_queue eq). ef_key f = k \<and> ef_generation f = g))"

text \<open>The timer that runs for a key: its expiration and what to retry.\<close>

definition timer :: "Expiration_Queue \<Rightarrow> Expiration_Key \<Rightarrow> (time \<times> Deliverable) option" where
  "timer eq k =
     map_option (\<lambda>f. (ef_expiration f, ef_retry f))
       (find (\<lambda>f. ef_key f = k \<and> is_live (eq_active eq) f) (eq_queue eq))"

lemma gen_inj:
  "distinct (map ef_generation q) \<Longrightarrow> f \<in> set q \<Longrightarrow> f' \<in> set q \<Longrightarrow> ef_generation f = ef_generation f' \<Longrightarrow> f = f'"
  by (auto simp: distinct_map dest: inj_onD)

lemma find_unique:
  assumes "\<And>x y. x \<in> set xs \<Longrightarrow> y \<in> set xs \<Longrightarrow> P x \<Longrightarrow> P y \<Longrightarrow> x = y"
  shows "find P xs = Some x \<longleftrightarrow> x \<in> set xs \<and> P x"
proof
  assume "find P xs = Some x"
  then show "x \<in> set xs \<and> P x" by (auto simp: find_Some_iff)
next
  assume x: "x \<in> set xs \<and> P x"
  then obtain y where "find P xs = Some y" by (cases "find P xs") (auto simp: find_None_iff)
  then show "find P xs = Some x" using assms x by (metis find_Some_iff nth_mem)
qed

lemma timer_eq_Some:
  assumes "distinct (map ef_generation (eq_queue eq))"
  shows "timer eq k = Some v \<longleftrightarrow>
    (\<exists>f \<in> set (eq_queue eq). ef_key f = k \<and> is_live (eq_active eq) f \<and> v = (ef_expiration f, ef_retry f))"
proof -
  have "find (\<lambda>f. ef_key f = k \<and> is_live (eq_active eq) f) (eq_queue eq) = Some f \<longleftrightarrow>
      f \<in> set (eq_queue eq) \<and> ef_key f = k \<and> is_live (eq_active eq) f" for f
    by (rule find_unique) (auto simp: is_live_def intro: gen_inj [OF assms])
  then show ?thesis by (auto simp: timer_def)
qed

lemma timer_eq_None:
  "timer eq k = None \<longleftrightarrow> \<not> (\<exists>f \<in> set (eq_queue eq). ef_key f = k \<and> is_live (eq_active eq) f)"
  by (auto simp: timer_def find_None_iff)

lemma eq_ok_distinct: "eq_ok n eq \<Longrightarrow> distinct (map ef_generation (eq_queue eq))"
  by (simp add: eq_ok_def)

text \<open>Cancelling: the heap stays, some generations are forgotten.\<close>

lemma forget_ok:
  assumes "eq_ok n eq" "\<And>k. a k = None \<or> a k = eq_active eq k"
  shows "eq_ok n (eq\<lparr>eq_active := a\<rparr>)"
    "timer (eq\<lparr>eq_active := a\<rparr>) k = (if a k = None then None else timer eq k)"
proof -
  show "eq_ok n (eq\<lparr>eq_active := a\<rparr>)"
    using assms unfolding eq_ok_def by (auto, metis option.distinct(1))
  show "timer (eq\<lparr>eq_active := a\<rparr>) k = (if a k = None then None else timer eq k)"
  proof (cases "a k = None")
    case True
    then have "\<not> (ef_key f = k \<and> is_live a f)" for f by (auto simp: is_live_def)
    then show ?thesis using True by (auto simp: timer_def find_None_iff)
  next
    case False
    then have "a k = eq_active eq k" using assms(2) by metis
    then have "(\<lambda>f. ef_key f = k \<and> is_live a f) = (\<lambda>f. ef_key f = k \<and> is_live (eq_active eq) f)"
      by (auto simp: is_live_def)
    then show ?thesis using False by (auto simp: timer_def)
  qed
qed

lemma set_heap_push: "set (heap_push f q) = insert f (set q)"
  using mset_heap_push [of f q] by (metis set_mset_add_mset_insert set_mset_mset)

lemma distinct_gen_push:
  "distinct (map ef_generation (heap_push f q)) \<longleftrightarrow>
     distinct (map ef_generation q) \<and> ef_generation f \<notin> ef_generation ` set q"
proof -
  have "mset (map ef_generation (heap_push f q)) = mset (ef_generation f # map ef_generation q)"
    by (simp add: mset_heap_push)
  then have "distinct (map ef_generation (heap_push f q)) = distinct (ef_generation f # map ef_generation q)"
    by (metis mset_eq_imp_distinct_iff)
  then show ?thesis by auto
qed

lemma schedule_ok:
  assumes "eq_ok n eq" "Suc n < 2 ^ 64"
  shows "eq_ok (Suc n) (schedule key t retry eq)"
    "timer (schedule key t retry eq) = (timer eq)(key \<mapsto> (t, retry))"
proof -
  let ?f = "\<lparr>ef_key = key, ef_expiration = t, ef_generation = of_nat n, ef_retry = retry\<rparr>"
  have n: "unat (of_nat n :: u64) = n" using assms by (simp add: unat_of_nat)
  have fresh: "of_nat n \<notin> ef_generation ` set (eq_queue eq)"
    using assms(1) n by (auto simp: eq_ok_def)
  have s: "schedule key t retry eq = eq\<lparr>eq_next_generation := of_nat (Suc n),
      eq_active := (eq_active eq)(key \<mapsto> of_nat n), eq_queue := heap_push ?f (eq_queue eq)\<rparr>"
    using assms(1) by (simp add: schedule_def eq_ok_def Let_def add.commute)
  show ok: "eq_ok (Suc n) (schedule key t retry eq)"
    using assms n fresh unfolding s eq_ok_def
    by (auto simp: timers.ins_ok distinct_gen_push set_heap_push less_Suc_eq)
  show "timer (schedule key t retry eq) = (timer eq)(key \<mapsto> (t, retry))"
  proof
    fix k
    have old: "is_live ((eq_active eq)(key \<mapsto> of_nat n)) f \<longleftrightarrow> ef_key f \<noteq> key \<and> is_live (eq_active eq) f"
      if "f \<in> set (eq_queue eq)" for f
      using that fresh by (auto simp: is_live_def)
    show "timer (schedule key t retry eq) k = ((timer eq)(key \<mapsto> (t, retry))) k"
    proof (cases "k = key")
      case True
      then show ?thesis
        using timer_eq_Some [OF eq_ok_distinct [OF ok], of k] by (auto simp: s set_heap_push is_live_def)
    next
      case False
      have "timer (schedule key t retry eq) k = Some v \<longleftrightarrow> timer eq k = Some v" for v
        using False old unfolding timer_eq_Some [OF eq_ok_distinct [OF ok]] timer_eq_Some [OF eq_ok_distinct [OF assms(1)]]
        by (auto simp: s set_heap_push)
      then show ?thesis using False by (metis fun_upd_other option.exhaust)
    qed
  qed
qed

subsection \<open>Draining and the next deadline\<close>

text \<open>What \<open>drain_loop\<close> computes: the live entries due, in the order of their expirations; what is not
  due stays in the heap; the keys of what is returned are forgotten.\<close>

definition drained ::
    "time \<Rightarrow> Expiration_Fallback list \<Rightarrow> (Expiration_Key \<rightharpoonup> u64) \<Rightarrow> Expiration_Fallback list \<Rightarrow>
     Expiration_Fallback list \<Rightarrow> (Expiration_Key \<rightharpoonup> u64) \<Rightarrow> bool" where
  "drained now queue active new queue' active' \<longleftrightarrow>
     set new = {f \<in> set queue. is_live active f \<and> ef_expiration f \<le> now} \<and>
     expirations_sorted new \<and> distinct (map ef_key new) \<and>
     expirations_sorted queue' \<and> distinct (map ef_generation queue') \<and>
     set queue' = {f \<in> set queue. now < ef_expiration f} \<and>
     active' = (\<lambda>k. if k \<in> ef_key ` set new then None else active k)"

lemma drained_stop:
  assumes "expirations_sorted queue" "distinct (map ef_generation queue)" "\<forall>f \<in> set queue. now < ef_expiration f"
  shows "drained now queue active [] queue active"
  using assms by (auto simp: drained_def expirations_sorted_def)

lemma drained_stale:
  assumes "drained now q active new queue' active'" "\<not> is_live active f" "ef_expiration f \<le> now"
  shows "drained now (f # q) active new queue' active'"
  using assms unfolding drained_def by auto

lemma drained_live:
  assumes "drained now q (active(ef_key f := None)) new queue' active'" "is_live active f" "ef_expiration f \<le> now"
    and "expirations_sorted (f # q)" "distinct (map ef_generation (f # q))"
  shows "drained now (f # q) active (f # new) queue' active'"
proof -
  have keys: "is_live active g \<Longrightarrow> ef_key g \<noteq> ef_key f" if "g \<in> set q" for g
    using that assms(2,5) by (auto simp: is_live_def)
  have live: "is_live (active(ef_key f := None)) g \<longleftrightarrow> is_live active g" if "g \<in> set q" for g
    using keys [OF that] by (auto simp: is_live_def)
  have new: "set new = {g \<in> set q. is_live active g \<and> ef_expiration g \<le> now}"
    using assms(1) live unfolding drained_def by auto
  have "ef_key f \<notin> ef_key ` set new" using keys new by force
  moreover have "\<forall>g \<in> set new. ef_expiration f \<le> ef_expiration g"
    using assms(4) new by (auto simp: expirations_sorted_def)
  moreover have "active' = (\<lambda>k. if k \<in> ef_key ` set (f # new) then None else active k)"
    using assms(1) unfolding drained_def by auto
  moreover have "set queue' = {g \<in> set q. now < ef_expiration g}" "expirations_sorted new" "distinct (map ef_key new)"
    "expirations_sorted queue'" "distinct (map ef_generation queue')"
    using assms(1) unfolding drained_def by blast+
  ultimately show ?thesis
    using new assms(2,3) unfolding drained_def by (auto simp: expirations_sorted_def)
qed

lemma drain_loop_drained:
  "expirations_sorted queue \<Longrightarrow> distinct (map ef_generation queue) \<Longrightarrow>
   \<exists>new queue' active'. drain_loop now queue active expired = (expired @ new, queue', active') \<and>
     drained now queue active new queue' active'"
proof (induction now queue active expired rule: drain_loop.induct)
  case (1 now queue active expired)
  show ?case
  proof (cases "queue \<noteq> [] \<and> ef_expiration (heap_top queue) \<le> now")
    case False
    then have "\<forall>f \<in> set queue. now < ef_expiration f"
      using timers.least_le [OF "1.prems"(1)] by fastforce
    then have "drained now queue active [] queue active" by (rule drained_stop [OF "1.prems"])
    moreover have "drain_loop now queue active expired = (expired @ [], queue, active)"
      using False by (subst drain_loop.simps) (simp only: if_False append_Nil2)
    ultimately show ?thesis by blast
  next
    case True
    define f q where "f = heap_top queue" and "q = heap_pop queue"
    have queue: "queue = f # q" using True by (simp add: f_def q_def heap_top_def heap_pop_def)
    have q: "expirations_sorted q" "distinct (map ef_generation q)"
      using timers.drop_ok [OF "1.prems"(1)] "1.prems"(2) by (simp_all add: heap_pop_def queue)
    have step: "drain_loop now queue active expired =
        (if \<not> is_live active f then drain_loop now q active expired
         else drain_loop now q (active(ef_key f := None)) (expired @ [f]))"
      using True by (subst drain_loop.simps) (simp add: Let_def f_def q_def)
    show ?thesis
    proof (cases "is_live active f")
      case live: False
      then obtain new queue' active' where "drain_loop now q active expired = (expired @ new, queue', active')"
        "drained now q active new queue' active'"
        using "1.IH"(1) [OF True f_def q_def] q by auto
      moreover have "drained now queue active new queue' active'"
        using drained_stale calculation(2) live True unfolding queue heap_top_def by simp
      ultimately show ?thesis using step live by auto
    next
      case live: True
      then obtain new queue' active' where
        "drain_loop now q (active(ef_key f := None)) (expired @ [f]) = ((expired @ [f]) @ new, queue', active')"
        "drained now q (active(ef_key f := None)) new queue' active'"
        using "1.IH"(2) [OF True f_def q_def _ q] by blast
      moreover have "drained now queue active (f # new) queue' active'"
        using drained_live calculation(2) live True "1.prems" unfolding queue heap_top_def by simp
      ultimately show ?thesis using step live by auto
    qed
  qed
qed

lemma deadline_loop_spec:
  "expirations_sorted queue \<Longrightarrow>
   case deadline_loop active queue of
     (None, queue') \<Rightarrow> queue' = [] \<and> (\<forall>f \<in> set queue. \<not> is_live active f)
   | (Some t, queue') \<Rightarrow>
       (\<exists>stale. queue = stale @ queue' \<and> (\<forall>f \<in> set stale. \<not> is_live active f)) \<and>
       (\<exists>f \<in> set queue. is_live active f \<and> ef_expiration f = t) \<and>
       (\<forall>f \<in> set queue. is_live active f \<longrightarrow> t \<le> ef_expiration f)"
proof (induction active queue rule: deadline_loop.induct)
  case (1 active queue)
  show ?case
  proof (cases "queue = []")
    case False
    define f q where "f = heap_top queue" and "q = heap_pop queue"
    have queue: "queue = f # q" using False by (simp add: f_def q_def heap_top_def heap_pop_def)
    show ?thesis
    proof (cases "is_live active f")
      case True
      then have "deadline_loop active queue = (Some (ef_expiration f), queue)"
        using False f_def by (simp add: deadline_loop.simps [of active queue])
      moreover have "\<forall>g \<in> set queue. ef_expiration f \<le> ef_expiration g"
        using timers.least_le [OF "1.prems"] by (simp add: f_def)
      moreover have "\<exists>g \<in> set queue. is_live active g \<and> ef_expiration g = ef_expiration f"
        using True queue by (metis list.set_intros(1))
      moreover have "\<exists>stale. queue = stale @ queue \<and> (\<forall>f \<in> set stale. \<not> is_live active f)" by auto
      ultimately show ?thesis by simp
    next
      case dead: False
      then have step: "deadline_loop active queue = deadline_loop active q"
        using False f_def q_def by (simp add: deadline_loop.simps [of active queue])
      have "expirations_sorted q" using timers.drop_ok [OF "1.prems"] q_def by simp
      from "1.IH" [OF False, folded f_def q_def, OF dead this]
      have IH: "case deadline_loop active q of
           (None, queue') \<Rightarrow> queue' = [] \<and> (\<forall>f \<in> set q. \<not> is_live active f)
         | (Some t, queue') \<Rightarrow>
             (\<exists>stale. q = stale @ queue' \<and> (\<forall>f \<in> set stale. \<not> is_live active f)) \<and>
             (\<exists>f \<in> set q. is_live active f \<and> ef_expiration f = t) \<and>
             (\<forall>f \<in> set q. is_live active f \<longrightarrow> t \<le> ef_expiration f)" .
      obtain r queue' where r: "deadline_loop active q = (r, queue')" by fastforce
      show ?thesis
      proof (cases r)
        case (Some t)
        then obtain stale where "q = stale @ queue'" "\<forall>f \<in> set stale. \<not> is_live active f" using IH r by auto
        then have "queue = (f # stale) @ queue'" "\<forall>g \<in> set (f # stale). \<not> is_live active g"
          using dead queue by auto
        moreover have "(\<exists>f \<in> set queue. is_live active f \<and> ef_expiration f = t) \<and>
            (\<forall>f \<in> set queue. is_live active f \<longrightarrow> t \<le> ef_expiration f)"
          using IH r Some dead queue by auto
        ultimately show ?thesis unfolding step r Some prod.case option.case by blast
      qed (use IH r dead step queue in auto)
    qed
  qed (simp add: deadline_loop.simps)
qed

lemma eq_ok_empty: "eq_ok 1 empty_expiration_queue"
  by (simp add: eq_ok_def empty_expiration_queue_def expirations_sorted_def)

lemma drain_expired_ok:
  assumes "eq_ok n eq" "drain_expired now eq = (expired, eq')"
  shows "eq_ok n eq'" and "drained now (eq_queue eq) (eq_active eq) expired (eq_queue eq') (eq_active eq')"
proof -
  obtain queue' active' where d: "drain_loop now (eq_queue eq) (eq_active eq) [] = ([] @ expired, queue', active')"
    "drained now (eq_queue eq) (eq_active eq) expired queue' active'"
    and eq': "eq' = eq\<lparr>eq_queue := queue', eq_active := active'\<rparr>"
    using drain_loop_drained [of "eq_queue eq" now "eq_active eq" "[]"] assms
    by (auto simp: eq_ok_def drain_expired_def)
  then show spec: "drained now (eq_queue eq) (eq_active eq) expired (eq_queue eq') (eq_active eq')" by simp
  have "\<exists>f \<in> set queue'. ef_key f = k \<and> ef_generation f = g" if a: "active' k = Some g" for k g
  proof -
    have k: "eq_active eq k = Some g" "k \<notin> ef_key ` set expired"
      using d(2) a by (auto simp: drained_def split: if_splits)
    then obtain f where f: "f \<in> set (eq_queue eq)" "ef_key f = k" "ef_generation f = g"
      using assms(1) unfolding eq_ok_def by blast
    then have "is_live (eq_active eq) f" using k by (simp add: is_live_def)
    then have "now < ef_expiration f" using k(2) f d(2) unfolding drained_def by (metis (lifting) imageI linorder_not_le mem_Collect_eq)
    then show ?thesis using f d(2) unfolding drained_def by blast
  qed
  then show "eq_ok n eq'"
    using assms(1) d(2) unfolding eq_ok_def eq' drained_def by auto
qed

subsection \<open>Properties\<close>

text \<open>C34: The timer queue refines a map from keys to timers: scheduling replaces whatever ran for the key, cancelling
  removes the key's timer or all timers of an association, and no other timer changes; so a cancelled or replaced
  timer never fires, although its entry is still in the heap.\<close>

theorem timer_queue_refines_map:
  assumes "eq_ok n eq" "Suc n < 2 ^ 64"
  shows "timer (schedule key t retry eq) = (timer eq)(key \<mapsto> (t, retry)) \<and>
    timer (cancel key eq) = (timer eq)(key := None) \<and>
    timer (cancel_all location eq) = (\<lambda>k. if ek_location k = location then None else timer eq k) \<and>
    timer (cancel_all_of_type location type eq) =
      (\<lambda>k. if ek_location k = location \<and> ek_type k = type then None else timer eq k) \<and>
    timer (clear_expirations eq) = Map.empty \<and>
    eq_ok (Suc n) (schedule key t retry eq) \<and> eq_ok n (cancel key eq) \<and> eq_ok n (cancel_all location eq) \<and>
    eq_ok n (cancel_all_of_type location type eq) \<and> eq_ok n (clear_expirations eq)"
proof -
  have none: "timer eq k = None" if "eq_active eq k = None" for k
    using that by (auto simp: timer_eq_None is_live_def)
  have c: "eq_ok n (cancel key eq)" "timer (cancel key eq) = (timer eq)(key := None)"
    using forget_ok [OF assms(1), of "(eq_active eq)(key := None)"] none by (auto simp: cancel_def fun_eq_iff)
  moreover have "eq_ok n (cancel_all location eq)"
    "timer (cancel_all location eq) = (\<lambda>k. if ek_location k = location then None else timer eq k)"
    using forget_ok [OF assms(1), of "\<lambda>k. if ek_location k = location then None else eq_active eq k"] none
    by (auto simp: cancel_all_def fun_eq_iff)
  moreover have "eq_ok n (cancel_all_of_type location type eq)" "timer (cancel_all_of_type location type eq) =
      (\<lambda>k. if ek_location k = location \<and> ek_type k = type then None else timer eq k)"
    using forget_ok [OF assms(1), of "\<lambda>k. if ek_location k = location \<and> ek_type k = type then None else eq_active eq k"]
      none by (auto simp: cancel_all_of_type_def fun_eq_iff)
  moreover have "eq_ok n (clear_expirations eq)" "timer (clear_expirations eq) = Map.empty"
    using assms(1) by (auto simp: eq_ok_def clear_expirations_def expirations_sorted_def timer_def fun_eq_iff)
  ultimately show ?thesis using schedule_ok [OF assms] by blast
qed

text \<open>Draining at time \<open>now\<close> returns every running timer that is due exactly once, earliest first, with the packet it
  was scheduled with, and nothing else; afterwards exactly the timers that are not due yet are running.\<close>

theorem drain_expired_exact:
  assumes "eq_ok n eq" "drain_expired now eq = (expired, eq')"
  shows "(\<forall>k t retry. (\<exists>f \<in> set expired. ef_key f = k \<and> ef_expiration f = t \<and> ef_retry f = retry) \<longleftrightarrow>
      timer eq k = Some (t, retry) \<and> t \<le> now) \<and>
    distinct (map ef_key expired) \<and> sorted (map ef_expiration expired) \<and>
    (\<forall>k t retry. timer eq' k = Some (t, retry) \<longleftrightarrow> timer eq k = Some (t, retry) \<and> now < t) \<and> eq_ok n eq'"
proof -
  note ok' = drain_expired_ok(1) [OF assms] and d = drain_expired_ok(2) [OF assms]
  have expired: "set expired = {f \<in> set (eq_queue eq). is_live (eq_active eq) f \<and> ef_expiration f \<le> now}"
    using d by (simp add: drained_def)
  have q': "set (eq_queue eq') = {f \<in> set (eq_queue eq). now < ef_expiration f}"
    and a': "eq_active eq' = (\<lambda>k. if k \<in> ef_key ` set expired then None else eq_active eq k)"
    using d by (simp_all add: drained_def)
  have live': "is_live (eq_active eq') f \<longleftrightarrow> is_live (eq_active eq) f" if f: "f \<in> set (eq_queue eq)" "now < ef_expiration f" for f
  proof -
    have "ef_key f \<notin> ef_key ` set expired" if "is_live (eq_active eq) f"
    proof
      assume "ef_key f \<in> ef_key ` set expired"
      then obtain g where g: "g \<in> set (eq_queue eq)" "is_live (eq_active eq) g" "ef_expiration g \<le> now" "ef_key g = ef_key f"
        using expired by auto
      then have "g = f" using that f gen_inj [OF eq_ok_distinct [OF assms(1)]] by (auto simp: is_live_def)
      then show False using g f by simp
    qed
    then show ?thesis by (auto simp: a' is_live_def)
  qed
  have "(\<exists>f \<in> set expired. ef_key f = k \<and> ef_expiration f = t \<and> ef_retry f = retry) \<longleftrightarrow>
      timer eq k = Some (t, retry) \<and> t \<le> now" for k t retry
    unfolding timer_eq_Some [OF eq_ok_distinct [OF assms(1)]] expired by auto
  moreover have "timer eq' k = Some (t, retry) \<longleftrightarrow> timer eq k = Some (t, retry) \<and> now < t" for k t retry
    unfolding timer_eq_Some [OF eq_ok_distinct [OF ok']] timer_eq_Some [OF eq_ok_distinct [OF assms(1)]] q'
    using live' by auto
  ultimately show ?thesis using d ok' by (simp add: drained_def expirations_sorted_def)
qed

text \<open>The next deadline is the earliest expiration of a running timer, and there is none exactly when no timer is
  running; stale entries it drops on the way do not matter.\<close>

theorem next_expiration_earliest:
  assumes "eq_ok n eq" "next_expiration eq = (deadline, eq')"
  shows "(deadline = None \<longleftrightarrow> timer eq = Map.empty) \<and>
    (\<forall>t. deadline = Some t \<longrightarrow> (\<exists>k retry. timer eq k = Some (t, retry)) \<and>
       (\<forall>k t' retry. timer eq k = Some (t', retry) \<longrightarrow> t \<le> t')) \<and> timer eq' = timer eq"
proof -
  note some = timer_eq_Some [OF eq_ok_distinct [OF assms(1)]]
  obtain queue' where l: "deadline_loop (eq_active eq) (eq_queue eq) = (deadline, queue')" "eq' = eq\<lparr>eq_queue := queue'\<rparr>"
    using assms(2) by (auto simp: next_expiration_def split: prod.splits)
  have spec: "case (deadline, queue') of
     (None, queue') \<Rightarrow> queue' = [] \<and> (\<forall>f \<in> set (eq_queue eq). \<not> is_live (eq_active eq) f)
   | (Some t, queue') \<Rightarrow>
       (\<exists>stale. eq_queue eq = stale @ queue' \<and> (\<forall>f \<in> set stale. \<not> is_live (eq_active eq) f)) \<and>
       (\<exists>f \<in> set (eq_queue eq). is_live (eq_active eq) f \<and> ef_expiration f = t) \<and>
       (\<forall>f \<in> set (eq_queue eq). is_live (eq_active eq) f \<longrightarrow> t \<le> ef_expiration f)"
    using deadline_loop_spec [of "eq_queue eq" "eq_active eq"] assms(1) l(1) by (simp add: eq_ok_def)
  show ?thesis
  proof (cases deadline)
    case None
    then have "timer eq = Map.empty" "timer eq' = Map.empty"
      using spec l(2) by (auto simp: fun_eq_iff timer_eq_None)
    then show ?thesis using None by simp
  next
    case (Some t)
    then obtain stale where stale: "eq_queue eq = stale @ queue'" "\<forall>f \<in> set stale. \<not> is_live (eq_active eq) f"
      and t: "\<exists>f \<in> set (eq_queue eq). is_live (eq_active eq) f \<and> ef_expiration f = t"
        "\<forall>f \<in> set (eq_queue eq). is_live (eq_active eq) f \<longrightarrow> t \<le> ef_expiration f"
      using spec unfolding Some prod.case option.case by blast
    have d: "distinct (map ef_generation (eq_queue eq'))"
      using eq_ok_distinct [OF assms(1)] l(2) stale(1) by simp
    have "timer eq' k = Some v \<longleftrightarrow> timer eq k = Some v" for k v
      unfolding some timer_eq_Some [OF d] using l(2) stale by auto
    then have "timer eq' = timer eq" by (metis ext option.exhaust)
    moreover have "\<exists>k retry. timer eq k = Some (t, retry)" unfolding some using t(1) by auto
    moreover have "t \<le> t'" if "timer eq k = Some (t', retry)" for k t' retry
      using that t(2) unfolding some by auto
    ultimately show ?thesis using Some by auto
  qed
qed

definition example_timer_key :: "Expiration_Timer_Type \<Rightarrow> Expiration_Key" where
  "example_timer_key type = \<lparr>ek_location = \<lparr>s_addr = 1, sin_port = 2\<rparr>, ek_type = type, ek_path = \<lparr>s_addr = 0, sin_port = 0\<rparr>\<rparr>"

definition example_retry :: Deliverable where
  "example_retry = \<lparr>dl_location = \<lparr>s_addr = 1, sin_port = 2\<rparr>, dl_destination = \<lparr>s_addr = 1, sin_port = 3\<rparr>,
     dl_packet = \<lparr>pkt_header = \<lparr>src_port = 1, des_port = 2, verification_tag = 3, hdr_checksum = 0\<rparr>, pkt_chunks = []\<rparr>\<rparr>"

text \<open>T3 is scheduled twice, so one entry is stale; the delayed SACK comes later.\<close>

definition example_timers :: Expiration_Queue where
  "example_timers =
     schedule (example_timer_key DELAYED_SACK) 30 example_retry
       (schedule (example_timer_key T3_RTX) 20 example_retry
         (schedule (example_timer_key T3_RTX) 10 example_retry empty_expiration_queue))"

lemma example_timers_ok: "eq_ok 4 example_timers"
proof -
  have "eq_ok (Suc (Suc (Suc 1))) example_timers"
    unfolding example_timers_def by (intro schedule_ok(1) eq_ok_empty) simp_all
  moreover have "Suc (Suc (Suc 1)) = 4" by simp
  ultimately show ?thesis by (simp only:)
qed

lemma example_timers_timer:
  "timer example_timers = [example_timer_key DELAYED_SACK \<mapsto> (30, example_retry), example_timer_key T3_RTX \<mapsto> (20, example_retry)]"
proof -
  have keys: "example_timer_key DELAYED_SACK \<noteq> example_timer_key T3_RTX" by (simp add: example_timer_key_def)
  have empty: "timer empty_expiration_queue = Map.empty" by (simp add: timer_def empty_expiration_queue_def fun_eq_iff)
  show ?thesis
    unfolding example_timers_def
    using schedule_ok(2) [OF eq_ok_empty] schedule_ok(2) [OF schedule_ok(1) [OF eq_ok_empty]]
      schedule_ok(2) [OF schedule_ok(1) [OF schedule_ok(1) [OF eq_ok_empty]]] empty keys
    by (simp add: fun_upd_twist)
qed

theorem timer_queue_refines_map_witness:
  "eq_ok 4 example_timers \<and> timer (cancel (example_timer_key T3_RTX) example_timers) =
     (timer example_timers)(example_timer_key T3_RTX := None)"
  using timer_queue_refines_map [OF example_timers_ok] example_timers_ok by simp

theorem drain_expired_exact_witness:
  "\<exists>f eq'. drain_expired 25 example_timers = ([f], eq') \<and> eq_ok 4 eq' \<and>
     ef_key f = example_timer_key T3_RTX \<and> ef_expiration f = 20"
proof -
  obtain expired eq' where d: "drain_expired 25 example_timers = (expired, eq')" by fastforce
  note exact = drain_expired_exact [OF example_timers_ok d]
  have dist: "distinct (map ef_key expired)" using exact by blast
  have keys: "example_timer_key DELAYED_SACK \<noteq> example_timer_key T3_RTX" by (simp add: example_timer_key_def)
  have all: "ef_key f = example_timer_key T3_RTX \<and> ef_expiration f = 20" if "f \<in> set expired" for f
  proof -
    have "timer example_timers (ef_key f) = Some (ef_expiration f, ef_retry f) \<and> ef_expiration f \<le> 25"
      using exact that by blast
    then show ?thesis by (auto simp: example_timers_timer split: if_splits)
  qed
  have "timer example_timers (example_timer_key T3_RTX) = Some (20, example_retry) \<and> (20::time) \<le> 25"
    using keys by (simp add: example_timers_timer)
  then obtain f where "f \<in> set expired" using exact by blast
  moreover have "expired \<noteq> g # h # rest" for g h rest
  proof
    assume e: "expired = g # h # rest"
    then have "g \<in> set expired" "h \<in> set expired" by simp_all
    from all [OF this(1)] all [OF this(2)] have "ef_key g = ef_key h" by (simp only:)
    then show False using dist unfolding e by simp
  qed
  ultimately have one: "expired = [f]"
    by (metis list.exhaust list.set_cases set_ConsD list.set_intros(1) empty_iff list.set(1))
  have f: "ef_key f = example_timer_key T3_RTX" "ef_expiration f = 20" using all [of f] one by simp_all
  have "eq_ok 4 eq'" using exact by blast
  then show ?thesis using d one f by blast
qed

theorem next_expiration_earliest_witness:
  "\<exists>eq'. next_expiration example_timers = (Some 20, eq') \<and> timer eq' = timer example_timers"
proof -
  obtain r eq' where d: "next_expiration example_timers = (r, eq')" by fastforce
  note exact = next_expiration_earliest [OF example_timers_ok d]
  have keys: "example_timer_key DELAYED_SACK \<noteq> example_timer_key T3_RTX" by (simp add: example_timer_key_def)
  have t20: "timer example_timers (example_timer_key T3_RTX) = Some (20, example_retry)"
    using keys by (simp add: example_timers_timer)
  then obtain t where t: "r = Some t" using exact by (cases r) auto
  then have "t \<le> 20" using exact t20 by blast
  moreover have "t = 20 \<or> t = 30"
    using exact t by (auto simp: example_timers_timer split: if_splits)
  ultimately show ?thesis using d t exact by auto
qed

end
