(* ===== verification/Notification_Queue.thy ===== *)
theory Notification_Queue
  imports Sctp_Types Stream_Contract
begin

text \<open>
  The notification queue of \<open>src/notification_queue.cpp\<close>. The array of subscriptions is a function from the
  notification type. \<open>wait_dequeue\<close> waits on a condition variable and then does what \<open>dequeue\<close> does, on whatever it
  finds.
\<close>

subsection \<open>State\<close>

datatype Notification_Type =
  SCTP_ASSOC_CHANGE | SCTP_REMOTE_ERROR | SCTP_SEND_FAILED | SCTP_PEER_ADDR_CHANGE | SCTP_SHUTDOWN_EVENT
  | SCTP_PARTIAL_DELIVERY_EVENT

datatype Assoc_Change_State = COMM_UP | COMM_LOST | RESTART | SHUTDOWN_COMP | CANT_STR_ASSOC

datatype Peer_Addr_State = ADDR_AVAILABLE | ADDR_UNREACHABLE | ADDR_CONFIRMED

datatype Notification_Payload =
    Assoc_Change Assoc_Change_State
  | Remote_Error "error_cause list"
  | Shutdown_Event
  | Peer_Addr_Change sockaddr_in Peer_Addr_State
  | Partial_Delivery_Event (pd_stream: u16) (pd_ssn: u16)

record Notification =
  nt_type :: Notification_Type
  nt_src :: Association_Key
  nt_sequence_number :: u64
  nt_payload :: Notification_Payload

record Notification_Queue =
  nq_queue :: "Notification list"
  nq_subscribed :: "Notification_Type \<Rightarrow> bool"
  nq_next_sequence_number :: u64
  nq_dropped_count :: u64
  nq_closed :: bool

abbreviation (input) MAX_QUEUED_NOTIFICATIONS :: nat where "MAX_QUEUED_NOTIFICATIONS \<equiv> 1024"

subsection \<open>Operations\<close>

definition is_lifecycle :: "Notification_Type \<Rightarrow> bool" where
  "is_lifecycle type =
     (type = SCTP_ASSOC_CHANGE \<or> type = SCTP_SHUTDOWN_EVENT \<or> type = SCTP_PARTIAL_DELIVERY_EVENT)"

definition new_notification_queue :: Notification_Queue where
  "new_notification_queue =
     \<lparr>nq_queue = [], nq_subscribed = (\<lambda>_. False)(SCTP_ASSOC_CHANGE := True), nq_next_sequence_number = 1,
      nq_dropped_count = 0, nq_closed = False\<rparr>"

definition enqueue_notification :: "Notification \<Rightarrow> Notification_Queue \<Rightarrow> Notification_Queue" where
  "enqueue_notification n nq =
     (if \<not> nq_subscribed nq (nt_type n) then nq
      else if length (nq_queue nq) \<ge> MAX_QUEUED_NOTIFICATIONS \<and> \<not> is_lifecycle (nt_type n)
      then nq\<lparr>nq_dropped_count := nq_dropped_count nq + 1\<rparr>
      else nq\<lparr>nq_next_sequence_number := nq_next_sequence_number nq + 1,
              nq_queue := nq_queue nq @ [n\<lparr>nt_sequence_number := nq_next_sequence_number nq\<rparr>]\<rparr>)"

definition pop_front :: "Notification_Queue \<Rightarrow> Notification option \<times> Notification_Queue" where
  "pop_front nq = (Some (hd (nq_queue nq)), nq\<lparr>nq_queue := tl (nq_queue nq)\<rparr>)"

definition dequeue :: "Notification_Queue \<Rightarrow> Notification option \<times> Notification_Queue" where
  "dequeue nq = (if nq_queue nq = [] then (None, nq) else pop_front nq)"

definition wait_dequeue :: "Notification_Queue \<Rightarrow> Notification option \<times> Notification_Queue" where
  "wait_dequeue nq = (if nq_queue nq = [] then (None, nq) else pop_front nq)"

definition set_subscribed :: "Notification_Type \<Rightarrow> bool \<Rightarrow> Notification_Queue \<Rightarrow> Notification_Queue" where
  "set_subscribed type on nq = nq\<lparr>nq_subscribed := (nq_subscribed nq)(type := on)\<rparr>"

definition is_subscribed :: "Notification_Type \<Rightarrow> Notification_Queue \<Rightarrow> bool" where
  "is_subscribed type nq = nq_subscribed nq type"

definition close_notifications :: "Notification_Queue \<Rightarrow> Notification_Queue" where
  "close_notifications nq = nq\<lparr>nq_closed := True\<rparr>"

definition clear_notifications :: "Notification_Queue \<Rightarrow> Notification_Queue" where
  "clear_notifications nq = nq\<lparr>nq_queue := []\<rparr>"

definition notifications_size :: "Notification_Queue \<Rightarrow> nat" where
  "notifications_size nq = length (nq_queue nq)"

definition notifications_dropped :: "Notification_Queue \<Rightarrow> u64" where
  "notifications_dropped nq = nq_dropped_count nq"

subsection \<open>Sequences of operations\<close>

datatype nq_op = Nq_Enqueue Notification | Nq_Dequeue | Nq_Wait | Nq_Subscribe Notification_Type bool | Nq_Close

fun nq_step :: "nq_op \<Rightarrow> Notification_Queue \<Rightarrow> Notification_Queue" where
  "nq_step (Nq_Enqueue n) nq = enqueue_notification n nq"
| "nq_step Nq_Dequeue nq = snd (dequeue nq)"
| "nq_step Nq_Wait nq = snd (wait_dequeue nq)"
| "nq_step (Nq_Subscribe type on) nq = set_subscribed type on nq"
| "nq_step Nq_Close nq = close_notifications nq"

text \<open>What the queue must take: subscribed, and there is room or the notification reports an association's
  life cycle.\<close>

definition wanted :: "Notification \<Rightarrow> Notification_Queue \<Rightarrow> bool" where
  "wanted n nq \<longleftrightarrow>
     is_subscribed (nt_type n) nq \<and> (notifications_size nq < MAX_QUEUED_NOTIFICATIONS \<or> is_lifecycle (nt_type n))"

fun nq_put :: "unit \<Rightarrow> nq_op \<Rightarrow> Notification_Queue \<Rightarrow> Notification list" where
  "nq_put k (Nq_Enqueue n) nq =
     (if wanted n nq then [n\<lparr>nt_sequence_number := nq_next_sequence_number nq\<rparr>] else [])"
| "nq_put k op nq = []"

fun nq_got :: "unit \<Rightarrow> nq_op \<Rightarrow> Notification_Queue \<Rightarrow> Notification list" where
  "nq_got k Nq_Dequeue nq = (case fst (dequeue nq) of None \<Rightarrow> [] | Some n \<Rightarrow> [n])"
| "nq_got k Nq_Wait nq = (case fst (wait_dequeue nq) of None \<Rightarrow> [] | Some n \<Rightarrow> [n])"
| "nq_got k op nq = []"

lemmas nq_defs =
  enqueue_notification_def dequeue_def wait_dequeue_def pop_front_def set_subscribed_def close_notifications_def
  wanted_def is_subscribed_def notifications_size_def

interpretation nq: item_stream "\<lambda>_. True" "\<lambda>nq _. nq_queue nq" nq_step nq_put nq_got
proof
  fix nq k op
  show "nq_queue nq @ nq_put k op nq = nq_got k op nq @ nq_queue (nq_step op nq)"
    by (cases op) (auto simp: nq_defs)
qed simp

lemma next_sequence_step:
  "nq_next_sequence_number (nq_step op nq) = nq_next_sequence_number nq + of_nat (length (nq_put k op nq))"
  by (cases op) (auto simp: nq_defs)

lemma put_sequence:
  "map nt_sequence_number (nq_put k op nq) =
     map (\<lambda>i. nq_next_sequence_number nq + of_nat i) [0..<length (nq_put k op nq)]"
  by (cases op) auto

lemma sequence_numbers:
  "map nt_sequence_number (observe_ops nq_step (nq_put k) ops nq) =
     map (\<lambda>i. nq_next_sequence_number nq + of_nat i) [0..<length (observe_ops nq_step (nq_put k) ops nq)]"
proof (induction ops arbitrary: nq)
  case (Cons op ops)
  let ?a = "nq_put k op nq" and ?b = "observe_ops nq_step (nq_put k) ops (nq_step op nq)"
  have "[0..<length ?a + length ?b] = [0..<length ?a] @ map (\<lambda>i. i + length ?a) [0..<length ?b]"
    unfolding map_add_upt add.commute [of "length ?b"] by (rule upt_add_eq_append) simp
  moreover have "map nt_sequence_number (?a @ ?b) =
      map (\<lambda>i. nq_next_sequence_number nq + of_nat i) [0..<length ?a] @
      map (\<lambda>i. nq_next_sequence_number (nq_step op nq) + of_nat i) [0..<length ?b]"
    unfolding map_append put_sequence [of k op nq] Cons.IH [of "nq_step op nq"] ..
  ultimately show ?case
    unfolding next_sequence_step [of op nq k] by (simp add: comp_def ac_simps)
qed simp

subsection \<open>Properties\<close>

text \<open>Over any sequence of operations, the notifications the application takes out, followed by those still
  queued, are exactly the ones the queue had to take, in order: those subscribed at that time that found
  room, and those about an association's life cycle, which are never dropped.\<close>

theorem notifications_delivered_in_order:
  "observe_ops nq_step (nq_got ()) ops new_notification_queue @ nq_queue (run_ops nq_step ops new_notification_queue) =
   observe_ops nq_step (nq_put ()) ops new_notification_queue"
  using nq.run_conserved [of new_notification_queue "()" ops] by (simp add: new_notification_queue_def)

text \<open>The notifications the queue takes are numbered 1, 2, 3 and so on without a gap (modulo \<open>2 ^ 64\<close>), so with
  in-order delivery a consumer sees consecutive numbers.\<close>

theorem notification_numbers_consecutive:
  "map nt_sequence_number (observe_ops nq_step (nq_put ()) ops new_notification_queue) =
     map (\<lambda>i. 1 + of_nat i) [0..<length (observe_ops nq_step (nq_put ()) ops new_notification_queue)]"
  using sequence_numbers [of "()" ops new_notification_queue] by (simp add: new_notification_queue_def)

end
