(* ===== verification/Association.thy ===== *)
theory Association
  imports Builders Ordered_Map
begin

text \<open>
  The state of an association, \<open>include/sctp/association.hpp\<close>, and the helpers of \<open>src/socket_internal.hpp\<close> on its
  paths and its outstanding DATA.

  A pointer or reference to a path is its index in \<open>peer_address_list\<close>; comparing two such pointers is comparing
  indices, and \<open>front()\<close> is index 0 (every association has at least one path). Both maps
  ordered by \<open>Tsn_Less\<close> and the \<open>std::map\<close> by SSN are ordered maps; \<open>inbound_streams\<close> is a hash map whose iteration
  only adds up or searches, and is an ordered map by stream too. Round-trip times are counts of microseconds.
\<close>

subsection \<open>State\<close>

datatype Association_State =
  COOKIE_WAIT | COOKIE_ECHOED | ESTABLISHED | SHUTDOWN_PENDING | SHUTDOWN_SENT | SHUTDOWN_RECEIVED | SHUTDOWN_ACK_SENT

record Outstanding_Data =
  od_data :: data_chunk_value
  first_sent :: time
  last_sent :: time
  retransmitted :: bool
  gap_acked :: bool
  missing_reports :: u16
  fast_retransmitted :: bool
  pending_retransmission :: bool
  od_destination :: sockaddr_in

record Acked_Retransmission =
  ar_tsn :: u32
  ar_size :: u32
  ar_destination :: sockaddr_in

record Held_Chunk =
  held_data :: data_chunk_value
  assembled :: bool

record Delivery =
  dv_bytes :: bytes
  dv_complete :: bool
  dv_stream :: u16

record Inbound_Stream =
  is_next_ssn :: u16
  early :: "(u16, bytes) omap"

record Outbound_Message =
  om_stream :: u16
  om_ssn :: u16
  om_unordered :: bool
  om_bytes :: bytes
  om_offset :: nat

record Reassembly =
  ra_open :: bool
  partially_delivered :: bool
  ra_unordered :: bool
  ra_stream :: u16
  ra_ssn :: u16
  ra_bytes :: bytes

record Peer_Path =
  address :: sockaddr_in
  confirmed :: bool
  active :: bool
  error_count :: u16
  hb_enabled :: bool
  hb_outstanding :: bool
  hb_nonce :: u64
  hb_sent_at :: time
  hb_next :: time
  hb_period_start :: time
  new_data_sent_at :: time
  has_srtt :: bool
  srtt :: int
  rttvar :: int
  rto :: int
  cwnd :: u32
  ssthresh :: u32
  partial_bytes_acked :: u32
  single_packet_in_flight :: bool
  data_sent_at :: time
  idle_decaying :: bool

record Association =
  peer_ver_tag :: u32
  this_ver_tag :: u32
  local_tie_tag :: u32
  peer_tie_tag :: u32
  assoc_state :: Association_State
  peer_address_list :: "Peer_Path list"
  primary_path :: sockaddr_in
  assoc_error_count :: u16
  error_threshold :: u16
  peer_rwnd :: u32
  peer_max_rwnd :: u32
  zero_window_probe_allowed :: bool
  zero_window_probing :: bool
  sack_since_t3 :: bool
  our_rwnd :: u32
  received_since_sack :: u32
  next_tsn :: u32
  last_peer_tsn :: u32
  init_retransmits :: u16
  cookie_retransmits :: u16
  stale_cookie_retries :: u8
  cumulative_tsn_ack :: u32
  outstanding_data :: "(u32, Outstanding_Data) omap"
  has_rtt_measurement_tsn :: bool
  rtt_measurement_tsn :: u32
  pmdcs :: u32
  hb_interval :: time
  burst_count :: u32
  acked_retransmissions :: "Acked_Retransmission list"
  in_fast_recovery :: bool
  fast_recovery_exit_tsn :: u32
  tsn_ooo_buffer :: "(u32, Held_Chunk) omap"
  duplicate_tsns :: "u32 list"
  delayed_sack_packet_count :: u8
  ack_state :: u16
  in_streams :: u16
  out_streams :: u16
  next_ssn :: "u16 list"
  outbound :: "Outbound_Message list"
  outbound_bytes :: nat
  reassembly :: Reassembly
  inbound_streams :: "(u16, Inbound_Stream) omap"
  held_deliveries :: "Delivery list"

subsection \<open>Paths\<close>

abbreviation (input) HB_MAX_BURST :: nat where "HB_MAX_BURST \<equiv> 1"
abbreviation (input) HEARTBEAT_INFO_SIZE :: nat where "HEARTBEAT_INFO_SIZE \<equiv> 14"
abbreviation (input) RTO_INITIAL_us :: int where "RTO_INITIAL_us \<equiv> 1000000"

definition initial_cwnd :: "u32 \<Rightarrow> u32" where
  "initial_cwnd p = min (4 * p) (max (2 * p) 4404)"

definition same_destination :: "sockaddr_in \<Rightarrow> sockaddr_in \<Rightarrow> bool" where
  "same_destination a b = (s_addr a = s_addr b)"

definition path_key :: "sockaddr_in \<Rightarrow> Association_Key" where
  "path_key a = \<lparr>s_addr = s_addr a, sin_port = 0\<rparr>"

definition peer_key :: "sockaddr_in \<Rightarrow> u16 \<Rightarrow> Association_Key" where
  "peer_key a sctp_port = (path_key a)\<lparr>sin_port := htons sctp_port\<rparr>"

text \<open>\<open>std::find_if\<close> as the index of the first element that satisfies the predicate.\<close>

fun find_index :: "('a \<Rightarrow> bool) \<Rightarrow> 'a list \<Rightarrow> nat option" where
  "find_index P [] = None"
| "find_index P (x # xs) = (if P x then Some 0 else map_option Suc (find_index P xs))"

definition find_path :: "Association \<Rightarrow> sockaddr_in \<Rightarrow> nat option" where
  "find_path assoc a = find_index (\<lambda>candidate. same_destination (address candidate) a) (peer_address_list assoc)"

definition primary :: "Association \<Rightarrow> nat" where
  "primary assoc = (case find_path assoc (primary_path assoc) of Some i \<Rightarrow> i | None \<Rightarrow> 0)"

definition make_path :: "sockaddr_in \<Rightarrow> bool \<Rightarrow> u32 \<Rightarrow> Peer_Path" where
  "make_path a is_confirmed p =
     \<lparr>address = a, confirmed = is_confirmed, active = True, error_count = 0, hb_enabled = True, hb_outstanding = False,
      hb_nonce = 0, hb_sent_at = 0, hb_next = 0, hb_period_start = 0, new_data_sent_at = 0, has_srtt = False, srtt = 0,
      rttvar = 0, rto = RTO_INITIAL_us, cwnd = initial_cwnd p, ssthresh = of_nat RWND, partial_bytes_acked = 0,
      single_packet_in_flight = False, data_sent_at = 0, idle_decaying = False\<rparr>"

abbreviation path_at :: "Association \<Rightarrow> nat \<Rightarrow> Peer_Path" where
  "path_at assoc i \<equiv> peer_address_list assoc ! i"

definition data_path :: "Association \<Rightarrow> nat" where
  "data_path assoc =
     (let preferred = primary assoc in
      if active (path_at assoc preferred) then preferred
      else case find_index (\<lambda>path. confirmed path \<and> active path) (peer_address_list assoc) of
             None \<Rightarrow> preferred
           | Some alternate \<Rightarrow> alternate)"

text \<open>The loop over the other paths, from the one after \<open>from\<close>, with \<open>n\<close> steps to go.\<close>

fun next_usable_path :: "Peer_Path list \<Rightarrow> nat \<Rightarrow> nat \<Rightarrow> nat \<Rightarrow> nat" where
  "next_usable_path paths from step 0 = from"
| "next_usable_path paths from step (Suc n) =
     (let candidate = (from + step) mod length paths
      in if confirmed (paths ! candidate) \<and> active (paths ! candidate) then candidate
         else next_usable_path paths from (step + 1) n)"

definition retransmission_path :: "Association \<Rightarrow> sockaddr_in \<Rightarrow> nat" where
  "retransmission_path assoc last_destination =
     (let preferred = data_path assoc in
      if \<not> same_destination (address (path_at assoc preferred)) last_destination then preferred
      else next_usable_path (peer_address_list assoc) preferred 1 (length (peer_address_list assoc) - 1))"

definition destination_of :: "Association \<Rightarrow> Outstanding_Data \<Rightarrow> nat" where
  "destination_of assoc outstanding =
     (case find_path assoc (od_destination outstanding) of Some i \<Rightarrow> i | None \<Rightarrow> primary assoc)"

definition path_probing :: "Peer_Path \<Rightarrow> bool" where
  "path_probing candidate = (\<not> confirmed candidate \<and> active candidate \<and> hb_enabled candidate)"

fun probes_loop :: "Peer_Path list \<Rightarrow> nat \<Rightarrow> nat \<Rightarrow> nat \<Rightarrow> bool" where
  "probes_loop [] i path ahead = False"
| "probes_loop (candidate # rest) i path ahead =
     (let probing = path_probing candidate
      in if i = path then probing \<and> ahead < HB_MAX_BURST
         else probes_loop rest (i + 1) path (ahead + (if probing then 1 else 0)))"

definition probes_for_confirmation :: "Association \<Rightarrow> nat \<Rightarrow> bool" where
  "probes_for_confirmation assoc path = probes_loop (peer_address_list assoc) 0 path 0"

definition reply_destination :: "Association \<Rightarrow> sockaddr_in \<Rightarrow> sockaddr_in" where
  "reply_destination assoc src =
     (case find_path assoc src of
        Some i \<Rightarrow> (if confirmed (path_at assoc i) then src else address (path_at assoc (data_path assoc)))
      | None \<Rightarrow> address (path_at assoc (data_path assoc)))"

definition cookie_source :: "State_Cookie \<Rightarrow> sockaddr_in" where
  "cookie_source cookie = \<lparr>s_addr = htonl (peer_ipv4 cookie), sin_port = htons (peer_udp_port cookie)\<rparr>"

definition cookie_key :: "State_Cookie \<Rightarrow> Association_Key" where
  "cookie_key cookie = peer_key (cookie_source cookie) (sctp_src_port cookie)"

subsection \<open>New associations\<close>

text \<open>A value-initialised \<open>Association\<close>, and the two ways the socket fills one in; the tag and the TSN drawn at random are
  arguments.\<close>

definition empty_reassembly :: Reassembly where
  "empty_reassembly = \<lparr>ra_open = False, partially_delivered = False, ra_unordered = False, ra_stream = 0, ra_ssn = 0,
     ra_bytes = []\<rparr>"

definition blank_association :: Association where
  "blank_association =
     \<lparr>peer_ver_tag = 0, this_ver_tag = 0, local_tie_tag = 0, peer_tie_tag = 0, assoc_state = COOKIE_WAIT,
      peer_address_list = [], primary_path = \<lparr>s_addr = 0, sin_port = 0\<rparr>, assoc_error_count = 0, error_threshold = 0,
      peer_rwnd = 0, peer_max_rwnd = 0, zero_window_probe_allowed = False, zero_window_probing = False,
      sack_since_t3 = False, our_rwnd = 0, received_since_sack = 0, next_tsn = 0, last_peer_tsn = 0,
      init_retransmits = 0, cookie_retransmits = 0, stale_cookie_retries = 0, cumulative_tsn_ack = 0,
      outstanding_data = [], has_rtt_measurement_tsn = False, rtt_measurement_tsn = 0, pmdcs = 0, hb_interval = 0,
      burst_count = 0, acked_retransmissions = [], in_fast_recovery = False, fast_recovery_exit_tsn = 0,
      tsn_ooo_buffer = [], duplicate_tsns = [], delayed_sack_packet_count = 0, ack_state = 0, in_streams = 0,
      out_streams = 0, next_ssn = [], outbound = [], outbound_bytes = 0, reassembly = empty_reassembly,
      inbound_streams = [], held_deliveries = []\<rparr>"

abbreviation (input) DEFAULT_PMDCS :: u32 where "DEFAULT_PMDCS \<equiv> 1200"
abbreviation (input) ASSOCIATION_MAX_RETRANS :: u16 where "ASSOCIATION_MAX_RETRANS \<equiv> 10"
abbreviation (input) HB_INTERVAL :: time where "HB_INTERVAL \<equiv> milliseconds 30000"

definition init_new_association :: "sockaddr_in \<Rightarrow> u32 \<Rightarrow> u32 \<Rightarrow> Association" where
  "init_new_association destination tag tsn =
     blank_association\<lparr>
       pmdcs := DEFAULT_PMDCS,
       peer_address_list := [make_path destination True DEFAULT_PMDCS],
       primary_path := destination,
       assoc_state := COOKIE_WAIT,
       this_ver_tag := tag,
       next_tsn := tsn,
       cumulative_tsn_ack := tsn - 1,
       out_streams := LOCAL_OUT_STREAMS,
       in_streams := LOCAL_MAX_IN_STREAMS,
       next_ssn := replicate (unat LOCAL_OUT_STREAMS) 0,
       error_threshold := ASSOCIATION_MAX_RETRANS,
       hb_interval := HB_INTERVAL,
       our_rwnd := of_nat RWND\<rparr>"

definition init_new_association_from_cookie :: "State_Cookie \<Rightarrow> Association" where
  "init_new_association_from_cookie cookie =
     blank_association\<lparr>
       pmdcs := DEFAULT_PMDCS,
       peer_address_list := [make_path (cookie_source cookie) True DEFAULT_PMDCS],
       primary_path := cookie_source cookie,
       assoc_state := ESTABLISHED,
       this_ver_tag := local_ver_tag cookie,
       peer_ver_tag := ck_peer_ver_tag cookie,
       next_tsn := local_initial_tsn cookie,
       cumulative_tsn_ack := local_initial_tsn cookie - 1,
       last_peer_tsn := peer_initial_tsn cookie - 1,
       peer_rwnd := peer_a_rwnd cookie,
       peer_max_rwnd := peer_a_rwnd cookie,
       out_streams := min (local_out_streams cookie) (peer_in_streams cookie),
       in_streams := min (local_in_streams cookie) (peer_out_streams cookie),
       next_ssn := replicate (unat (min (local_out_streams cookie) (peer_in_streams cookie))) 0,
       error_threshold := ASSOCIATION_MAX_RETRANS,
       hb_interval := HB_INTERVAL,
       our_rwnd := of_nat RWND\<rparr>"

subsection \<open>Outstanding DATA\<close>

definition has_unacknowledged_data :: "Association \<Rightarrow> bool" where
  "has_unacknowledged_data assoc = list_ex (\<lambda>(tsn, outstanding). \<not> gap_acked outstanding) (outstanding_data assoc)"

definition has_unacknowledged_data_on :: "Association \<Rightarrow> nat \<Rightarrow> bool" where
  "has_unacknowledged_data_on assoc path =
     list_ex (\<lambda>(tsn, outstanding). \<not> gap_acked outstanding \<and> destination_of assoc outstanding = path)
       (outstanding_data assoc)"

definition bytes_in_flight :: "Association \<Rightarrow> nat option \<Rightarrow> nat" where
  "bytes_in_flight assoc path =
     foldl (\<lambda>total (tsn, outstanding).
         if \<not> gap_acked outstanding \<and> \<not> pending_retransmission outstanding
            \<and> (case path of None \<Rightarrow> True | Some i \<Rightarrow> destination_of assoc outstanding = i)
         then total + data_chunk_wire_size (od_data outstanding) else total)
       0 (outstanding_data assoc)"

definition cwnd_open :: "Association \<Rightarrow> nat \<Rightarrow> bool" where
  "cwnd_open assoc path =
     (let flight = bytes_in_flight assoc (Some path)
      in if single_packet_in_flight (path_at assoc path) then flight = 0 else flight < unat (cwnd (path_at assoc path)))"

definition transmits_data :: "Association_State \<Rightarrow> bool" where
  "transmits_data st = (st = ESTABLISHED \<or> st = SHUTDOWN_PENDING \<or> st = SHUTDOWN_RECEIVED)"

definition receives_data :: "Association_State \<Rightarrow> bool" where
  "receives_data st = (st = ESTABLISHED \<or> st = SHUTDOWN_PENDING \<or> st = SHUTDOWN_SENT)"

subsection \<open>Heartbeat Info\<close>

text \<open>The address and the port are copied as they sit in memory.\<close>

definition heartbeat_info :: "u64 \<Rightarrow> sockaddr_in \<Rightarrow> bytes" where
  "heartbeat_info nonce destination =
     be32_bytes (ucast (drop_bit 32 nonce)) @ be32_bytes (ucast nonce) @ mem32 (s_addr destination)
     @ mem16 (sin_port destination)"

definition heartbeat_info_nonce :: "bytes \<Rightarrow> u64 res" where
  "heartbeat_info_nonce info =
     bind_res (read_be32 info 0) (\<lambda>high. bind_res (read_be32 info 4) (\<lambda>low.
       Inr (push_bit 32 (ucast high) OR ucast low)))"

definition heartbeat_info_destination :: "bytes \<Rightarrow> sockaddr_in res" where
  "heartbeat_info_destination info =
     (if HEARTBEAT_INFO_SIZE \<le> length info
      then Inr \<lparr>s_addr = load32 (info ! 8) (info ! 9) (info ! 10) (info ! 11), sin_port = load16 (info ! 12) (info ! 13)\<rparr>
      else Inl Out_Of_Bounds)"

subsection \<open>Facts on paths\<close>

lemma find_index_None: "find_index P xs = None \<longleftrightarrow> (\<forall>x \<in> set xs. \<not> P x)"
  by (induction xs) auto

lemma find_index_Some:
  "find_index P xs = Some i \<Longrightarrow> i < length xs \<and> P (xs ! i) \<and> (\<forall>j<i. \<not> P (xs ! j))"
proof (induction xs arbitrary: i)
  case (Cons x xs)
  show ?case
  proof (cases "P x")
    case False
    then obtain j where j: "find_index P xs = Some j" "i = Suc j" using Cons.prems by auto
    then show ?thesis using Cons.IH [OF j(1)] False by (auto simp: less_Suc_eq_0_disj)
  qed (use Cons.prems in auto)
qed simp

text \<open>An association has paths, each to an address of its own.\<close>

definition paths_ok :: "Association \<Rightarrow> bool" where
  "paths_ok assoc \<longleftrightarrow>
     peer_address_list assoc \<noteq> [] \<and> distinct (map (\<lambda>p. s_addr (address p)) (peer_address_list assoc))"

lemma primary_less: "paths_ok assoc \<Longrightarrow> primary assoc < length (peer_address_list assoc)"
  by (auto simp: primary_def find_path_def paths_ok_def split: option.splits dest: find_index_Some)

lemma destination_of_less: "paths_ok assoc \<Longrightarrow> destination_of assoc od < length (peer_address_list assoc)"
  using primary_less by (auto simp: destination_of_def find_path_def split: option.splits dest: find_index_Some)

lemma data_path_less: "paths_ok assoc \<Longrightarrow> data_path assoc < length (peer_address_list assoc)"
  using primary_less by (auto simp: data_path_def Let_def split: option.splits dest: find_index_Some)

abbreviation usable :: "Peer_Path \<Rightarrow> bool" where
  "usable p \<equiv> confirmed p \<and> active p"

lemma next_usable_path_cases:
  "(next_usable_path paths from step n = from \<and> (\<forall>k<n. \<not> usable (paths ! ((from + step + k) mod length paths)))) \<or>
   (\<exists>k<n. next_usable_path paths from step n = (from + step + k) mod length paths \<and>
      usable (paths ! ((from + step + k) mod length paths)) \<and>
      (\<forall>k'<k. \<not> usable (paths ! ((from + step + k') mod length paths))))"
proof (induction n arbitrary: step)
  case (Suc n)
  show ?case
  proof (cases "usable (paths ! ((from + step) mod length paths))")
    case True
    then show ?thesis by (intro disjI2 exI [of _ 0]) (simp add: Let_def)
  next
    case False
    then have step: "next_usable_path paths from step (Suc n) = next_usable_path paths from (step + 1) n"
      by (auto simp: Let_def)
    have shift: "(from + (step + 1) + k) mod length paths = (from + step + Suc k) mod length paths" for k by simp
    have zero: "\<not> usable (paths ! ((from + step + k) mod length paths))"
      if "k = 0 \<or> (\<exists>j<m. k = Suc j)" "\<forall>j<m. \<not> usable (paths ! ((from + step + Suc j) mod length paths))" for k m
      using that False by auto
    from Suc.IH [of "step + 1", unfolded shift] show ?thesis
    proof (elim disjE exE conjE)
      assume a: "next_usable_path paths from (step + 1) n = from"
        "\<forall>k<n. \<not> usable (paths ! ((from + step + Suc k) mod length paths))"
      have "\<not> usable (paths ! ((from + step + k) mod length paths))" if "k < Suc n" for k
        using that by (intro zero [of k n, OF _ a(2)]) (auto simp: less_Suc_eq_0_disj)
      with a(1) step show ?thesis by metis
    next
      fix k assume a: "k < n" "next_usable_path paths from (step + 1) n = (from + step + Suc k) mod length paths"
        "confirmed (paths ! ((from + step + Suc k) mod length paths))"
        "active (paths ! ((from + step + Suc k) mod length paths))"
        "\<forall>k'<k. \<not> usable (paths ! ((from + step + Suc k') mod length paths))"
      have "\<not> usable (paths ! ((from + step + j) mod length paths))" if "j < Suc k" for j
        using that by (intro zero [of j k, OF _ a(5)]) (auto simp: less_Suc_eq_0_disj)
      with a show ?thesis unfolding step by (intro disjI2 exI [of _ "Suc k"]) blast
    qed
  qed
qed simp

lemma other_paths: "i < n \<Longrightarrow> j < n \<Longrightarrow> j \<noteq> i \<Longrightarrow> \<exists>k < n - 1. (i + 1 + k) mod n = j" for i j n :: nat
proof -
  assume a: "i < n" "j < n" "j \<noteq> i"
  show ?thesis
  proof (cases "i < j")
    case True
    then show ?thesis using a by (intro exI [of _ "j - i - 1"]) auto
  next
    case False
    then show ?thesis using a by (intro exI [of _ "j + n - i - 1"]) auto
  qed
qed

lemma mod_step_neq: "i < n \<Longrightarrow> k < n - 1 \<Longrightarrow> (i + 1 + k) mod n \<noteq> i" for i k n :: nat
proof -
  assume a: "i < n" "k < n - 1"
  show ?thesis
  proof (cases "i + 1 + k < n")
    case False
    then have "(i + 1 + k) mod n = i + 1 + k - n" using a by (simp add: mod_if)
    then show ?thesis using a False by simp
  qed simp
qed

subsection \<open>Facts on flight size\<close>

definition in_flight :: "Outstanding_Data \<Rightarrow> bool" where
  "in_flight od \<longleftrightarrow> \<not> gap_acked od \<and> \<not> pending_retransmission od"

lemma bytes_in_flight_sum:
  "bytes_in_flight assoc path =
     sum_list (map (\<lambda>(tsn, od). data_chunk_wire_size (od_data od))
       (filter (\<lambda>(tsn, od). in_flight od \<and> (case path of None \<Rightarrow> True | Some i \<Rightarrow> destination_of assoc od = i))
         (outstanding_data assoc)))"
proof -
  have "foldl (\<lambda>total (tsn, outstanding).
         if \<not> gap_acked outstanding \<and> \<not> pending_retransmission outstanding
            \<and> (case path of None \<Rightarrow> True | Some i \<Rightarrow> destination_of assoc outstanding = i)
         then total + data_chunk_wire_size (od_data outstanding) else total) t m =
     t + sum_list (map (\<lambda>(tsn, od). data_chunk_wire_size (od_data od))
       (filter (\<lambda>(tsn, od). in_flight od \<and> (case path of None \<Rightarrow> True | Some i \<Rightarrow> destination_of assoc od = i)) m))"
    for t m
    by (induction m arbitrary: t) (auto simp: in_flight_def split: if_splits prod.splits)
  from this [of 0] show ?thesis unfolding bytes_in_flight_def by (simp only: add_0)
qed

lemma sum_list_partition:
  fixes size :: "'a \<Rightarrow> nat" and n :: nat
  assumes "\<forall>x \<in> set xs. P x \<longrightarrow> d x < n"
  shows "(\<Sum>i<n. sum_list (map size (filter (\<lambda>x. P x \<and> d x = i) xs))) = sum_list (map size (filter P xs))"
  using assms
proof (induction xs)
  case (Cons x xs)
  have "(\<Sum>i<n. sum_list (map size (filter (\<lambda>y. P y \<and> d y = i) (x # xs)))) =
      (\<Sum>i<n. (if P x \<and> d x = i then size x else 0) + sum_list (map size (filter (\<lambda>y. P y \<and> d y = i) xs)))"
    by (intro sum.cong) auto
  also have "\<dots> = (\<Sum>i<n. if P x \<and> d x = i then size x else 0) + sum_list (map size (filter P xs))"
    using Cons by (simp add: sum.distrib)
  also have "(\<Sum>i<n. if P x \<and> d x = i then size x else 0) = (if P x then size x else 0)"
  proof (cases "P x")
    case True
    then have "d x \<in> {..<n}" using Cons.prems by simp
    then show ?thesis using True sum.delta' [of "{..<n}" "d x" "\<lambda>_. size x"] by simp
  qed simp
  finally show ?case by simp
qed simp

lemma probes_loop_spec:
  "probes_loop ps i path ahead \<longleftrightarrow>
     i \<le> path \<and> path - i < length ps \<and> path_probing (ps ! (path - i)) \<and> ahead = 0 \<and>
     (\<forall>j < path - i. \<not> path_probing (ps ! j))"
proof (induction ps arbitrary: i ahead)
  case (Cons p ps)
  show ?case
  proof (cases "i < path")
    case True
    then obtain d where d: "path - i = Suc d" "path - Suc i = d" by (metis Suc_diff_Suc)
    show ?thesis using True Cons.IH [of "i + 1"] d
      by (auto simp: Let_def less_Suc_eq_0_disj)
  next
    case False
    then show ?thesis by (auto simp: Let_def Cons.IH)
  qed
qed simp

subsection \<open>Properties\<close>

definition example_data_chunk :: "u32 \<Rightarrow> bytes \<Rightarrow> data_chunk_value" where
  "example_data_chunk tsn payload =
     \<lparr>data_tsn = tsn, stream_identifier = 0, stream_seq_num = 0, payload_protocal = 0, user_data = payload,
      data_flags = DATA_FLAG_B OR DATA_FLAG_E\<rparr>"

definition example_association :: Association where
  "example_association =
     (init_new_association \<lparr>s_addr = 1, sin_port = 9\<rparr> 7 100)\<lparr>
       assoc_state := ESTABLISHED,
       peer_address_list :=
         [(make_path \<lparr>s_addr = 1, sin_port = 9\<rparr> True 1200)\<lparr>active := False\<rparr>, make_path \<lparr>s_addr = 2, sin_port = 9\<rparr> True 1200],
       outstanding_data :=
         [(100, \<lparr>od_data = example_data_chunk 100 [1], first_sent = 0, last_sent = 0, retransmitted = False, gap_acked = False,
            missing_reports = 0, fast_retransmitted = False, pending_retransmission = False,
            od_destination = \<lparr>s_addr = 2, sin_port = 9\<rparr>\<rparr>)],
       next_tsn := 101\<rparr>"

lemmas example_association_simps = example_association_def init_new_association_def blank_association_def make_path_def
  paths_ok_def data_path_def primary_def find_path_def same_destination_def retransmission_path_def
  bytes_in_flight_def destination_of_def data_chunk_wire_size_def example_data_chunk_def

text \<open>New DATA goes to a usable path whenever there is one: to the primary while that is active, and otherwise to the
  first active CONFIRMED path of the list; only when no path qualifies does it go to the inactive primary.\<close>

theorem data_path_usable:
  assumes "paths_ok assoc"
  shows "data_path assoc < length (peer_address_list assoc) \<and>
    (active (path_at assoc (primary assoc)) \<longrightarrow> data_path assoc = primary assoc) \<and>
    (\<not> active (path_at assoc (primary assoc)) \<and> (\<exists>p \<in> set (peer_address_list assoc). usable p) \<longrightarrow>
       usable (path_at assoc (data_path assoc)) \<and> (\<forall>j < data_path assoc. \<not> usable (path_at assoc j)))"
  using data_path_less [OF assms]
  by (auto simp: data_path_def Let_def find_index_None split: option.splits dest: find_index_Some)

theorem data_path_usable_witness:
  "paths_ok example_association \<and> data_path example_association = 1 \<and> usable (path_at example_association (data_path example_association))"
proof -
  have ok: "paths_ok example_association" by (simp add: example_association_simps)
  show ?thesis using data_path_usable [OF ok] ok by (simp add: example_association_simps Let_def)
qed

text \<open>Timed-out DATA is retransmitted to another path than the one it was last sent to whenever an active CONFIRMED
  one exists: the data path if DATA was last sent elsewhere, and otherwise the next usable path in list order.\<close>

theorem retransmission_path_alternate:
  assumes "paths_ok assoc" "j < length (peer_address_list assoc)" "usable (path_at assoc j)"
    and "\<not> same_destination (address (path_at assoc j)) dest"
  shows "retransmission_path assoc dest < length (peer_address_list assoc) \<and>
    \<not> same_destination (address (path_at assoc (retransmission_path assoc dest))) dest \<and>
    (same_destination (address (path_at assoc (data_path assoc))) dest \<longrightarrow>
       usable (path_at assoc (retransmission_path assoc dest)))"
proof (cases "same_destination (address (path_at assoc (data_path assoc))) dest")
  case True
  let ?paths = "peer_address_list assoc" and ?i = "data_path assoc"
  let ?n = "length ?paths"
  have i: "?i < ?n" using data_path_less [OF assms(1)] .
  have r: "retransmission_path assoc dest = next_usable_path ?paths ?i 1 (?n - 1)"
    using True by (simp add: retransmission_path_def Let_def)
  have "j \<noteq> ?i" using True assms(4) by auto
  then obtain k0 where "k0 < ?n - 1" "(?i + 1 + k0) mod ?n = j" using other_paths [OF i assms(2)] by blast
  then have "\<not> (\<forall>k<?n - 1. \<not> usable (?paths ! ((?i + 1 + k) mod ?n)))" using assms(3) by auto
  then obtain k where k: "k < ?n - 1" "retransmission_path assoc dest = (?i + 1 + k) mod ?n"
    "usable (?paths ! ((?i + 1 + k) mod ?n))"
    using next_usable_path_cases [of ?paths ?i 1 "?n - 1"] unfolding r by blast
  let ?r = "(?i + 1 + k) mod ?n"
  have "?r \<noteq> ?i" "?r < ?n" using mod_step_neq [OF i k(1)] i by (simp, metis gr_implies_not0 mod_less_divisor neq0_conv)
  then have "s_addr (address (?paths ! ?r)) \<noteq> s_addr (address (?paths ! ?i))"
    using assms(1) i unfolding paths_ok_def distinct_conv_nth by (metis (no_types, lifting) length_map nth_map)
  then show ?thesis using k True \<open>?r < ?n\<close> by (simp add: same_destination_def)
next
  case False
  then show ?thesis using data_path_less [OF assms(1)] by (simp add: retransmission_path_def)
qed

theorem retransmission_path_alternate_witness:
  "retransmission_path example_association \<lparr>s_addr = 1, sin_port = 9\<rparr> = 1"
proof -
  have "paths_ok example_association" "1 < length (peer_address_list example_association)"
    "usable (path_at example_association 1)"
    "\<not> same_destination (address (path_at example_association 1)) \<lparr>s_addr = 1, sin_port = 9\<rparr>"
    by (simp_all add: example_association_simps)
  from retransmission_path_alternate [OF this]
  show ?thesis by (simp add: example_association_simps Let_def less_Suc_eq)
qed

text \<open>The bytes in flight of an association are those of its paths added up: each outstanding chunk counts against
  exactly one path's congestion window.\<close>

theorem flight_size_by_path:
  assumes "paths_ok assoc"
  shows "(\<Sum>i < length (peer_address_list assoc). bytes_in_flight assoc (Some i)) = bytes_in_flight assoc None"
proof -
  have "(\<Sum>i < length (peer_address_list assoc). sum_list (map (\<lambda>(tsn, od). data_chunk_wire_size (od_data od))
      (filter (\<lambda>x. (case x of (tsn, od) \<Rightarrow> in_flight od) \<and> (case x of (tsn, od) \<Rightarrow> destination_of assoc od) = i)
        (outstanding_data assoc)))) =
    sum_list (map (\<lambda>(tsn, od). data_chunk_wire_size (od_data od))
      (filter (\<lambda>x. case x of (tsn, od) \<Rightarrow> in_flight od) (outstanding_data assoc)))"
    by (rule sum_list_partition) (auto intro: destination_of_less [OF assms])
  then show ?thesis by (simp add: bytes_in_flight_sum case_prod_unfold)
qed

theorem flight_size_by_path_witness:
  "(\<Sum>i < 2. bytes_in_flight example_association (Some i)) = 20 \<and> bytes_in_flight example_association None = 20"
proof -
  have ok: "paths_ok example_association" by (simp add: example_association_simps)
  have "bytes_in_flight example_association None = 20" by (simp add: example_association_simps pad4_def)
  moreover have "length (peer_address_list example_association) = 2" by (simp add: example_association_simps)
  ultimately show ?thesis using flight_size_by_path [OF ok] by simp
qed

text \<open>At most one unconfirmed path (HB.Max.Burst) is probed for confirmation at a time: the first active unconfirmed path
  with heartbeats enabled, and there is one whenever such a path exists.\<close>

theorem probes_one_path:
  "probes_for_confirmation assoc i \<longleftrightarrow> find_index path_probing (peer_address_list assoc) = Some i"
proof -
  let ?ps = "peer_address_list assoc"
  have "find_index path_probing ?ps = Some i \<longleftrightarrow>
      i < length ?ps \<and> path_probing (?ps ! i) \<and> (\<forall>j<i. \<not> path_probing (?ps ! j))"
  proof
    assume r: "i < length ?ps \<and> path_probing (?ps ! i) \<and> (\<forall>j<i. \<not> path_probing (?ps ! j))"
    then obtain k where k: "find_index path_probing ?ps = Some k"
      by (cases "find_index path_probing ?ps") (auto simp: find_index_None)
    then have "k = i" using r find_index_Some [OF k] by (metis linorder_neqE_nat)
    then show "find_index path_probing ?ps = Some i" using k by simp
  qed (use find_index_Some in blast)
  then show ?thesis by (auto simp: probes_for_confirmation_def probes_loop_spec)
qed

text \<open>The Heartbeat Info a path sends comes back with its nonce and its destination: an ACK is credited to the path
  that sent the HEARTBEAT.\<close>

theorem heartbeat_info_roundtrip:
  "length (heartbeat_info nonce d) = HEARTBEAT_INFO_SIZE \<and> heartbeat_info_nonce (heartbeat_info nonce d) = Inr nonce \<and>
   heartbeat_info_destination (heartbeat_info nonce d) = Inr d"
proof -
  let ?h = "ucast (drop_bit 32 nonce) :: u32" and ?l = "ucast nonce :: u32"
  have "read_be32 (heartbeat_info nonce d) 0 = Inr ?h"
    using read_be32_be32_bytes [of "[]" ?h] by (simp add: heartbeat_info_def)
  moreover have "read_be32 (heartbeat_info nonce d) 4 = Inr ?l"
    using read_be32_be32_bytes [of "be32_bytes ?h" ?l] by (simp add: heartbeat_info_def)
  moreover have "push_bit 32 (ucast ?h) OR ucast ?l = nonce"
    by (rule bit_word_eqI) (auto simp: bit_simps)
  ultimately show ?thesis
    by (simp add: heartbeat_info_nonce_def heartbeat_info_destination_def heartbeat_info_def be32_bytes_def
        mem32_def mem16_def load32_mem32 load16_mem16)
qed

end
