(* ===== verification/Data_Reception.thy ===== *)
theory Data_Reception
  imports Association
begin

text \<open>
  Reception of DATA, \<open>src/socket_handlers.cpp\<close>: what one packet's DATA chunks do to the association (duplicates, the
  out-of-order buffer, reassembly, ordering within streams, partial delivery), and the SACK that reports it.

  The functions of the source that take the association and a vector of deliveries by reference take and return the pair
  of them. The bytes the receive queue holds for the association are an argument (\<open>buffered\<close>). DATA chunks are well
  typed, as the parser's are.
\<close>

subsection \<open>The receive window\<close>

definition held_bytes :: "Association \<Rightarrow> nat" where
  "held_bytes assoc =
     length (ra_bytes (reassembly assoc))
     + sum_list (map (\<lambda>(tsn, held). length (user_data (held_data held))) (tsn_ooo_buffer assoc))
     + sum_list (map (\<lambda>(i, stream). sum_list (map (\<lambda>(ssn, bs). length bs) (early stream))) (inbound_streams assoc))
     + sum_list (map (\<lambda>delivery. length (dv_bytes delivery)) (held_deliveries assoc))"

definition peer_view_of_window :: "Association \<Rightarrow> u32" where
  "peer_view_of_window assoc =
     (if our_rwnd assoc > received_since_sack assoc then our_rwnd assoc - received_since_sack assoc else 0)"

definition receive_window :: "nat \<Rightarrow> Association \<Rightarrow> u32" where
  "receive_window buffered assoc =
     (let used = buffered + held_bytes assoc in if used \<ge> RWND then 0 else of_nat (RWND - used))"

definition blocked_on_cumulative_tsn :: "Association \<Rightarrow> bool" where
  "blocked_on_cumulative_tsn assoc =
     (list_ex (\<lambda>(tsn, held). assembled held) (tsn_ooo_buffer assoc)
      \<or> list_ex (\<lambda>(i, stream). early stream \<noteq> []) (inbound_streams assoc))"

text \<open>The highest buffered chunk that is not assembled; the result says whether there is room now.\<close>

definition make_room :: "Association \<Rightarrow> u32 \<Rightarrow> nat \<Rightarrow> bool \<times> Association \<times> nat" where
  "make_room assoc tsn used =
     (case find (\<lambda>(k, held). \<not> assembled held) (rev (tsn_ooo_buffer assoc)) of
        None \<Rightarrow> (False, assoc, used)
      | Some (highest, held) \<Rightarrow>
          (if tsn_gt tsn highest then (False, assoc, used)
           else (True, assoc\<lparr>tsn_ooo_buffer := omap_erase tsn_lt highest (tsn_ooo_buffer assoc)\<rparr>,
                 used - length (user_data (held_data held)))))"

subsection \<open>Delivery\<close>

type_synonym reception = "Association \<times> Delivery list"

definition partial_delivery_open :: "Association \<Rightarrow> bool" where
  "partial_delivery_open assoc = (ra_open (reassembly assoc) \<and> partially_delivered (reassembly assoc))"

definition hand_up :: "Delivery \<Rightarrow> reception \<Rightarrow> reception" where
  "hand_up delivery r =
     (case r of (assoc, delivered) \<Rightarrow>
        if partial_delivery_open assoc
        then (assoc\<lparr>held_deliveries := held_deliveries assoc @ [delivery]\<rparr>, delivered)
        else (assoc, delivered @ [delivery]))"

text \<open>\<open>operator[]\<close> of the map of inbound streams, which inserts a default entry, and assignment through it.\<close>

definition new_inbound_stream :: Inbound_Stream where
  "new_inbound_stream = \<lparr>is_next_ssn = 0, early = []\<rparr>"

definition inbound_stream :: "Association \<Rightarrow> u16 \<Rightarrow> Inbound_Stream" where
  "inbound_stream assoc i =
     (case omap_find (<) i (inbound_streams assoc) of Some s \<Rightarrow> s | None \<Rightarrow> new_inbound_stream)"

definition set_inbound_stream :: "u16 \<Rightarrow> Inbound_Stream \<Rightarrow> Association \<Rightarrow> Association" where
  "set_inbound_stream i s assoc =
     assoc\<lparr>inbound_streams := omap_modify (<) i (\<lambda>_. s) (omap_emplace (<) i s (inbound_streams assoc))\<rparr>"

lemma omap_erase_length: "omap_find lt k m = Some v \<Longrightarrow> length (omap_erase lt k m) < length m"
  by (induction m) (auto split: if_splits)

text \<open>The loop that hands up the messages waiting for the SSN that is next.\<close>

function advance_loop :: "u16 \<Rightarrow> Inbound_Stream \<Rightarrow> reception \<Rightarrow> Inbound_Stream \<times> reception" where
  "advance_loop stream_id stream r =
     (case omap_find (<) (is_next_ssn stream) (early stream) of
        None \<Rightarrow> (stream, r)
      | Some bs \<Rightarrow>
          advance_loop stream_id
            (stream\<lparr>early := omap_erase (<) (is_next_ssn stream) (early stream), is_next_ssn := is_next_ssn stream + 1\<rparr>)
            (hand_up \<lparr>dv_bytes = bs, dv_complete = True, dv_stream = stream_id\<rparr> r))"
  by pat_completeness auto
termination
  by (relation "measure (\<lambda>(i, stream, r). length (early stream))") (auto intro: omap_erase_length)

declare advance_loop.simps [simp del]

definition advance_stream :: "u16 \<Rightarrow> reception \<Rightarrow> reception" where
  "advance_stream stream_id r =
     (case r of (assoc, delivered) \<Rightarrow>
        let stream = inbound_stream assoc stream_id
        in case advance_loop stream_id (stream\<lparr>is_next_ssn := is_next_ssn stream + 1\<rparr>) (assoc, delivered) of
             (stream', assoc', delivered') \<Rightarrow> (set_inbound_stream stream_id stream' assoc', delivered'))"

definition order_message :: "u16 \<Rightarrow> u16 \<Rightarrow> bool \<Rightarrow> bytes \<Rightarrow> reception \<Rightarrow> bool \<times> reception" where
  "order_message stream_id ssn unordered bs r =
     (let delivery = \<lparr>dv_bytes = bs, dv_complete = True, dv_stream = stream_id\<rparr> in
      if unordered then (True, hand_up delivery r)
      else
        let stream = inbound_stream (fst r) stream_id in
        if ssn \<noteq> is_next_ssn stream then
          let waits = ssn_gt ssn (is_next_ssn stream) \<and> omap_find (<) ssn (early stream) = None;
              stream' = (if ssn_gt ssn (is_next_ssn stream) then stream\<lparr>early := omap_emplace (<) ssn bs (early stream)\<rparr>
                         else stream)
          in (waits, set_inbound_stream stream_id stream' (fst r), snd r)
        else (True, advance_stream stream_id (hand_up delivery r)))"

subsection \<open>Reassembly\<close>

definition has_flag :: "data_chunk_value \<Rightarrow> u8 \<Rightarrow> bool" where
  "has_flag d flag = (data_flags d AND flag \<noteq> 0)"

definition reassemble :: "data_chunk_value \<Rightarrow> bool \<Rightarrow> reception \<Rightarrow> bool \<times> reception" where
  "reassemble d keep_bytes r =
     (case r of (assoc, delivered) \<Rightarrow>
        let message = reassembly assoc;
            begins = has_flag d DATA_FLAG_B;
            ends = has_flag d DATA_FLAG_E;
            unordered = has_flag d DATA_FLAG_U
        in if begins = ra_open message then (False, assoc, delivered)
           else if \<not> begins \<and> (stream_identifier d \<noteq> ra_stream message \<or> unordered \<noteq> ra_unordered message
                               \<or> (\<not> unordered \<and> stream_seq_num d \<noteq> ra_ssn message))
           then (False, assoc, delivered)
           else
             let message1 = (if begins
                   then \<lparr>ra_open = True, partially_delivered = False, ra_unordered = unordered,
                         ra_stream = stream_identifier d, ra_ssn = stream_seq_num d, ra_bytes = []\<rparr>
                   else message)\<lparr>ra_open := \<not> ends\<rparr>
             in if \<not> keep_bytes then (True, assoc\<lparr>reassembly := message1\<rparr>, delivered)
                else
                  let message2 = message1\<lparr>ra_bytes := ra_bytes message1 @ user_data d\<rparr>;
                      assoc2 = assoc\<lparr>reassembly := message2\<lparr>ra_bytes := []\<rparr>\<rparr>
                  in if partially_delivered message2 then
                       let delivered' = delivered @ [\<lparr>dv_bytes = ra_bytes message2, dv_complete = ends,
                                                      dv_stream = ra_stream message2\<rparr>]
                       in if ends then (True, assoc2\<lparr>held_deliveries := []\<rparr>, delivered' @ held_deliveries assoc2)
                          else (True, assoc2, delivered')
                     else if \<not> ends then (True, assoc\<lparr>reassembly := message2\<rparr>, delivered)
                     else order_message (ra_stream message2) (ra_ssn message2) (ra_unordered message2)
                            (ra_bytes message2) (assoc2, delivered))"

text \<open>
  A message that lies wholly above the Cumulative TSN Ack. The two walks go from chunk to chunk of the buffer; each is given
  as many steps as the buffer has entries, and \<open>Exhausted\<close> stands for running out of them, which
  \<open>walks_end\<close> below excludes.
\<close>

datatype walk = Found u32 | Incomplete | Exhausted

definition usable_chunk :: "Association \<Rightarrow> u32 \<Rightarrow> data_chunk_value option" where
  "usable_chunk assoc at =
     (case omap_find tsn_lt at (tsn_ooo_buffer assoc) of
        None \<Rightarrow> None
      | Some held \<Rightarrow> (if assembled held \<or> user_data (held_data held) = [] then None else Some (held_data held)))"

definition continues_message :: "data_chunk_value \<Rightarrow> u8 \<Rightarrow> data_chunk_value option \<Rightarrow> bool" where
  "continues_message arrived foreign_edge chunk =
     (case chunk of
        None \<Rightarrow> False
      | Some c \<Rightarrow>
          \<not> has_flag c foreign_edge \<and> stream_identifier c = stream_identifier arrived
          \<and> has_flag c DATA_FLAG_U = has_flag arrived DATA_FLAG_U
          \<and> (has_flag arrived DATA_FLAG_U \<or> stream_seq_num c = stream_seq_num arrived))"

fun walk_chunks :: "Association \<Rightarrow> data_chunk_value \<Rightarrow> u32 \<Rightarrow> u8 \<Rightarrow> u8 \<Rightarrow> nat \<Rightarrow> u32 \<Rightarrow> walk" where
  "walk_chunks assoc arrived step stop foreign_edge 0 at = Exhausted"
| "walk_chunks assoc arrived step stop foreign_edge (Suc n) at =
     (if (case usable_chunk assoc at of None \<Rightarrow> False | Some c \<Rightarrow> has_flag c stop) then Found at
      else if \<not> continues_message arrived foreign_edge (usable_chunk assoc (at + step)) then Incomplete
      else walk_chunks assoc arrived step stop foreign_edge n (at + step))"

text \<open>The loop that takes the bytes of the chunks from \<open>at\<close> on, \<open>n\<close> of them, out of the buffer.\<close>

definition take_bytes :: "Held_Chunk \<Rightarrow> Held_Chunk" where
  "take_bytes held = held\<lparr>held_data := (held_data held)\<lparr>user_data := []\<rparr>, assembled := True\<rparr>"

fun take_run :: "nat \<Rightarrow> u32 \<Rightarrow> (u32, Held_Chunk) omap \<Rightarrow> bytes \<times> (u32, Held_Chunk) omap" where
  "take_run 0 at buffer = ([], buffer)"
| "take_run (Suc n) at buffer =
     (case take_run n (at + 1) (omap_modify tsn_lt at take_bytes buffer) of
        (rest, buffer') \<Rightarrow>
          ((case omap_find tsn_lt at buffer of Some held \<Rightarrow> user_data (held_data held) | None \<Rightarrow> []) @ rest, buffer'))"

definition assemble_early :: "u32 \<Rightarrow> reception \<Rightarrow> bool \<times> reception" where
  "assemble_early tsn r =
     (case r of (assoc, delivered) \<Rightarrow>
        case usable_chunk assoc tsn of
          None \<Rightarrow> (True, assoc, delivered)
        | Some arrived \<Rightarrow>
            let n = length (tsn_ooo_buffer assoc) in
            (case (walk_chunks assoc arrived (- 1) DATA_FLAG_B DATA_FLAG_E n tsn,
                   walk_chunks assoc arrived 1 DATA_FLAG_E DATA_FLAG_B n tsn) of
               (Found first, Found final) \<Rightarrow>
                 (case take_run (unat (final - first) + 1) first (tsn_ooo_buffer assoc) of
                    (bs, buffer) \<Rightarrow>
                      order_message (stream_identifier arrived) (stream_seq_num arrived) (has_flag arrived DATA_FLAG_U) bs
                        (assoc\<lparr>tsn_ooo_buffer := buffer\<rparr>, delivered))
             | _ \<Rightarrow> (True, assoc, delivered)))"

subsection \<open>The fields reception leaves alone\<close>

text \<open>Ordering and reassembly touch the streams, the held deliveries and the reassembly only.\<close>

definition same_tsns :: "Association \<Rightarrow> Association \<Rightarrow> bool" where
  "same_tsns a b \<longleftrightarrow> tsn_ooo_buffer a = tsn_ooo_buffer b \<and> last_peer_tsn a = last_peer_tsn b
     \<and> in_streams a = in_streams b"

lemma same_tsns_refl [simp]: "same_tsns a a"
  by (simp add: same_tsns_def)

lemma same_tsns_trans: "same_tsns a b \<Longrightarrow> same_tsns b c \<Longrightarrow> same_tsns a c"
  by (simp add: same_tsns_def)

lemma hand_up_same [simp]: "same_tsns (fst (hand_up d r)) (fst r)"
  by (simp add: hand_up_def same_tsns_def split: prod.splits)

lemma set_inbound_stream_same [simp]: "same_tsns (set_inbound_stream i s a) b \<longleftrightarrow> same_tsns a b"
  by (simp add: set_inbound_stream_def same_tsns_def)

lemma advance_loop_same: "same_tsns (fst (snd (advance_loop i s r))) (fst r)"
proof (induction i s r rule: advance_loop.induct)
  case (1 i s r)
  then show ?case
    by (subst advance_loop.simps) (auto split: option.splits intro: same_tsns_trans [OF _ hand_up_same])
qed

lemma advance_stream_same [simp]: "same_tsns (fst (advance_stream i r)) (fst r)"
proof -
  obtain a d where r: "r = (a, d)" by force
  obtain s' a' d' where "advance_loop i ((inbound_stream a i)\<lparr>is_next_ssn := is_next_ssn (inbound_stream a i) + 1\<rparr>) (a, d) = (s', a', d')"
    by (metis prod_cases3)
  then show ?thesis
    using advance_loop_same [of i "(inbound_stream a i)\<lparr>is_next_ssn := is_next_ssn (inbound_stream a i) + 1\<rparr>" "(a, d)"]
    by (simp add: advance_stream_def Let_def r)
qed

lemma order_message_same [simp]: "same_tsns (fst (snd (order_message i n u bs r))) (fst r)"
  by (auto simp: order_message_def Let_def intro: same_tsns_trans [OF advance_stream_same hand_up_same])

lemma reassemble_same [simp]: "same_tsns (fst (snd (reassemble d keep r))) (fst r)"
proof -
  obtain a l where r: "r = (a, l)" by force
  have "same_tsns (fst (snd (order_message i n u bs (a\<lparr>reassembly := m\<rparr>, l)))) a" for i n u bs m
    using order_message_same [of i n u bs "(a\<lparr>reassembly := m\<rparr>, l)"] by (simp add: same_tsns_def)
  then show ?thesis by (simp add: r reassemble_def Let_def same_tsns_def)
qed

lemma reassemble_buffer [simp]:
  "tsn_ooo_buffer (fst (snd (reassemble d keep r))) = tsn_ooo_buffer (fst r)"
  "last_peer_tsn (fst (snd (reassemble d keep r))) = last_peer_tsn (fst r)"
  "in_streams (fst (snd (reassemble d keep r))) = in_streams (fst r)"
  using reassemble_same [of d keep r] by (simp_all add: same_tsns_def)

subsection \<open>The out-of-order buffer\<close>

text \<open>The loop takes the chunk at \<open>tsn\<close> and erases it; a chunk that cannot be reassembled stops it, and the
  Cumulative TSN Ack is not moved.\<close>

function read_ooo_loop :: "u32 \<Rightarrow> reception \<Rightarrow> bool \<times> u32 \<times> reception" where
  "read_ooo_loop tsn r =
     (case omap_find tsn_lt tsn (tsn_ooo_buffer (fst r)) of
        None \<Rightarrow> (True, tsn, r)
      | Some held \<Rightarrow>
          (case reassemble (held_data held) (\<not> assembled held \<and> user_data (held_data held) \<noteq> []) r of
             (ok, assoc', delivered') \<Rightarrow>
               if \<not> ok then (False, tsn, assoc', delivered')
               else read_ooo_loop (tsn + 1)
                      (assoc'\<lparr>tsn_ooo_buffer := omap_erase tsn_lt tsn (tsn_ooo_buffer assoc')\<rparr>, delivered')))"
  by pat_completeness auto
termination
proof (relation "measure (\<lambda>(tsn, r). length (tsn_ooo_buffer (fst r)))", goal_cases)
  case (2 tsn r held ok rest assoc' delivered')
  then have "tsn_ooo_buffer assoc' = tsn_ooo_buffer (fst r)"
    using reassemble_buffer(1) [of "held_data held" "\<not> assembled held \<and> user_data (held_data held) \<noteq> []" r]
    by (metis fst_conv snd_conv)
  with 2 show ?case by (simp add: omap_erase_length)
qed simp

declare read_ooo_loop.simps [simp del]

definition read_ooo_buffer :: "reception \<Rightarrow> bool \<times> reception" where
  "read_ooo_buffer r =
     (case read_ooo_loop (last_peer_tsn (fst r) + 1) r of
        (ok, tsn, assoc, delivered) \<Rightarrow>
          if \<not> ok then (False, assoc, delivered) else (True, assoc\<lparr>last_peer_tsn := tsn - 1\<rparr>, delivered))"

subsection \<open>The DATA chunks of a packet\<close>

abbreviation (input) DATA_IMMEDIATE_SACK_FLAG :: u8 where "DATA_IMMEDIATE_SACK_FLAG \<equiv> 8"

text \<open>The local variables of \<open>handle_data_packet\<close> next to the association.\<close>

record Reception =
  rx_assoc :: Association
  rx_delivered :: "Delivery list"
  rx_used :: nat
  rx_have_data :: bool
  rx_send_immediately :: bool
  rx_invalid_streams :: "error_cause list"
  rx_saw_duplicate :: bool
  rx_dropped :: bool
  rx_violation :: bool

text \<open>The chunk that is next in TSN order, and those buffered behind it.\<close>

definition take_next :: "data_chunk_value \<Rightarrow> bool \<Rightarrow> reception \<Rightarrow> bool \<times> reception" where
  "take_next d keep_bytes r =
     (case reassemble d keep_bytes r of (ok, r') \<Rightarrow> if ok then read_ooo_buffer r' else (False, r'))"

definition room_for :: "Association \<Rightarrow> u32 \<Rightarrow> nat \<Rightarrow> bool \<times> Association \<times> nat" where
  "room_for assoc tsn used = (if used \<ge> RWND then make_room assoc tsn used else (True, assoc, used))"

definition accept_chunk :: "data_chunk_value \<Rightarrow> bool \<Rightarrow> Reception \<Rightarrow> Reception" where
  "accept_chunk d valid_stream rx0 =
     (let rx = (if valid_stream then rx0\<lparr>rx_used := rx_used rx0 + length (user_data d)\<rparr>
                else rx0\<lparr>rx_invalid_streams := rx_invalid_streams rx0 @ [invalid_stream_cause (stream_identifier d)]\<rparr>);
          assoc = rx_assoc rx;
          tsn = data_tsn d
      in if tsn = last_peer_tsn assoc + 1 then
           (case take_next d valid_stream (assoc\<lparr>last_peer_tsn := tsn\<rparr>, rx_delivered rx) of
              (ok, assoc', delivered') \<Rightarrow>
                rx\<lparr>rx_assoc := assoc', rx_delivered := delivered', rx_violation := \<not> ok\<rparr>)
         else
           let inserted = omap_emplace tsn_lt tsn \<lparr>held_data = d, assembled = False\<rparr> (tsn_ooo_buffer assoc)
           in if \<not> valid_stream
              then rx\<lparr>rx_assoc := assoc\<lparr>tsn_ooo_buffer :=
                     omap_modify tsn_lt tsn (\<lambda>held. held\<lparr>held_data := (held_data held)\<lparr>user_data := []\<rparr>\<rparr>) inserted\<rparr>\<rparr>
              else case assemble_early tsn (assoc\<lparr>tsn_ooo_buffer := inserted\<rparr>, rx_delivered rx) of
                     (ok, assoc', delivered') \<Rightarrow>
                       rx\<lparr>rx_assoc := assoc', rx_delivered := delivered', rx_violation := \<not> ok\<rparr>)"

definition receive_chunk :: "u8 \<Rightarrow> data_chunk_value \<Rightarrow> Reception \<Rightarrow> Reception" where
  "receive_chunk flag d rx0 =
     (let assoc = (rx_assoc rx0)\<lparr>received_since_sack :=
                    received_since_sack (rx_assoc rx0) + of_nat (length (user_data d))\<rparr>;
          rx = rx0\<lparr>rx_have_data := True,
                   rx_send_immediately := rx_send_immediately rx0 \<or> flag AND DATA_IMMEDIATE_SACK_FLAG \<noteq> 0,
                   rx_assoc := assoc\<rparr>;
          tsn = data_tsn d;
          valid_stream = stream_identifier d < in_streams assoc
      in if tsn_lte tsn (last_peer_tsn assoc) \<or> omap_find tsn_lt tsn (tsn_ooo_buffer assoc) \<noteq> None
         then rx\<lparr>rx_assoc := assoc\<lparr>duplicate_tsns := duplicate_tsns assoc @ [tsn]\<rparr>, rx_saw_duplicate := True\<rparr>
         else if unat (tsn - last_peer_tsn assoc) > UINT16_MAX then rx\<lparr>rx_dropped := True\<rparr>
         else
           case room_for assoc tsn (rx_used rx) of
             (room, assoc', used') \<Rightarrow>
               if \<not> room \<and> \<not> (tsn = last_peer_tsn assoc' + 1 \<and> blocked_on_cumulative_tsn assoc')
               then rx\<lparr>rx_dropped := True\<rparr>
               else accept_chunk d valid_stream (rx\<lparr>rx_assoc := assoc', rx_used := used'\<rparr>))"

fun receive_chunks :: "SCTP_Chunk list \<Rightarrow> Reception \<Rightarrow> Reception" where
  "receive_chunks [] rx = rx"
| "receive_chunks (chunk # chunks) rx =
     (if chunk_type chunk \<noteq> DATA then receive_chunks chunks rx
      else case chunk_value chunk of
             Data_Value d \<Rightarrow>
               (let rx' = receive_chunk (ch_flag (chunk_header chunk)) d rx
                in if rx_violation rx' then rx' else receive_chunks chunks rx')
           | _ \<Rightarrow> receive_chunks chunks rx)"

text \<open>Partial delivery once the window cannot take another full-size chunk.\<close>

definition deliver_partially :: "Reception \<Rightarrow> Reception" where
  "deliver_partially rx =
     (let assoc = rx_assoc rx; message = reassembly assoc
      in if ra_open message \<and> ra_bytes message \<noteq> [] \<and> rx_used rx + unat (pmdcs assoc) > RWND then
           let stream = inbound_stream assoc (ra_stream message);
               assoc1 = (if ra_unordered message then assoc else set_inbound_stream (ra_stream message) stream assoc)
           in if ra_unordered message \<or> ra_ssn message = is_next_ssn stream then
                let delivered = rx_delivered rx @
                      [\<lparr>dv_bytes = ra_bytes message, dv_complete = False, dv_stream = ra_stream message\<rparr>];
                    assoc2 = assoc1\<lparr>reassembly := message\<lparr>ra_bytes := [], partially_delivered := True\<rparr>\<rparr>
                in case (if ra_unordered message then (assoc2, delivered)
                         else advance_stream (ra_stream message) (assoc2, delivered)) of
                     (assoc3, delivered') \<Rightarrow> rx\<lparr>rx_assoc := assoc3, rx_delivered := delivered'\<rparr>
              else rx\<lparr>rx_assoc := assoc1\<rparr>
         else rx)"

definition start_reception :: "bool \<Rightarrow> nat \<Rightarrow> Association \<Rightarrow> Reception" where
  "start_reception acknowledge_immediately buffered assoc =
     \<lparr>rx_assoc = assoc, rx_delivered = [], rx_used = buffered + held_bytes assoc, rx_have_data = False,
      rx_send_immediately = acknowledge_immediately, rx_invalid_streams = [], rx_saw_duplicate = False,
      rx_dropped = False, rx_violation = False\<rparr>"

subsection \<open>The SACK\<close>

definition extend_gaps :: "sack_gap_ack_block list \<Rightarrow> u16 \<Rightarrow> sack_gap_ack_block list" where
  "extend_gaps gaps offset =
     (if gaps = [] \<or> unat (gap_end (last gaps)) + 1 \<noteq> unat offset
      then gaps @ [\<lparr>gap_start = offset, gap_end = offset\<rparr>]
      else butlast gaps @ [(last gaps)\<lparr>gap_end := offset\<rparr>])"

definition gap_blocks :: "Association \<Rightarrow> sack_gap_ack_block list" where
  "gap_blocks assoc =
     foldl (\<lambda>gaps (tsn, held). extend_gaps gaps (ucast (tsn - last_peer_tsn assoc))) [] (tsn_ooo_buffer assoc)"

definition make_sack :: "u16 \<Rightarrow> Association_Key \<Rightarrow> nat \<Rightarrow> Association \<Rightarrow> SCTP_Packet \<times> Association" where
  "make_sack local_port key buffered assoc =
     (let window = receive_window buffered assoc;
          believed = peer_view_of_window assoc;
          advertised = (if window > believed \<and> window - believed < min (of_nat (RWND div 2)) (pmdcs assoc)
                        then believed else window)
      in (build_sack (ntohs local_port) (ntohs (sin_port key)) (peer_ver_tag assoc) (last_peer_tsn assoc) advertised
            (gap_blocks assoc) (duplicate_tsns assoc),
          assoc\<lparr>our_rwnd := advertised, received_since_sack := 0, duplicate_tsns := [], delayed_sack_packet_count := 0\<rparr>))"

subsection \<open>The invariant of the out-of-order buffer\<close>

text \<open>The buffer is sorted and holds TSNs above \<open>c\<close>, none farther than a Gap Ack Block can report.\<close>

definition ooo_at :: "u32 \<Rightarrow> (u32, Held_Chunk) omap \<Rightarrow> bool" where
  "ooo_at c buffer \<longleftrightarrow>
     omap_sorted tsn_lt buffer \<and> (\<forall>k \<in> set (omap_keys buffer). 1 \<le> unat (k - c) \<and> unat (k - c) \<le> UINT16_MAX)"

text \<open>Moreover the TSN next to the Cumulative TSN Ack is not in it.\<close>

definition ooo_ok :: "Association \<Rightarrow> bool" where
  "ooo_ok assoc \<longleftrightarrow>
     ooo_at (last_peer_tsn assoc) (tsn_ooo_buffer assoc)
     \<and> last_peer_tsn assoc + 1 \<notin> set (omap_keys (tsn_ooo_buffer assoc))"

lemma small_window: "unat (k - c) \<le> UINT16_MAX \<Longrightarrow> tsn_window c k"
  unfolding tsn_window_def by (erule order_le_less_trans) simp

lemma ooo_at_window: "ooo_at c buffer \<Longrightarrow> omap_ok tsn_lt {k. tsn_window c k} buffer"
  by (fastforce simp: ooo_at_def omap_ok_def tsn_window_def)

lemma ooo_at_find:
  assumes "ooo_at c buffer" "tsn_window c k"
  shows "omap_find tsn_lt k buffer = map_of buffer k"
  using tsn_map.find_map_of [OF ooo_at_window [OF assms(1)]] assms(2) by simp

lemma unat_next: "unat (k - (c + 1)) = unat (k - c :: u32) - 1" if "1 \<le> unat (k - c)"
proof -
  have "1 \<le> k - c" using that by (simp add: word_le_nat_alt)
  then have "unat (k - c - 1) = unat (k - c) - 1" by (simp add: unat_sub)
  then show ?thesis by (simp add: diff_diff_eq)
qed

lemma unat_next_eq_1: "unat (k - c :: u32) = 1 \<longleftrightarrow> k = c + 1"
proof
  assume "unat (k - c) = 1"
  then have "k - c = 1" by (simp add: word_unat_eq_iff)
  then show "k = c + 1" by (metis add.commute diff_add_cancel)
qed simp

lemma ooo_at_next:
  assumes "ooo_at c buffer" "c + 1 \<notin> set (omap_keys buffer)"
  shows "ooo_at (c + 1) buffer"
  unfolding ooo_at_def
proof (intro conjI ballI)
  fix k assume k: "k \<in> set (omap_keys buffer)"
  then have b: "1 \<le> unat (k - c)" "unat (k - c) \<le> UINT16_MAX" using assms(1) by (auto simp: ooo_at_def)
  have "unat (k - c) \<noteq> 1" using k assms(2) unat_next_eq_1 [of k c] by auto
  with b show "1 \<le> unat (k - (c + 1))" "unat (k - (c + 1)) \<le> UINT16_MAX" using unat_next [OF b(1)] by simp_all
qed (use assms in \<open>simp add: ooo_at_def\<close>)

lemma ooo_at_subset:
  "ooo_at c buffer \<Longrightarrow> omap_sorted tsn_lt m \<Longrightarrow> set (omap_keys m) \<subseteq> set (omap_keys buffer) \<Longrightarrow> ooo_at c m"
  by (auto simp: ooo_at_def)

lemma ooo_at_erase:
  assumes "ooo_at c buffer" "tsn_window c k"
  shows "ooo_at c (omap_erase tsn_lt k buffer) \<and>
    set (omap_keys (omap_erase tsn_lt k buffer)) = set (omap_keys buffer) - {k}"
proof -
  note ok = ooo_at_window [OF assms(1)]
  have f: "omap_erase tsn_lt k buffer = filter (\<lambda>e. fst e \<noteq> k) buffer"
    using tsn_map.erase_eq_filter [OF ok] assms(2) by simp
  have "omap_sorted tsn_lt (omap_erase tsn_lt k buffer)"
    using tsn_map.ok_erase [OF ok, of k] assms(2) by (simp add: omap_ok_def)
  moreover have "set (omap_keys (omap_erase tsn_lt k buffer)) = set (omap_keys buffer) - {k}"
    by (auto simp: f omap_keys_def)
  ultimately show ?thesis using ooo_at_subset [OF assms(1)] by blast
qed

lemma ooo_at_emplace:
  assumes "ooo_at c buffer" "1 \<le> unat (k - c)" "unat (k - c) \<le> UINT16_MAX" "k \<notin> set (omap_keys buffer)"
  shows "ooo_at c (omap_emplace tsn_lt k v buffer) \<and>
    set (omap_emplace tsn_lt k v buffer) = insert (k, v) (set buffer)"
proof -
  note ok = ooo_at_window [OF assms(1)]
  have w: "k \<in> {k. tsn_window c k}" using small_window [OF assms(3)] by simp
  have s: "set (omap_emplace tsn_lt k v buffer) = insert (k, v) (set buffer)"
    using tsn_map.set_emplace [OF ok w] assms(4) by (simp add: omap_keys_def)
  moreover have "omap_sorted tsn_lt (omap_emplace tsn_lt k v buffer)"
    using tsn_map.ok_emplace [OF ok w] by (simp add: omap_ok_def)
  moreover have "set (omap_keys (omap_emplace tsn_lt k v buffer)) = insert k (set (omap_keys buffer))"
    by (simp add: omap_keys_def s)
  ultimately show ?thesis using assms by (auto simp: ooo_at_def)
qed

lemma omap_modify_keys [simp]: "omap_keys (omap_modify lt k f m) = omap_keys m"
  by (induction m) (auto simp: omap_keys_def)

lemma ooo_at_keys: "omap_keys m = omap_keys m' \<Longrightarrow> ooo_at c m \<longleftrightarrow> ooo_at c m'"
  by (simp add: ooo_at_def omap_sorted_def)

lemma take_run_keys: "omap_keys (snd (take_run n at m)) = omap_keys m"
proof (induction n arbitrary: at m)
  case (Suc n)
  show ?case
    using Suc.IH [of "at + 1" "omap_modify tsn_lt at take_bytes m"]
    by (cases "take_run n (at + 1) (omap_modify tsn_lt at take_bytes m)") simp
qed simp

lemma ooo_ok_keys:
  assumes "ooo_ok a" "omap_keys (tsn_ooo_buffer b) = omap_keys (tsn_ooo_buffer a)" "last_peer_tsn b = last_peer_tsn a"
  shows "ooo_ok b"
  using assms ooo_at_keys [OF assms(2)] by (simp add: ooo_ok_def)

lemma assemble_early_keys:
  assumes "assemble_early tsn r = (ok, r')"
  shows "omap_keys (tsn_ooo_buffer (fst r')) = omap_keys (tsn_ooo_buffer (fst r)) \<and>
    last_peer_tsn (fst r') = last_peer_tsn (fst r) \<and> in_streams (fst r') = in_streams (fst r)"
proof -
  obtain a d where r: "r = (a, d)" by force
  have o: "omap_keys (tsn_ooo_buffer (fst q)) = omap_keys m \<and> last_peer_tsn (fst q) = last_peer_tsn a \<and>
      in_streams (fst q) = in_streams a"
    if "order_message i n u bs (a\<lparr>tsn_ooo_buffer := m\<rparr>, d) = (ok, q)" for i n u bs m q
    using order_message_same [of i n u bs "(a\<lparr>tsn_ooo_buffer := m\<rparr>, d)"] that by (simp add: same_tsns_def)
  have t: "omap_keys m = omap_keys (tsn_ooo_buffer a)" if "take_run n k (tsn_ooo_buffer a) = (bs, m)" for n k bs m
    using take_run_keys [of n k "tsn_ooo_buffer a"] that by simp
  show ?thesis
    using assms unfolding r assemble_early_def Let_def
    by (auto simp del: take_run.simps split: option.splits walk.splits prod.splits dest!: o t)
qed

lemma make_room_ok:
  assumes "ooo_ok assoc"
  shows "ooo_ok (fst (snd (make_room assoc tsn used))) \<and>
    last_peer_tsn (fst (snd (make_room assoc tsn used))) = last_peer_tsn assoc \<and>
    in_streams (fst (snd (make_room assoc tsn used))) = in_streams assoc \<and>
    set (omap_keys (tsn_ooo_buffer (fst (snd (make_room assoc tsn used))))) \<subseteq> set (omap_keys (tsn_ooo_buffer assoc))"
proof (cases "find (\<lambda>(k, held). \<not> assembled held) (rev (tsn_ooo_buffer assoc))")
  case (Some e)
  obtain k held where e: "e = (k, held)" by force
  obtain i where "i < length (rev (tsn_ooo_buffer assoc))" "rev (tsn_ooo_buffer assoc) ! i = e"
    using Some by (auto simp: find_Some_iff)
  then have "e \<in> set (rev (tsn_ooo_buffer assoc))" using nth_mem by blast
  then have "k \<in> set (omap_keys (tsn_ooo_buffer assoc))" by (force simp: e omap_keys_def)
  then have "unat (k - last_peer_tsn assoc) \<le> UINT16_MAX" using assms(1) unfolding ooo_ok_def ooo_at_def by blast
  then have "tsn_window (last_peer_tsn assoc) k" by (rule small_window)
  then have er: "ooo_at (last_peer_tsn assoc) (omap_erase tsn_lt k (tsn_ooo_buffer assoc))"
    "set (omap_keys (omap_erase tsn_lt k (tsn_ooo_buffer assoc))) = set (omap_keys (tsn_ooo_buffer assoc)) - {k}"
    using ooo_at_erase [of "last_peer_tsn assoc" "tsn_ooo_buffer assoc" k] assms(1) by (simp_all add: ooo_ok_def)
  have "fst (snd (make_room assoc tsn used)) = (if tsn_gt tsn k then assoc
      else assoc\<lparr>tsn_ooo_buffer := omap_erase tsn_lt k (tsn_ooo_buffer assoc)\<rparr>)"
    unfolding make_room_def by (simp add: Some e)
  with assms(1) er show ?thesis by (simp add: ooo_ok_def Diff_subset)
qed (use assms in \<open>simp add: make_room_def\<close>)

lemma read_ooo_loop_ok:
  "ooo_at (tsn - 1) (tsn_ooo_buffer (fst r)) \<Longrightarrow> read_ooo_loop tsn r = (True, tsn', r') \<Longrightarrow>
   ooo_at (tsn' - 1) (tsn_ooo_buffer (fst r')) \<and> tsn' \<notin> set (omap_keys (tsn_ooo_buffer (fst r'))) \<and>
   set (omap_keys (tsn_ooo_buffer (fst r'))) \<subseteq> set (omap_keys (tsn_ooo_buffer (fst r))) \<and>
   in_streams (fst r') = in_streams (fst r)"
proof (induction tsn r arbitrary: tsn' r' rule: read_ooo_loop.induct)
  case (1 tsn r)
  let ?b = "tsn_ooo_buffer (fst r)"
  have w: "tsn_window (tsn - 1) tsn" using small_window [of tsn "tsn - 1"] by simp
  show ?case
  proof (cases "omap_find tsn_lt tsn ?b")
    case None
    then have "map_of ?b tsn = None" using ooo_at_find [OF 1(2) w] by simp
    then have "tsn \<notin> set (omap_keys ?b)" by (simp add: map_of_eq_None_iff omap_keys_def)
    with None 1(2,3) show ?thesis by (simp add: read_ooo_loop.simps [of tsn r])
  next
    case (Some held)
    let ?keep = "\<not> assembled held \<and> user_data (held_data held) \<noteq> []"
    obtain ok a d where re: "reassemble (held_data held) ?keep r = (ok, a, d)" by (metis prod_cases3)
    have ok: "ok" using 1(3) Some re by (auto simp: read_ooo_loop.simps [of tsn r] split: if_splits)
    have b: "tsn_ooo_buffer a = ?b" "in_streams a = in_streams (fst r)"
      using reassemble_buffer [of "held_data held" ?keep r] re by simp_all
    let ?b' = "omap_erase tsn_lt tsn ?b"
    have e: "ooo_at (tsn - 1) ?b'" "set (omap_keys ?b') = set (omap_keys ?b) - {tsn}"
      using ooo_at_erase [OF 1(2) w] by simp_all
    have at: "ooo_at (tsn + 1 - 1) ?b'" using ooo_at_next [OF e(1)] e(2) by simp
    have "read_ooo_loop (tsn + 1) (a\<lparr>tsn_ooo_buffer := ?b'\<rparr>, d) = (True, tsn', r')"
      using 1(3) Some re ok b by (simp add: read_ooo_loop.simps [of tsn r])
    with 1(1) [OF Some re [symmetric] refl, of tsn' r'] ok b at e(2) show ?thesis by (simp add: subset_Diff_insert)
  qed
qed

lemma read_ooo_buffer_ok:
  assumes "ooo_at (last_peer_tsn (fst r)) (tsn_ooo_buffer (fst r))" "read_ooo_buffer r = (True, r')"
  shows "ooo_ok (fst r') \<and> in_streams (fst r') = in_streams (fst r) \<and>
    set (omap_keys (tsn_ooo_buffer (fst r'))) \<subseteq> set (omap_keys (tsn_ooo_buffer (fst r)))"
proof -
  obtain ok tsn a d where l: "read_ooo_loop (last_peer_tsn (fst r) + 1) r = (ok, tsn, a, d)" by (metis prod_cases4)
  with assms(2) have "ok" "r' = (a\<lparr>last_peer_tsn := tsn - 1\<rparr>, d)" by (auto simp: read_ooo_buffer_def split: if_splits)
  with read_ooo_loop_ok [of "last_peer_tsn (fst r) + 1" r tsn "(a, d)"] assms(1) l show ?thesis
    by (simp add: ooo_ok_def)
qed

lemma take_next_ok:
  assumes "ooo_at (last_peer_tsn (fst r)) (tsn_ooo_buffer (fst r))" "take_next d keep r = (True, r')"
  shows "ooo_ok (fst r') \<and> in_streams (fst r') = in_streams (fst r)"
proof -
  obtain ok r1 where re: "reassemble d keep r = (ok, r1)" by (metis surj_pair)
  then have same: "tsn_ooo_buffer (fst r1) = tsn_ooo_buffer (fst r)" "last_peer_tsn (fst r1) = last_peer_tsn (fst r)"
    "in_streams (fst r1) = in_streams (fst r)"
    using reassemble_buffer [of d keep r] by simp_all
  have "read_ooo_buffer r1 = (True, r')" using assms(2) re by (simp add: take_next_def split: if_splits)
  from read_ooo_buffer_ok [OF _ this] same assms(1) show ?thesis by simp
qed

lemma accept_chunk_ok:
  assumes "ooo_ok (rx_assoc rx)" "\<not> rx_violation (accept_chunk d valid rx)"
    and "1 \<le> unat (data_tsn d - last_peer_tsn (rx_assoc rx))" "unat (data_tsn d - last_peer_tsn (rx_assoc rx)) \<le> UINT16_MAX"
    and "data_tsn d \<notin> set (omap_keys (tsn_ooo_buffer (rx_assoc rx)))"
  shows "ooo_ok (rx_assoc (accept_chunk d valid rx)) \<and>
    in_streams (rx_assoc (accept_chunk d valid rx)) = in_streams (rx_assoc rx)"
proof (cases "data_tsn d = last_peer_tsn (rx_assoc rx) + 1")
  case True
  let ?r = "((rx_assoc rx)\<lparr>last_peer_tsn := data_tsn d\<rparr>, rx_delivered rx)"
  obtain ok r' where t: "take_next d valid ?r = (ok, r')" by (metis surj_pair)
  have acc: "rx_violation (accept_chunk d valid rx) = (\<not> ok)" "rx_assoc (accept_chunk d valid rx) = fst r'"
    using t unfolding accept_chunk_def Let_def by (cases valid; simp add: True [symmetric] case_prod_unfold)+
  have "ooo_at (last_peer_tsn (fst ?r)) (tsn_ooo_buffer (fst ?r))"
    using ooo_at_next [of "last_peer_tsn (rx_assoc rx)" "tsn_ooo_buffer (rx_assoc rx)"] assms(1) True by (simp add: ooo_ok_def)
  with take_next_ok [of ?r d valid r'] t assms(2) show ?thesis unfolding acc by simp
next
  case False
  let ?b = "omap_emplace tsn_lt (data_tsn d) \<lparr>held_data = d, assembled = False\<rparr> (tsn_ooo_buffer (rx_assoc rx))"
  have at: "ooo_at (last_peer_tsn (rx_assoc rx)) ?b" and s: "set (omap_keys ?b) = insert (data_tsn d) (set (omap_keys (tsn_ooo_buffer (rx_assoc rx))))"
    using ooo_at_emplace [OF _ assms(3-5)] assms(1) by (simp_all add: ooo_ok_def omap_keys_def)
  have okb: "ooo_ok ((rx_assoc rx)\<lparr>tsn_ooo_buffer := m\<rparr>)" if "omap_keys m = omap_keys ?b" for m
    using at s that assms(1) False ooo_at_keys [OF that] by (simp add: ooo_ok_def)
  show ?thesis
  proof (cases valid)
    case True
    obtain ok r where e: "assemble_early (data_tsn d) ((rx_assoc rx)\<lparr>tsn_ooo_buffer := ?b\<rparr>, rx_delivered rx) = (ok, r)"
      by (metis surj_pair)
    from assemble_early_keys [OF this] have "ooo_ok (fst r)" "in_streams (fst r) = in_streams (rx_assoc rx)"
      using ooo_ok_keys [OF okb [OF refl], of "fst r"] by simp_all
    moreover have "rx_assoc (accept_chunk d valid rx) = fst r"
      using False True e by (simp add: accept_chunk_def Let_def case_prod_unfold)
    ultimately show ?thesis by simp
  qed (use False okb in \<open>simp add: accept_chunk_def Let_def\<close>)
qed

lemma not_lte_offset: "\<not> tsn_lte tsn c \<Longrightarrow> 1 \<le> unat (tsn - c)"
  using unat_gt_0 [of "tsn - c"] by (simp add: tsn_lte_def Suc_le_eq)

lemma receive_chunk_ok:
  assumes "ooo_ok (rx_assoc rx)" "\<not> rx_violation (receive_chunk flag d rx)"
  shows "ooo_ok (rx_assoc (receive_chunk flag d rx)) \<and>
    in_streams (rx_assoc (receive_chunk flag d rx)) = in_streams (rx_assoc rx)"
proof -
  let ?a = "(rx_assoc rx)\<lparr>received_since_sack := received_since_sack (rx_assoc rx) + of_nat (length (user_data d))\<rparr>"
  let ?dup = "tsn_lte (data_tsn d) (last_peer_tsn ?a) \<or> omap_find tsn_lt (data_tsn d) (tsn_ooo_buffer ?a) \<noteq> None"
  let ?far = "unat (data_tsn d - last_peer_tsn ?a) > UINT16_MAX"
  have frame: "ooo_ok (a\<lparr>received_since_sack := n\<rparr>) \<longleftrightarrow> ooo_ok a" "ooo_ok (a\<lparr>duplicate_tsns := l\<rparr>) \<longleftrightarrow> ooo_ok a" for a n l
    by (simp_all add: ooo_ok_def)
  have a: "ooo_ok ?a" using assms(1) by (simp add: frame)
  show ?thesis
  proof (cases "?dup \<or> ?far")
    case True
    then show ?thesis using assms(1) by (auto simp: receive_chunk_def Let_def frame)
  next
    case False
    obtain room a' used' where m:
      "room_for ?a (data_tsn d) (rx_used rx) = (room, a', used')"
      by (metis prod_cases3)
    have "a' = fst (snd (room_for ?a (data_tsn d) (rx_used rx)))" using m by simp
    then have a': "ooo_ok a' \<and> last_peer_tsn a' = last_peer_tsn ?a \<and> in_streams a' = in_streams ?a \<and>
        set (omap_keys (tsn_ooo_buffer a')) \<subseteq> set (omap_keys (tsn_ooo_buffer ?a))"
      using make_room_ok [OF a, of "data_tsn d" "rx_used rx"] a by (cases "rx_used rx \<ge> RWND") (simp_all add: room_for_def)
    have near: "1 \<le> unat (data_tsn d - last_peer_tsn ?a)" "unat (data_tsn d - last_peer_tsn ?a) \<le> UINT16_MAX"
      using False not_lte_offset by auto
    have "map_of (tsn_ooo_buffer ?a) (data_tsn d) = None"
      using False ooo_at_find [OF _ small_window [OF near(2)]] a by (simp add: ooo_ok_def)
    then have "data_tsn d \<notin> set (omap_keys (tsn_ooo_buffer ?a))" by (simp add: map_of_eq_None_iff omap_keys_def)
    then have new: "data_tsn d \<notin> set (omap_keys (tsn_ooo_buffer a'))" using a' by blast
    let ?rx = "rx\<lparr>rx_have_data := True,
                   rx_send_immediately := rx_send_immediately rx \<or> flag AND DATA_IMMEDIATE_SACK_FLAG \<noteq> 0,
                   rx_assoc := a', rx_used := used'\<rparr>"
    show ?thesis
    proof (cases "\<not> room \<and> \<not> (data_tsn d = last_peer_tsn a' + 1 \<and> blocked_on_cumulative_tsn a')")
      case True
      then show ?thesis using False m assms(1) by (simp add: receive_chunk_def Let_def frame)
    next
      case acc: False
      have eq: "receive_chunk flag d rx = accept_chunk d (stream_identifier d < in_streams ?a) ?rx"
        using False m acc by (simp add: receive_chunk_def Let_def) blast
      show ?thesis
        using accept_chunk_ok [of ?rx d "stream_identifier d < in_streams ?a"] assms(2) a' near new unfolding eq by simp
    qed
  qed
qed

lemma receive_chunks_ok:
  "ooo_ok (rx_assoc rx) \<Longrightarrow> \<not> rx_violation (receive_chunks chunks rx) \<Longrightarrow>
   ooo_ok (rx_assoc (receive_chunks chunks rx)) \<and> in_streams (rx_assoc (receive_chunks chunks rx)) = in_streams (rx_assoc rx)"
proof (induction chunks arbitrary: rx)
  case (Cons chunk chunks)
  show ?case
  proof (cases "chunk_type chunk = DATA \<and> (\<exists>d. chunk_value chunk = Data_Value d)")
    case True
    then obtain d where d: "chunk_type chunk = DATA" "chunk_value chunk = Data_Value d" by blast
    let ?rx = "receive_chunk (ch_flag (chunk_header chunk)) d rx"
    show ?thesis
    proof (cases "rx_violation ?rx")
      case False
      with Cons.IH [of ?rx] Cons.prems receive_chunk_ok [OF Cons.prems(1) False] d show ?thesis by (simp add: Let_def)
    qed (use Cons.prems(2) d in \<open>simp add: Let_def\<close>)
  next
    case False
    then have "receive_chunks (chunk # chunks) rx = receive_chunks chunks rx"
      by (auto split: Chunk_Value_Type.splits)
    then show ?thesis using Cons by simp
  qed
qed simp

lemma deliver_partially_same: "same_tsns (rx_assoc (deliver_partially rx)) (rx_assoc rx)"
proof -
  have adv: "same_tsns (fst (advance_stream i (b\<lparr>reassembly := m\<rparr>, l))) a" if "same_tsns b a" for i b m l a
    using advance_stream_same [of i "(b\<lparr>reassembly := m\<rparr>, l)"] that by (simp add: same_tsns_def)
  have upd: "same_tsns (a\<lparr>reassembly := m\<rparr>) a" for a m by (simp add: same_tsns_def)
  show ?thesis by (simp add: deliver_partially_def Let_def case_prod_unfold adv upd)
qed

subsection \<open>Gap Ack Blocks\<close>

lemma gap_blocks_ok_snoc:
  "gap_blocks_ok first previous (g @ [b]) \<longleftrightarrow> gap_blocks_ok first previous g \<and> gap_start b \<noteq> 0 \<and> gap_start b \<le> gap_end b \<and>
     (if g = [] then first \<or> previous < gap_start b else gap_end (last g) < gap_start b)"
  by (induction g arbitrary: first previous) auto

definition covers :: "sack_gap_ack_block list \<Rightarrow> nat \<Rightarrow> bool" where
  "covers g n \<longleftrightarrow> (\<exists>b \<in> set g. unat (gap_start b) \<le> n \<and> n \<le> unat (gap_end b))"

lemma covers_snoc: "covers (g @ [b]) n \<longleftrightarrow> covers g n \<or> (unat (gap_start b) \<le> n \<and> n \<le> unat (gap_end b))"
  by (auto simp: covers_def)

lemma gaps_of_offsets:
  assumes "sorted_wrt (<) os" "0 \<notin> set os"
  shows "gap_blocks_ok True 0 (foldl extend_gaps [] os) \<and> (\<forall>n. covers (foldl extend_gaps [] os) n \<longleftrightarrow> n \<in> unat ` set os) \<and>
    length (foldl extend_gaps [] os) \<le> length os \<and>
    (os = [] \<longleftrightarrow> foldl extend_gaps [] os = []) \<and> (os \<noteq> [] \<longrightarrow> gap_end (last (foldl extend_gaps [] os)) = last os)"
  using assms
proof (induction os rule: rev_induct)
  case Nil
  then show ?case by (simp add: covers_def)
next
  case (snoc o1 os)
  let ?g = "foldl extend_gaps [] os"
  have o1: "o1 \<noteq> 0" "\<forall>x \<in> set os. x < o1" using snoc.prems by (auto simp: sorted_wrt_append)
  have IH: "gap_blocks_ok True 0 ?g" "\<And>n. covers ?g n \<longleftrightarrow> n \<in> unat ` set os" "length ?g \<le> length os"
    "os = [] \<longleftrightarrow> ?g = []" "os \<noteq> [] \<Longrightarrow> gap_end (last ?g) = last os"
    using snoc by (auto simp: sorted_wrt_append)
  show ?case
  proof (cases "?g = [] \<or> unat (gap_end (last ?g)) + 1 \<noteq> unat o1")
    case True
    then have eq: "extend_gaps ?g o1 = ?g @ [\<lparr>gap_start = o1, gap_end = o1\<rparr>]" by (simp add: extend_gaps_def)
    have "?g \<noteq> [] \<Longrightarrow> gap_end (last ?g) < o1" using IH(4,5) o1(2) by auto
    then show ?thesis using IH o1 by (auto simp: eq gap_blocks_ok_snoc covers_snoc)
  next
    case False
    let ?l = "last ?g"
    have g: "?g = butlast ?g @ [?l]" using False by simp
    have eq: "extend_gaps ?g o1 = butlast ?g @ [?l\<lparr>gap_end := o1\<rparr>]" using False by (simp add: extend_gaps_def)
    have ok: "gap_blocks_ok True 0 (butlast ?g @ [?l])" using IH(1) g by simp
    have le: "gap_end ?l < o1" using False IH(4,5) o1(2) by auto
    have "covers (extend_gaps ?g o1) n \<longleftrightarrow> covers ?g n \<or> n = unat o1" for n
    proof -
      have "unat (gap_start ?l) \<le> unat (gap_end ?l)" using ok by (simp add: gap_blocks_ok_snoc word_le_nat_alt)
      then have "(unat (gap_start ?l) \<le> n \<and> n \<le> unat o1) \<longleftrightarrow> (unat (gap_start ?l) \<le> n \<and> n \<le> unat (gap_end ?l)) \<or> n = unat o1"
        using False by auto
      then show ?thesis unfolding eq by (subst (2) g) (simp add: covers_snoc)
    qed
    moreover have "gap_blocks_ok True 0 (extend_gaps ?g o1)"
      using ok le unfolding eq by (auto simp: gap_blocks_ok_snoc)
    moreover have "length (extend_gaps ?g o1) \<le> length ?g" unfolding eq using False by simp
    ultimately show ?thesis using IH by (auto simp: eq)
  qed
qed

definition tsn_offset :: "Association \<Rightarrow> u32 \<Rightarrow> u16" where
  "tsn_offset assoc tsn = ucast (tsn - last_peer_tsn assoc)"

lemma gap_blocks_offsets:
  "gap_blocks assoc = foldl extend_gaps [] (map (tsn_offset assoc) (omap_keys (tsn_ooo_buffer assoc)))"
  by (simp add: gap_blocks_def omap_keys_def foldl_map tsn_offset_def case_prod_unfold)

lemma unat_ucast_small: "unat (w :: u32) \<le> UINT16_MAX \<Longrightarrow> unat (ucast w :: u16) = unat w"
  by (simp add: unsigned_ucast_eq take_bit_nat_eq_self)

lemma gap_blocks_describe:
  assumes "ooo_ok assoc"
  shows "gap_blocks_ok True 0 (gap_blocks assoc) \<and> length (gap_blocks assoc) \<le> UINT16_MAX \<and>
    (\<forall>tsn. covers (gap_blocks assoc) (unat (tsn - last_peer_tsn assoc)) \<longleftrightarrow> tsn \<in> set (omap_keys (tsn_ooo_buffer assoc)))"
proof -
  let ?ks = "omap_keys (tsn_ooo_buffer assoc)" and ?c = "last_peer_tsn assoc"
  let ?os = "map (tsn_offset assoc) ?ks"
  have at: "ooo_at ?c (tsn_ooo_buffer assoc)" using assms by (simp add: ooo_ok_def)
  then have b: "1 \<le> unat (k - ?c)" "unat (k - ?c) \<le> UINT16_MAX" if "k \<in> set ?ks" for k
    using that by (auto simp: ooo_at_def)
  have u: "unat (tsn_offset assoc k) = unat (k - ?c)" if "k \<in> set ?ks" for k
    using unat_ucast_small [OF b(2) [OF that]] by (simp only: tsn_offset_def)
  have "sorted_wrt (<) (map (\<lambda>k. unat (k - ?c)) ?ks)"
    using at tsn.sorted_rank [of ?ks ?c] b(2) small_window by (simp add: ooo_at_def omap_sorted_def del: unat_sub_if')
  then have "sorted_wrt (\<lambda>k k'. unat (k - ?c) < unat (k' - ?c)) ?ks" by (simp add: sorted_wrt_map del: unat_sub_if')
  then have s: "sorted_wrt (<) ?os"
    unfolding sorted_wrt_map by (rule sorted_wrt_mono_rel [rotated]) (simp add: word_less_nat_alt u del: unat_sub_if')
  have z: "0 \<notin> set ?os"
  proof
    assume "0 \<in> set ?os"
    then obtain k where "k \<in> set ?ks" "tsn_offset assoc k = 0" by auto
    with u [of k] b(1) [of k] show False by simp
  qed
  have "distinct ?os" using s by (simp add: strict_sorted_iff)
  then have "length ?os \<le> card (UNIV - {0 :: u16})"
    using z by (metis Diff_UNIV Diff_empty card_mono distinct_card finite insert_Diff_single subset_Diff_insert subset_UNIV)
  then have len: "length ?os \<le> UINT16_MAX" by (simp add: card_Diff_singleton_if card_word)
  have "covers (gap_blocks assoc) (unat (tsn - ?c)) \<longleftrightarrow> tsn \<in> set ?ks" for tsn
  proof -
    have "unat (tsn - ?c) \<in> unat ` set ?os \<longleftrightarrow> (\<exists>k \<in> set ?ks. unat (tsn - ?c) = unat (k - ?c))"
      using u by (simp add: image_image image_iff del: unat_sub_if')
    also have "\<dots> \<longleftrightarrow> tsn \<in> set ?ks" by (auto simp flip: word_unat_eq_iff simp del: unat_sub_if')
    finally show ?thesis using gaps_of_offsets [OF s z] unfolding gap_blocks_offsets by blast
  qed
  then show ?thesis using gaps_of_offsets [OF s z] len unfolding gap_blocks_offsets by auto
qed

lemma sack_acknowledges_covers:
  "sack_acknowledges sack tsn \<longleftrightarrow> tsn_lte tsn (sack_cumulative_tsn_ack sack) \<or>
     covers (gap_ack_blocks sack) (unat (tsn - sack_cumulative_tsn_ack sack))"
proof -
  have "unat (tsn - sack_cumulative_tsn_ack sack) \<le> UINT16_MAX"
    if "unat (tsn - sack_cumulative_tsn_ack sack) \<le> unat (gap_end b)" for b
    using that unat_u16_less [of "gap_end b"] by (simp del: unat_sub_if')
  then show ?thesis
    by (auto simp: sack_acknowledges_def covers_def Let_def list_ex_iff simp del: unat_sub_if')
qed

text \<open>The chunk of a SACK packet.\<close>

definition sack_in :: "SCTP_Packet \<Rightarrow> sack_chunk_value" where
  "sack_in p = (case map chunk_value (pkt_chunks p) of [Sack_Value s] \<Rightarrow> s)"

lemma sack_in_make_sack:
  "sack_in (fst (make_sack port key buffered assoc)) =
     \<lparr>sack_cumulative_tsn_ack = last_peer_tsn assoc,
      sack_a_rwnd = our_rwnd (snd (make_sack port key buffered assoc)),
      number_of_gap_ack_blocks = of_nat (length (gap_blocks assoc)),
      number_of_duplicate_tsns = of_nat (length (duplicate_tsns assoc)),
      gap_ack_blocks = gap_blocks assoc, sack_duplicate_tsns = duplicate_tsns assoc\<rparr>"
  by (simp add: sack_in_def make_sack_def Let_def build_sack_def append_chunk_def packet_with_header_def)

subsection \<open>The walks end\<close>

lemma usable_chunk_key:
  assumes "ooo_at c (tsn_ooo_buffer assoc)" "tsn_window c at" "usable_chunk assoc at \<noteq> None"
  shows "at \<in> set (omap_keys (tsn_ooo_buffer assoc))"
proof -
  have "map_of (tsn_ooo_buffer assoc) at \<noteq> None"
    using assms(3) ooo_at_find [OF assms(1,2)] by (auto simp: usable_chunk_def split: option.splits)
  then show ?thesis by (auto simp: omap_keys_def map_of_eq_None_iff)
qed

lemma ooo_at_step:
  assumes "ooo_at c buffer" "k \<in> set (omap_keys buffer)" "step = 1 \<or> step = - 1"
  shows "tsn_window c (k + step)"
proof -
  have b: "1 \<le> unat (k - c)" "unat (k - c) \<le> UINT16_MAX" using assms(1,2) by (auto simp: ooo_at_def)
  have "unat (k + 1 - c) = unat (k - c) + 1"
  proof -
    have "unat ((k - c) + 1) = unat (k - c) + 1"
      using b(2) by (subst unat_add_lem [THEN iffD1]) (simp_all del: unat_sub_if')
    then show ?thesis by (simp add: add.commute add_diff_eq del: unat_sub_if')
  qed
  moreover have "unat (k - 1 - c) = unat (k - c) - 1" using unat_next [OF b(1)] by (simp add: diff_diff_eq add.commute)
  ultimately show ?thesis using assms(3) b(2) by (auto simp: tsn_window_def simp del: unat_sub_if')
qed

lemma walk_exhausted:
  assumes "ooo_at c (tsn_ooo_buffer assoc)" "step = 1 \<or> step = - 1"
  shows "walk_chunks assoc arrived step stop edge n at = Exhausted \<Longrightarrow> at \<in> set (omap_keys (tsn_ooo_buffer assoc)) \<Longrightarrow>
    i \<le> n \<Longrightarrow> at + of_nat i * step \<in> set (omap_keys (tsn_ooo_buffer assoc))"
proof (induction n arbitrary: at i)
  case (Suc n)
  have c: "continues_message arrived edge (usable_chunk assoc (at + step))"
    and w: "walk_chunks assoc arrived step stop edge n (at + step) = Exhausted"
    using Suc.prems(1) by (auto split: if_splits)
  then have "usable_chunk assoc (at + step) \<noteq> None" by (auto simp: continues_message_def split: option.splits)
  then have "at + step \<in> set (omap_keys (tsn_ooo_buffer assoc))"
    using usable_chunk_key [OF assms(1) ooo_at_step [OF assms(1) Suc.prems(2) assms(2)]] by simp
  from Suc.IH [OF w this, of "i - 1"] Suc.prems(2,3) show ?case
    by (cases i) (simp_all add: algebra_simps)
qed simp

lemma ooo_at_length:
  assumes "ooo_at c buffer"
  shows "distinct (omap_keys buffer) \<and> length buffer \<le> UINT16_MAX"
proof -
  have d: "distinct (omap_keys buffer)"
    using tsn_map.ok_distinct [OF ooo_at_window [OF assms]] by (simp add: omap_keys_def)
  have "(\<lambda>k. unat (k - c)) ` set (omap_keys buffer) \<subseteq> {1..UINT16_MAX}" using assms by (auto simp: ooo_at_def)
  moreover have "inj_on (\<lambda>k. unat (k - c)) (set (omap_keys buffer))"
    by (rule inj_onI) (simp flip: word_unat_eq_iff del: unat_sub_if')
  ultimately have "card (set (omap_keys buffer)) \<le> card {1..UINT16_MAX}" by (intro card_inj_on_le) auto
  then show ?thesis using d by (simp add: distinct_card [OF d]) (simp add: omap_keys_def)
qed

lemma walks_end:
  assumes "ooo_at c (tsn_ooo_buffer assoc)" "at \<in> set (omap_keys (tsn_ooo_buffer assoc))" "step = 1 \<or> step = - 1"
  shows "walk_chunks assoc arrived step stop edge (length (tsn_ooo_buffer assoc)) at \<noteq> Exhausted"
proof
  let ?n = "length (tsn_ooo_buffer assoc)" and ?f = "\<lambda>i. at + of_nat i * step"
  assume "walk_chunks assoc arrived step stop edge ?n at = Exhausted"
  from walk_exhausted [OF assms(1,3) this assms(2)] have "?f ` {..?n} \<subseteq> set (omap_keys (tsn_ooo_buffer assoc))" by auto
  then have "card (?f ` {..?n}) \<le> card (set (omap_keys (tsn_ooo_buffer assoc)))" by (rule card_mono [rotated]) simp
  also have "\<dots> = ?n" using ooo_at_length [OF assms(1)] by (simp add: distinct_card) (simp add: omap_keys_def)
  finally have "card (?f ` {..?n}) \<le> ?n" .
  moreover have "inj_on ?f {..?n}"
  proof (rule inj_onI)
    fix i j assume ij: "i \<in> {..?n}" "j \<in> {..?n}" "?f i = ?f j"
    then have "unat (of_nat i :: u32) = unat (of_nat j :: u32)" using assms(3) by auto
    moreover have "i \<le> UINT16_MAX" "j \<le> UINT16_MAX" using ij ooo_at_length [OF assms(1)] by auto
    ultimately show "i = j" by (simp add: unat_of_nat)
  qed
  then have "card (?f ` {..?n}) = Suc ?n" by (simp add: card_image)
  ultimately show False by simp
qed

subsection \<open>Ordering within a stream\<close>

text \<open>The messages of a stream numbered from \<open>s0\<close>, with the indices \<open>W\<close> waiting in \<open>early\<close>.\<close>

definition waiting :: "u16 \<Rightarrow> (nat \<Rightarrow> bytes) \<Rightarrow> nat set \<Rightarrow> (u16, bytes) omap \<Rightarrow> bool" where
  "waiting s0 f W m \<longleftrightarrow> omap_ok (<) UNIV m \<and>
     (\<forall>k < 2 ^ 16. omap_find (<) (s0 + of_nat k) m = (if k \<in> W then Some (f k) else None))"

lemma ssn_index_inj: "k < 65536 \<Longrightarrow> j < 65536 \<Longrightarrow> (of_nat k :: u16) = of_nat j \<longleftrightarrow> k = j"
proof -
  assume "k < 65536" "j < 65536"
  then have "unat (of_nat k :: u16) = k" "unat (of_nat j :: u16) = j" by (simp_all add: unat_of_nat)
  then show ?thesis by metis
qed

lemma waiting_erase:
  "waiting s0 f W m \<Longrightarrow> k < 2 ^ 16 \<Longrightarrow> waiting s0 f (W - {k}) (omap_erase (<) (s0 + of_nat k) m)"
  by (auto simp: waiting_def u16_map.find_erase u16_map.ok_erase ssn_index_inj)

lemma waiting_emplace:
  "waiting s0 f W m \<Longrightarrow> k < 2 ^ 16 \<Longrightarrow> k \<notin> W \<Longrightarrow> waiting s0 f (insert k W) (omap_emplace (<) (s0 + of_nat k) (f k) m)"
  by (auto simp: waiting_def u16_map.find_emplace u16_map.ok_emplace ssn_index_inj)

abbreviation message_up :: "u16 \<Rightarrow> (nat \<Rightarrow> bytes) \<Rightarrow> nat \<Rightarrow> Delivery" where
  "message_up i f k \<equiv> \<lparr>dv_bytes = f k, dv_complete = True, dv_stream = i\<rparr>"

lemma hand_up_closed: "\<not> partial_delivery_open a \<Longrightarrow> hand_up d (a, l) = (a, l @ [d])"
  by (simp add: hand_up_def)

lemma advance_loop_run:
  assumes "\<not> partial_delivery_open a" "waiting s0 f W m" "W \<subseteq> {..<N}" "N < 2 ^ 16" "n \<le> N"
  shows "\<exists>n' m'. n \<le> n' \<and> n' \<le> N \<and> {n..<n'} \<subseteq> W \<and> n' \<notin> W \<and> waiting s0 f (W - {n..<n'}) m' \<and>
    advance_loop i \<lparr>is_next_ssn = s0 + of_nat n, early = m\<rparr> (a, l) =
      (\<lparr>is_next_ssn = s0 + of_nat n', early = m'\<rparr>, a, l @ map (message_up i f) [n..<n'])"
  using assms(2,3,5)
proof (induction "N - n" arbitrary: n W m l rule: less_induct)
  case less
  have n: "n < 2 ^ 16" using less.prems assms(4) by simp
  have find: "omap_find (<) (s0 + of_nat n) m = (if n \<in> W then Some (f n) else None)"
    using less.prems(1) n by (simp add: waiting_def)
  show ?case
  proof (cases "n \<in> W")
    case True
    then have "N - Suc n < N - n" "Suc n \<le> N" "W - {n} \<subseteq> {..<N}" using less.prems by auto
    from less.hyps [OF this(1) waiting_erase [OF less.prems(1) n] this(3,2), of "l @ [message_up i f n]"]
    obtain n' m' where IH: "Suc n \<le> n'" "n' \<le> N" "{Suc n..<n'} \<subseteq> W - {n}" "n' \<notin> W - {n}"
      "waiting s0 f (W - {n} - {Suc n..<n'}) m'"
      "advance_loop i \<lparr>is_next_ssn = s0 + of_nat (Suc n), early = omap_erase (<) (s0 + of_nat n) m\<rparr> (a, l @ [message_up i f n]) =
        (\<lparr>is_next_ssn = s0 + of_nat n', early = m'\<rparr>, a, (l @ [message_up i f n]) @ map (message_up i f) [Suc n..<n'])"
      by blast
    have split: "{n..<n'} = insert n {Suc n..<n'}" "[n..<n'] = n # [Suc n..<n']" using IH(1) by (auto simp: upt_rec)
    have "W - {n} - {Suc n..<n'} = W - {n..<n'}" unfolding split by auto
    moreover have "advance_loop i \<lparr>is_next_ssn = s0 + of_nat n, early = m\<rparr> (a, l) =
        (\<lparr>is_next_ssn = s0 + of_nat n', early = m'\<rparr>, a, l @ map (message_up i f) [n..<n'])"
    proof -
      have "s0 + of_nat n + 1 = s0 + of_nat (Suc n)" by (simp add: algebra_simps)
      then have "advance_loop i \<lparr>is_next_ssn = s0 + of_nat n, early = m\<rparr> (a, l) =
          advance_loop i \<lparr>is_next_ssn = s0 + of_nat (Suc n), early = omap_erase (<) (s0 + of_nat n) m\<rparr> (a, l @ [message_up i f n])"
        by (subst advance_loop.simps)
          (simp only: find True if_True option.case Inbound_Stream.simps hand_up_closed [OF assms(1)])
      then show ?thesis using IH(6) unfolding split by simp
    qed
    moreover have "n \<le> n'" "{n..<n'} \<subseteq> W" "n' \<notin> W" using IH(1,3,4) True unfolding split by auto
    ultimately show ?thesis using IH(2,5) by metis
  next
    case False
    then have "advance_loop i \<lparr>is_next_ssn = s0 + of_nat n, early = m\<rparr> (a, l) =
        (\<lparr>is_next_ssn = s0 + of_nat n, early = m\<rparr>, a, l @ map (message_up i f) [n..<n])"
      using find by (subst advance_loop.simps) simp
    moreover have "W - {n..<n} = W" by simp
    ultimately show ?thesis using False less.prems by (metis atLeastLessThan_empty empty_subsetI order_refl)
  qed
qed

lemma inbound_set_stream [simp]:
  assumes "omap_ok (<) UNIV (inbound_streams a)"
  shows "inbound_stream (set_inbound_stream i s a) j = (if j = i then s else inbound_stream a j)"
    "omap_ok (<) UNIV (inbound_streams (set_inbound_stream i s a))"
  using assms
  by (simp_all add: inbound_stream_def set_inbound_stream_def u16_map.find_modify u16_map.find_emplace
      u16_map.ok_emplace u16_map.ok_modify split: option.splits)

lemma partial_delivery_open_set [simp]:
  "partial_delivery_open (set_inbound_stream i s a) \<longleftrightarrow> partial_delivery_open a"
  by (simp add: partial_delivery_open_def set_inbound_stream_def)

text \<open>The state after the messages with indices \<open>K\<close> have arrived: those before the first missing one are up.\<close>

definition stream_state :: "u16 \<Rightarrow> u16 \<Rightarrow> (nat \<Rightarrow> bytes) \<Rightarrow> Delivery list \<Rightarrow> nat set \<Rightarrow> nat \<Rightarrow> reception \<Rightarrow> bool" where
  "stream_state i s0 f l0 K n r \<longleftrightarrow>
     {..<n} \<subseteq> K \<and> n \<notin> K \<and> \<not> partial_delivery_open (fst r) \<and> omap_ok (<) UNIV (inbound_streams (fst r)) \<and>
     is_next_ssn (inbound_stream (fst r) i) = s0 + of_nat n \<and> waiting s0 f (K - {..<n}) (early (inbound_stream (fst r) i)) \<and>
     snd r = l0 @ map (message_up i f) [0..<n]"

lemma advance_loop_assoc:
  "\<not> partial_delivery_open (fst r) \<Longrightarrow> fst (snd (advance_loop i s r)) = fst r"
proof (induction i s r rule: advance_loop.induct)
  case (1 i s r)
  then show ?case
    by (subst advance_loop.simps) (auto simp: hand_up_def split: option.splits prod.splits)
qed

lemma advance_stream_run:
  assumes "\<not> partial_delivery_open a" "omap_ok (<) UNIV (inbound_streams a)" "waiting s0 f W (early (inbound_stream a i))"
    and "is_next_ssn (inbound_stream a i) = s0 + of_nat n" "W \<subseteq> {..<N}" "N < 2 ^ 16" "Suc n \<le> N"
  shows "\<exists>n' m'. Suc n \<le> n' \<and> n' \<le> N \<and> {Suc n..<n'} \<subseteq> W \<and> n' \<notin> W \<and> waiting s0 f (W - {Suc n..<n'}) m' \<and>
    advance_stream i (a, l) =
      (set_inbound_stream i \<lparr>is_next_ssn = s0 + of_nat n', early = m'\<rparr> a, l @ map (message_up i f) [Suc n..<n'])"
proof -
  have s: "(inbound_stream a i)\<lparr>is_next_ssn := is_next_ssn (inbound_stream a i) + 1\<rparr> =
      \<lparr>is_next_ssn = s0 + of_nat (Suc n), early = early (inbound_stream a i)\<rparr>"
    using assms(4) by (cases "inbound_stream a i") (simp add: algebra_simps)
  have eq: "advance_stream i (a, l) = (set_inbound_stream i s' a', l')"
    if "advance_loop i \<lparr>is_next_ssn = s0 + of_nat (Suc n), early = early (inbound_stream a i)\<rparr> (a, l) = (s', a', l')" for s' a' l'
    unfolding advance_stream_def Let_def prod.case s that ..
  obtain n' m' where "Suc n \<le> n'" "n' \<le> N" "{Suc n..<n'} \<subseteq> W" "n' \<notin> W" "waiting s0 f (W - {Suc n..<n'}) m'"
    and run: "advance_loop i \<lparr>is_next_ssn = s0 + of_nat (Suc n), early = early (inbound_stream a i)\<rparr> (a, l) =
      (\<lparr>is_next_ssn = s0 + of_nat n', early = m'\<rparr>, a, l @ map (message_up i f) [Suc n..<n'])"
    using advance_loop_run [OF assms(1,3,5,6,7), of i l] by blast
  then show ?thesis using eq [OF run] by blast
qed

lemma order_message_now:
  assumes "stream_state i s0 f l0 K n r" "K \<subseteq> {..<N}" "n < N" "n \<notin> K" "N \<le> 2 ^ 15"
  shows "\<exists>n' r'. order_message i (s0 + of_nat n) False (f n) r = (True, r') \<and> stream_state i s0 f l0 (insert n K) n' r'"
proof -
  obtain a l where r: "r = (a, l)" by force
  note st = assms(1) [unfolded stream_state_def r fst_conv snd_conv]
  let ?l = "l @ [message_up i f n]"
  have W: "K - {..<n} \<subseteq> {..<N}" using assms(2) by auto
  obtain n' m' where adv: "Suc n \<le> n'" "n' \<le> N" "{Suc n..<n'} \<subseteq> K - {..<n}" "n' \<notin> K - {..<n}"
    "waiting s0 f (K - {..<n} - {Suc n..<n'}) m'"
    "advance_stream i (a, ?l) = (set_inbound_stream i \<lparr>is_next_ssn = s0 + of_nat n', early = m'\<rparr> a,
       ?l @ map (message_up i f) [Suc n..<n'])"
    using advance_stream_run [of a s0 f "K - {..<n}" i n N ?l] st W assms(3,5) by auto
  have below: "{..<n'} = {..<n} \<union> {n} \<union> {Suc n..<n'}" using adv(1) by auto
  have K: "{..<n'} \<subseteq> insert n K" "n' \<notin> insert n K" "insert n K - {..<n'} = K - {..<n} - {Suc n..<n'}"
    using adv(1,3,4) st unfolding below by auto
  have up: "[0..<n'] = [0..<n] @ n # [Suc n..<n']"
    using adv(1) upt_add_eq_append [of 0 n "n' - n"] upt_conv_Cons [of n n'] by simp
  have "order_message i (s0 + of_nat n) False (f n) r =
      (True, set_inbound_stream i \<lparr>is_next_ssn = s0 + of_nat n', early = m'\<rparr> a, ?l @ map (message_up i f) [Suc n..<n'])"
    using adv(6) st by (simp add: r order_message_def Let_def hand_up_closed)
  moreover have "stream_state i s0 f l0 (insert n K) n'
      (set_inbound_stream i \<lparr>is_next_ssn = s0 + of_nat n', early = m'\<rparr> a, ?l @ map (message_up i f) [Suc n..<n'])"
    using st K adv(5) unfolding stream_state_def by (simp add: up)
  ultimately show ?thesis by blast
qed

lemma order_message_later:
  assumes "stream_state i s0 f l0 K n r" "n < k" "k \<notin> K" "k < 2 ^ 15"
  shows "\<exists>r'. order_message i (s0 + of_nat k) False (f k) r = (True, r') \<and> stream_state i s0 f l0 (insert k K) n r'"
proof -
  obtain a l where r: "r = (a, l)" by force
  let ?s = "inbound_stream a i"
  note st = assms(1) [unfolded stream_state_def r fst_conv snd_conv]
  have k16: "k < 2 ^ 16" "n < 2 ^ 16" using assms(2,4) by simp_all
  have eq: "(s0 + of_nat k - (s0 + of_nat n) :: u16) = of_nat (k - n)" using assms(2) by (simp add: of_nat_diff)
  have "unat (s0 + of_nat k - (s0 + of_nat n) :: u16) = k - n" unfolding eq using k16 by (simp only: unat_of_nat) simp
  moreover have neq: "s0 + of_nat k \<noteq> s0 + (of_nat n :: u16)" using ssn_index_inj [of k n] k16 assms(2) by simp
  ultimately have gt: "ssn_gt (s0 + of_nat k) (s0 + of_nat n)"
    using assms(2,4) by (simp add: ssn_gt_alt del: unat_sub_if')
  have none: "omap_find (<) (s0 + of_nat k) (early ?s) = None"
    using st k16(1) assms(3) by (simp add: waiting_def)
  let ?s' = "?s\<lparr>early := omap_emplace (<) (s0 + of_nat k) (f k) (early ?s)\<rparr>"
  have "order_message i (s0 + of_nat k) False (f k) r = (True, set_inbound_stream i ?s' a, l)"
    using st neq gt none by (simp add: r order_message_def Let_def)
  moreover have "insert k K - {..<n} = insert k (K - {..<n})" using assms(2) by auto
  then have "stream_state i s0 f l0 (insert k K) n (set_inbound_stream i ?s' a, l)"
    using st assms(2,3) waiting_emplace [of s0 f "K - {..<n}" "early ?s" k] k16(1) by (auto simp: stream_state_def)
  ultimately show ?thesis by blast
qed

lemma order_message_step:
  assumes "stream_state i s0 f l0 K n r" "K \<subseteq> {..<N}" "k < N" "k \<notin> K" "N \<le> 2 ^ 15"
  shows "\<exists>n' r'. order_message i (s0 + of_nat k) False (f k) r = (True, r') \<and> stream_state i s0 f l0 (insert k K) n' r'"
proof (cases "k = n")
  case True
  then show ?thesis using order_message_now assms by blast
next
  case False
  have "n \<le> k" using assms(1,4) by (auto simp: stream_state_def not_le [symmetric])
  then show ?thesis using order_message_later [OF assms(1) _ assms(4)] assms(3,5) False by force
qed

text \<open>The messages of a stream as they complete, in any order.\<close>

definition order_all :: "u16 \<Rightarrow> u16 \<Rightarrow> (nat \<Rightarrow> bytes) \<Rightarrow> nat list \<Rightarrow> reception \<Rightarrow> bool \<times> reception" where
  "order_all i s0 f ks r =
     foldl (\<lambda>(ok, r) k. case order_message i (s0 + of_nat k) False (f k) r of (ok', r') \<Rightarrow> (ok \<and> ok', r')) (True, r) ks"

lemma order_all_state:
  assumes "stream_state i s0 f l0 {} 0 r" "N \<le> 2 ^ 15"
  shows "distinct ks \<Longrightarrow> set ks \<subseteq> {..<N} \<Longrightarrow>
    \<exists>n r'. order_all i s0 f ks r = (True, r') \<and> stream_state i s0 f l0 (set ks) n r'"
proof (induction ks rule: rev_induct)
  case Nil
  then show ?case using assms by (auto simp: order_all_def)
next
  case (snoc k ks)
  then obtain n r1 where r1: "order_all i s0 f ks r = (True, r1)" "stream_state i s0 f l0 (set ks) n r1" by auto
  obtain n' r' where "order_message i (s0 + of_nat k) False (f k) r1 = (True, r')" "stream_state i s0 f l0 (insert k (set ks)) n' r'"
    using order_message_step [OF r1(2), of N k] snoc.prems assms(2) by auto
  then show ?case using r1 by (auto simp: order_all_def)
qed

subsection \<open>Properties\<close>

definition example_reception :: "Association" where
  "example_reception =
     (init_new_association \<lparr>s_addr = 1, sin_port = 9\<rparr> 7 100)\<lparr>assoc_state := ESTABLISHED, last_peer_tsn := 0xFFFFFFFF\<rparr>"

abbreviation example_chunk :: "u32 \<Rightarrow> bytes \<Rightarrow> SCTP_Chunk" where
  "example_chunk tsn payload \<equiv>
     \<lparr>chunk_header = \<lparr>ch_type = DATA, ch_flag = 3, ch_length = 0\<rparr>, chunk_value = Data_Value (example_data_chunk tsn payload)\<rparr>"

text \<open>C36: The invariant of the out-of-order buffer: whatever DATA chunks a packet brings (duplicates, chunks in and out of order,
  chunks that need room, chunks for invalid streams), unless they violate the protocol the buffer stays sorted and holds only
  TSNs from 2 to 65535 above the Cumulative TSN Ack, so that every one of them can be reported.\<close>

theorem reception_keeps_buffer:
  assumes "ooo_ok assoc"
    and "\<not> rx_violation (receive_chunks chunks (start_reception immediately buffered assoc))"
  shows "ooo_ok (rx_assoc (deliver_partially (receive_chunks chunks (start_reception immediately buffered assoc))))"
proof -
  let ?rx = "receive_chunks chunks (start_reception immediately buffered assoc)"
  have "ooo_ok (rx_assoc ?rx)"
    using receive_chunks_ok [of "start_reception immediately buffered assoc" chunks] assms by (simp add: start_reception_def)
  then show ?thesis using deliver_partially_same [of ?rx] by (simp add: ooo_ok_def same_tsns_def)
qed

lemmas reception_eval = example_reception_def example_data_chunk_def init_new_association_def blank_association_def
  start_reception_def receive_chunk_def accept_chunk_def room_for_def assemble_early_def usable_chunk_def has_flag_def
  take_bytes_def order_message_def hand_up_def partial_delivery_open_def empty_reassembly_def inbound_stream_def
  new_inbound_stream_def set_inbound_stream_def advance_stream_def tsn_lte_def tsn_lt_alt held_bytes_def Let_def

lemma example_reception_ok: "ooo_ok example_reception"
  by (simp add: ooo_ok_def ooo_at_def omap_sorted_def omap_keys_def reception_eval)

lemma example_receive:
  "\<not> rx_violation (receive_chunks [example_chunk 1 [7]] (start_reception False 0 example_reception)) \<and>
   omap_keys (tsn_ooo_buffer (rx_assoc (deliver_partially (receive_chunks [example_chunk 1 [7]]
     (start_reception False 0 example_reception))))) = [1]"
  by (simp add: reception_eval advance_loop.simps deliver_partially_def omap_keys_def)

theorem reception_keeps_buffer_witness:
  "ooo_ok (rx_assoc (deliver_partially (receive_chunks [example_chunk 1 [7]] (start_reception False 0 example_reception)))) \<and>
   omap_keys (tsn_ooo_buffer (rx_assoc (deliver_partially (receive_chunks [example_chunk 1 [7]]
     (start_reception False 0 example_reception))))) = [1]"
  using reception_keeps_buffer [OF example_reception_ok conjunct1 [OF example_receive]] example_receive by simp

lemma make_sack_chunk:
  assumes "ooo_ok assoc"
    and "SCTP_CHUNK_HEADER_SIZE + 12 + 4 * (length (gap_blocks assoc) + length (duplicate_tsns assoc)) \<le> UINT16_MAX"
  shows "list_all chunk_ok (pkt_chunks (fst (make_sack port key buffered assoc)))"
proof -
  have "sack_ok (sack_in (fst (make_sack port key buffered assoc)))"
    using gap_blocks_describe [OF assms(1)] assms(2) by (simp add: sack_in_make_sack sack_ok_def unat_of_nat)
  then show ?thesis
    using assms(2) by (simp add: sack_in_def make_sack_def Let_def build_sack_def append_chunk_def packet_with_header_def
        chunk_ok_def chunk_typed_def)
qed

text \<open>C37: A SACK reports exactly what has been received: it acknowledges the TSNs up to the Cumulative TSN Ack and those in the
  out-of-order buffer and no others, and lists the duplicates; and as long as its Gap Ack Blocks and duplicates fit the 16-bit length of
  a chunk (16379 entries), the packet is serialized without error and the peer that parses it reads this very SACK.\<close>

theorem sack_reports_received:
  fixes port key buffered
  assumes "ooo_ok assoc"
  defines "packet \<equiv> fst (make_sack port key buffered assoc)"
  defines "sack \<equiv> sack_in packet"
  shows "(\<forall>tsn. sack_acknowledges sack tsn \<longleftrightarrow>
        tsn_lte tsn (last_peer_tsn assoc) \<or> tsn \<in> set (omap_keys (tsn_ooo_buffer assoc))) \<and>
    sack_duplicate_tsns sack = duplicate_tsns assoc \<and>
    (SCTP_CHUNK_HEADER_SIZE + 12 + 4 * (length (gap_ack_blocks sack) + length (duplicate_tsns assoc)) \<le> UINT16_MAX \<longrightarrow>
      (\<exists>data pkt. serialize_sctp_packet packet = Inr data \<and> deserialize_sctp_packet data = Inr pkt \<and> sack_in pkt = sack))"
proof -
  have "\<exists>data pkt. serialize_sctp_packet packet = Inr data \<and> deserialize_sctp_packet data = Inr pkt \<and> sack_in pkt = sack"
    if "SCTP_CHUNK_HEADER_SIZE + 12 + 4 * (length (gap_ack_blocks sack) + length (duplicate_tsns assoc)) \<le> UINT16_MAX"
  proof -
    have ok: "list_all chunk_ok (pkt_chunks packet)"
      using make_sack_chunk [OF assms(1)] that by (simp add: packet_def sack_def sack_in_make_sack)
    have "map chunk_value (map with_wire_length cs) = map chunk_value cs" for cs
      by (simp add: with_wire_length_def)
    then show ?thesis
      by (auto simp: serialize_packet_eq [OF ok] deserialize_packet_bytes [OF ok] sack_def sack_in_def simp del: map_map)
  qed
  then show ?thesis
    using gap_blocks_describe [OF assms(1)]
    by (auto simp: sack_def packet_def sack_in_make_sack sack_acknowledges_covers simp del: unat_sub_if')
qed

definition example_buffered :: Association where
  "example_buffered = example_reception\<lparr>tsn_ooo_buffer :=
     [(1, \<lparr>held_data = example_data_chunk 1 [7], assembled = False\<rparr>), (2, \<lparr>held_data = example_data_chunk 2 [8], assembled = False\<rparr>),
      (5, \<lparr>held_data = example_data_chunk 5 [9], assembled = False\<rparr>)]\<rparr>"

lemma example_buffered_ok: "ooo_ok example_buffered"
  by (simp add: example_buffered_def ooo_ok_def ooo_at_def omap_sorted_def omap_keys_def reception_eval)

theorem sack_reports_received_witness:
  "sack_acknowledges (sack_in (fst (make_sack 9 \<lparr>s_addr = 1, sin_port = 9\<rparr> 0 example_buffered))) 2 \<and>
   \<not> sack_acknowledges (sack_in (fst (make_sack 9 \<lparr>s_addr = 1, sin_port = 9\<rparr> 0 example_buffered))) 3 \<and>
   (\<exists>data pkt. serialize_sctp_packet (fst (make_sack 9 \<lparr>s_addr = 1, sin_port = 9\<rparr> 0 example_buffered)) = Inr data \<and>
      deserialize_sctp_packet data = Inr pkt \<and>
      gap_ack_blocks (sack_in pkt) = [\<lparr>gap_start = 2, gap_end = 3\<rparr>, \<lparr>gap_start = 6, gap_end = 6\<rparr>])"
proof -
  have "duplicate_tsns example_buffered = []" "last_peer_tsn example_buffered = 0xFFFFFFFF"
    "omap_keys (tsn_ooo_buffer example_buffered) = [1, 2, 5]"
    "gap_blocks example_buffered = [\<lparr>gap_start = 2, gap_end = 3\<rparr>, \<lparr>gap_start = 6, gap_end = 6\<rparr>]"
    by (simp_all add: example_buffered_def reception_eval omap_keys_def gap_blocks_def extend_gaps_def)
  then show ?thesis
    using sack_reports_received [OF example_buffered_ok, of 9 "\<lparr>s_addr = 1, sin_port = 9\<rparr>" 0]
    by (auto simp: tsn_lte_def tsn_lt_alt sack_in_make_sack)
qed

text \<open>The window a SACK advertises never exceeds the free space of the receive buffer, nor 65535, and falls short of it only by an
  increase too small to be worth a packet.\<close>

theorem advertised_window_bounded:
  "let window = unat (sack_a_rwnd (sack_in (fst (make_sack port key buffered assoc)))); free = RWND - (buffered + held_bytes assoc)
   in window \<le> free \<and> (window = free \<or> free - window < min (RWND div 2) (unat (pmdcs assoc)))"
proof -
  have w: "unat (receive_window buffered assoc) = RWND - (buffered + held_bytes assoc)"
  proof -
    have "unat (of_nat (RWND - u) :: u32) = RWND - u" for u by (simp only: unat_of_nat) simp
    then show ?thesis unfolding receive_window_def Let_def by (cases "RWND \<le> buffered + held_bytes assoc") (simp, simp only: if_False)
  qed
  have "unat (receive_window buffered assoc - peer_view_of_window assoc) =
      unat (receive_window buffered assoc) - unat (peer_view_of_window assoc)"
    if "receive_window buffered assoc > peer_view_of_window assoc"
    using that by (simp add: unat_sub)
  then show ?thesis
    unfolding sack_in_make_sack w [symmetric]
    by (auto simp: Let_def make_sack_def word_less_nat_alt min_def word_le_nat_alt simp del: unat_sub_if')
qed

text \<open>C40: Looking for a message above the Cumulative TSN Ack ends: neither walk over the buffered chunks from an arrived one, to the
  first or to the last fragment, takes more steps than the buffer has entries.\<close>

theorem assemble_walks_end:
  assumes "ooo_ok assoc" "tsn \<in> set (omap_keys (tsn_ooo_buffer assoc))"
  shows "walk_chunks assoc arrived (- 1) DATA_FLAG_B DATA_FLAG_E (length (tsn_ooo_buffer assoc)) tsn \<noteq> Exhausted \<and>
    walk_chunks assoc arrived 1 DATA_FLAG_E DATA_FLAG_B (length (tsn_ooo_buffer assoc)) tsn \<noteq> Exhausted"
  using walks_end [of "last_peer_tsn assoc" assoc tsn] assms by (simp add: ooo_ok_def)

theorem assemble_walks_end_witness:
  "walk_chunks example_buffered (example_data_chunk 2 [8]) (- 1) DATA_FLAG_B DATA_FLAG_E 3 2 \<noteq> Exhausted"
proof -
  have "2 \<in> set (omap_keys (tsn_ooo_buffer example_buffered))" "length (tsn_ooo_buffer example_buffered) = 3"
    by (simp_all add: example_buffered_def omap_keys_def)
  then show ?thesis using assemble_walks_end [OF example_buffered_ok, of 2] by simp
qed

text \<open>C38: A stream delivers in order: if the messages of a stream, with consecutive SSNs from the one it expects (wrapping around
  at 65536), complete in any order, none is refused and all are handed up once, in the order of their SSNs, and the
  stream then expects the next SSN with nothing left waiting.\<close>

theorem stream_delivers_in_order:
  assumes "distinct ks" "set ks = {..<N}" "N \<le> 2 ^ 15"
    and "\<not> partial_delivery_open assoc" "omap_ok (<) UNIV (inbound_streams assoc)"
    and "inbound_stream assoc i = \<lparr>is_next_ssn = s0, early = []\<rparr>"
  shows "\<exists>assoc'. order_all i s0 f ks (assoc, delivered) =
      (True, assoc', delivered @ map (message_up i f) [0..<N]) \<and>
    is_next_ssn (inbound_stream assoc' i) = s0 + of_nat N \<and> early (inbound_stream assoc' i) = []"
proof -
  have "stream_state i s0 f delivered {} 0 (assoc, delivered)"
    using assms(4-6) by (simp add: stream_state_def waiting_def)
  from order_all_state [OF this assms(3,1)] assms(2) obtain n assoc' l'
    where r: "order_all i s0 f ks (assoc, delivered) = (True, assoc', l')" "stream_state i s0 f delivered {..<N} n (assoc', l')"
    by auto
  then have n: "n = N" by (auto simp: stream_state_def)
  have "early (inbound_stream assoc' i) = []"
  proof (rule ccontr)
    assume "early (inbound_stream assoc' i) \<noteq> []"
    then obtain ssn b m where e: "early (inbound_stream assoc' i) = (ssn, b) # m" by (metis list.exhaust surj_pair)
    have "omap_find (<) (s0 + of_nat (unat (ssn - s0))) (early (inbound_stream assoc' i)) = None"
      using r(2) n unat_u16_less [of "ssn - s0"] unfolding stream_state_def waiting_def by (auto simp del: unat_sub_if')
    then show False by (simp add: e)
  qed
  then show ?thesis using r n by (simp add: stream_state_def)
qed

theorem stream_delivers_in_order_witness:
  "\<exists>assoc'. order_all 3 0 (\<lambda>k. [of_nat k]) [1, 2, 0] (example_reception, []) =
     (True, assoc', map (message_up 3 (\<lambda>k. [of_nat k])) [0..<3])"
proof -
  have "distinct [1, 2, 0 :: nat]" "set [1, 2, 0] = {..<3 :: nat}" "(3 :: nat) \<le> 2 ^ 15"
    "\<not> partial_delivery_open example_reception" "omap_ok (<) UNIV (inbound_streams example_reception)"
    "inbound_stream example_reception 3 = \<lparr>is_next_ssn = 0, early = []\<rparr>"
    by (auto simp: reception_eval omap_ok_def omap_sorted_def omap_keys_def)
  from stream_delivers_in_order [OF this, of "\<lambda>k. [of_nat k]" "[]"] show ?thesis by auto
qed

end
