(* ===== verification/Congestion.thy ===== *)
theory Congestion
  imports Association Notification_Queue
begin

text \<open>
  What is measured and counted for each path: the round-trip estimator and the retransmission timeout, the
  congestion window with its growth, its reductions and its decay while idle, and the error counter (\<open>src/socket_timers.cpp\<close>,
  \<open>src/socket_event_loop.cpp\<close>, \<open>src/socket_handlers.cpp\<close>).

  The estimator computes in \<open>double\<close> with factors 1/8, 7/8, 1/4 and 3/4 on whole microseconds and truncates; for values
  below \<open>2 ^ 50\<close> microseconds every step is exact, so it is written in integers with a truncating
  division. A function that raises a notification returns it, if any, next to the path.
\<close>

abbreviation (input) RTO_MIN_us :: int where "RTO_MIN_us \<equiv> 1000000"
abbreviation (input) RTO_MAX_us :: int where "RTO_MAX_us \<equiv> 60000000"
abbreviation (input) CLOCK_GRANULARITY_us :: int where "CLOCK_GRANULARITY_us \<equiv> 1000"
abbreviation (input) PATH_MAX_RETRANS :: u16 where "PATH_MAX_RETRANS \<equiv> 5"
abbreviation (input) SLOW_START_INCREASE_PMDCS :: u32 where "SLOW_START_INCREASE_PMDCS \<equiv> 1"

subsection \<open>Retransmission timeout\<close>

definition clamp :: "int \<Rightarrow> int \<Rightarrow> int \<Rightarrow> int" where
  "clamp v lo hi = (if v < lo then lo else if hi < v then hi else v)"

definition update_rto :: "int \<Rightarrow> Peer_Path \<Rightarrow> Peer_Path" where
  "update_rto measurement path0 =
     (let path1 = (if \<not> has_srtt path0
                   then path0\<lparr>srtt := measurement, rttvar := trunc_div measurement 2, has_srtt := True\<rparr>
                   else
                     let deviation = (if srtt path0 > measurement then srtt path0 - measurement else measurement - srtt path0)
                     in path0\<lparr>rttvar := trunc_div (3 * rttvar path0 + deviation) 4,
                              srtt := trunc_div (7 * srtt path0 + measurement) 8\<rparr>);
          path2 = (if rttvar path1 = 0 then path1\<lparr>rttvar := CLOCK_GRANULARITY_us\<rparr> else path1)
      in path2\<lparr>rto := clamp (srtt path2 + rttvar path2 * 4) RTO_MIN_us RTO_MAX_us\<rparr>)"

text \<open>The doubling at every timeout, the same statement in the handlers of T2, T3-rtx and the heartbeat timer.\<close>

definition back_off :: "Peer_Path \<Rightarrow> Peer_Path" where
  "back_off path = path\<lparr>rto := min (rto path * 2) RTO_MAX_us\<rparr>"

subsection \<open>Congestion window\<close>

definition grow_cwnd :: "Association \<Rightarrow> u32 \<Rightarrow> u32 \<Rightarrow> nat \<Rightarrow> Peer_Path \<Rightarrow> Peer_Path" where
  "grow_cwnd assoc bytes_acked duplicate_bytes flight_before path =
     (let cwnd_full = flight_before \<ge> unat (cwnd path) in
      if cwnd path \<le> ssthresh path then
        (if cwnd_full \<and> \<not> in_fast_recovery assoc
         then path\<lparr>cwnd := cwnd path + min bytes_acked (SLOW_START_INCREASE_PMDCS * pmdcs assoc)\<rparr>
         else path)
      else
        let path' = path\<lparr>partial_bytes_acked := partial_bytes_acked path + (bytes_acked + duplicate_bytes)\<rparr>
        in if partial_bytes_acked path' \<ge> cwnd path' \<and> cwnd_full
           then path'\<lparr>partial_bytes_acked := partial_bytes_acked path' - cwnd path', cwnd := cwnd path' + pmdcs assoc\<rparr>
           else if partial_bytes_acked path' > cwnd path'
           then path'\<lparr>partial_bytes_acked := cwnd path'\<rparr>
           else path')"

text \<open>Entering fast recovery, and a T3-rtx expiry that is not a zero window probe.\<close>

definition fast_retransmit_cut :: "Association \<Rightarrow> Peer_Path \<Rightarrow> Peer_Path" where
  "fast_retransmit_cut assoc path =
     (let threshold = max (cwnd path div 2) (4 * pmdcs assoc)
      in path\<lparr>ssthresh := threshold, cwnd := threshold, partial_bytes_acked := 0\<rparr>)"

definition t3_cut :: "Association \<Rightarrow> Peer_Path \<Rightarrow> Peer_Path" where
  "t3_cut assoc path =
     path\<lparr>ssthresh := max (cwnd path div 2) (4 * pmdcs assoc), cwnd := pmdcs assoc, partial_bytes_acked := 0,
          single_packet_in_flight := True\<rparr>"

text \<open>The loop that halves the window once for each period of one RTO without DATA.\<close>

fun decay_loop :: "nat \<Rightarrow> u32 \<Rightarrow> u32 \<Rightarrow> u32" where
  "decay_loop 0 floor w = w"
| "decay_loop (Suc periods) floor w = (if w > floor then decay_loop periods floor (max (w div 2) floor) else w)"

definition decay_idle_cwnd :: "u32 \<Rightarrow> time \<Rightarrow> Peer_Path \<Rightarrow> Peer_Path" where
  "decay_idle_cwnd p now path =
     (if rto path \<le> 0 \<or> now - data_sent_at path < microseconds (rto path) then path
      else
        let periods = trunc_div (now - data_sent_at path) (microseconds (rto path));
            path1 = path\<lparr>data_sent_at := data_sent_at path + periods * microseconds (rto path)\<rparr>;
            floor = 4 * p
        in if cwnd path1 \<le> floor then path1
           else
             let path2 = (if \<not> idle_decaying path1 then path1\<lparr>ssthresh := cwnd path1, idle_decaying := True\<rparr> else path1)
             in path2\<lparr>cwnd := decay_loop (nat periods) floor (cwnd path2)\<rparr>)"

subsection \<open>Error counters\<close>

definition count_path_error :: "Peer_Path \<Rightarrow> Peer_Path \<times> Peer_Addr_State option" where
  "count_path_error path =
     (if active path then
        let path' = path\<lparr>error_count := error_count path + 1\<rparr>
        in if error_count path' > PATH_MAX_RETRANS then (path'\<lparr>active := False\<rparr>, Some ADDR_UNREACHABLE) else (path', None)
      else (path, None))"

definition clear_path_errors :: "Peer_Path \<Rightarrow> Peer_Path \<times> Peer_Addr_State option" where
  "clear_path_errors path =
     (let path' = path\<lparr>error_count := 0\<rparr>
      in if \<not> active path' then (path'\<lparr>active := True\<rparr>, Some ADDR_AVAILABLE) else (path', None))"

subsection \<open>Facts\<close>

definition rto_ok :: "Peer_Path \<Rightarrow> bool" where
  "rto_ok path \<longleftrightarrow> RTO_MIN_us \<le> rto path \<and> rto path \<le> RTO_MAX_us"

lemma update_rto_ok: "rto_ok (update_rto m path)"
  by (simp add: update_rto_def Let_def rto_ok_def clamp_def)

lemma back_off_ok: "rto_ok path \<Longrightarrow> rto_ok (back_off path)"
  by (simp add: back_off_def rto_ok_def)

lemma make_path_rto_ok: "rto_ok (make_path a c p)"
  by (simp add: make_path_def rto_ok_def)

lemma decay_loop_closed:
  "unat (decay_loop n floor w) = (if floor < w then max (unat w div 2 ^ n) (unat floor) else unat w)"
proof (induction n arbitrary: w)
  case 0
  then show ?case by (simp add: word_less_nat_alt)
next
  case (Suc n)
  have half: "unat (max (w div 2) floor) = max (unat w div 2) (unat floor)" by (auto simp: max_def unat_div word_le_nat_alt)
  have "unat w div 2 div 2 ^ n = unat w div 2 ^ Suc n" by (simp add: div_mult2_eq)
  moreover have "unat w div 2 div 2 ^ n \<le> unat w div 2" by (simp add: div_le_dividend)
  moreover have "unat (decay_loop n floor (max (w div 2) floor)) =
      (if unat floor < max (unat w div 2) (unat floor) then max (max (unat w div 2) (unat floor) div 2 ^ n) (unat floor)
       else max (unat w div 2) (unat floor))"
    using Suc.IH [of "max (w div 2) floor"] unfolding word_less_nat_alt half .
  ultimately show ?case by (simp add: word_less_nat_alt max_def)
qed

text \<open>What happens to the timeout of a path, from its creation on.\<close>

datatype rto_event = Measured int | Timed_Out

fun rto_step :: "Peer_Path \<Rightarrow> rto_event \<Rightarrow> Peer_Path" where
  "rto_step path (Measured m) = update_rto m path"
| "rto_step path Timed_Out = back_off path"

lemma rto_step_ok: "rto_ok path \<Longrightarrow> rto_ok (rto_step path e)"
  by (cases e) (simp_all add: update_rto_ok back_off_ok)

text \<open>Consecutive errors of a path, with the notifications they raise.\<close>

fun count_errors :: "nat \<Rightarrow> Peer_Path \<Rightarrow> Peer_Path \<times> Peer_Addr_State list" where
  "count_errors 0 path = (path, [])"
| "count_errors (Suc n) path =
     (case count_errors n path of (path', notes) \<Rightarrow>
        case count_path_error path' of (path'', note) \<Rightarrow>
          (path'', notes @ (case note of None \<Rightarrow> [] | Some s \<Rightarrow> [s])))"

lemma count_errors_spec:
  assumes "active path" "error_count path = 0"
  shows "fst (count_errors n path) = path\<lparr>error_count := of_nat (min n 6), active := n \<le> 5\<rparr> \<and>
    snd (count_errors n path) = (if n \<le> 5 then [] else [ADDR_UNREACHABLE])"
proof (induction n)
  case 0
  then show ?case using assms by (cases path) simp
next
  case (Suc n)
  obtain p l where p: "count_errors n path = (p, l)" by force
  show ?case
  proof (cases "n \<le> 5")
    case True
    then have "unat (of_nat n + 1 :: u16) = n + 1" by (simp add: unat_of_nat unat_word_ariths)
    then have "of_nat n + 1 > (5 :: u16) \<longleftrightarrow> n = 5" using True by (simp add: word_less_nat_alt, linarith)
    then show ?thesis using Suc p True by (auto simp: count_path_error_def Let_def min_def add.commute)
  next
    case False
    then have "min n 6 = 6" "min (Suc n) 6 = 6" by simp_all
    then show ?thesis using Suc p False by (simp add: count_path_error_def)
  qed
qed

subsection \<open>Properties\<close>

text \<open>The retransmission timeout of a path stays between RTO.Min and RTO.Max, whatever round-trip times are measured on it and
  however often it times out.\<close>

theorem rto_within_bounds:
  "rto_ok (foldl rto_step (make_path a is_confirmed p) events)"
proof -
  have "rto_ok path \<Longrightarrow> rto_ok (foldl rto_step path events)" for path
    by (induction events arbitrary: path) (simp_all add: rto_step_ok)
  then show ?thesis using make_path_rto_ok by blast
qed

text \<open>The decay of an idle path's congestion window is the closed form: halved once for every whole RTO without DATA, but
  never below four PMDCS; a window at or below that is left alone, so the decay never raises it.\<close>

theorem idle_decay_closed_form:
  assumes "0 < rto path" "microseconds (rto path) \<le> now - data_sent_at path"
  shows "unat (cwnd (decay_idle_cwnd p now path)) =
    (if 4 * p < cwnd path
     then max (unat (cwnd path) div 2 ^ nat ((now - data_sent_at path) div microseconds (rto path))) (unat (4 * p))
     else unat (cwnd path)) \<and>
    cwnd (decay_idle_cwnd p now path) \<le> cwnd path"
proof -
  have t: "trunc_div (now - data_sent_at path) (microseconds (rto path)) = (now - data_sent_at path) div microseconds (rto path)"
    using assms by (intro trunc_div_nonneg) linarith+
  have "unat (cwnd path) div 2 ^ n \<le> unat (cwnd path)" for n by (rule div_le_dividend)
  then show ?thesis
    using assms by (auto simp: decay_idle_cwnd_def Let_def decay_loop_closed t word_le_nat_alt word_less_nat_alt)
qed

theorem idle_decay_closed_form_witness:
  "unat (cwnd (decay_idle_cwnd 1200 (seconds 3) ((make_path \<lparr>s_addr = 1, sin_port = 9\<rparr> True 1200)\<lparr>cwnd := 50000\<rparr>))) = 6250"
proof -
  let ?path = "(make_path \<lparr>s_addr = 1, sin_port = 9\<rparr> True 1200)\<lparr>cwnd := 50000\<rparr>"
  have h: "0 < rto ?path" "microseconds (rto ?path) \<le> seconds 3 - data_sent_at ?path" by (simp_all add: make_path_def)
  show ?thesis using idle_decay_closed_form [OF h, of 1200] by (simp add: make_path_def)
qed

text \<open>A path is declared unreachable by its sixth consecutive error, not earlier, and the upper layer is told exactly once however
  many more follow.\<close>

theorem path_fails_once:
  assumes "active path" "error_count path = 0"
  shows "active (fst (count_errors n path)) = (n \<le> 5) \<and>
    snd (count_errors n path) = (if n \<le> 5 then [] else [ADDR_UNREACHABLE])"
  using count_errors_spec [OF assms, of n] by simp

theorem path_fails_once_witness:
  "snd (count_errors 8 (make_path \<lparr>s_addr = 1, sin_port = 9\<rparr> True 1200)) = [ADDR_UNREACHABLE]"
  using path_fails_once [of "make_path \<lparr>s_addr = 1, sin_port = 9\<rparr> True 1200" 8] by (simp add: make_path_def)

end
