(* ===== verification/Sack_Processing.thy ===== *)
theory Sack_Processing
  imports Congestion
begin

text \<open>
  What a SACK does to the association, the part of \<open>SCTP_Socket::handle_sack\<close> (\<open>src/socket_handlers.cpp\<close>) that runs
  under the lock: newly acknowledged and reneged DATA, the round-trip measurement, the congestion windows, the missing
  reports with Fast Retransmit and Fast Recovery, the peer's window, and what to do with the T3-rtx timers.

  Each loop over \<open>outstanding_data\<close> is a fold or a map over its entries in order; the vector \<open>acks\<close> has one entry for each
  path. The times and the running T3-rtx timers are arguments. Notifications are collected in order.
\<close>

abbreviation (input) ACKED_RETRANSMISSION_MEMORY :: nat where "ACKED_RETRANSMISSION_MEMORY \<equiv> 64"

subsection \<open>State of one SACK\<close>

record Path_Ack =
  flight_before :: nat
  bytes_acked :: u32
  pa_duplicate_bytes :: u32
  pa_newly_acknowledged :: bool
  have_earliest :: bool
  earliest_tsn :: u32
  pa_reneged :: bool
  pa_fast_retransmitted :: bool

datatype T3_Action = STOP | RESTART_T3 | START

definition new_path_ack :: Path_Ack where
  "new_path_ack = \<lparr>flight_before = 0, bytes_acked = 0, pa_duplicate_bytes = 0, pa_newly_acknowledged = False,
     have_earliest = False, earliest_tsn = 0, pa_reneged = False, pa_fast_retransmitted = False\<rparr>"

definition acks_unsent :: "Association \<Rightarrow> sack_chunk_value \<Rightarrow> bool" where
  "acks_unsent assoc sack =
     (\<not> tsn_lt (sack_cumulative_tsn_ack sack) (next_tsn assoc)
      \<or> list_ex (\<lambda>block. \<not> tsn_lt (sack_cumulative_tsn_ack sack + ucast (gap_end block)) (next_tsn assoc)) (gap_ack_blocks sack))"

subsection \<open>Before the SACK is applied\<close>

text \<open>The flight size of every path, and the earliest TSN sent to it that is not acknowledged.\<close>

definition note_earliest :: "Association \<Rightarrow> Path_Ack list \<Rightarrow> u32 \<times> Outstanding_Data \<Rightarrow> Path_Ack list" where
  "note_earliest assoc acks entry =
     (case entry of (tsn, outstanding) \<Rightarrow>
        if gap_acked outstanding then acks
        else
          let i = destination_of assoc outstanding; ack = acks ! i
          in if \<not> have_earliest ack
                \<or> tsn - cumulative_tsn_ack assoc < earliest_tsn ack - cumulative_tsn_ack assoc
             then acks[i := ack\<lparr>have_earliest := True, earliest_tsn := tsn\<rparr>] else acks)"

definition initial_acks :: "Association \<Rightarrow> Path_Ack list" where
  "initial_acks assoc =
     foldl (note_earliest assoc)
       (map (\<lambda>i. new_path_ack\<lparr>flight_before := bytes_in_flight assoc (Some i)\<rparr>) [0..<length (peer_address_list assoc)])
       (outstanding_data assoc)"

text \<open>The highest TSN newly acknowledged, and the highest reported at all.\<close>

definition note_highest ::
    "sack_chunk_value \<Rightarrow> (u32 option \<times> u32 option) \<Rightarrow> u32 \<times> Outstanding_Data \<Rightarrow> u32 option \<times> u32 option" where
  "note_highest sack state entry =
     (case (state, entry) of ((htna, highest_reported), (tsn, outstanding)) \<Rightarrow>
        let acknowledged = sack_acknowledges sack tsn
        in (if acknowledged \<and> \<not> gap_acked outstanding \<and> (case htna of None \<Rightarrow> True | Some h \<Rightarrow> tsn_gt tsn h) then Some tsn else htna,
            if acknowledged \<and> (case highest_reported of None \<Rightarrow> True | Some h \<Rightarrow> tsn_gt tsn h) then Some tsn else highest_reported))"

subsection \<open>Applying the acknowledgements\<close>

record Sack_Run =
  sr_assoc :: Association
  sr_acks :: "Path_Ack list"
  sr_newly_acknowledged :: bool
  sr_reneged :: "u32 list"
  sr_kept :: "(u32, Outstanding_Data) omap"

text \<open>A chunk acknowledged for the first time: its bytes count for its path, and it may end the round-trip measurement.\<close>

definition newly_ack :: "time \<Rightarrow> u32 \<Rightarrow> Outstanding_Data \<Rightarrow> Sack_Run \<Rightarrow> Sack_Run" where
  "newly_ack now tsn outstanding run =
     (let assoc = sr_assoc run;
          i = destination_of assoc outstanding;
          ack = sr_acks run ! i;
          run1 = run\<lparr>sr_newly_acknowledged := True,
                     sr_acks := (sr_acks run)[i := ack\<lparr>pa_newly_acknowledged := True,
                       bytes_acked := bytes_acked ack + of_nat (data_chunk_wire_size (od_data outstanding))\<rparr>]\<rparr>
      in if has_rtt_measurement_tsn assoc \<and> tsn = rtt_measurement_tsn assoc \<and> \<not> retransmitted outstanding
         then run1\<lparr>sr_assoc := assoc\<lparr>
                has_rtt_measurement_tsn := False,
                peer_address_list := (peer_address_list assoc)
                  [i := update_rto (trunc_div (now - first_sent outstanding) 1000) (peer_address_list assoc ! i)]\<rparr>\<rparr>
         else run1)"

text \<open>Retransmitted chunks that leave are remembered, the oldest forgotten first.\<close>

definition remember_retransmission :: "u32 \<Rightarrow> Outstanding_Data \<Rightarrow> Association \<Rightarrow> Association" where
  "remember_retransmission tsn outstanding assoc =
     (if retransmitted outstanding then
        let acked = acked_retransmissions assoc @
              [\<lparr>ar_tsn = tsn, ar_size = of_nat (data_chunk_wire_size (od_data outstanding)), ar_destination = od_destination outstanding\<rparr>]
        in assoc\<lparr>acked_retransmissions := (if length acked > ACKED_RETRANSMISSION_MEMORY then tl acked else acked)\<rparr>
      else assoc)"

definition apply_ack :: "sack_chunk_value \<Rightarrow> time \<Rightarrow> Sack_Run \<Rightarrow> u32 \<times> Outstanding_Data \<Rightarrow> Sack_Run" where
  "apply_ack sack now run0 entry =
     (case entry of (tsn, outstanding) \<Rightarrow>
        let acknowledged = sack_acknowledges sack tsn;
            run = (if acknowledged \<and> \<not> gap_acked outstanding then newly_ack now tsn outstanding run0 else run0)
        in if tsn_lte tsn (sack_cumulative_tsn_ack sack)
           then run\<lparr>sr_assoc := remember_retransmission tsn outstanding (sr_assoc run)\<rparr>
           else if acknowledged
           then run\<lparr>sr_kept := sr_kept run @ [(tsn, outstanding\<lparr>gap_acked := True, pending_retransmission := False\<rparr>)]\<rparr>
           else if gap_acked outstanding
           then let i = destination_of (sr_assoc run) outstanding
                in run\<lparr>sr_acks := (sr_acks run)[i := (sr_acks run ! i)\<lparr>pa_reneged := True\<rparr>],
                       sr_reneged := sr_reneged run @ [tsn],
                       sr_kept := sr_kept run @ [(tsn, outstanding\<lparr>gap_acked := False,
                         missing_reports := (if fast_retransmitted outstanding then missing_reports outstanding
                                             else missing_reports outstanding + 1)\<rparr>)]\<rparr>
           else run\<lparr>sr_kept := sr_kept run @ [(tsn, outstanding)]\<rparr>)"

definition apply_acks :: "sack_chunk_value \<Rightarrow> time \<Rightarrow> Association \<Rightarrow> Sack_Run" where
  "apply_acks sack now assoc =
     (let run = foldl (apply_ack sack now)
                  \<lparr>sr_assoc = assoc, sr_acks = initial_acks assoc, sr_newly_acknowledged = False, sr_reneged = [], sr_kept = []\<rparr>
                  (outstanding_data assoc)
      in run\<lparr>sr_assoc := (sr_assoc run)\<lparr>outstanding_data := sr_kept run,
               cumulative_tsn_ack := sack_cumulative_tsn_ack sack\<rparr>\<rparr>)"

text \<open>Duplicate TSN reports, counted for the path their chunk was sent to; a remembered chunk is forgotten once matched.
  The total, which no caller uses, is left out.\<close>

fun erase_retransmission :: "u32 \<Rightarrow> Acked_Retransmission list \<Rightarrow> Acked_Retransmission list" where
  "erase_retransmission tsn [] = []"
| "erase_retransmission tsn (e # es) = (if ar_tsn e = tsn then es else e # erase_retransmission tsn es)"

definition add_duplicate :: "sockaddr_in \<Rightarrow> u32 \<Rightarrow> Association \<times> u32 list \<Rightarrow> Association \<times> u32 list" where
  "add_duplicate destination chunk_size state =
     (case state of (assoc, per_path) \<Rightarrow>
        let i = (case find_path assoc destination of Some i \<Rightarrow> i | None \<Rightarrow> primary assoc)
        in (assoc, per_path[i := per_path ! i + chunk_size]))"

definition duplicate_report :: "Association \<times> u32 list \<Rightarrow> u32 \<Rightarrow> Association \<times> u32 list" where
  "duplicate_report state tsn =
     (case state of (assoc, per_path) \<Rightarrow>
        case omap_find tsn_lt tsn (outstanding_data assoc) of
          Some outstanding \<Rightarrow>
            add_duplicate (od_destination outstanding) (of_nat (data_chunk_wire_size (od_data outstanding))) (assoc, per_path)
        | None \<Rightarrow>
            (case find (\<lambda>e. ar_tsn e = tsn) (acked_retransmissions assoc) of
               None \<Rightarrow> (assoc, per_path)
             | Some e \<Rightarrow>
                 add_duplicate (ar_destination e) (ar_size e)
                   (assoc\<lparr>acked_retransmissions := erase_retransmission tsn (acked_retransmissions assoc)\<rparr>, per_path)))"

definition duplicate_bytes :: "Association \<Rightarrow> sack_chunk_value \<Rightarrow> u32 list \<Rightarrow> Association \<times> u32 list" where
  "duplicate_bytes assoc sack per_path = foldl duplicate_report (assoc, per_path) (sack_duplicate_tsns sack)"

subsection \<open>Congestion windows\<close>

text \<open>The loop over the paths; \<open>acks\<close> and \<open>duplicates\<close> have an entry for each.\<close>

definition update_path ::
    "Path_Ack list \<Rightarrow> u32 list \<Rightarrow> Association \<times> (sockaddr_in \<times> Peer_Addr_State) list \<Rightarrow> nat \<Rightarrow>
     Association \<times> (sockaddr_in \<times> Peer_Addr_State) list" where
  "update_path acks duplicates state i =
     (case state of (assoc, notes) \<Rightarrow>
        let ack = acks ! i;
            path0 = path_at assoc i;
            (path1, note) = (if pa_newly_acknowledged ack
                             then (case clear_path_errors path0 of (p, n) \<Rightarrow> (p\<lparr>single_packet_in_flight := False\<rparr>, n))
                             else (path0, None));
            path2 = (if pa_newly_acknowledged ack \<or> duplicates ! i > 0
                     then grow_cwnd assoc (bytes_acked ack) (duplicates ! i) (flight_before ack) path1 else path1);
            sent_here = list_ex (\<lambda>(tsn, outstanding). destination_of assoc outstanding = i) (outstanding_data assoc);
            path3 = (if \<not> sent_here then path2\<lparr>partial_bytes_acked := 0\<rparr> else path2)
        in (assoc\<lparr>peer_address_list := (peer_address_list assoc)[i := path3]\<rparr>,
            notes @ (case note of None \<Rightarrow> [] | Some st \<Rightarrow> [(address path0, st)])))"

definition update_paths ::
    "Path_Ack list \<Rightarrow> u32 list \<Rightarrow> Association \<Rightarrow> Association \<times> (sockaddr_in \<times> Peer_Addr_State) list" where
  "update_paths acks duplicates assoc =
     foldl (update_path acks duplicates) (assoc, []) [0..<length (peer_address_list assoc)]"

subsection \<open>Missing reports and Fast Retransmit\<close>

definition is_missing :: "Association \<Rightarrow> bool \<Rightarrow> u32 option \<Rightarrow> u32 option \<Rightarrow> u32 \<Rightarrow> bool" where
  "is_missing assoc advanced htna highest_reported tsn =
     (if in_fast_recovery assoc \<and> advanced
      then (case highest_reported of None \<Rightarrow> False | Some h \<Rightarrow> tsn_lt tsn h)
      else (case htna of None \<Rightarrow> False | Some h \<Rightarrow> tsn_lt tsn h))"

text \<open>One chunk: whether it is reported missing, and whether it has now been so three times.\<close>

definition count_missing ::
    "Association \<Rightarrow> bool \<Rightarrow> u32 option \<Rightarrow> u32 option \<Rightarrow> u32 list \<Rightarrow> u32 \<times> Outstanding_Data \<Rightarrow> u32 \<times> Outstanding_Data" where
  "count_missing assoc advanced htna highest_reported reneged entry =
     (case entry of (tsn, outstanding) \<Rightarrow>
        if gap_acked outstanding \<or> fast_retransmitted outstanding then entry
        else
          let o1 = (if is_missing assoc advanced htna highest_reported tsn \<and> tsn \<notin> set reneged
                    then outstanding\<lparr>missing_reports := missing_reports outstanding + 1\<rparr> else outstanding)
          in (tsn, if missing_reports o1 \<ge> 3 then o1\<lparr>fast_retransmitted := True, pending_retransmission := True\<rparr> else o1))"

definition newly_fast :: "u32 \<times> Outstanding_Data \<Rightarrow> u32 \<times> Outstanding_Data \<Rightarrow> bool" where
  "newly_fast before after = (\<not> fast_retransmitted (snd before) \<and> fast_retransmitted (snd after))"

definition note_fast :: "Association \<Rightarrow> Path_Ack list \<Rightarrow> (u32 \<times> Outstanding_Data) \<times> (u32 \<times> Outstanding_Data) \<Rightarrow> Path_Ack list" where
  "note_fast assoc acks change =
     (case change of (before, after) \<Rightarrow>
        if newly_fast before after
        then let i = destination_of assoc (snd after) in acks[i := (acks ! i)\<lparr>pa_fast_retransmitted := True\<rparr>]
        else acks)"

text \<open>Entering Fast Recovery cuts the window of every path a chunk is fast retransmitted on; the recovery ends once everything
  outstanding at its start is acknowledged.\<close>

definition cut_paths :: "Association \<Rightarrow> Path_Ack list \<Rightarrow> Peer_Path list" where
  "cut_paths assoc acks =
     map (\<lambda>i. if pa_fast_retransmitted (acks ! i) then fast_retransmit_cut assoc (path_at assoc i) else path_at assoc i)
       [0..<length (peer_address_list assoc)]"

definition enter_fast_recovery :: "bool \<Rightarrow> Path_Ack list \<Rightarrow> Association \<Rightarrow> Association \<times> bool" where
  "enter_fast_recovery scheduled acks assoc =
     (if scheduled \<and> \<not> in_fast_recovery assoc then
        let assoc1 = assoc\<lparr>peer_address_list := cut_paths assoc acks\<rparr>
        in if outstanding_data assoc1 \<noteq> []
           then (assoc1\<lparr>in_fast_recovery := True, fast_recovery_exit_tsn := fst (last (outstanding_data assoc1))\<rparr>, True)
           else (assoc1, False)
      else (assoc, False))"

definition leave_fast_recovery :: "sack_chunk_value \<Rightarrow> Association \<Rightarrow> Association" where
  "leave_fast_recovery sack assoc =
     (if in_fast_recovery assoc \<and> tsn_gte (sack_cumulative_tsn_ack sack) (fast_recovery_exit_tsn assoc)
      then assoc\<lparr>in_fast_recovery := False\<rparr> else assoc)"

subsection \<open>The next round-trip measurement\<close>

definition measurable :: "Association \<Rightarrow> u32 \<times> Outstanding_Data \<Rightarrow> bool" where
  "measurable assoc entry =
     (case entry of (tsn, outstanding) \<Rightarrow>
        \<not> gap_acked outstanding \<and> \<not> retransmitted outstanding
        \<and> \<not> list_ex (\<lambda>(other_tsn, other). retransmitted other \<and> tsn_lte other_tsn tsn \<and> last_sent other \<ge> first_sent outstanding)
             (outstanding_data assoc))"

definition nearer :: "Association \<Rightarrow> u32 option \<Rightarrow> u32 \<times> Outstanding_Data \<Rightarrow> u32 option" where
  "nearer assoc candidate entry =
     (if measurable assoc entry
         \<and> (case candidate of None \<Rightarrow> True
            | Some c \<Rightarrow> fst entry - cumulative_tsn_ack assoc < c - cumulative_tsn_ack assoc)
      then Some (fst entry) else candidate)"

definition choose_measurement :: "Association \<Rightarrow> Association" where
  "choose_measurement assoc =
     (if has_rtt_measurement_tsn assoc then assoc
      else case foldl (nearer assoc) None (outstanding_data assoc) of
             None \<Rightarrow> assoc
           | Some tsn \<Rightarrow> assoc\<lparr>has_rtt_measurement_tsn := True, rtt_measurement_tsn := tsn\<rparr>)"

subsection \<open>Flow control and timers\<close>

definition update_peer_rwnd :: "sack_chunk_value \<Rightarrow> Association \<Rightarrow> Association" where
  "update_peer_rwnd sack assoc =
     (let flight = bytes_in_flight assoc None
      in assoc\<lparr>peer_rwnd := (if flight \<ge> unat (sack_a_rwnd sack) then 0 else sack_a_rwnd sack - of_nat flight),
               peer_max_rwnd := max (peer_max_rwnd assoc) (sack_a_rwnd sack),
               sack_since_t3 := True,
               zero_window_probing := (if sack_a_rwnd sack > 0 then False else zero_window_probing assoc)\<rparr>)"

definition t3_action ::
    "(sockaddr_in \<Rightarrow> bool) \<Rightarrow> sack_chunk_value \<Rightarrow> bool \<Rightarrow> Path_Ack list \<Rightarrow> Association \<Rightarrow> nat \<Rightarrow> (sockaddr_in \<times> T3_Action) list" where
  "t3_action t3_active sack scheduled acks assoc i =
     (let ack = acks ! i; path = path_at assoc i;
          retransmits_earliest = (scheduled \<and> have_earliest ack \<and>
            (case omap_find tsn_lt (earliest_tsn ack) (outstanding_data assoc) of
               None \<Rightarrow> False | Some outstanding \<Rightarrow> pending_retransmission outstanding))
      in if \<not> has_unacknowledged_data_on assoc i
         then (if t3_active (address path) then [(address path, STOP)] else [])
         else if (have_earliest ack \<and> sack_acknowledges sack (earliest_tsn ack)) \<or> retransmits_earliest
         then [(address path, RESTART_T3)]
         else if pa_reneged ack then [(address path, START)] else [])"

record Sack_Outcome =
  so_assoc :: Association
  so_notes :: "(sockaddr_in \<times> Peer_Addr_State) list"
  so_entered_fast_recovery :: bool
  so_t3_actions :: "(sockaddr_in \<times> T3_Action) list"

text \<open>The part of \<open>handle_sack\<close> under the lock, for a SACK that is not older than the last.\<close>

definition process_sack :: "sack_chunk_value \<Rightarrow> time \<Rightarrow> (sockaddr_in \<Rightarrow> bool) \<Rightarrow> Association \<Rightarrow> Sack_Outcome" where
  "process_sack sack now t3_active assoc0 =
     (let advanced = tsn_gt (sack_cumulative_tsn_ack sack) (cumulative_tsn_ack assoc0);
          (htna, highest_reported) = foldl (note_highest sack) (None, None) (outstanding_data assoc0);
          run = apply_acks sack now assoc0;
          (assoc1, duplicates) = duplicate_bytes (sr_assoc run) sack (replicate (length (peer_address_list assoc0)) 0);
          assoc2 = (if sr_newly_acknowledged run then assoc1\<lparr>assoc_error_count := 0\<rparr> else assoc1);
          (assoc3, notes) = update_paths (sr_acks run) duplicates assoc2;
          counted = map (count_missing assoc3 advanced htna highest_reported (sr_reneged run)) (outstanding_data assoc3);
          changes = zip (outstanding_data assoc3) counted;
          scheduled = list_ex (\<lambda>(before, after). newly_fast before after) changes;
          acks = foldl (note_fast assoc3) (sr_acks run) changes;
          (assoc4, entered) = enter_fast_recovery scheduled acks (assoc3\<lparr>outstanding_data := counted\<rparr>);
          assoc5 = update_peer_rwnd sack (choose_measurement (leave_fast_recovery sack assoc4))
      in \<lparr>so_assoc = assoc5, so_notes = notes, so_entered_fast_recovery = entered,
          so_t3_actions = concat (map (t3_action t3_active sack scheduled acks assoc5) [0..<length (peer_address_list assoc5)])\<rparr>)"

subsection \<open>What the acknowledgements leave\<close>

text \<open>What of an entry matters to the peer: its TSN, its data and whether it is gap acknowledged.\<close>

abbreviation entry_view :: "u32 \<times> Outstanding_Data \<Rightarrow> u32 \<times> data_chunk_value \<times> bool" where
  "entry_view e \<equiv> (fst e, od_data (snd e), gap_acked (snd e))"

lemma newly_ack_kept [simp]: "sr_kept (newly_ack now tsn out run) = sr_kept run"
  by (simp add: newly_ack_def Let_def)

lemma apply_ack_kept:
  "map entry_view (sr_kept (apply_ack sack now run e)) = map entry_view (sr_kept run) @
     (if tsn_lte (fst e) (sack_cumulative_tsn_ack sack) then [] else [(fst e, od_data (snd e), sack_acknowledges sack (fst e))])"
  by (cases e) (simp add: apply_ack_def Let_def)

lemma apply_ack_fold_kept:
  "map entry_view (sr_kept (foldl (apply_ack sack now) run es)) = map entry_view (sr_kept run) @
     map (\<lambda>e. (fst e, od_data (snd e), sack_acknowledges sack (fst e)))
       (filter (\<lambda>e. \<not> tsn_lte (fst e) (sack_cumulative_tsn_ack sack)) es)"
proof (induction es arbitrary: run)
  case (Cons e es)
  show ?case using Cons.IH [of "apply_ack sack now run e"] by (simp add: apply_ack_kept)
qed simp

lemma apply_acks_kept:
  "map entry_view (outstanding_data (sr_assoc (apply_acks sack now assoc))) =
     map (\<lambda>e. (fst e, od_data (snd e), sack_acknowledges sack (fst e)))
       (filter (\<lambda>e. \<not> tsn_lte (fst e) (sack_cumulative_tsn_ack sack)) (outstanding_data assoc))"
  by (simp add: apply_acks_def Let_def apply_ack_fold_kept)

text \<open>What an operation on the association may do to its paths: nothing but change their state.\<close>

definition paths_step :: "(Peer_Path \<Rightarrow> Peer_Path \<Rightarrow> bool) \<Rightarrow> Association \<Rightarrow> Association \<Rightarrow> bool" where
  "paths_step R a b \<longleftrightarrow>
     list_all2 (\<lambda>p q. address q = address p \<and> R p q) (peer_address_list a) (peer_address_list b)
     \<and> pmdcs b = pmdcs a \<and> primary_path b = primary_path a"

definition same_cwnd :: "Peer_Path \<Rightarrow> Peer_Path \<Rightarrow> bool" where
  "same_cwnd p q \<longleftrightarrow> cwnd q = cwnd p"

lemma list_all2_update:
  assumes "\<And>x. R x x" "i < length xs \<Longrightarrow> R (xs ! i) y"
  shows "list_all2 R xs (xs[i := y])"
  unfolding list_all2_conv_all_nth
proof (intro conjI allI impI)
  fix j assume "j < length xs"
  then show "R (xs ! j) (xs[i := y] ! j)" using assms by (cases "j = i") auto
qed simp

lemma paths_step_refl [simp]: "(\<And>p. R p p) \<Longrightarrow> paths_step R a a"
  by (simp add: paths_step_def list_all2_refl)

lemma paths_step_trans:
  assumes "paths_step R a b" "paths_step S b c" "\<And>p q r. R p q \<Longrightarrow> S q r \<Longrightarrow> T p r"
  shows "paths_step T a c"
  using assms unfolding paths_step_def by (auto simp: list_all2_conv_all_nth)

lemma paths_step_eq:
  "peer_address_list b = peer_address_list a \<Longrightarrow> pmdcs b = pmdcs a \<Longrightarrow> primary_path b = primary_path a \<Longrightarrow> (\<And>p. R p p) \<Longrightarrow>
   paths_step R a b"
  by (simp add: paths_step_def list_all2_refl)

lemma same_cwnd_refl [simp]: "same_cwnd p p"
  by (simp add: same_cwnd_def)

lemma same_cwnd_trans: "same_cwnd p q \<Longrightarrow> same_cwnd q r \<Longrightarrow> same_cwnd p r"
  by (simp add: same_cwnd_def)

lemma update_rto_same [simp]: "address (update_rto m p) = address p" "cwnd (update_rto m p) = cwnd p"
  by (simp_all add: update_rto_def Let_def)

lemma newly_ack_step: "paths_step same_cwnd (sr_assoc run) (sr_assoc (newly_ack now tsn out run))"
  by (auto simp: newly_ack_def Let_def paths_step_def same_cwnd_def intro: list_all2_refl list_all2_update)

lemma apply_ack_step: "paths_step same_cwnd (sr_assoc run) (sr_assoc (apply_ack sack now run e))"
proof -
  have "paths_step same_cwnd a (remember_retransmission tsn out b)" if "paths_step same_cwnd a b" for a b tsn out
    using that by (simp add: remember_retransmission_def Let_def paths_step_def)
  then show ?thesis by (cases e) (simp add: apply_ack_def Let_def newly_ack_step)
qed

lemma apply_acks_step: "paths_step same_cwnd assoc (sr_assoc (apply_acks sack now assoc))"
proof -
  have "paths_step same_cwnd (sr_assoc run) (sr_assoc (foldl (apply_ack sack now) run es))" for run es
  proof (induction es arbitrary: run)
    case (Cons e es)
    show ?case
      using paths_step_trans [OF apply_ack_step [of run sack now e] Cons.IH [of "apply_ack sack now run e"] same_cwnd_trans]
      by simp
  qed simp
  from this [of "\<lparr>sr_assoc = assoc, sr_acks = initial_acks assoc, sr_newly_acknowledged = False, sr_reneged = [], sr_kept = []\<rparr>"
      "outstanding_data assoc"]
  show ?thesis by (simp add: apply_acks_def Let_def paths_step_def)
qed

lemma duplicate_bytes_frame:
  "\<exists>l. fst (duplicate_bytes assoc sack per_path) = assoc\<lparr>acked_retransmissions := l\<rparr>"
proof -
  have "\<exists>l. fst (foldl duplicate_report (a, per_path) ts) = a\<lparr>acked_retransmissions := l\<rparr>" for a per_path ts
  proof (induction ts arbitrary: a per_path)
    case Nil
    show ?case by (intro exI [of _ "acked_retransmissions a"]) simp
  next
    case (Cons t ts)
    obtain b q where b: "duplicate_report (a, per_path) t = (b, q)" by force
    then have "\<exists>l. b = a\<lparr>acked_retransmissions := l\<rparr>"
      by (auto simp: duplicate_report_def add_duplicate_def Let_def split: option.splits
          intro: exI [of _ "acked_retransmissions a"])
    then show ?case using Cons.IH [of b q] b by auto
  qed
  then show ?thesis by (simp add: duplicate_bytes_def)
qed

subsection \<open>How far a window moves\<close>

lemma unat_plus_le: "unat (a + b :: u32) \<le> unat a + unat b"
  by (simp add: unat_word_ariths)

definition grows_by :: "u32 \<Rightarrow> Peer_Path \<Rightarrow> Peer_Path \<Rightarrow> bool" where
  "grows_by p a b \<longleftrightarrow> unat (cwnd b) \<le> unat (cwnd a) + unat p"

lemma grow_cwnd_bound:
  "address (grow_cwnd assoc n d fl path) = address path" "grows_by (pmdcs assoc) path (grow_cwnd assoc n d fl path)"
proof -
  have "unat (cwnd path + min n (pmdcs assoc)) \<le> unat (cwnd path) + unat (pmdcs assoc)"
    using unat_plus_le [of "cwnd path" "min n (pmdcs assoc)"] by (auto simp: min_def word_le_nat_alt split: if_splits)
  then show "grows_by (pmdcs assoc) path (grow_cwnd assoc n d fl path)"
    using unat_plus_le [of "cwnd path" "pmdcs assoc"] by (simp add: grow_cwnd_def Let_def grows_by_def)
qed (simp add: grow_cwnd_def Let_def)

lemma clear_path_errors_same [simp]:
  "address (fst (clear_path_errors p)) = address p" "cwnd (fst (clear_path_errors p)) = cwnd p"
  by (simp_all add: clear_path_errors_def Let_def)

text \<open>The loop over the paths handles each index once.\<close>

lemma update_path_at:
  "\<exists>q nt. update_path acks dups (assoc, nts) i = (assoc\<lparr>peer_address_list := (peer_address_list assoc)[i := q]\<rparr>, nts @ nt) \<and>
     address q = address (path_at assoc i) \<and> grows_by (pmdcs assoc) (path_at assoc i) q"
proof -
  let ?ack = "acks ! i"
  obtain p n where p: "(if pa_newly_acknowledged ?ack
      then (case clear_path_errors (path_at assoc i) of (p, n) \<Rightarrow> (p\<lparr>single_packet_in_flight := False\<rparr>, n))
      else (path_at assoc i, None)) = (p, n)" by force
  then have pp: "address p = address (path_at assoc i)" "cwnd p = cwnd (path_at assoc i)"
    by (auto simp: case_prod_unfold split: if_splits)
  define q where "q = (if pa_newly_acknowledged ?ack \<or> dups ! i > 0
      then grow_cwnd assoc (bytes_acked ?ack) (dups ! i) (flight_before ?ack) p else p)"
  have q: "address q = address (path_at assoc i)" "grows_by (pmdcs assoc) (path_at assoc i) q"
    using grow_cwnd_bound(2) [of assoc p "bytes_acked ?ack" "dups ! i" "flight_before ?ack"] pp
    by (auto simp: q_def grows_by_def grow_cwnd_bound(1))
  show ?thesis
    unfolding update_path_def Let_def prod.case p q_def [symmetric]
    by (intro exI conjI, rule refl) (use q in \<open>simp_all add: grows_by_def\<close>)
qed

lemma update_paths_frame:
  "\<exists>ps. fst (update_paths acks dups assoc) = assoc\<lparr>peer_address_list := ps\<rparr> \<and>
     list_all2 (\<lambda>p q. address q = address p \<and> grows_by (pmdcs assoc) p q) (peer_address_list assoc) ps"
proof -
  have "\<exists>ps nts. foldl (update_path acks dups) (assoc, []) [0..<n] = (assoc\<lparr>peer_address_list := ps\<rparr>, nts) \<and>
      length ps = length (peer_address_list assoc) \<and>
      (\<forall>j < length ps. address (ps ! j) = address (path_at assoc j) \<and>
         (if j < n then grows_by (pmdcs assoc) (path_at assoc j) (ps ! j) else ps ! j = path_at assoc j))"
    if "n \<le> length (peer_address_list assoc)" for n
    using that
  proof (induction n)
    case 0
    then show ?case by (intro exI [of _ "peer_address_list assoc"] exI [of _ "[]"]) simp
  next
    case (Suc n)
    then obtain ps nts where ps: "foldl (update_path acks dups) (assoc, []) [0..<n] = (assoc\<lparr>peer_address_list := ps\<rparr>, nts)"
      "length ps = length (peer_address_list assoc)"
      "\<forall>j < length ps. address (ps ! j) = address (path_at assoc j) \<and>
         (if j < n then grows_by (pmdcs assoc) (path_at assoc j) (ps ! j) else ps ! j = path_at assoc j)" by auto
    obtain q nt where q: "update_path acks dups (assoc\<lparr>peer_address_list := ps\<rparr>, nts) n =
        (assoc\<lparr>peer_address_list := ps[n := q]\<rparr>, nts @ nt)" "address q = address (ps ! n)" "grows_by (pmdcs assoc) (ps ! n) q"
      using update_path_at [of acks dups "assoc\<lparr>peer_address_list := ps\<rparr>" nts n] by auto
    have "ps ! n = path_at assoc n" using ps(2,3) Suc.prems by auto
    then have "\<forall>j < length (ps[n := q]). address (ps[n := q] ! j) = address (path_at assoc j) \<and>
        (if j < Suc n then grows_by (pmdcs assoc) (path_at assoc j) (ps[n := q] ! j) else ps[n := q] ! j = path_at assoc j)"
      using ps(3) q(2,3) by (auto simp: nth_list_update less_Suc_eq)
    moreover have "foldl (update_path acks dups) (assoc, []) [0..<Suc n] = (assoc\<lparr>peer_address_list := ps[n := q]\<rparr>, nts @ nt)"
      using ps(1) q(1) by simp
    moreover have "length (ps[n := q]) = length (peer_address_list assoc)" using ps(2) by simp
    ultimately show ?case by blast
  qed
  from this [OF order_refl] show ?thesis
    by (auto simp: update_paths_def list_all2_conv_all_nth)
qed

lemma count_missing_view: "entry_view (count_missing assoc advanced htna hr reneged e) = entry_view e"
  by (cases e) (simp add: count_missing_def Let_def)

text \<open>At most one PMDCS more, or four of them after a Fast Retransmit.\<close>

definition window_step :: "u32 \<Rightarrow> Peer_Path \<Rightarrow> Peer_Path \<Rightarrow> bool" where
  "window_step p a b \<longleftrightarrow> unat (cwnd b) \<le> max (unat (cwnd a) + unat p) (unat (4 * p))"

lemma cut_paths_step:
  "list_all2 (\<lambda>p q. address q = address p \<and> unat (cwnd q) \<le> max (unat (cwnd p)) (unat (4 * pmdcs assoc)))
     (peer_address_list assoc) (cut_paths assoc acks)"
proof -
  have "unat (max (w div 2) f) \<le> max (unat w) (unat f)" for w f :: u32
    by (auto simp: max_def unat_div word_le_nat_alt)
  then show ?thesis by (auto simp: cut_paths_def list_all2_conv_all_nth fast_retransmit_cut_def Let_def)
qed

lemma enter_fast_recovery_frame:
  "outstanding_data (fst (enter_fast_recovery s acks a)) = outstanding_data a"
  "pmdcs (fst (enter_fast_recovery s acks a)) = pmdcs a"
  "list_all2 (\<lambda>p q. address q = address p \<and> unat (cwnd q) \<le> max (unat (cwnd p)) (unat (4 * pmdcs a)))
     (peer_address_list a) (peer_address_list (fst (enter_fast_recovery s acks a)))"
  using cut_paths_step [of a acks] by (auto simp: enter_fast_recovery_def Let_def intro: list_all2_refl)

lemma tail_frame:
  "outstanding_data (update_peer_rwnd sack (choose_measurement (leave_fast_recovery sack a))) = outstanding_data a"
  "peer_address_list (update_peer_rwnd sack (choose_measurement (leave_fast_recovery sack a))) = peer_address_list a"
  by (simp_all add: update_peer_rwnd_def Let_def choose_measurement_def leave_fast_recovery_def split: option.splits)

text \<open>The stages of \<open>process_sack\<close> between the acknowledgements and the end.\<close>

lemma process_sack_stages:
  "\<exists>a3 scheduled acks adv htna hr.
     (\<exists>l e ps. a3 = (sr_assoc (apply_acks sack now assoc))\<lparr>acked_retransmissions := l, assoc_error_count := e, peer_address_list := ps\<rparr> \<and>
        list_all2 (\<lambda>p q. address q = address p \<and> grows_by (pmdcs (sr_assoc (apply_acks sack now assoc))) p q)
          (peer_address_list (sr_assoc (apply_acks sack now assoc))) ps) \<and>
     so_assoc (process_sack sack now t3 assoc) =
       update_peer_rwnd sack (choose_measurement (leave_fast_recovery sack (fst (enter_fast_recovery scheduled acks
         (a3\<lparr>outstanding_data := map (count_missing a3 adv htna hr (sr_reneged (apply_acks sack now assoc))) (outstanding_data a3)\<rparr>)))))"
proof -
  let ?run = "apply_acks sack now assoc"
  let ?d = "duplicate_bytes (sr_assoc ?run) sack (replicate (length (peer_address_list assoc)) 0)"
  obtain l where l: "fst ?d = (sr_assoc ?run)\<lparr>acked_retransmissions := l\<rparr>" using duplicate_bytes_frame by blast
  define a2 where "a2 = (if sr_newly_acknowledged ?run then (fst ?d)\<lparr>assoc_error_count := 0\<rparr> else fst ?d)"
  obtain e where a2: "a2 = (sr_assoc ?run)\<lparr>acked_retransmissions := l, assoc_error_count := e\<rparr>"
  proof (cases "sr_newly_acknowledged ?run")
    case True
    then show ?thesis using that [of 0] by (simp add: a2_def l)
  next
    case False
    then show ?thesis using that [of "assoc_error_count (sr_assoc ?run)"] by (simp add: a2_def l)
  qed
  let ?u = "update_paths (sr_acks ?run) (snd ?d) a2"
  obtain ps where ps: "fst ?u = a2\<lparr>peer_address_list := ps\<rparr>"
    "list_all2 (\<lambda>p q. address q = address p \<and> grows_by (pmdcs a2) p q) (peer_address_list a2) ps"
    using update_paths_frame by blast
  have "\<exists>l e ps. fst ?u = (sr_assoc ?run)\<lparr>acked_retransmissions := l, assoc_error_count := e, peer_address_list := ps\<rparr> \<and>
        list_all2 (\<lambda>p q. address q = address p \<and> grows_by (pmdcs (sr_assoc ?run)) p q) (peer_address_list (sr_assoc ?run)) ps"
    using ps by (intro exI [of _ l] exI [of _ e] exI [of _ ps]) (simp add: a2)
  note frame = this
  show ?thesis
    apply (rule exI)+
    apply (rule conjI)
     prefer 2
     apply (unfold process_sack_def Let_def case_prod_unfold a2_def [symmetric] Sack_Outcome.select_convs)
     apply (rule refl)
    apply (rule frame)
    done
qed

lemma process_sack_views:
  "map entry_view (outstanding_data (so_assoc (process_sack sack now t3 assoc))) =
     map entry_view (outstanding_data (sr_assoc (apply_acks sack now assoc)))"
  using process_sack_stages [of sack now assoc t3]
  by (auto simp: tail_frame enter_fast_recovery_frame comp_def count_missing_view)

lemma process_sack_windows:
  "list_all2 (\<lambda>p q. address q = address p \<and> window_step (pmdcs assoc) p q)
     (peer_address_list assoc) (peer_address_list (so_assoc (process_sack sack now t3 assoc)))"
proof -
  let ?a1 = "sr_assoc (apply_acks sack now assoc)" and ?b = "so_assoc (process_sack sack now t3 assoc)"
  obtain a3 s acks adv htna hr l e ps where
    a3: "a3 = ?a1\<lparr>acked_retransmissions := l, assoc_error_count := e, peer_address_list := ps\<rparr>" and
    ps: "list_all2 (\<lambda>p q. address q = address p \<and> grows_by (pmdcs ?a1) p q) (peer_address_list ?a1) ps" and
    b: "?b = update_peer_rwnd sack (choose_measurement (leave_fast_recovery sack (fst (enter_fast_recovery s acks
         (a3\<lparr>outstanding_data := map (count_missing a3 adv htna hr (sr_reneged (apply_acks sack now assoc))) (outstanding_data a3)\<rparr>)))))"
    using process_sack_stages [of sack now assoc t3] by blast
  let ?a4 = "a3\<lparr>outstanding_data := map (count_missing a3 adv htna hr (sr_reneged (apply_acks sack now assoc))) (outstanding_data a3)\<rparr>"
  have start: "list_all2 (\<lambda>p q. address q = address p \<and> cwnd q = cwnd p) (peer_address_list assoc) (peer_address_list ?a1)"
    "pmdcs ?a1 = pmdcs assoc"
    using apply_acks_step [of assoc sack now] by (simp_all add: paths_step_def same_cwnd_def)
  have finish: "list_all2 (\<lambda>p q. address q = address p \<and> unat (cwnd q) \<le> max (unat (cwnd p)) (unat (4 * pmdcs assoc)))
      ps (peer_address_list ?b)"
    using enter_fast_recovery_frame(3) [of ?a4 s acks] start(2) unfolding b tail_frame by (simp add: a3)
  show ?thesis
    using start ps finish unfolding list_all2_conv_all_nth window_step_def grows_by_def by (auto, smt (verit) le_max_iff_disj order_trans)
qed

subsection \<open>Properties\<close>

text \<open>C39: A SACK settles the outstanding DATA exactly: the chunks at or below its Cumulative TSN Ack leave, every other chunk stays
  with its data unchanged and in order, and a chunk is then marked gap acknowledged precisely when the SACK
  reports it, so that reneging is undone and nothing unacknowledged is forgotten.\<close>

theorem sack_settles_outstanding:
  "map (\<lambda>(tsn, outstanding). (tsn, od_data outstanding, gap_acked outstanding))
     (outstanding_data (so_assoc (process_sack sack now t3_active assoc))) =
   map (\<lambda>(tsn, outstanding). (tsn, od_data outstanding, sack_acknowledges sack tsn))
     (filter (\<lambda>(tsn, outstanding). \<not> tsn_lte tsn (sack_cumulative_tsn_ack sack)) (outstanding_data assoc))"
  using process_sack_views [of sack now t3_active assoc] apply_acks_kept [of sack now assoc]
  by (simp add: case_prod_unfold)

text \<open>One SACK opens the congestion window of no path by more than one PMDCS, except that a Fast Retransmit sets it to at least
  four of them; it adds, removes and readdresses no path.\<close>

theorem sack_window_bounded:
  "list_all2 (\<lambda>path path'. address path' = address path \<and>
       unat (cwnd path') \<le> max (unat (cwnd path) + unat (pmdcs assoc)) (unat (4 * pmdcs assoc)))
     (peer_address_list assoc) (peer_address_list (so_assoc (process_sack sack now t3_active assoc)))"
  using process_sack_windows [of assoc sack now t3_active] by (simp add: window_step_def)

end
