(* ===== verification/Data_Sending.thy ===== *)
theory Data_Sending
  imports Congestion Data_Reception Send_Queue
begin

text \<open>
  What the sender does to an association: messages of the outbound queue cut into DATA chunks
  (\<open>cut_new_data\<close> in \<open>src/socket_event_loop.cpp\<close>), the record of what was sent, the response to a T3-rtx expiry and the packet
  of chunks marked for retransmission (\<open>src/socket_timers.cpp\<close>). Clocks are arguments.

  Sizes are \<open>size_t\<close>. The subtractions \<open>assoc.pmdcs - packet_bytes\<close> and \<open>message.bytes.size() - message.offset\<close> do not wrap:
  the loop keeps both operands in order (\<open>cut_loop_fits\<close>, \<open>cut_loop_run\<close>).
\<close>

subsection \<open>Cutting messages into chunks\<close>

definition wire_size :: "nat \<Rightarrow> nat" where
  "wire_size payload = DATA_CHUNK_HEADER_SIZE + pad4 payload"

definition round_down4 :: "nat \<Rightarrow> nat" where
  "round_down4 n = n div 4 * 4"

definition full_fragment :: "Association \<Rightarrow> nat" where
  "full_fragment assoc = round_down4 ((unat (pmdcs assoc) + 2 ^ 64 - DATA_CHUNK_HEADER_SIZE) mod 2 ^ 64)"

text \<open>How much of the message goes into the next chunk, or nothing when it has to wait for the window.\<close>

definition cut_size :: "Association \<Rightarrow> Outbound_Message \<Rightarrow> nat \<Rightarrow> nat option" where
  "cut_size assoc message window =
     (let remaining = length (om_bytes message) - om_offset message;
          n = min remaining (full_fragment assoc)
      in if wire_size n > window then
           let cut = (if window > DATA_CHUNK_HEADER_SIZE then round_down4 (window - DATA_CHUNK_HEADER_SIZE) else 0);
               fragmenting = length (om_bytes message) > full_fragment assoc
           in if \<not> fragmenting \<or> cut = 0 \<or> wire_size cut < unat (peer_max_rwnd assoc div 2) then None else Some cut
         else Some n)"

definition next_chunk :: "Outbound_Message \<Rightarrow> nat \<Rightarrow> u32 \<Rightarrow> data_chunk_value" where
  "next_chunk message n tsn =
     \<lparr>data_tsn = tsn, stream_identifier = om_stream message, stream_seq_num = om_ssn message, payload_protocal = 0,
      user_data = take n (drop (om_offset message) (om_bytes message)),
      data_flags = (if om_offset message = 0 then DATA_FLAG_B else 0)
        OR (if om_offset message + n = length (om_bytes message) then DATA_FLAG_E else 0)
        OR (if om_unordered message then DATA_FLAG_U else 0)\<rparr>"

definition advance_outbound :: "nat \<Rightarrow> Outbound_Message \<Rightarrow> Outbound_Message list \<Rightarrow> Outbound_Message list" where
  "advance_outbound n message rest =
     (if om_offset message + n = length (om_bytes message) then rest
      else message\<lparr>om_offset := om_offset message + n\<rparr> # rest)"

definition take_chunk :: "nat \<Rightarrow> Association \<Rightarrow> Association" where
  "take_chunk n assoc =
     assoc\<lparr>next_tsn := next_tsn assoc + 1, outbound_bytes := outbound_bytes assoc - n,
           outbound := advance_outbound n (hd (outbound assoc)) (tl (outbound assoc))\<rparr>"

definition cut_window :: "Association \<Rightarrow> Send_Allowance \<Rightarrow> bool \<Rightarrow> nat \<Rightarrow> nat" where
  "cut_window assoc allowance probe used =
     (let space = unat (pmdcs assoc) - used
      in if probe then space else min space (unat (al_rwnd allowance) - used))"

lemma wire_size_pos: "0 < wire_size n"
  by (simp add: wire_size_def)

lemma round_down4_le: "round_down4 n \<le> n"
  by (simp add: round_down4_def)

lemma wire_size_round_down4: "wire_size (round_down4 n) = DATA_CHUNK_HEADER_SIZE + round_down4 n"
  by (simp add: wire_size_def round_down4_def pad4_def)

lemma cut_size_fits: "cut_size assoc message window = Some n \<Longrightarrow> wire_size n \<le> window"
  using round_down4_le [of "window - DATA_CHUNK_HEADER_SIZE"]
  by (auto simp: cut_size_def Let_def wire_size_round_down4 split: if_splits)

lemma cut_window_le: "cut_window assoc allowance probe used \<le> unat (pmdcs assoc) - used"
  by (simp add: cut_window_def Let_def)

function cut_loop ::
    "Send_Allowance \<Rightarrow> Association \<Rightarrow> data_chunk_value list \<Rightarrow> nat \<Rightarrow> data_chunk_value list \<times> Association \<times> Send_Allowance" where
  "cut_loop allowance assoc chunks used =
     (case outbound assoc of
        [] \<Rightarrow> (chunks, assoc, allowance)
      | message # rest \<Rightarrow>
          let probe = zero_window_probe allowance \<and> chunks = []
          in case cut_size assoc message (cut_window assoc allowance probe used) of
               None \<Rightarrow> (chunks, assoc, if chunks = [] then allowance\<lparr>rwnd_blocked := True\<rparr> else allowance)
             | Some n \<Rightarrow>
                 let chunks' = chunks @ [next_chunk message n (next_tsn assoc)]
                 in if probe then (chunks', take_chunk n assoc, allowance)
                    else cut_loop allowance (take_chunk n assoc) chunks' (used + wire_size n))"
  by pat_completeness auto
termination
proof (relation "measure (\<lambda>(allowance, assoc, chunks, used). unat (pmdcs assoc) - used)", goal_cases)
  case (2 allowance assoc chunks used message rest probe n chunks')
  then have "wire_size n \<le> unat (pmdcs assoc) - used"
    using cut_size_fits cut_window_le by (metis order_trans)
  with wire_size_pos [of n] show ?case by (simp add: take_chunk_def)
qed simp

declare cut_loop.simps [simp del]

definition cut_new_data :: "Association \<Rightarrow> Send_Allowance \<Rightarrow> data_chunk_value list \<times> Association \<times> Send_Allowance" where
  "cut_new_data assoc allowance = cut_loop allowance assoc [] 0"

subsection \<open>What was sent\<close>

definition record_data_sent :: "sockaddr_in \<Rightarrow> data_chunk_value \<Rightarrow> time \<Rightarrow> Association \<Rightarrow> Association" where
  "record_data_sent destination d sent_at assoc =
     (if \<not> transmits_data (assoc_state assoc) then assoc
      else
        let i = (case find_path assoc destination of Some i \<Rightarrow> i | None \<Rightarrow> primary assoc);
            sent_on = (path_at assoc i)\<lparr>data_sent_at := sent_at, idle_decaying := False\<rparr>;
            chunk_size = of_nat (data_chunk_wire_size d) :: u32;
            exceeds_rwnd = chunk_size > peer_rwnd assoc;
            assoc1 = assoc\<lparr>peer_rwnd := peer_rwnd assoc - min (peer_rwnd assoc) chunk_size\<rparr>
        in case omap_find tsn_lt (data_tsn d) (outstanding_data assoc) of
             None \<Rightarrow>
               assoc1\<lparr>zero_window_probing := zero_window_probe_allowed assoc \<and> exceeds_rwnd,
                      zero_window_probe_allowed := False,
                      peer_address_list := (peer_address_list assoc)[i := sent_on\<lparr>new_data_sent_at := sent_at\<rparr>],
                      outstanding_data := omap_emplace tsn_lt (data_tsn d)
                        \<lparr>od_data = d, first_sent = sent_at, last_sent = sent_at, retransmitted = False, gap_acked = False,
                         missing_reports = 0, fast_retransmitted = False, pending_retransmission = False,
                         od_destination = address sent_on\<rparr> (outstanding_data assoc),
                      has_rtt_measurement_tsn := True,
                      rtt_measurement_tsn := (if has_rtt_measurement_tsn assoc then rtt_measurement_tsn assoc else data_tsn d)\<rparr>
           | Some _ \<Rightarrow>
               assoc1\<lparr>peer_address_list := (peer_address_list assoc)[i := sent_on],
                      outstanding_data := omap_modify tsn_lt (data_tsn d)
                        (\<lambda>outstanding. outstanding\<lparr>last_sent := sent_at, retransmitted := True, gap_acked := False,
                           od_destination := address sent_on\<rparr>) (outstanding_data assoc),
                      has_rtt_measurement_tsn :=
                        (has_rtt_measurement_tsn assoc \<and> \<not> tsn_lte (data_tsn d) (rtt_measurement_tsn assoc))\<rparr>)"

subsection \<open>A T3-rtx expiry\<close>

text \<open>The chunks in flight to the path are marked for retransmission on the target.\<close>

definition lost_on :: "Association \<Rightarrow> nat \<Rightarrow> Outstanding_Data \<Rightarrow> bool" where
  "lost_on assoc path outstanding =
     (\<not> gap_acked outstanding \<and> \<not> pending_retransmission outstanding \<and> destination_of assoc outstanding = path)"

definition mark_lost ::
    "Association \<Rightarrow> nat \<Rightarrow> sockaddr_in \<Rightarrow> (u32, Outstanding_Data) omap \<times> u32 \<Rightarrow> u32 \<times> Outstanding_Data \<Rightarrow>
     (u32, Outstanding_Data) omap \<times> u32" where
  "mark_lost assoc path target state entry =
     (case (state, entry) of ((kept, window), (tsn, outstanding)) \<Rightarrow>
        if lost_on assoc path outstanding
        then (kept @ [(tsn, outstanding\<lparr>pending_retransmission := True, od_destination := target\<rparr>)],
              window + of_nat (data_chunk_wire_size (od_data outstanding)))
        else (kept @ [entry], window))"

text \<open>The association part of \<open>handle_t3_expiration\<close> for a path with unacknowledged DATA: the new association, whether the path
  became unreachable, and whether the peer did.\<close>

definition t3_timeout :: "nat \<Rightarrow> Association \<Rightarrow> Association \<times> Peer_Addr_State option \<times> bool" where
  "t3_timeout i assoc =
     (let path1 = back_off (if zero_window_probing assoc then path_at assoc i else t3_cut assoc (path_at assoc i));
          counts = (\<not> zero_window_probing assoc \<or> \<not> sack_since_t3 assoc);
          (path2, note) = (if counts then count_path_error path1 else (path1, None));
          errors = (if counts then assoc_error_count assoc + 1 else assoc_error_count assoc);
          assoc1 = assoc\<lparr>peer_address_list := (peer_address_list assoc)[i := path2], assoc_error_count := errors, sack_since_t3 := False\<rparr>;
          target = address (path_at assoc1 (retransmission_path assoc1 (address path2)));
          (kept, window) = foldl (mark_lost assoc1 i target) ([], peer_rwnd assoc1) (outstanding_data assoc1)
      in (assoc1\<lparr>outstanding_data := kept, peer_rwnd := window\<rparr>, note, counts \<and> errors > error_threshold assoc))"

subsection \<open>The packet of chunks marked for retransmission\<close>

definition marked :: "u32 \<times> Outstanding_Data \<Rightarrow> bool" where
  "marked entry = (pending_retransmission (snd entry) \<and> \<not> gap_acked (snd entry))"

text \<open>The loop that fills the packet: the entries it takes.\<close>

fun bundle_loop ::
    "Association \<Rightarrow> nat \<Rightarrow> (u32 \<times> Outstanding_Data) list \<Rightarrow> (u32 \<times> Outstanding_Data) list \<Rightarrow> nat \<Rightarrow> (u32 \<times> Outstanding_Data) list" where
  "bundle_loop assoc to [] packed packet_size = packed"
| "bundle_loop assoc to (entry # ordered) packed packet_size =
     (let chunk_size = data_chunk_wire_size (od_data (snd entry)) in
      if destination_of assoc (snd entry) \<noteq> to then bundle_loop assoc to ordered packed packet_size
      else if packed \<noteq> [] \<and> packet_size + chunk_size > SCTP_COMMON_HEADER_SIZE + unat (pmdcs assoc) then packed
      else bundle_loop assoc to ordered (packed @ [entry]) (packet_size + chunk_size))"

definition unmark :: "u32 list \<Rightarrow> u32 \<times> Outstanding_Data \<Rightarrow> u32 \<times> Outstanding_Data" where
  "unmark tsns entry = (if fst entry \<in> set tsns then (fst entry, (snd entry)\<lparr>pending_retransmission := False\<rparr>) else entry)"

definition retransmission_bundle ::
    "bool \<Rightarrow> Association \<Rightarrow> (sockaddr_in \<times> data_chunk_value list \<times> Association) option" where
  "retransmission_bundle gated assoc =
     (let ordered = filter marked (outstanding_data assoc) in
      if ordered = [] then None
      else
        let to = destination_of assoc (snd (hd ordered)) in
        if gated \<and> \<not> cwnd_open assoc to then None
        else
          let packed = bundle_loop assoc to ordered [] SCTP_COMMON_HEADER_SIZE
          in Some (address (path_at assoc to), map (\<lambda>entry. od_data (snd entry)) packed,
                   assoc\<lparr>outstanding_data := map (unmark (map fst packed)) (outstanding_data assoc)\<rparr>))"

subsection \<open>What cutting yields\<close>

abbreviation wire_total :: "data_chunk_value list \<Rightarrow> nat" where
  "wire_total chunks \<equiv> sum_list (map data_chunk_wire_size chunks)"

lemma cut_size_le: "cut_size assoc message window = Some n \<Longrightarrow> n \<le> length (om_bytes message) - om_offset message"
proof -
  assume cut: "cut_size assoc message window = Some n"
  let ?n = "min (length (om_bytes message) - om_offset message) (full_fragment assoc)"
  have "k div 4 * 4 \<le> n" if "k < (n + 3) div 4 * 4" for k n :: nat
    using that by presburger
  from this [of "window - 16" ?n] have "round_down4 (window - 16) \<le> ?n" if "window < 16 + pad4 ?n" "16 < window"
    using that unfolding round_down4_def pad4_def by linarith
  with cut show ?thesis by (fastforce simp: cut_size_def Let_def wire_size_def split: if_splits)
qed

lemma full_fragment_pos: "20 \<le> unat (pmdcs assoc) \<Longrightarrow> 0 < full_fragment assoc"
proof -
  assume p: "20 \<le> unat (pmdcs assoc)"
  have "unat (pmdcs assoc) < 2 ^ 32" using unsigned_less [of "pmdcs assoc"] by simp
  then have "(unat (pmdcs assoc) + 2 ^ 64 - 16) mod 2 ^ 64 = unat (pmdcs assoc) - 16"
    using p mod_add_self2 [of "unat (pmdcs assoc) - 16" "2 ^ 64"] by simp
  with p show ?thesis by (simp add: full_fragment_def round_down4_def)
qed

lemma cut_size_pos:
  "cut_size assoc message window = Some n \<Longrightarrow> om_offset message < length (om_bytes message) \<Longrightarrow> 20 \<le> unat (pmdcs assoc) \<Longrightarrow> 0 < n"
  using full_fragment_pos [of assoc] by (auto simp: cut_size_def Let_def split: if_splits)

lemma next_chunk_size: "n \<le> length (om_bytes m) - om_offset m \<Longrightarrow> data_chunk_wire_size (next_chunk m n t) = wire_size n"
  by (simp add: data_chunk_wire_size_def next_chunk_def wire_size_def pad4_def) presburger

lemma take_chunk_fields [simp]:
  "pmdcs (take_chunk n a) = pmdcs a" "next_tsn (take_chunk n a) = next_tsn a + 1"
  "outbound (take_chunk n a) = advance_outbound n (hd (outbound a)) (tl (outbound a))"
  by (simp_all add: take_chunk_def)

lemma cut_loop_fits:
  "wire_total chunks = used \<Longrightarrow> used \<le> unat (pmdcs assoc) \<Longrightarrow> zero_window_probe allowance \<or> used \<le> unat (al_rwnd allowance) \<Longrightarrow>
   wire_total (fst (cut_loop allowance assoc chunks used)) \<le> unat (pmdcs assoc) \<and>
   (zero_window_probe allowance \<or> wire_total (fst (cut_loop allowance assoc chunks used)) \<le> unat (al_rwnd allowance))"
proof (induction allowance assoc chunks used rule: cut_loop.induct)
  case (1 allowance assoc chunks used)
  let ?probe = "zero_window_probe allowance \<and> chunks = []"
  let ?window = "cut_window assoc allowance ?probe used"
  show ?case
  proof (cases "outbound assoc")
    case Nil
    then show ?thesis using "1.prems" by (subst (1 2) cut_loop.simps) simp
  next
    case (Cons m rest)
    show ?thesis
    proof (cases "cut_size assoc m ?window")
      case None
      then show ?thesis using "1.prems" Cons by (subst (1 2) cut_loop.simps) simp
    next
      case (Some n)
      have size: "data_chunk_wire_size (next_chunk m n t) = wire_size n" for t
        using next_chunk_size [OF cut_size_le [OF Some]] .
      have w: "wire_size n \<le> ?window" by (rule cut_size_fits [OF Some])
      have fits: "used + wire_size n \<le> unat (pmdcs assoc)"
        "zero_window_probe allowance \<or> used + wire_size n \<le> unat (al_rwnd allowance)"
        using w wire_size_pos [of n] "1.prems"(2,3) by (auto simp: cut_window_def Let_def split: if_splits)
      show ?thesis
      proof (cases ?probe)
        case True
        then show ?thesis using "1.prems"(1) Cons Some fits size by (subst (1 2) cut_loop.simps) simp
      next
        case False
        have "cut_loop allowance assoc chunks used =
            cut_loop allowance (take_chunk n assoc) (chunks @ [next_chunk m n (next_tsn assoc)]) (used + wire_size n)"
          using False Cons Some by (subst cut_loop.simps) (simp only: list.case option.case Let_def if_False)
        then show ?thesis
          using "1.IH" [OF Cons refl Some refl False] "1.prems"(1) fits size by simp
      qed
    qed
  qed
qed

lemma cut_loop_probe: "zero_window_probe allowance \<Longrightarrow> length (fst (cut_loop allowance assoc [] used)) \<le> 1"
  by (subst cut_loop.simps) (simp split: list.splits option.splits add: Let_def)

text \<open>The chunks of a queue of messages, cut anywhere, with consecutive TSNs.\<close>

inductive cut_run :: "u32 \<Rightarrow> Outbound_Message list \<Rightarrow> data_chunk_value list \<Rightarrow> Outbound_Message list \<Rightarrow> bool" where
  cut_none: "cut_run tsn ms [] ms"
| cut_more: "0 < n \<Longrightarrow> n \<le> length (om_bytes m) - om_offset m \<Longrightarrow> cut_run (tsn + 1) (advance_outbound n m rest) ds ms' \<Longrightarrow>
    cut_run tsn (m # rest) (next_chunk m n tsn # ds) ms'"

lemma cut_run_append:
  "cut_run tsn ms ds ms' \<Longrightarrow> cut_run (tsn + of_nat (length ds)) ms' ds' ms'' \<Longrightarrow> cut_run tsn ms (ds @ ds') ms''"
proof (induction rule: cut_run.induct)
  case (cut_more n m tsn rest ds ms')
  then show ?case by (auto simp: add.assoc intro!: cut_run.cut_more)
qed simp

text \<open>Every message in the queue has something left to send.\<close>

definition unsent :: "Outbound_Message \<Rightarrow> bool" where
  "unsent m \<longleftrightarrow> om_offset m < length (om_bytes m)"

lemma advance_outbound_unsent:
  "list_all unsent (m # rest) \<Longrightarrow> n \<le> length (om_bytes m) - om_offset m \<Longrightarrow> list_all unsent (advance_outbound n m rest)"
  by (auto simp: advance_outbound_def unsent_def)

lemma cut_run_unsent: "cut_run tsn ms ds ms' \<Longrightarrow> list_all unsent ms \<Longrightarrow> list_all unsent ms'"
  by (induction rule: cut_run.induct) (auto simp: advance_outbound_unsent)

definition cut_result :: "Association \<Rightarrow> data_chunk_value list \<times> Association \<times> Send_Allowance \<Rightarrow> data_chunk_value list \<Rightarrow> bool" where
  "cut_result a res chunks \<longleftrightarrow>
     (\<exists>ds. fst res = chunks @ ds \<and> cut_run (next_tsn a) (outbound a) ds (outbound (fst (snd res))) \<and>
        next_tsn (fst (snd res)) = next_tsn a + of_nat (length ds) \<and> pmdcs (fst (snd res)) = pmdcs a)"

lemma cut_result_stop: "cut_result a (chunks, a, al) chunks"
  by (simp add: cut_result_def cut_run.cut_none)

lemma cut_result_step:
  assumes "outbound a = m # rest" "0 < n" "n \<le> length (om_bytes m) - om_offset m"
    and "cut_result (take_chunk n a) res (chunks @ [next_chunk m n (next_tsn a)])"
  shows "cut_result a res chunks"
proof -
  obtain ds where ds: "fst res = chunks @ [next_chunk m n (next_tsn a)] @ ds"
    "cut_run (next_tsn a + 1) (advance_outbound n m rest) ds (outbound (fst (snd res)))"
    "next_tsn (fst (snd res)) = next_tsn a + 1 + of_nat (length ds)" "pmdcs (fst (snd res)) = pmdcs a"
    using assms(1,4) by (auto simp: cut_result_def)
  then show ?thesis
    using assms(1) cut_run.cut_more [OF assms(2,3) ds(2)]
    by (auto simp: cut_result_def intro!: exI [of _ "next_chunk m n (next_tsn a) # ds"])
qed

lemma cut_loop_run:
  "list_all unsent (outbound assoc) \<Longrightarrow> 20 \<le> unat (pmdcs assoc) \<Longrightarrow> cut_result assoc (cut_loop allowance assoc chunks used) chunks"
proof (induction allowance assoc chunks used rule: cut_loop.induct)
  case (1 allowance assoc chunks used)
  let ?probe = "zero_window_probe allowance \<and> chunks = []"
  show ?case
  proof (cases "outbound assoc")
    case Nil
    then show ?thesis by (subst cut_loop.simps) (simp add: cut_result_stop)
  next
    case (Cons m rest)
    show ?thesis
    proof (cases "cut_size assoc m (cut_window assoc allowance ?probe used)")
      case None
      then show ?thesis using Cons by (subst cut_loop.simps) (simp add: cut_result_stop)
    next
      case (Some n)
      let ?chunks = "chunks @ [next_chunk m n (next_tsn assoc)]"
      have n: "0 < n" "n \<le> length (om_bytes m) - om_offset m"
        using cut_size_pos [OF Some] cut_size_le [OF Some] "1.prems" Cons by (auto simp: unsent_def)
      have "cut_result (take_chunk n assoc) (cut_loop allowance assoc chunks used) ?chunks"
      proof (cases ?probe)
        case True
        then show ?thesis using Cons Some by (subst cut_loop.simps) (simp add: cut_result_stop)
      next
        case False
        have "cut_loop allowance assoc chunks used = cut_loop allowance (take_chunk n assoc) ?chunks (used + wire_size n)"
          using False Cons Some by (subst cut_loop.simps) (simp only: list.case option.case Let_def if_False)
        moreover have "list_all unsent (outbound (take_chunk n assoc))"
          using "1.prems"(1) n(2) Cons advance_outbound_unsent by simp
        ultimately show ?thesis using "1.IH" [OF Cons refl Some refl False] "1.prems"(2) by simp
      qed
      then show ?thesis by (rule cut_result_step [OF Cons n])
    qed
  qed
qed

subsection \<open>Reassembly of what was cut\<close>

text \<open>The chunks of a sender as they arrive in TSN order.\<close>

fun take_all :: "data_chunk_value list \<Rightarrow> reception \<Rightarrow> bool \<times> reception" where
  "take_all [] r = (True, r)"
| "take_all (d # ds) r =
     (case take_next d True ((fst r)\<lparr>last_peer_tsn := data_tsn d\<rparr>, snd r) of
        (ok, r') \<Rightarrow> if ok then take_all ds r' else (False, r'))"

text \<open>Ordered messages carry the sequence numbers of their streams.\<close>

fun numbered :: "(u16 \<Rightarrow> u16) \<Rightarrow> Outbound_Message list \<Rightarrow> bool" where
  "numbered f [] = True"
| "numbered f (m # ms) =
     (if om_unordered m then numbered f ms
      else om_ssn m = f (om_stream m) \<and> numbered (f(om_stream m := f (om_stream m) + 1)) ms)"

abbreviation delivery_of :: "Outbound_Message \<Rightarrow> Delivery" where
  "delivery_of m \<equiv> \<lparr>dv_bytes = om_bytes m, dv_complete = True, dv_stream = om_stream m\<rparr>"

text \<open>A receiver with nothing buffered that waits for the sequence numbers \<open>f\<close>, and one that holds the first part of a message.\<close>

definition expects :: "(u16 \<Rightarrow> u16) \<Rightarrow> Association \<Rightarrow> bool" where
  "expects f b \<longleftrightarrow> tsn_ooo_buffer b = [] \<and> omap_ok (<) UNIV (inbound_streams b) \<and>
     (\<forall>s. inbound_stream b s = \<lparr>is_next_ssn = f s, early = []\<rparr>)"

definition holds_part :: "Outbound_Message \<Rightarrow> Reassembly \<Rightarrow> bool" where
  "holds_part m ra \<longleftrightarrow>
     (if om_offset m = 0 then \<not> ra_open ra
      else ra_open ra \<and> \<not> partially_delivered ra \<and> ra_unordered ra = om_unordered m \<and> ra_stream ra = om_stream m
        \<and> ra_ssn ra = om_ssn m \<and> ra_bytes ra = take (om_offset m) (om_bytes m))"

lemma next_chunk_flags [simp]:
  "has_flag (next_chunk m n t) DATA_FLAG_B \<longleftrightarrow> om_offset m = 0"
  "has_flag (next_chunk m n t) DATA_FLAG_E \<longleftrightarrow> om_offset m + n = length (om_bytes m)"
  "has_flag (next_chunk m n t) DATA_FLAG_U \<longleftrightarrow> om_unordered m"
  by (simp_all add: has_flag_def next_chunk_def)

lemma next_chunk_fields [simp]:
  "data_tsn (next_chunk m n t) = t" "stream_identifier (next_chunk m n t) = om_stream m"
  "stream_seq_num (next_chunk m n t) = om_ssn m" "user_data (next_chunk m n t) = take n (drop (om_offset m) (om_bytes m))"
  by (simp_all add: next_chunk_def)

lemma read_ooo_empty: "tsn_ooo_buffer a = [] \<Longrightarrow> read_ooo_buffer (a, l) = (True, a, l)"
proof -
  assume "tsn_ooo_buffer a = []"
  moreover have "a\<lparr>last_peer_tsn := last_peer_tsn a\<rparr> = a" by simp
  ultimately show ?thesis by (simp add: read_ooo_buffer_def read_ooo_loop.simps)
qed

lemma take_append_drop: "take k xs @ take n (drop k xs) = take (k + n) xs"
  by (simp add: take_add)

lemma order_message_expected:
  assumes "\<not> partial_delivery_open a" "inbound_stream a i = \<lparr>is_next_ssn = k, early = []\<rparr>" "u \<or> ssn = k"
  shows "order_message i ssn u bs (a, l) =
    (True, (if u then a else set_inbound_stream i \<lparr>is_next_ssn = k + 1, early = []\<rparr> a),
     l @ [\<lparr>dv_bytes = bs, dv_complete = True, dv_stream = i\<rparr>])"
  using assms by (auto simp: order_message_def Let_def hand_up_closed advance_stream_def advance_loop.simps)

lemma expects_update [simp]:
  "expects f (b\<lparr>last_peer_tsn := t\<rparr>) = expects f b" "expects f (b\<lparr>reassembly := ra\<rparr>) = expects f b"
  by (simp_all add: expects_def inbound_stream_def)

lemma expects_set_stream: "expects f a \<Longrightarrow> expects (f(i := k)) (set_inbound_stream i \<lparr>is_next_ssn = k, early = []\<rparr> a)"
proof -
  have "tsn_ooo_buffer (set_inbound_stream i s a) = tsn_ooo_buffer a" for s by (simp add: set_inbound_stream_def)
  then show "expects f a \<Longrightarrow> expects (f(i := k)) (set_inbound_stream i \<lparr>is_next_ssn = k, early = []\<rparr> a)" by (simp add: expects_def)
qed

text \<open>A fragment that does not end its message, and one that does.\<close>

lemma take_middle:
  assumes "expects f b" "holds_part m (reassembly b)" "0 < n" "om_offset m + n < length (om_bytes m)"
  shows "\<exists>b'. take_next (next_chunk m n t) True (b\<lparr>last_peer_tsn := t\<rparr>, l) = (True, b', l) \<and> expects f b' \<and>
    holds_part (m\<lparr>om_offset := om_offset m + n\<rparr>) (reassembly b')"
proof -
  define ra where "ra = \<lparr>ra_open = True, partially_delivered = False, ra_unordered = om_unordered m, ra_stream = om_stream m,
    ra_ssn = om_ssn m, ra_bytes = take (om_offset m + n) (om_bytes m)\<rparr>"
  have "reassemble (next_chunk m n t) True (b\<lparr>last_peer_tsn := t\<rparr>, l) = (True, b\<lparr>last_peer_tsn := t, reassembly := ra\<rparr>, l)"
    using assms(2,4) by (cases "reassembly b") (auto simp: reassemble_def Let_def holds_part_def ra_def take_append_drop split: if_splits)
  moreover have "expects f (b\<lparr>last_peer_tsn := t, reassembly := ra\<rparr>)" using assms(1) by simp
  moreover have "holds_part (m\<lparr>om_offset := om_offset m + n\<rparr>) ra" using assms(3) by (simp add: holds_part_def ra_def)
  ultimately show ?thesis using read_ooo_empty by (auto simp: take_next_def expects_def)
qed

lemma take_final:
  assumes "expects f b" "holds_part m (reassembly b)" "om_offset m + n = length (om_bytes m)" "0 < n"
    and "om_unordered m \<or> om_ssn m = f (om_stream m)"
  shows "\<exists>b'. take_next (next_chunk m n t) True (b\<lparr>last_peer_tsn := t\<rparr>, l) = (True, b', l @ [delivery_of m]) \<and>
    expects (if om_unordered m then f else f(om_stream m := f (om_stream m) + 1)) b' \<and> \<not> ra_open (reassembly b')"
proof -
  define ra where "ra = \<lparr>ra_open = False, partially_delivered = False, ra_unordered = om_unordered m, ra_stream = om_stream m,
    ra_ssn = om_ssn m, ra_bytes = []\<rparr>"
  define a where "a = b\<lparr>last_peer_tsn := t, reassembly := ra\<rparr>"
  define b' where "b' = (if om_unordered m then a else set_inbound_stream (om_stream m) \<lparr>is_next_ssn = f (om_stream m) + 1, early = []\<rparr> a)"
  have "take (om_offset m) (om_bytes m) @ take n (drop (om_offset m) (om_bytes m)) = om_bytes m"
    using assms(3) by (simp add: take_append_drop)
  then have "reassemble (next_chunk m n t) True (b\<lparr>last_peer_tsn := t\<rparr>, l) =
      order_message (om_stream m) (om_ssn m) (om_unordered m) (om_bytes m) (a, l)"
    using assms(2,3) by (cases "reassembly b") (auto simp: reassemble_def Let_def holds_part_def a_def ra_def split: if_splits)
  moreover have a: "expects f a" "\<not> partial_delivery_open a"
    using assms(1) by (simp_all add: a_def ra_def partial_delivery_open_def)
  ultimately have "reassemble (next_chunk m n t) True (b\<lparr>last_peer_tsn := t\<rparr>, l) = (True, b', l @ [delivery_of m])"
    using order_message_expected [of a "om_stream m" "f (om_stream m)" "om_unordered m" "om_ssn m" "om_bytes m" l] assms(5)
    by (simp add: expects_def b'_def)
  moreover have "expects (if om_unordered m then f else f(om_stream m := f (om_stream m) + 1)) b'"
    using a(1) expects_set_stream unfolding b'_def by simp
  moreover have "\<not> ra_open (reassembly b')" by (simp add: b'_def a_def ra_def set_inbound_stream_def)
  ultimately show ?thesis using read_ooo_empty by (auto simp: take_next_def expects_def)
qed

lemma numbered_rest:
  "numbered f (m # ms) \<Longrightarrow> numbered (if om_unordered m then f else f(om_stream m := f (om_stream m) + 1)) ms"
  "numbered f (m # ms) \<Longrightarrow> om_unordered m \<or> om_ssn m = f (om_stream m)"
  by (auto split: if_splits)

lemma numbered_offset [simp]: "numbered f (m\<lparr>om_offset := k\<rparr> # ms) = numbered f (m # ms)"
  by simp

text \<open>However the messages of the queue are cut, the receiver delivers them whole and in order.\<close>

lemma cut_run_received:
  "cut_run tsn ms ds ms' \<Longrightarrow> ms' = [] \<Longrightarrow> list_all unsent ms \<Longrightarrow> list_all (\<lambda>m. om_offset m = 0) (tl ms) \<Longrightarrow> numbered f ms \<Longrightarrow>
   expects f b \<Longrightarrow> (case ms of [] \<Rightarrow> \<not> ra_open (reassembly b) | m # _ \<Rightarrow> holds_part m (reassembly b)) \<Longrightarrow>
   \<exists>b'. take_all ds (b, l) = (True, b', l @ map delivery_of ms)"
proof (induction arbitrary: f b l rule: cut_run.induct)
  case (cut_none tsn ms)
  then show ?case by simp
next
  case (cut_more n m tsn rest ds ms')
  have part: "holds_part m (reassembly b)" using cut_more.prems by simp
  show ?case
  proof (cases "om_offset m + n = length (om_bytes m)")
    case True
    let ?f = "if om_unordered m then f else f(om_stream m := f (om_stream m) + 1)"
    obtain b1 where b1: "take_next (next_chunk m n tsn) True (b\<lparr>last_peer_tsn := tsn\<rparr>, l) = (True, b1, l @ [delivery_of m])"
      "expects ?f b1" "\<not> ra_open (reassembly b1)"
      using take_final [OF cut_more.prems(5) part True cut_more.hyps(1) numbered_rest(2) [OF cut_more.prems(4)]] by blast
    have adv: "advance_outbound n m rest = rest" using True by (simp add: advance_outbound_def)
    have "case rest of [] \<Rightarrow> \<not> ra_open (reassembly b1) | m' # _ \<Rightarrow> holds_part m' (reassembly b1)"
      using b1(3) cut_more.prems(3) by (auto simp: holds_part_def split: list.split)
    moreover have "list_all (\<lambda>m. om_offset m = 0) (tl rest)" using cut_more.prems(3) by (cases rest) auto
    ultimately obtain b' where "take_all ds (b1, l @ [delivery_of m]) = (True, b', (l @ [delivery_of m]) @ map delivery_of rest)"
      using cut_more.IH [of ?f b1 "l @ [delivery_of m]"] adv cut_more.prems(1,2) numbered_rest(1) [OF cut_more.prems(4)] b1(2)
      by auto
    then show ?thesis using b1(1) by simp
  next
    case False
    let ?m = "m\<lparr>om_offset := om_offset m + n\<rparr>"
    have lt: "om_offset m + n < length (om_bytes m)" using False cut_more.hyps(1,2) by linarith
    obtain b1 where b1: "take_next (next_chunk m n tsn) True (b\<lparr>last_peer_tsn := tsn\<rparr>, l) = (True, b1, l)"
      "expects f b1" "holds_part ?m (reassembly b1)"
      using take_middle [OF cut_more.prems(5) part cut_more.hyps(1) lt] by blast
    have adv: "advance_outbound n m rest = ?m # rest" using False by (simp add: advance_outbound_def)
    obtain b' where "take_all ds (b1, l) = (True, b', l @ map delivery_of (?m # rest))"
      using cut_more.IH [of f b1 l] unfolding adv
      using cut_more.prems(1-4) b1(2,3) lt by (auto simp: unsent_def simp del: numbered.simps)
    then show ?thesis using b1(1) by simp
  qed
qed

subsection \<open>A sender's passes\<close>

text \<open>The chunks of any number of passes of the send loop, each with its own allowance.\<close>

fun cut_all :: "Send_Allowance list \<Rightarrow> Association \<Rightarrow> data_chunk_value list \<times> Association" where
  "cut_all [] assoc = ([], assoc)"
| "cut_all (allowance # rest) assoc =
     (case cut_new_data assoc allowance of
        (chunks, assoc', _) \<Rightarrow> (case cut_all rest assoc' of (later, assoc'') \<Rightarrow> (chunks @ later, assoc'')))"

lemma cut_all_run:
  "list_all unsent (outbound assoc) \<Longrightarrow> 20 \<le> unat (pmdcs assoc) \<Longrightarrow>
   cut_run (next_tsn assoc) (outbound assoc) (fst (cut_all als assoc)) (outbound (snd (cut_all als assoc)))"
proof (induction als arbitrary: assoc)
  case Nil
  then show ?case by (simp add: cut_run.cut_none)
next
  case (Cons al als)
  obtain chunks a1 al1 where cut: "cut_new_data assoc al = (chunks, a1, al1)" by (metis prod_cases3)
  have run: "cut_run (next_tsn assoc) (outbound assoc) chunks (outbound a1)"
    "next_tsn a1 = next_tsn assoc + of_nat (length chunks)" "pmdcs a1 = pmdcs assoc"
    using cut_loop_run [OF Cons.prems, of al "[]" 0] cut by (auto simp: cut_result_def cut_new_data_def)
  have "cut_run (next_tsn a1) (outbound a1) (fst (cut_all als a1)) (outbound (snd (cut_all als a1)))"
    using Cons.IH [of a1] cut_run_unsent [OF run(1) Cons.prems(1)] Cons.prems(2) run(3) by simp
  then show ?case using cut_run_append [OF run(1)] run(2) cut by (simp add: case_prod_unfold)
qed

subsection \<open>What is lost with a timeout\<close>

lemma mark_lost_fold:
  "foldl (mark_lost assoc i target) (kept, window) es =
     (kept @ map (\<lambda>e. if lost_on assoc i (snd e) then (fst e, (snd e)\<lparr>pending_retransmission := True, od_destination := target\<rparr>) else e) es,
      window + of_nat (sum_list (map (\<lambda>e. if lost_on assoc i (snd e) then data_chunk_wire_size (od_data (snd e)) else 0) es)))"
  by (induction es arbitrary: kept window) (auto simp: mark_lost_def)

lemma flight_on_path_sum:
  "bytes_in_flight assoc p =
     sum_list (map (\<lambda>e. if \<not> gap_acked (snd e) \<and> \<not> pending_retransmission (snd e) \<and> (case p of None \<Rightarrow> True | Some i \<Rightarrow> destination_of assoc (snd e) = i)
       then data_chunk_wire_size (od_data (snd e)) else 0) (outstanding_data assoc))"
proof -
  have "foldl (\<lambda>total (tsn, outstanding).
         if \<not> gap_acked outstanding \<and> \<not> pending_retransmission outstanding \<and> (case p of None \<Rightarrow> True | Some i \<Rightarrow> destination_of assoc outstanding = i)
         then total + data_chunk_wire_size (od_data outstanding) else total) t es =
      t + sum_list (map (\<lambda>e. if \<not> gap_acked (snd e) \<and> \<not> pending_retransmission (snd e) \<and> (case p of None \<Rightarrow> True | Some i \<Rightarrow> destination_of assoc (snd e) = i)
       then data_chunk_wire_size (od_data (snd e)) else 0) es)" for t :: nat and es :: "(u32 \<times> Outstanding_Data) list"
    by (induction es arbitrary: t) (auto simp: case_prod_unfold)
  then show ?thesis by (simp add: bytes_in_flight_def)
qed

lemma find_path_addresses:
  "map (\<lambda>p. s_addr (address p)) (peer_address_list b) = map (\<lambda>p. s_addr (address p)) (peer_address_list a) \<Longrightarrow> find_path b d = find_path a d"
proof -
  have "find_index (\<lambda>p. same_destination (address p) d) xs = find_index (\<lambda>x. x = s_addr d) (map (\<lambda>p. s_addr (address p)) xs)"
    for xs :: "Peer_Path list"
    by (induction xs) (simp_all add: same_destination_def)
  then show "map (\<lambda>p. s_addr (address p)) (peer_address_list b) = map (\<lambda>p. s_addr (address p)) (peer_address_list a) \<Longrightarrow>
      find_path b d = find_path a d" by (simp add: find_path_def)
qed

lemma destination_of_addresses:
  "map (\<lambda>p. s_addr (address p)) (peer_address_list b) = map (\<lambda>p. s_addr (address p)) (peer_address_list a) \<Longrightarrow>
   primary_path b = primary_path a \<Longrightarrow> destination_of b x = destination_of a x"
  by (simp add: destination_of_def primary_def find_path_addresses [of b a] split: option.split)

lemma t3_path_address [simp]:
  "address (back_off p) = address p" "address (t3_cut a p) = address p" "address (fst (count_path_error p)) = address p"
  by (simp_all add: back_off_def t3_cut_def count_path_error_def Let_def)

text \<open>The result of a timeout, with its path and its target named.\<close>

lemma t3_timeout_form:
  assumes "i < length (peer_address_list assoc)"
  shows "\<exists>assoc1 target. fst (t3_timeout i assoc) =
       assoc1\<lparr>outstanding_data := map (\<lambda>e. if lost_on assoc i (snd e)
           then (fst e, (snd e)\<lparr>pending_retransmission := True, od_destination := target\<rparr>) else e) (outstanding_data assoc),
         peer_rwnd := peer_rwnd assoc + of_nat (bytes_in_flight assoc (Some i))\<rparr> \<and>
     map (\<lambda>p. s_addr (address p)) (peer_address_list assoc1) = map (\<lambda>p. s_addr (address p)) (peer_address_list assoc) \<and>
     primary_path assoc1 = primary_path assoc"
proof -
  define path1 where "path1 = back_off (if zero_window_probing assoc then path_at assoc i else t3_cut assoc (path_at assoc i))"
  define counts where "counts \<longleftrightarrow> \<not> zero_window_probing assoc \<or> \<not> sack_since_t3 assoc"
  define path2 where "path2 = fst (if counts then count_path_error path1 else (path1, None))"
  define assoc1 where "assoc1 = assoc\<lparr>peer_address_list := (peer_address_list assoc)[i := path2],
    assoc_error_count := (if counts then assoc_error_count assoc + 1 else assoc_error_count assoc), sack_since_t3 := False\<rparr>"
  define target where "target = address (path_at assoc1 (retransmission_path assoc1 (address path2)))"
  have "address path2 = address (path_at assoc i)" by (simp add: path2_def path1_def)
  then have addr: "map (\<lambda>p. s_addr (address p)) (peer_address_list assoc1) = map (\<lambda>p. s_addr (address p)) (peer_address_list assoc)"
    using assms by (auto simp: assoc1_def map_update list_update_same_conv)
  then have dest: "destination_of assoc1 x = destination_of assoc x" for x
    by (rule destination_of_addresses) (simp add: assoc1_def)
  have "lost_on assoc1 i x = lost_on assoc i x" for x by (simp add: lost_on_def dest)
  moreover have "sum_list (map (\<lambda>e. if lost_on assoc i (snd e) then data_chunk_wire_size (od_data (snd e)) else 0) (outstanding_data assoc)) =
      bytes_in_flight assoc (Some i)" by (simp add: flight_on_path_sum lost_on_def)
  moreover have "fst (t3_timeout i assoc) = assoc1\<lparr>
      outstanding_data := fst (foldl (mark_lost assoc1 i target) ([], peer_rwnd assoc1) (outstanding_data assoc1)),
      peer_rwnd := snd (foldl (mark_lost assoc1 i target) ([], peer_rwnd assoc1) (outstanding_data assoc1))\<rparr>"
    by (simp add: t3_timeout_def Let_def case_prod_unfold assoc1_def target_def path2_def path1_def counts_def)
  ultimately show ?thesis using addr
    by (intro exI [of _ assoc1] exI [of _ target]) (simp add: mark_lost_fold, simp add: assoc1_def)
qed

subsection \<open>What a retransmission carries\<close>

abbreviation entries_total :: "(u32 \<times> Outstanding_Data) list \<Rightarrow> nat" where
  "entries_total es \<equiv> wire_total (map (\<lambda>e. od_data (snd e)) es)"

text \<open>The loop takes a first part of the entries bound for the path, and stops only at one that does not fit.\<close>

lemma bundle_loop_prefix:
  "\<exists>k \<le> length (filter (\<lambda>e. destination_of assoc (snd e) = to) ordered).
     bundle_loop assoc to ordered packed used = packed @ take k (filter (\<lambda>e. destination_of assoc (snd e) = to) ordered) \<and>
     (k < length (filter (\<lambda>e. destination_of assoc (snd e) = to) ordered) \<longrightarrow> bundle_loop assoc to ordered packed used \<noteq> [] \<and>
        SCTP_COMMON_HEADER_SIZE + unat (pmdcs assoc) <
          used + entries_total (take (Suc k) (filter (\<lambda>e. destination_of assoc (snd e) = to) ordered)))"
proof (induction ordered arbitrary: packed used)
  case (Cons e ordered)
  let ?size = "data_chunk_wire_size (od_data (snd e))"
  let ?bound = "filter (\<lambda>e. destination_of assoc (snd e) = to)"
  consider (other) "destination_of assoc (snd e) \<noteq> to"
    | (full) "destination_of assoc (snd e) = to" "packed \<noteq> []" "used + ?size > SCTP_COMMON_HEADER_SIZE + unat (pmdcs assoc)"
    | (fits) "destination_of assoc (snd e) = to" "\<not> (packed \<noteq> [] \<and> used + ?size > SCTP_COMMON_HEADER_SIZE + unat (pmdcs assoc))"
    by blast
  then show ?case
  proof cases
    case fits
    obtain k where k: "k \<le> length (?bound ordered)"
      "bundle_loop assoc to ordered (packed @ [e]) (used + ?size) = (packed @ [e]) @ take k (?bound ordered)"
      "k < length (?bound ordered) \<Longrightarrow>
         SCTP_COMMON_HEADER_SIZE + unat (pmdcs assoc) < used + ?size + entries_total (take (Suc k) (?bound ordered))"
      using Cons.IH [of "packed @ [e]" "used + ?size"] by blast
    with fits show ?thesis by (intro exI [of _ "Suc k"]) (auto simp: Let_def)
  qed (use Cons.IH [of packed used] in \<open>auto simp: Let_def\<close>)
qed simp

lemma bundle_loop_bound:
  "used = SCTP_COMMON_HEADER_SIZE + entries_total packed \<Longrightarrow> length packed \<le> 1 \<or> entries_total packed \<le> unat (pmdcs assoc) \<Longrightarrow>
   length (bundle_loop assoc to ordered packed used) \<le> 1 \<or> entries_total (bundle_loop assoc to ordered packed used) \<le> unat (pmdcs assoc)"
proof (induction ordered arbitrary: packed used)
  case (Cons e ordered)
  let ?size = "data_chunk_wire_size (od_data (snd e))"
  show ?case
  proof (cases "destination_of assoc (snd e) = to \<and> \<not> (packed \<noteq> [] \<and> used + ?size > SCTP_COMMON_HEADER_SIZE + unat (pmdcs assoc))")
    case True
    then have "length (packed @ [e]) \<le> 1 \<or> entries_total (packed @ [e]) \<le> unat (pmdcs assoc)"
      using Cons.prems(1) by (cases "packed = []") auto
    with True Cons.IH [of "used + ?size" "packed @ [e]"] Cons.prems(1) show ?thesis by (auto simp: Let_def)
  next
    case False
    then show ?thesis using Cons.IH [of used packed] Cons.prems by (auto simp: Let_def)
  qed
qed simp

lemma unmark_taken:
  assumes "distinct (map fst es)" "set taken \<subseteq> set es"
  shows "map (unmark (map fst taken)) es =
    map (\<lambda>e. if e \<in> set taken then (fst e, (snd e)\<lparr>pending_retransmission := False\<rparr>) else e) es"
proof -
  have "e \<in> set taken" if "e \<in> set es" "fst e \<in> fst ` set taken" for e
    using that assms by (metis (no_types, lifting) eq_key_imp_eq_value image_iff prod.collapse subsetD)
  then show ?thesis by (auto simp: unmark_def image_iff)
qed

subsection \<open>Progress\<close>

definition unsent_total :: "Outbound_Message list \<Rightarrow> nat" where
  "unsent_total ms = sum_list (map (\<lambda>m. length (om_bytes m) - om_offset m) ms)"

lemma cut_run_decreases: "cut_run tsn ms ds ms' \<Longrightarrow> unsent_total ms' + length ds \<le> unsent_total ms"
proof (induction rule: cut_run.induct)
  case (cut_more n m tsn rest ds ms')
  have "unsent_total (advance_outbound n m rest) + n \<le> unsent_total (m # rest)"
    using cut_more.hyps(2) by (auto simp: advance_outbound_def unsent_total_def)
  with cut_more show ?case by simp
qed simp

lemma cut_open_window:
  assumes "outbound assoc \<noteq> []" "pmdcs assoc \<le> al_rwnd allowance" "20 \<le> unat (pmdcs assoc)"
  shows "fst (cut_new_data assoc allowance) \<noteq> []"
proof -
  obtain m rest where ob: "outbound assoc = m # rest" using assms(1) by (cases "outbound assoc") auto
  let ?n = "min (length (om_bytes m) - om_offset m) (full_fragment assoc)"
  let ?probe = "zero_window_probe allowance"
  have p32: "unat (pmdcs assoc) < 2 ^ 32" using unsigned_less [of "pmdcs assoc"] by simp
  then have "(unat (pmdcs assoc) + 2 ^ 64 - 16) mod 2 ^ 64 = unat (pmdcs assoc) - 16"
    using assms(3) mod_add_self2 [of "unat (pmdcs assoc) - 16" "2 ^ 64"] by simp
  then have "wire_size (full_fragment assoc) = 16 + round_down4 (unat (pmdcs assoc) - 16)"
    by (simp add: full_fragment_def wire_size_round_down4)
  moreover have "wire_size ?n \<le> wire_size (full_fragment assoc)" by (simp add: wire_size_def pad4_mono)
  ultimately have fits: "wire_size ?n \<le> unat (pmdcs assoc)"
    using round_down4_le [of "unat (pmdcs assoc) - 16"] assms(3) by linarith
  have "cut_window assoc allowance ?probe 0 = unat (pmdcs assoc)"
    using assms(2) by (simp add: cut_window_def word_le_nat_alt Let_def)
  with fits have "cut_size assoc m (cut_window assoc allowance ?probe 0) = Some ?n" by (simp add: cut_size_def Let_def)
  moreover have "\<exists>ds. fst (cut_loop allowance a cs used) = cs @ ds" for a cs used
  proof (induction allowance a cs used rule: cut_loop.induct)
    case (1 allowance a cs used)
    then show ?case by (subst cut_loop.simps) (fastforce split: list.splits option.splits simp: Let_def)
  qed
  from this [of "take_chunk ?n assoc" "[next_chunk m ?n (next_tsn assoc)]" "wire_size ?n"]
  obtain ds where "fst (cut_loop allowance (take_chunk ?n assoc) [next_chunk m ?n (next_tsn assoc)] (wire_size ?n)) \<noteq> []" by force
  ultimately show ?thesis using ob unfolding cut_new_data_def by (subst cut_loop.simps) (simp add: Let_def)
qed

lemma cut_all_drains:
  "list_all unsent (outbound assoc) \<Longrightarrow> 20 \<le> unat (pmdcs assoc) \<Longrightarrow> list_all (\<lambda>al. pmdcs assoc \<le> al_rwnd al) als \<Longrightarrow>
   unsent_total (outbound assoc) \<le> length als \<Longrightarrow> outbound (snd (cut_all als assoc)) = []"
proof (induction als arbitrary: assoc)
  case Nil
  then show ?case by (cases "outbound assoc") (auto simp: unsent_total_def unsent_def)
next
  case (Cons al als)
  obtain chunks a1 al1 where cut: "cut_new_data assoc al = (chunks, a1, al1)" by (metis prod_cases3)
  have run: "cut_run (next_tsn assoc) (outbound assoc) chunks (outbound a1)" "pmdcs a1 = pmdcs assoc"
    using cut_loop_run [OF Cons.prems(1,2), of al "[]" 0] cut by (auto simp: cut_result_def cut_new_data_def)
  have "unsent_total (outbound a1) \<le> length als"
  proof (cases "outbound assoc = []")
    case True
    then have "outbound a1 = []" using run(1) by (auto elim: cut_run.cases)
    then show ?thesis by (simp add: unsent_total_def)
  next
    case False
    then have "chunks \<noteq> []" using cut_open_window [of assoc al] cut Cons.prems(2,3) by simp
    then have "1 \<le> length chunks" by (cases chunks) auto
    then show ?thesis using cut_run_decreases [OF run(1)] Cons.prems(4) by simp
  qed
  then show ?case
    using Cons.IH [of a1] cut_run_unsent [OF run(1) Cons.prems(1)] Cons.prems(2,3) run(2) cut by (simp add: case_prod_unfold)
qed

subsection \<open>Properties\<close>

text \<open>Fragmentation is invisible to the receiver: however the queued messages are cut into DATA chunks over any number of passes of the
  send loop, under whatever windows, a receiver that takes the chunks in TSN order hands up exactly the messages that were queued,
  whole, once each and in the order they were queued, and never takes the chunks for a protocol violation.\<close>

lemma fragments_reassemble:
  assumes "outbound assoc = ms" "list_all (\<lambda>m. om_offset m = 0 \<and> om_bytes m \<noteq> []) ms" "20 \<le> unat (pmdcs assoc)"
    and "outbound (snd (cut_all als assoc)) = []"
    and "numbered (\<lambda>s. is_next_ssn (inbound_stream peer s)) ms"
    and "tsn_ooo_buffer peer = []" "omap_ok (<) UNIV (inbound_streams peer)" "\<forall>s. early (inbound_stream peer s) = []"
      "\<not> ra_open (reassembly peer)"
  shows "\<exists>peer'. take_all (fst (cut_all als assoc)) (peer, []) = (True, peer', map delivery_of ms)"
proof -
  have "list_all unsent ms" using assms(2) by (auto simp: unsent_def list_all_iff)
  then have "cut_run (next_tsn assoc) ms (fst (cut_all als assoc)) []" "list_all unsent ms"
    using cut_all_run [of assoc als] assms(1,3,4) by simp_all
  moreover have "expects (\<lambda>s. is_next_ssn (inbound_stream peer s)) peer" using assms(6-8) by (simp add: expects_def)
  moreover have "case ms of [] \<Rightarrow> \<not> ra_open (reassembly peer) | m # _ \<Rightarrow> holds_part m (reassembly peer)"
    using assms(2,9) by (auto simp: holds_part_def split: list.split)
  moreover have "list_all (\<lambda>m. om_offset m = 0) (tl ms)" using assms(2) by (cases ms) (auto simp: list_all_iff)
  ultimately show ?thesis using cut_run_received [of _ ms _ "[]" _ peer "[]"] assms(5) by fastforce
qed

definition example_messages :: "Outbound_Message list" where
  "example_messages =
     [\<lparr>om_stream = 3, om_ssn = 0, om_unordered = False, om_bytes = [1, 2, 3, 4, 5, 6, 7, 8, 9], om_offset = 0\<rparr>,
      \<lparr>om_stream = 3, om_ssn = 0, om_unordered = True, om_bytes = [10], om_offset = 0\<rparr>,
      \<lparr>om_stream = 3, om_ssn = 1, om_unordered = False, om_bytes = [11, 12], om_offset = 0\<rparr>]"

definition example_sender :: Association where
  "example_sender = blank_association\<lparr>pmdcs := 24, outbound := example_messages, outbound_bytes := 12, next_tsn := 5\<rparr>"

definition open_allowance :: Send_Allowance where
  "open_allowance = \<lparr>flight_size = 0, al_cwnd_open = True, burst_spent = False, al_rwnd = 1000, zero_window_probe = False, rwnd_blocked = False\<rparr>"

lemma example_sender_drains: "outbound (snd (cut_all (replicate 12 open_allowance) example_sender)) = []"
  by (rule cut_all_drains)
    (simp_all add: example_sender_def example_messages_def open_allowance_def unsent_def unsent_total_def list_all_iff)

text \<open>C20: A packet of new DATA fits the PMDCS, and the peer's window unless it is a zero window probe, which is a single chunk.\<close>

theorem cut_packet_fits:
  "wire_total (fst (cut_new_data assoc allowance)) \<le> unat (pmdcs assoc) \<and>
   (if zero_window_probe allowance then length (fst (cut_new_data assoc allowance)) \<le> 1
    else wire_total (fst (cut_new_data assoc allowance)) \<le> unat (al_rwnd allowance))"
  using cut_loop_fits [of "[]" 0 assoc allowance] cut_loop_probe [of allowance assoc 0] by (auto simp: cut_new_data_def)

text \<open>C21: Everything queued is eventually sent: as long as every pass finds a window of at least one PMDCS open, the outbound queue is empty after
  at most as many passes as it holds bytes.\<close>

theorem outbound_drains:
  assumes "list_all (\<lambda>m. om_offset m < length (om_bytes m)) (outbound assoc)" "20 \<le> unat (pmdcs assoc)"
    and "list_all (\<lambda>allowance. pmdcs assoc \<le> al_rwnd allowance) allowances"
    and "unsent_total (outbound assoc) \<le> length allowances"
  shows "outbound (snd (cut_all allowances assoc)) = []"
  using assms cut_all_drains [of assoc allowances] by (simp add: unsent_def list_all_iff)

theorem outbound_drains_witness: "outbound (snd (cut_all (replicate 12 open_allowance) example_sender)) = []"
  by (rule outbound_drains)
    (simp_all add: example_sender_def example_messages_def open_allowance_def unsent_total_def list_all_iff)

text \<open>A T3-rtx expiry takes everything in flight to its path out of flight: nothing remains in flight there, the flight of every other path is as
  before, and the peer's window is given back exactly the bytes taken out.\<close>

theorem t3_timeout_clears_flight:
  assumes "i < length (peer_address_list assoc)"
  shows "bytes_in_flight (fst (t3_timeout i assoc)) (Some i) = 0 \<and>
    (\<forall>j. j = i \<or> bytes_in_flight (fst (t3_timeout i assoc)) (Some j) = bytes_in_flight assoc (Some j)) \<and>
    peer_rwnd (fst (t3_timeout i assoc)) = peer_rwnd assoc + of_nat (bytes_in_flight assoc (Some i))"
proof -
  obtain a target where form: "fst (t3_timeout i assoc) =
       a\<lparr>outstanding_data := map (\<lambda>e. if lost_on assoc i (snd e)
           then (fst e, (snd e)\<lparr>pending_retransmission := True, od_destination := target\<rparr>) else e) (outstanding_data assoc),
         peer_rwnd := peer_rwnd assoc + of_nat (bytes_in_flight assoc (Some i))\<rparr>"
    "map (\<lambda>p. s_addr (address p)) (peer_address_list a) = map (\<lambda>p. s_addr (address p)) (peer_address_list assoc)"
    "primary_path a = primary_path assoc"
    using t3_timeout_form [OF assms] by blast
  have dest: "destination_of (fst (t3_timeout i assoc)) x = destination_of assoc x" for x
    by (rule destination_of_addresses) (simp_all add: form)
  have flight: "bytes_in_flight (fst (t3_timeout i assoc)) (Some j) = (if j = i then 0 else bytes_in_flight assoc (Some j))" for j
    unfolding flight_on_path_sum dest by (auto simp: form(1) lost_on_def comp_def intro!: arg_cong [of _ _ sum_list])
  then show ?thesis by (simp add: form(1))
qed

definition example_outstanding :: "u32 \<Rightarrow> bool \<Rightarrow> sockaddr_in \<Rightarrow> u32 \<times> Outstanding_Data" where
  "example_outstanding tsn pending destination =
     (tsn, \<lparr>od_data = \<lparr>data_tsn = tsn, stream_identifier = 0, stream_seq_num = 0, payload_protocal = 0, user_data = [1, 2, 3], data_flags = 3\<rparr>,
       first_sent = 0, last_sent = 0, retransmitted = False, gap_acked = False, missing_reports = 0, fast_retransmitted = False,
       pending_retransmission = pending, od_destination = destination\<rparr>)"

definition example_flight :: "bool \<Rightarrow> Association" where
  "example_flight pending =
     example_association\<lparr>peer_rwnd := 500,
       outstanding_data := [example_outstanding 8 pending \<lparr>s_addr = 1, sin_port = 9\<rparr>, example_outstanding 9 pending \<lparr>s_addr = 1, sin_port = 9\<rparr>]\<rparr>"

theorem t3_timeout_clears_flight_witness:
  "bytes_in_flight (example_flight False) (Some 0) = 40 \<and> bytes_in_flight (fst (t3_timeout 0 (example_flight False))) (Some 0) = 0 \<and>
   peer_rwnd (fst (t3_timeout 0 (example_flight False))) = 540"
proof -
  have "bytes_in_flight (example_flight False) (Some 0) = 40" "0 < length (peer_address_list (example_flight False))"
    by (simp_all add: example_flight_def example_outstanding_def example_association_simps bytes_in_flight_def destination_of_def
        find_path_def same_destination_def data_chunk_wire_size_def pad4_def)
  moreover have "peer_rwnd (example_flight False) = 500" by (simp add: example_flight_def)
  ultimately show ?thesis using t3_timeout_clears_flight [of 0 "example_flight False"] by simp
qed

text \<open>C22: A retransmission is exact. No packet is made only when nothing is marked, or when the window of the path of the lowest marked TSN is
  closed and the retransmission has to respect it. Otherwise the packet goes to that path and carries the longest run of the marked chunks bound for
  it, from the lowest TSN on, that fits one PMDCS, a first chunk larger than that being sent alone; exactly the chunks it carries lose their mark, and
  nothing else of the association changes.\<close>

theorem retransmission_bundle_exact:
  assumes "distinct (map fst (outstanding_data assoc))"
  defines "ordered \<equiv> filter marked (outstanding_data assoc)"
  defines "to \<equiv> destination_of assoc (snd (hd ordered))"
  defines "bound \<equiv> filter (\<lambda>e. destination_of assoc (snd e) = to) ordered"
  shows "case retransmission_bundle gated assoc of
      None \<Rightarrow> ordered = [] \<or> gated \<and> \<not> cwnd_open assoc to
    | Some (destination, chunks, assoc') \<Rightarrow>
        ordered \<noteq> [] \<and> (gated \<longrightarrow> cwnd_open assoc to) \<and> destination = address (path_at assoc to) \<and>
        (\<exists>k. 0 < k \<and> k \<le> length bound \<and> chunks = map (\<lambda>e. od_data (snd e)) (take k bound) \<and>
           (k = 1 \<or> wire_total chunks \<le> unat (pmdcs assoc)) \<and>
           (k < length bound \<longrightarrow> unat (pmdcs assoc) < wire_total (map (\<lambda>e. od_data (snd e)) (take (Suc k) bound))) \<and>
           assoc' = assoc\<lparr>outstanding_data := map (\<lambda>e. if e \<in> set (take k bound)
             then (fst e, (snd e)\<lparr>pending_retransmission := False\<rparr>) else e) (outstanding_data assoc)\<rparr>)"
proof (cases "ordered = [] \<or> gated \<and> \<not> cwnd_open assoc to")
  case True
  then show ?thesis by (auto simp: retransmission_bundle_def Let_def ordered_def to_def)
next
  case False
  define taken where "taken = bundle_loop assoc to ordered [] SCTP_COMMON_HEADER_SIZE"
  have res: "retransmission_bundle gated assoc = Some (address (path_at assoc to), map (\<lambda>e. od_data (snd e)) taken,
      assoc\<lparr>outstanding_data := map (unmark (map fst taken)) (outstanding_data assoc)\<rparr>)"
    using False by (simp add: retransmission_bundle_def Let_def ordered_def [symmetric] to_def [symmetric] taken_def)
  obtain k where k: "k \<le> length bound" "taken = take k bound"
    "k < length bound \<Longrightarrow> taken \<noteq> [] \<and> unat (pmdcs assoc) < entries_total (take (Suc k) bound)"
    using bundle_loop_prefix [of assoc to ordered "[]" SCTP_COMMON_HEADER_SIZE] unfolding taken_def bound_def by auto
  have "bound \<noteq> []" using False by (cases ordered) (simp_all add: bound_def to_def)
  then have "taken \<noteq> []" using k by (cases "k < length bound") auto
  then have "0 < k" using k(2) by (cases k) auto
  have "length taken \<le> 1 \<or> entries_total taken \<le> unat (pmdcs assoc)"
    using bundle_loop_bound [of SCTP_COMMON_HEADER_SIZE "[]" assoc to ordered] by (simp add: taken_def)
  then have small: "k = 1 \<or> entries_total taken \<le> unat (pmdcs assoc)" using k(1,2) \<open>0 < k\<close> by auto
  have "set taken \<subseteq> set (outstanding_data assoc)"
    using k(2) by (auto simp: bound_def ordered_def dest!: in_set_takeD)
  from unmark_taken [OF assms(1) this] show ?thesis
    unfolding res option.case prod.case using False k \<open>0 < k\<close> small by auto
qed

theorem retransmission_bundle_exact_witness:
  "\<exists>destination chunks assoc' k. retransmission_bundle False (example_flight True) = Some (destination, chunks, assoc') \<and> 0 < k \<and>
     chunks = map (\<lambda>e. od_data (snd e)) (take k (filter (\<lambda>e. destination_of (example_flight True) (snd e) =
       destination_of (example_flight True) (snd (hd (filter marked (outstanding_data (example_flight True))))))
         (filter marked (outstanding_data (example_flight True)))))"
proof -
  have "distinct (map fst (outstanding_data (example_flight True)))" "filter marked (outstanding_data (example_flight True)) \<noteq> []"
    by (simp_all add: example_flight_def example_outstanding_def marked_def)
  then show ?thesis
    using retransmission_bundle_exact [of "example_flight True" False]
    by (cases "retransmission_bundle False (example_flight True)") (auto simp del: filter_filter)
qed

end
