(* ===== verification/Outgoing_Packets.thy ===== *)
theory Outgoing_Packets
  imports Data_Sending Expiration_Queue
begin

text \<open>
  Packets that can be serialized. \<open>serialize_sctp_packet\<close> throws on a chunk whose body is not of the alternative its type says, on a
  parameter or cause too long for its length field and on a SACK that does not describe a receive buffer; the event loop catches none
  of these. A packet is \<open>sendable\<close> when it has no such chunk. The builders make sendable packets of what the handlers give them, and
  the send queue and the timers keep what they hold sendable.
\<close>

subsection \<open>Packets\<close>

fun value_sendable :: "Chunk_Value_Type \<Rightarrow> bool" where
  "value_sendable (Sack_Value v) = sack_ok v"
| "value_sendable (Error_Value cs) = list_all (\<lambda>c. param_fits (cause_info c)) cs"
| "value_sendable (Heartbeat_Value v) = param_fits v"
| "value_sendable v = True"

definition chunk_sendable :: "SCTP_Chunk \<Rightarrow> bool" where
  "chunk_sendable c \<longleftrightarrow> chunk_typed c \<and> value_sendable (chunk_value c)"

definition sendable :: "SCTP_Packet \<Rightarrow> bool" where
  "sendable p \<longleftrightarrow> list_all chunk_sendable (pkt_chunks p)"

lemma serialize_chunk_body_total: "chunk_sendable c \<Longrightarrow> \<exists>out'. serialize_chunk_body c out = Inr out'"
  unfolding chunk_sendable_def chunk_typed_def
  by (cases "chunk_value c")
    (auto simp: serialize_chunk_body_def append_parameter_eq serialize_error_bytes serialize_sack_bytes)

lemma serialize_chunks_total: "list_all chunk_sendable cs \<Longrightarrow> \<exists>out'. serialize_chunks cs out = Inr out'"
proof (induction cs arbitrary: out)
  case (Cons c cs)
  then obtain out1 where "serialize_chunk_body c (out @ replicate 4 0) = Inr out1" using serialize_chunk_body_total by fastforce
  then obtain out2 where "serialize_chunk c out = Inr out2" by (auto simp: serialize_chunk_def Let_def)
  with Cons show ?case by simp
qed simp

lemma serialize_sctp_packet_total: "sendable p \<Longrightarrow> \<exists>data. serialize_sctp_packet p = Inr data"
proof -
  assume "sendable p"
  then have ok: "list_all chunk_sendable (pkt_chunks p)" by (simp add: sendable_def)
  show ?thesis unfolding serialize_sctp_packet_def Let_def using serialize_chunks_total [OF ok] by (auto simp: res_simps)
qed

subsection \<open>What the builders make\<close>

lemma sendable_builders [simp]:
  "sendable (build_cookie_ack sp dp t)" "sendable (build_shutdown sp dp t c)" "sendable (build_shutdown_ack sp dp t)"
  "sendable (build_shutdown_complete sp dp t r)"
  "sendable (build_error sp dp t cs) = list_all (\<lambda>c. param_fits (cause_info c)) cs"
  "sendable (build_abort sp dp t r cs) = list_all (\<lambda>c. param_fits (cause_info c)) cs"
  "sendable (build_heartbeat sp dp t v) = param_fits v" "sendable (build_heartbeat_ack sp dp t v) = param_fits v"
  by (simp_all add: sendable_def single_chunk_builders chunk_sendable_def chunk_typed_def)

lemma sendable_build_cookie_echo [simp]:
  "sendable (build_cookie_echo sp dp t cookie cs) = list_all (\<lambda>c. param_fits (cause_info c)) cs"
  by (simp add: sendable_def build_cookie_echo_def append_chunk_def packet_with_header_def chunk_sendable_def chunk_typed_def Let_def)

lemma sendable_append_data [simp]: "sendable (append_chunk p DATA (Data_Value d) f) = sendable p"
  by (simp add: sendable_def append_chunk_def chunk_sendable_def chunk_typed_def)

lemma sendable_build_data [simp]: "sendable (build_data sp dp t ds)"
proof -
  have "sendable p \<Longrightarrow> sendable (foldl (\<lambda>packet d. append_chunk packet DATA (Data_Value d) (data_flags d)) p ds)" for p
    by (induction ds arbitrary: p) simp_all
  then show ?thesis by (simp add: build_data_def) (simp add: sendable_def packet_with_header_def)
qed

lemma sendable_build_init: "build_init sp dp t tsn ms = Inr p \<Longrightarrow> sendable p"
  by (auto simp: build_init_def res_simps sendable_def append_chunk_def packet_with_header_def chunk_sendable_def chunk_typed_def
      split: if_splits)

lemma sendable_build_init_ack: "build_init_ack sp dp pt t tsn cookie us = Inr p \<Longrightarrow> sendable p"
  by (auto simp: build_init_ack_def res_simps sendable_def append_chunk_def packet_with_header_def chunk_sendable_def chunk_typed_def)

text \<open>A SACK made of a buffer that fits it.\<close>

lemma sendable_make_sack:
  assumes "ooo_ok assoc" "length (duplicate_tsns assoc) \<le> UINT16_MAX"
  shows "sendable (fst (make_sack port key buffered assoc))"
proof -
  have "sack_ok (sack_in (fst (make_sack port key buffered assoc)))"
    using gap_blocks_describe [OF assms(1)] assms(2) by (simp add: sack_in_make_sack sack_ok_def unat_of_nat)
  then show ?thesis
    by (simp add: sack_in_def make_sack_def Let_def build_sack_def append_chunk_def packet_with_header_def sendable_def
        chunk_sendable_def chunk_typed_def)
qed

subsection \<open>What the queues hold\<close>

definition queued_ok :: "Send_Queue \<Rightarrow> bool" where
  "queued_ok sq \<longleftrightarrow> list_all (\<lambda>q. sendable (dl_packet (q_deliverable q))) (all_queued sq)"

definition retries_ok :: "Expiration_Queue \<Rightarrow> bool" where
  "retries_ok eq \<longleftrightarrow> list_all (\<lambda>f. sendable (dl_packet (ef_retry f))) (eq_queue eq)"

lemma queued_ok_for: "queued_ok sq \<longleftrightarrow> (\<forall>prio. list_all (\<lambda>q. sendable (dl_packet (q_deliverable q))) (queue_for prio sq))"
  unfolding queued_ok_def by (metis (no_types, lifting) Send_Priority.exhaust list_all_append queue_for.simps)

lemma queued_ok_set:
  "queued_ok sq \<Longrightarrow> list_all (\<lambda>q. sendable (dl_packet (q_deliverable q))) qs \<Longrightarrow> queued_ok (set_queue prio qs sq)"
  by (cases prio) (simp_all add: queued_ok_def)

lemma queued_ok_fields [simp]:
  "queued_ok (sq\<lparr>next_id := i\<rparr>) = queued_ok sq" "queued_ok (sq\<lparr>new_data_blocked := b\<rparr>) = queued_ok sq"
  "queued_ok (sq\<lparr>next_send_attempt := t\<rparr>) = queued_ok sq"
  by (simp_all add: queued_ok_def)

lemma queued_ok_enqueue: "queued_ok sq \<Longrightarrow> sendable (dl_packet d) \<Longrightarrow> queued_ok (enqueue d prio sq)"
  using queued_ok_for [of sq] by (auto simp: enqueue_def intro!: queued_ok_set)

lemma shrinks_sendable:
  "shrinks qs qs' \<Longrightarrow> list_all (\<lambda>q. sendable (dl_packet (q_deliverable q))) qs \<Longrightarrow>
   list_all (\<lambda>q. sendable (dl_packet (q_deliverable q))) qs'"
proof -
  assume s: "shrinks qs qs'" and ok: "list_all (\<lambda>q. sendable (dl_packet (q_deliverable q))) qs"
  have "sendable (dl_packet (q_deliverable (f q)))" if "remains_of q (f q)" "sendable (dl_packet (q_deliverable q))" for f q
    using that by (auto simp: remains_of_def sendable_def list_all_iff)
  with s ok show ?thesis by (fastforce simp: shrinks_def list_all_iff)
qed

lemma erase_id_subset: "set (erase_id i qs) \<subseteq> set qs"
  by (induction qs) auto

lemma queued_ok_commit: "queued_ok sq \<Longrightarrow> queued_ok (commit p sq)"
proof -
  assume ok: "queued_ok sq"
  then have "list_all (\<lambda>q. sendable (dl_packet (q_deliverable q))) (erase_id (p_id p) (queue_for (p_priority p) sq))"
    using erase_id_subset [of "p_id p" "queue_for (p_priority p) sq"] unfolding queued_ok_for list_all_iff by blast
  with ok show ?thesis by (simp add: commit_def queued_ok_set)
qed

lemma queued_ok_shrink:
  "queued_ok sq \<Longrightarrow> queued_ok (purge location sq)"
  "queued_ok sq \<Longrightarrow> queued_ok (remove_acked_retransmissions location sack sq)"
  "queued_ok sq \<Longrightarrow> queued_ok (remove_retransmissions_of_type location type dest sq)"
  "queued_ok sq \<Longrightarrow> queued_ok (defer_send t sq)" "queued_ok (clear_queue sq)"
  by (simp_all add: queued_ok_def purge_def purge_one_def remove_acked_retransmissions_def remove_retransmissions_of_type_def
      defer_send_def clear_queue_def shrinks_sendable [OF shrinks_remove_acked] shrinks_sendable [OF shrinks_remove_type]
      shrinks_sendable [OF shrinks_filter])

lemma queued_ok_peek: "queued_ok sq \<Longrightarrow> peek now al sq = (r, al', sq') \<Longrightarrow> queued_ok sq'"
  using peek_locked_queues [of now "Some al" sq] queued_ok_for [of sq] queued_ok_for [of sq']
  by (auto simp: peek_def split: prod.splits)

lemma peeked_sendable: "queued_ok sq \<Longrightarrow> peek now al sq = (Some p, al', sq') \<Longrightarrow> sendable (dl_packet (p_deliverable p))"
  using peek_in_queue [of now al sq p] queued_ok_for [of sq] by (fastforce simp: peek_def list_all_iff split: prod.splits)

lemma retries_ok_schedule: "retries_ok eq \<Longrightarrow> sendable (dl_packet retry) \<Longrightarrow> retries_ok (schedule key t retry eq)"
  by (simp add: retries_ok_def schedule_def Let_def list_all_iff set_heap_push)

lemma retries_ok_cancel [simp]:
  "retries_ok (cancel k eq) = retries_ok eq" "retries_ok (cancel_all l eq) = retries_ok eq"
  "retries_ok (cancel_all_of_type l ty eq) = retries_ok eq" "retries_ok (clear_expirations eq)"
  by (simp_all add: retries_ok_def cancel_def cancel_all_def cancel_all_of_type_def clear_expirations_def)

lemma drain_loop_entries:
  "set (fst (drain_loop now q live expired)) \<union> set (fst (snd (drain_loop now q live expired))) \<subseteq> set q \<union> set expired"
proof (induction now q live expired rule: drain_loop.induct)
  case (1 now q live expired)
  show ?case
  proof (cases "q \<noteq> [] \<and> ef_expiration (heap_top q) \<le> now")
    case True
    then have "heap_top q \<in> set q" "set (heap_pop q) \<subseteq> set q" by (cases q; simp add: heap_top_def heap_pop_def; blast)+
    moreover have "drain_loop now q live expired = (if \<not> is_live live (heap_top q) then drain_loop now (heap_pop q) live expired
        else drain_loop now (heap_pop q) (live(ef_key (heap_top q) := None)) (expired @ [heap_top q]))"
      using True by (simp add: drain_loop.simps [of now q] Let_def)
    ultimately show ?thesis
      using "1.IH"(1) [OF True refl refl] "1.IH"(2) [OF True refl refl] by (cases "is_live live (heap_top q)") (simp_all del: fun_upd_apply, blast+)
  qed (auto simp: drain_loop.simps [of now q])
qed

lemma retries_ok_drain:
  "retries_ok eq \<Longrightarrow> drain_expired now eq = (expired, eq') \<Longrightarrow>
   retries_ok eq' \<and> list_all (\<lambda>f. sendable (dl_packet (ef_retry f))) expired"
  using drain_loop_entries [of now "eq_queue eq" "eq_active eq" "[]"]
  by (auto simp: retries_ok_def drain_expired_def list_all_iff case_prod_unfold)

lemma deadline_loop_entries: "set (snd (deadline_loop live q)) \<subseteq> set q"
proof (induction live q rule: deadline_loop.induct)
  case (1 live q)
  have "set (heap_pop q) \<subseteq> set q" by (cases q) (auto simp: heap_pop_def)
  with 1 show ?case by (subst deadline_loop.simps) auto
qed

lemma retries_ok_next: "retries_ok eq \<Longrightarrow> next_expiration eq = (t, eq') \<Longrightarrow> retries_ok eq'"
  using deadline_loop_entries [of "eq_active eq" "eq_queue eq"]
  by (auto simp: retries_ok_def next_expiration_def list_all_iff case_prod_unfold)

end
