(* ===== verification/Socket_State.thy ===== *)
theory Socket_State
  imports Outgoing_Packets Sack_Processing Receive_Queue Expiration_Queue Notification_Queue Cookie_Auth
begin

text \<open>
  The socket (\<open>include/sctp/socket.hpp\<close>) and the operations every handler is composed of: associations and their aliases,
  packets handed to the send queue, timers, notifications and removal (\<open>src/socket_api.cpp\<close>, \<open>src/socket_event_loop.cpp\<close>).

  Both hash maps are maps; a loop over one of them that does not act on every entry alike takes the order of the walk as an argument.
  A call holds \<open>associations_mutex\<close> while it reads or changes an association and each queue's mutex inside its operations; a call of
  the model is one step. \<open>wake_event_loop\<close> and \<open>association_changed.notify_all\<close> only wake threads and are left out. The random bytes
  the operating system will give are the list \<open>entropy\<close>; the current time is an argument.
\<close>

subsection \<open>State\<close>

record Socket =
  running :: bool
  linger_ms :: int
  local_address :: sockaddr_in
  associations :: "Association_Key \<rightharpoonup> Association"
  peer_addresses :: "Association_Key \<rightharpoonup> Association_Key"
  sends :: Send_Queue
  receives :: Receive_Queue
  expirations :: Expiration_Queue
  notifications :: Notification_Queue
  cookie_authorizer :: Cookie_Auth
  entropy :: bytes

datatype Sctp_Status =
    OK | NOT_RUNNING | INVALID_ADDRESS | NO_ASSOCIATION | ASSOCIATION_EXISTS | NOT_ESTABLISHED | SHUTTING_DOWN
  | EMPTY_MESSAGE | QUEUE_FULL | INVALID_STREAM | UNKNOWN_DESTINATION | UNCONFIRMED_DESTINATION | TIMED_OUT

definition no_address :: sockaddr_in where
  "no_address = \<lparr>s_addr = 0, sin_port = 0\<rparr>"

definition empty_packet :: SCTP_Packet where
  "empty_packet = \<lparr>pkt_header = \<lparr>src_port = 0, des_port = 0, verification_tag = 0, hdr_checksum = 0\<rparr>, pkt_chunks = []\<rparr>"

definition no_packet :: "Association_Key \<Rightarrow> Deliverable" where
  "no_packet key = \<lparr>dl_location = key, dl_destination = no_address, dl_packet = empty_packet\<rparr>"

definition association_timer :: "Association_Key \<Rightarrow> Expiration_Timer_Type \<Rightarrow> Expiration_Key" where
  "association_timer key type = \<lparr>ek_location = key, ek_type = type, ek_path = no_address\<rparr>"

definition path_timer :: "Association_Key \<Rightarrow> Expiration_Timer_Type \<Rightarrow> sockaddr_in \<Rightarrow> Expiration_Key" where
  "path_timer key type destination = \<lparr>ek_location = key, ek_type = type, ek_path = path_key destination\<rparr>"

abbreviation local_port :: "Socket \<Rightarrow> u16" where
  "local_port s \<equiv> ntohs (sin_port (local_address s))"

abbreviation peer_port :: "Association_Key \<Rightarrow> u16" where
  "peer_port key \<equiv> ntohs (sin_port key)"

subsection \<open>Random values\<close>

text \<open>\<open>generate_random\<close> fills its argument with the next bytes; \<open>generate_nonzero_tag\<close> draws until the tag is not zero, which
  the listed bytes may end before.\<close>

definition random32 :: "Socket \<Rightarrow> u32 \<times> Socket" where
  "random32 s = (let b = resize0 4 (entropy s) in (load32 (b ! 0) (b ! 1) (b ! 2) (b ! 3), s\<lparr>entropy := drop 4 (entropy s)\<rparr>))"

definition random64 :: "Socket \<Rightarrow> u64 \<times> Socket" where
  "random64 s =
     (case random32 s of (low, s1) \<Rightarrow> case random32 s1 of (high, s2) \<Rightarrow> (push_bit 32 (ucast high) OR ucast low, s2))"

fun nonzero_tag :: "bytes \<Rightarrow> (u32 \<times> bytes) option" where
  "nonzero_tag (a # b # c # d # rest) = (let tag = load32 a b c d in if tag = 0 then nonzero_tag rest else Some (tag, rest))"
| "nonzero_tag _ = None"

definition generate_nonzero_tag :: "Socket \<Rightarrow> (u32 \<times> Socket) option" where
  "generate_nonzero_tag s = map_option (\<lambda>(tag, rest). (tag, s\<lparr>entropy := rest\<rparr>)) (nonzero_tag (entropy s))"

subsection \<open>Associations and their addresses\<close>

definition put_association :: "Association_Key \<Rightarrow> Association \<Rightarrow> Socket \<Rightarrow> Socket" where
  "put_association key assoc s = s\<lparr>associations := (associations s)(key \<mapsto> assoc)\<rparr>"

definition association_key_for :: "Association_Key \<Rightarrow> Socket \<Rightarrow> Association_Key" where
  "association_key_for peer s =
     (if associations s peer \<noteq> None then peer
      else case peer_addresses s peer of None \<Rightarrow> peer | Some key \<Rightarrow> key)"

definition add_peer_address :: "Association_Key \<Rightarrow> Association \<times> (Association_Key \<rightharpoonup> Association_Key) \<Rightarrow> sockaddr_in \<Rightarrow>
    Association \<times> (Association_Key \<rightharpoonup> Association_Key)" where
  "add_peer_address key state a =
     (case state of (assoc, aliases) \<Rightarrow>
        let alias = peer_key a (peer_port key)
        in (if find_path assoc a = None
            then assoc\<lparr>peer_address_list := peer_address_list assoc @ [make_path a False (pmdcs assoc)]\<rparr> else assoc,
            if \<not> same_destination a key \<and> aliases alias = None then aliases(alias \<mapsto> key) else aliases))"

definition add_peer_addresses :: "Association_Key \<Rightarrow> Association \<Rightarrow> sockaddr_in list \<Rightarrow> Socket \<Rightarrow> Socket" where
  "add_peer_addresses key assoc addresses s =
     (case foldl (add_peer_address key) (assoc, peer_addresses s) addresses of
        (assoc', aliases) \<Rightarrow> put_association key assoc' (s\<lparr>peer_addresses := aliases\<rparr>))"

definition record_encapsulation_port :: "Association_Key \<Rightarrow> sockaddr_in \<Rightarrow> Socket \<Rightarrow> Socket" where
  "record_encapsulation_port key src s =
     (case associations s key of
        None \<Rightarrow> s
      | Some assoc \<Rightarrow>
          (case find_path assoc src of
             None \<Rightarrow> s
           | Some i \<Rightarrow>
               let path = path_at assoc i
               in put_association key (assoc\<lparr>peer_address_list := (peer_address_list assoc)
                    [i := path\<lparr>address := (address path)\<lparr>sin_port := sin_port src\<rparr>\<rparr>]\<rparr>) s))"

definition forget_peer_addresses :: "Association_Key \<Rightarrow> Socket \<Rightarrow> Socket" where
  "forget_peer_addresses key s =
     s\<lparr>peer_addresses := (\<lambda>a. if peer_addresses s a = Some key then None else peer_addresses s a)\<rparr>"

definition erase_association :: "Association_Key \<Rightarrow> Socket \<Rightarrow> Socket" where
  "erase_association key s = s\<lparr>associations := (associations s)(key := None)\<rparr>"

subsection \<open>Packets and timers\<close>

definition enqueue_packet :: "Deliverable \<Rightarrow> Send_Priority \<Rightarrow> Socket \<Rightarrow> Socket" where
  "enqueue_packet deliverable priority s = s\<lparr>sends := enqueue deliverable priority (sends s)\<rparr>"

definition send_control :: "Association_Key \<Rightarrow> sockaddr_in \<Rightarrow> SCTP_Packet \<Rightarrow> Socket \<Rightarrow> Socket" where
  "send_control key destination packet =
     enqueue_packet \<lparr>dl_location = key, dl_destination = destination, dl_packet = packet\<rparr> CONTROL"

definition purge_sends :: "Association_Key \<Rightarrow> Socket \<Rightarrow> Socket" where
  "purge_sends key s = s\<lparr>sends := purge key (sends s)\<rparr>"

definition drop_retransmissions :: "Association_Key \<Rightarrow> u8 \<Rightarrow> sockaddr_in option \<Rightarrow> Socket \<Rightarrow> Socket" where
  "drop_retransmissions key type destination s =
     s\<lparr>sends := remove_retransmissions_of_type key type destination (sends s)\<rparr>"

definition drop_acked :: "Association_Key \<Rightarrow> sack_chunk_value \<Rightarrow> Socket \<Rightarrow> Socket" where
  "drop_acked key sack s = s\<lparr>sends := remove_acked_retransmissions key sack (sends s)\<rparr>"

definition schedule_expiration :: "Expiration_Key \<Rightarrow> time \<Rightarrow> Deliverable \<Rightarrow> Socket \<Rightarrow> Socket" where
  "schedule_expiration key expiration retry s = s\<lparr>expirations := schedule key expiration retry (expirations s)\<rparr>"

definition cancel_expiration :: "Expiration_Key \<Rightarrow> Socket \<Rightarrow> Socket" where
  "cancel_expiration key s = s\<lparr>expirations := cancel key (expirations s)\<rparr>"

definition cancel_expirations :: "Association_Key \<Rightarrow> Socket \<Rightarrow> Socket" where
  "cancel_expirations location s = s\<lparr>expirations := cancel_all location (expirations s)\<rparr>"

definition cancel_expirations_of_type :: "Association_Key \<Rightarrow> Expiration_Timer_Type \<Rightarrow> Socket \<Rightarrow> Socket" where
  "cancel_expirations_of_type location type s = s\<lparr>expirations := cancel_all_of_type location type (expirations s)\<rparr>"

abbreviation timer_active :: "Expiration_Key \<Rightarrow> Socket \<Rightarrow> bool" where
  "timer_active key s \<equiv> is_active key (expirations s)"

subsection \<open>Notifications\<close>

definition raise_notification :: "Notification_Type \<Rightarrow> Association_Key \<Rightarrow> Notification_Payload \<Rightarrow> Socket \<Rightarrow> Socket" where
  "raise_notification type key payload s =
     s\<lparr>notifications := enqueue_notification
        \<lparr>nt_type = type, nt_src = key, nt_sequence_number = 0, nt_payload = payload\<rparr> (notifications s)\<rparr>"

definition notify_assoc_change :: "Association_Key \<Rightarrow> Assoc_Change_State \<Rightarrow> Socket \<Rightarrow> Socket" where
  "notify_assoc_change key st = raise_notification SCTP_ASSOC_CHANGE key (Assoc_Change st)"

definition notify_peer_addr_change :: "Association_Key \<Rightarrow> sockaddr_in \<Rightarrow> Peer_Addr_State \<Rightarrow> Socket \<Rightarrow> Socket" where
  "notify_peer_addr_change key a st =
     raise_notification SCTP_PEER_ADDR_CHANGE key (Peer_Addr_Change (a\<lparr>sin_port := sin_port key\<rparr>) st)"

text \<open>The notification a function on a path asked for.\<close>

definition notify_path :: "Association_Key \<Rightarrow> sockaddr_in \<Rightarrow> Peer_Addr_State option \<Rightarrow> Socket \<Rightarrow> Socket" where
  "notify_path key a change s = (case change of None \<Rightarrow> s | Some st \<Rightarrow> notify_peer_addr_change key a st s)"

definition abandon_partial_delivery :: "Association_Key \<Rightarrow> Association \<Rightarrow> Socket \<Rightarrow> Socket" where
  "abandon_partial_delivery key assoc s =
     (if \<not> ra_open (reassembly assoc) \<or> \<not> partially_delivered (reassembly assoc) then s
      else raise_notification SCTP_PARTIAL_DELIVERY_EVENT key
             (Partial_Delivery_Event (ra_stream (reassembly assoc)) (ra_ssn (reassembly assoc)))
             (s\<lparr>receives := abandon_open key (receives s)\<rparr>))"

definition detach_receives :: "Association_Key \<Rightarrow> Socket \<Rightarrow> Socket" where
  "detach_receives key s = s\<lparr>receives := detach key (receives s)\<rparr>"

definition push_delivery :: "Association_Key \<Rightarrow> Delivery \<Rightarrow> Socket \<Rightarrow> Socket" where
  "push_delivery key delivery s =
     s\<lparr>receives := push key (dv_bytes delivery) (dv_complete delivery) (dv_stream delivery) (receives s)\<rparr>"

subsection \<open>Removal\<close>

definition remove_association :: "Association_Key \<Rightarrow> Socket \<Rightarrow> Socket" where
  "remove_association key s =
     (let s1 = (case associations s key of
                  None \<Rightarrow> s
                | Some assoc \<Rightarrow> erase_association key (abandon_partial_delivery key assoc s))
      in purge_sends key (cancel_expirations key (forget_peer_addresses key (detach_receives key s1))))"

subsection \<open>Frames\<close>

text \<open>What each operation leaves alone: packets and notifications touch neither associations nor timers, timers touch no
  association.\<close>

lemma associations_frame [simp]:
  "associations (enqueue_packet d p s) = associations s" "associations (send_control k a pkt s) = associations s"
  "associations (purge_sends k s) = associations s" "associations (drop_retransmissions k ty d' s) = associations s"
  "associations (drop_acked k sack s) = associations s" "associations (schedule_expiration ek t r s) = associations s"
  "associations (cancel_expiration ek s) = associations s" "associations (cancel_expirations k s) = associations s"
  "associations (cancel_expirations_of_type k tt s) = associations s"
  "associations (raise_notification nt k pl s) = associations s" "associations (notify_assoc_change k st s) = associations s"
  "associations (notify_peer_addr_change k a ps s) = associations s" "associations (notify_path k a c s) = associations s"
  "associations (abandon_partial_delivery k assoc s) = associations s" "associations (detach_receives k s) = associations s"
  "associations (push_delivery k dv s) = associations s" "associations (forget_peer_addresses k s) = associations s"
  "associations (put_association k assoc s) = (associations s)(k \<mapsto> assoc)"
  "associations (erase_association k s) = (associations s)(k := None)"
  "associations (s\<lparr>entropy := e\<rparr>) = associations s"
  by (simp_all add: enqueue_packet_def send_control_def purge_sends_def drop_retransmissions_def drop_acked_def
      schedule_expiration_def cancel_expiration_def cancel_expirations_def cancel_expirations_of_type_def raise_notification_def
      notify_assoc_change_def notify_peer_addr_change_def notify_path_def abandon_partial_delivery_def detach_receives_def
      push_delivery_def forget_peer_addresses_def put_association_def erase_association_def split: option.split)

lemma expirations_frame [simp]:
  "expirations (enqueue_packet d p s) = expirations s" "expirations (send_control k a pkt s) = expirations s"
  "expirations (purge_sends k s) = expirations s" "expirations (drop_retransmissions k ty d' s) = expirations s"
  "expirations (drop_acked k sack s) = expirations s"
  "expirations (raise_notification nt k pl s) = expirations s" "expirations (notify_assoc_change k st s) = expirations s"
  "expirations (notify_peer_addr_change k a ps s) = expirations s" "expirations (notify_path k a c s) = expirations s"
  "expirations (abandon_partial_delivery k assoc s) = expirations s" "expirations (detach_receives k s) = expirations s"
  "expirations (push_delivery k dv s) = expirations s" "expirations (forget_peer_addresses k s) = expirations s"
  "expirations (put_association k assoc s) = expirations s" "expirations (erase_association k s) = expirations s"
  by (simp_all add: enqueue_packet_def send_control_def purge_sends_def drop_retransmissions_def drop_acked_def raise_notification_def
      notify_assoc_change_def notify_peer_addr_change_def notify_path_def abandon_partial_delivery_def detach_receives_def
      push_delivery_def forget_peer_addresses_def put_association_def erase_association_def split: option.split)

lemma peer_addresses_frame [simp]:
  "peer_addresses (enqueue_packet d p s) = peer_addresses s" "peer_addresses (send_control k a pkt s) = peer_addresses s"
  "peer_addresses (purge_sends k s) = peer_addresses s" "peer_addresses (drop_retransmissions k ty d' s) = peer_addresses s"
  "peer_addresses (drop_acked k sack s) = peer_addresses s" "peer_addresses (schedule_expiration ek t r s) = peer_addresses s"
  "peer_addresses (cancel_expiration ek s) = peer_addresses s" "peer_addresses (cancel_expirations k s) = peer_addresses s"
  "peer_addresses (cancel_expirations_of_type k tt s) = peer_addresses s"
  "peer_addresses (raise_notification nt k pl s) = peer_addresses s" "peer_addresses (notify_assoc_change k st s) = peer_addresses s"
  "peer_addresses (notify_peer_addr_change k a ps s) = peer_addresses s" "peer_addresses (notify_path k a c s) = peer_addresses s"
  "peer_addresses (abandon_partial_delivery k assoc s) = peer_addresses s" "peer_addresses (detach_receives k s) = peer_addresses s"
  "peer_addresses (push_delivery k dv s) = peer_addresses s" "peer_addresses (put_association k assoc s) = peer_addresses s"
  "peer_addresses (erase_association k s) = peer_addresses s"
  by (simp_all add: enqueue_packet_def send_control_def purge_sends_def drop_retransmissions_def drop_acked_def
      schedule_expiration_def cancel_expiration_def cancel_expirations_def cancel_expirations_of_type_def raise_notification_def
      notify_assoc_change_def notify_peer_addr_change_def notify_path_def abandon_partial_delivery_def detach_receives_def
      push_delivery_def put_association_def erase_association_def split: option.split)

lemma random_frame [simp]:
  "associations (snd (random32 s)) = associations s" "peer_addresses (snd (random32 s)) = peer_addresses s"
  "expirations (snd (random32 s)) = expirations s" "associations (snd (random64 s)) = associations s"
  "peer_addresses (snd (random64 s)) = peer_addresses s" "expirations (snd (random64 s)) = expirations s"
  by (simp_all add: random64_def random32_def Let_def)

subsection \<open>The invariant\<close>

text \<open>An association has a path, a sequence number for every outgoing stream, only messages with something left to send, and, once it has sent SHUTDOWN or
  SHUTDOWN ACK, nothing unsent and nothing unacknowledged. Its out-of-order buffer can be reported in a SACK and is empty before it is
  established, and every duplicate was reported. Every alias leads to an association, every running timer belongs to one, and every
  packet that waits to be sent, or sent again, can be serialized.\<close>

definition forming :: "Association_State \<Rightarrow> bool" where
  "forming st = (st = COOKIE_WAIT \<or> st = COOKIE_ECHOED)"

definition closing :: "Association_State \<Rightarrow> bool" where
  "closing st \<longleftrightarrow> st = SHUTDOWN_SENT \<or> st = SHUTDOWN_ACK_SENT"

definition inbound_ok :: "Association \<Rightarrow> bool" where
  "inbound_ok assoc \<longleftrightarrow> ooo_ok assoc \<and> duplicate_tsns assoc = [] \<and> (forming (assoc_state assoc) \<longrightarrow> tsn_ooo_buffer assoc = [])"

definition assoc_ok :: "Association \<Rightarrow> bool" where
  "assoc_ok assoc \<longleftrightarrow> peer_address_list assoc \<noteq> [] \<and> length (next_ssn assoc) = unat (out_streams assoc) \<and> pmdcs assoc = DEFAULT_PMDCS
     \<and> list_all unsent (outbound assoc)
     \<and> (closing (assoc_state assoc) \<longrightarrow> outbound assoc = [] \<and> cumulative_tsn_ack assoc = next_tsn assoc - 1)
     \<and> inbound_ok assoc"

lemma assoc_ok_cong:
  "peer_address_list b = peer_address_list a \<Longrightarrow> next_ssn b = next_ssn a \<Longrightarrow> out_streams b = out_streams a \<Longrightarrow> pmdcs b = pmdcs a \<Longrightarrow>
   outbound b = outbound a \<Longrightarrow> assoc_state b = assoc_state a \<Longrightarrow> cumulative_tsn_ack b = cumulative_tsn_ack a \<Longrightarrow> next_tsn b = next_tsn a \<Longrightarrow>
   last_peer_tsn b = last_peer_tsn a \<Longrightarrow> tsn_ooo_buffer b = tsn_ooo_buffer a \<Longrightarrow> duplicate_tsns b = duplicate_tsns a \<Longrightarrow>
   assoc_ok b = assoc_ok a"
  by (simp add: assoc_ok_def inbound_ok_def ooo_ok_def)

lemma empty_buffer_ok: "tsn_ooo_buffer a = [] \<Longrightarrow> ooo_ok a"
  by (simp add: ooo_ok_def ooo_at_def omap_sorted_def omap_keys_def)

lemma assoc_ok_frame [simp]:
  "assoc_ok (a\<lparr>peer_ver_tag := v0\<rparr>) = assoc_ok a" "assoc_ok (a\<lparr>this_ver_tag := v1\<rparr>) = assoc_ok a"
  "assoc_ok (a\<lparr>local_tie_tag := v2\<rparr>) = assoc_ok a" "assoc_ok (a\<lparr>peer_tie_tag := v3\<rparr>) = assoc_ok a"
  "assoc_ok (a\<lparr>primary_path := v4\<rparr>) = assoc_ok a" "assoc_ok (a\<lparr>assoc_error_count := v5\<rparr>) = assoc_ok a"
  "assoc_ok (a\<lparr>peer_rwnd := v6\<rparr>) = assoc_ok a" "assoc_ok (a\<lparr>peer_max_rwnd := v7\<rparr>) = assoc_ok a"
  "assoc_ok (a\<lparr>zero_window_probe_allowed := v8\<rparr>) = assoc_ok a"
  "assoc_ok (a\<lparr>zero_window_probing := v9\<rparr>) = assoc_ok a" "assoc_ok (a\<lparr>sack_since_t3 := v10\<rparr>) = assoc_ok a"
  "assoc_ok (a\<lparr>our_rwnd := v11\<rparr>) = assoc_ok a" "assoc_ok (a\<lparr>received_since_sack := v12\<rparr>) = assoc_ok a"
  "assoc_ok (a\<lparr>init_retransmits := v14\<rparr>) = assoc_ok a"
  "assoc_ok (a\<lparr>cookie_retransmits := v15\<rparr>) = assoc_ok a"
  "assoc_ok (a\<lparr>stale_cookie_retries := v16\<rparr>) = assoc_ok a" "assoc_ok (a\<lparr>outstanding_data := v17\<rparr>) = assoc_ok a"
  "assoc_ok (a\<lparr>has_rtt_measurement_tsn := v18\<rparr>) = assoc_ok a"
  "assoc_ok (a\<lparr>rtt_measurement_tsn := v19\<rparr>) = assoc_ok a" "assoc_ok (a\<lparr>hb_interval := v20\<rparr>) = assoc_ok a"
  "assoc_ok (a\<lparr>burst_count := v21\<rparr>) = assoc_ok a" "assoc_ok (a\<lparr>acked_retransmissions := v22\<rparr>) = assoc_ok a"
  "assoc_ok (a\<lparr>in_fast_recovery := v23\<rparr>) = assoc_ok a"
  "assoc_ok (a\<lparr>fast_recovery_exit_tsn := v24\<rparr>) = assoc_ok a"
  "assoc_ok (a\<lparr>delayed_sack_packet_count := v27\<rparr>) = assoc_ok a" "assoc_ok (a\<lparr>in_streams := v28\<rparr>) = assoc_ok a"
  "assoc_ok (a\<lparr>outbound_bytes := v29\<rparr>) = assoc_ok a" "assoc_ok (a\<lparr>reassembly := v30\<rparr>) = assoc_ok a"
  "assoc_ok (a\<lparr>inbound_streams := v31\<rparr>) = assoc_ok a" "assoc_ok (a\<lparr>held_deliveries := v32\<rparr>) = assoc_ok a"
  by (simp_all add: assoc_ok_def inbound_ok_def ooo_ok_def)

lemma assoc_ok_paths [simp]: "length ps = length (peer_address_list a) \<Longrightarrow> assoc_ok (a\<lparr>peer_address_list := ps\<rparr>) = assoc_ok a"
  by (cases ps; cases "peer_address_list a") (simp_all add: assoc_ok_def inbound_ok_def ooo_ok_def)

definition timers_ok :: "Socket \<Rightarrow> bool" where
  "timers_ok s \<longleftrightarrow> (\<forall>t. is_active t (expirations s) \<longrightarrow> associations s (ek_location t) \<noteq> None)"

definition aliases_ok :: "Socket \<Rightarrow> bool" where
  "aliases_ok s \<longleftrightarrow> (\<forall>a key. peer_addresses s a = Some key \<longrightarrow> associations s key \<noteq> None)"

definition associations_ok :: "Socket \<Rightarrow> bool" where
  "associations_ok s \<longleftrightarrow> (\<forall>key assoc. associations s key = Some assoc \<longrightarrow> assoc_ok assoc)"

definition traffic_ok :: "Socket \<Rightarrow> bool" where
  "traffic_ok s \<longleftrightarrow> queued_ok (sends s) \<and> retries_ok (expirations s)"

definition sock_ok :: "Socket \<Rightarrow> bool" where
  "sock_ok s \<longleftrightarrow> timers_ok s \<and> aliases_ok s \<and> associations_ok s \<and> traffic_ok s"

lemmas sock_ok_parts = sock_ok_def timers_ok_def aliases_ok_def associations_ok_def traffic_ok_def

lemma sock_ok_cong:
  "associations s' = associations s \<Longrightarrow> peer_addresses s' = peer_addresses s \<Longrightarrow> expirations s' = expirations s \<Longrightarrow>
   sock_ok s \<Longrightarrow> queued_ok (sends s') \<Longrightarrow> sock_ok s'"
  by (simp add: sock_ok_parts)

lemma sends_frame [simp]:
  "sends (put_association k assoc s) = sends s" "sends (erase_association k s) = sends s" "sends (forget_peer_addresses k s) = sends s"
  "sends (schedule_expiration ek t r s) = sends s" "sends (cancel_expiration ek s) = sends s" "sends (cancel_expirations k s) = sends s"
  "sends (cancel_expirations_of_type k tt s) = sends s" "sends (raise_notification nt k pl s) = sends s"
  "sends (notify_assoc_change k st s) = sends s" "sends (notify_peer_addr_change k a ps s) = sends s"
  "sends (notify_path k a c s) = sends s" "sends (abandon_partial_delivery k assoc s) = sends s" "sends (detach_receives k s) = sends s"
  "sends (push_delivery k dv s) = sends s" "sends (snd (random32 s)) = sends s" "sends (snd (random64 s)) = sends s"
  by (simp_all add: put_association_def erase_association_def forget_peer_addresses_def schedule_expiration_def cancel_expiration_def
      cancel_expirations_def cancel_expirations_of_type_def raise_notification_def notify_assoc_change_def notify_peer_addr_change_def
      notify_path_def abandon_partial_delivery_def detach_receives_def push_delivery_def random32_def random64_def Let_def
      split: option.split)

lemma sock_queued_ok [simp]: "sock_ok s \<Longrightarrow> queued_ok (sends s)"
  by (simp add: sock_ok_parts)

lemma sock_ok_send [simp]:
  "sock_ok s \<Longrightarrow> sendable (dl_packet d) \<Longrightarrow> sock_ok (enqueue_packet d p s)" "sock_ok s \<Longrightarrow> sendable pkt \<Longrightarrow> sock_ok (send_control k a pkt s)"
  by (rule sock_ok_cong; simp add: enqueue_packet_def send_control_def queued_ok_enqueue)+

lemma sock_ok_frame [simp]:
  "sock_ok s \<Longrightarrow> sock_ok (purge_sends k s)" "sock_ok s \<Longrightarrow> sock_ok (drop_retransmissions k ty d' s)"
  "sock_ok s \<Longrightarrow> sock_ok (drop_acked k sack s)"
  "sock_ok s \<Longrightarrow> sock_ok (raise_notification nt k pl s)" "sock_ok s \<Longrightarrow> sock_ok (notify_assoc_change k st s)"
  "sock_ok s \<Longrightarrow> sock_ok (notify_peer_addr_change k a ps s)" "sock_ok s \<Longrightarrow> sock_ok (notify_path k a c s)"
  "sock_ok s \<Longrightarrow> sock_ok (abandon_partial_delivery k assoc s)" "sock_ok s \<Longrightarrow> sock_ok (detach_receives k s)"
  "sock_ok s \<Longrightarrow> sock_ok (push_delivery k dv s)" "sock_ok s \<Longrightarrow> sock_ok (snd (random32 s))" "sock_ok s \<Longrightarrow> sock_ok (snd (random64 s))"
  by (rule sock_ok_cong; simp add: purge_sends_def drop_retransmissions_def drop_acked_def queued_ok_shrink)+

lemma sendable_empty [simp]: "sendable empty_packet" "sendable (dl_packet (no_packet k))"
  by (simp_all add: sendable_def empty_packet_def no_packet_def)

lemma is_active_simps [simp]:
  "is_active t (schedule k e r q) \<longleftrightarrow> t = k \<or> is_active t q" "is_active t (cancel k q) \<longleftrightarrow> t \<noteq> k \<and> is_active t q"
  "is_active t (cancel_all l q) \<longleftrightarrow> ek_location t \<noteq> l \<and> is_active t q"
  "is_active t (cancel_all_of_type l ty q) \<longleftrightarrow> \<not> (ek_location t = l \<and> ek_type t = ty) \<and> is_active t q"
  by (auto simp: is_active_def schedule_def cancel_def cancel_all_def cancel_all_of_type_def Let_def)

lemma schedule_timer_ok [simp]:
  "sock_ok s \<Longrightarrow> associations s (ek_location k) \<noteq> None \<Longrightarrow> sendable (dl_packet r) \<Longrightarrow> sock_ok (schedule_expiration k t r s)"
  by (auto simp: sock_ok_parts schedule_expiration_def retries_ok_schedule)

lemma cancel_ok [simp]:
  "sock_ok s \<Longrightarrow> sock_ok (cancel_expiration k s)" "sock_ok s \<Longrightarrow> sock_ok (cancel_expirations l s)"
  "sock_ok s \<Longrightarrow> sock_ok (cancel_expirations_of_type l ty s)"
  by (auto simp: sock_ok_parts cancel_expiration_def cancel_expirations_def
      cancel_expirations_of_type_def)

lemma put_ok [simp]: "sock_ok s \<Longrightarrow> assoc_ok assoc \<Longrightarrow> sock_ok (put_association k assoc s)"
  by (auto simp: sock_ok_parts)

lemma forget_addresses_ok [simp]: "sock_ok s \<Longrightarrow> sock_ok (forget_peer_addresses k s)"
  by (auto simp: sock_ok_parts forget_peer_addresses_def)

lemma param_fits_short [simp]: "length v \<le> 100 \<Longrightarrow> param_fits v"
  by (simp add: param_fits_def)

text \<open>An association may go once its aliases and its timers are gone.\<close>

lemma erase_ok:
  "sock_ok s \<Longrightarrow> sock_ok (cancel_expirations k (forget_peer_addresses k (erase_association k s)))"
  by (auto simp: sock_ok_parts cancel_expirations_def forget_peer_addresses_def
      erase_association_def)

lemma remove_association_fields:
  "associations (remove_association k s) = (associations s)(k := None)"
  "expirations (remove_association k s) = cancel_all k (expirations s)"
  "peer_addresses (remove_association k s) = (\<lambda>a. if peer_addresses s a = Some k then None else peer_addresses s a)"
  by (auto simp: remove_association_def Let_def cancel_expirations_def forget_peer_addresses_def purge_sends_def fun_eq_iff
      split: option.split)

lemma remove_association_sends: "sends (remove_association k s) = purge k (sends s)"
  by (simp add: remove_association_def Let_def purge_sends_def split: option.split)

text \<open>Whatever the association that goes.\<close>

lemma remove_put_ok: "sock_ok s \<Longrightarrow> sock_ok (remove_association k (put_association k assoc s))"
  unfolding sock_ok_parts remove_association_fields remove_association_sends by (auto simp: queued_ok_shrink)

lemma remove_ok [simp]: "sock_ok s \<Longrightarrow> sock_ok (remove_association k s)"
  unfolding sock_ok_parts remove_association_fields remove_association_sends by (auto simp: queued_ok_shrink)

lemma update_path_nonempty [simp]: "xs[i := x] = [] \<longleftrightarrow> xs = []"
  by (cases xs) (auto split: nat.split)

lemma add_peer_address_assoc: "assoc_ok (fst state) \<Longrightarrow> assoc_ok (fst (foldl (add_peer_address k) state as))"
proof (induction as arbitrary: state)
  case (Cons x as)
  have "assoc_ok (fst (add_peer_address k state x))"
    using Cons.prems by (cases state) (auto simp: add_peer_address_def Let_def assoc_ok_def inbound_ok_def ooo_ok_def)
  with Cons.IH show ?case by simp
qed simp

lemma add_peer_address_aliases:
  "snd (foldl (add_peer_address k) state as) a = Some key \<Longrightarrow> snd state a = Some key \<or> key = k"
proof (induction as arbitrary: state)
  case (Cons x as)
  have "snd (add_peer_address k state x) a = Some key \<Longrightarrow> snd state a = Some key \<or> key = k"
    by (cases state) (auto simp: add_peer_address_def Let_def split: if_splits)
  with Cons.IH [of "add_peer_address k state x"] Cons.prems show ?case by auto
qed simp

lemma add_peer_addresses_ok:
  assumes "sock_ok s" "assoc_ok assoc"
  shows "sock_ok (add_peer_addresses k assoc as s)"
proof -
  obtain assoc' aliases where f: "foldl (add_peer_address k) (assoc, peer_addresses s) as = (assoc', aliases)" by force
  have "assoc_ok assoc'" using add_peer_address_assoc [of "(assoc, peer_addresses s)" k as] assms(2) f by simp
  moreover have "peer_addresses s a = Some key \<or> key = k" if "aliases a = Some key" for a key
    using add_peer_address_aliases [of k "(assoc, peer_addresses s)" as a key] f that by simp
  ultimately show ?thesis
    using assms(1) unfolding add_peer_addresses_def f prod.case
    by (fastforce simp: sock_ok_parts put_association_def)
qed

lemma association_ok: "sock_ok s \<Longrightarrow> associations s k = Some assoc \<Longrightarrow> assoc_ok assoc"
  by (auto simp: sock_ok_def associations_ok_def)

lemma record_encapsulation_port_ok: "sock_ok s \<Longrightarrow> sock_ok (record_encapsulation_port k src s)"
  using association_ok [of s k]
  by (auto simp: record_encapsulation_port_def Let_def split: option.split intro!: put_ok)

subsection \<open>Properties\<close>

lemma timer_cancel_all: "timer (cancel_all l eq) k = (if ek_location k = l then None else timer eq k)"
proof -
  have "(ef_key f = k \<and> is_live (eq_active (cancel_all l eq)) f) = (ek_location k \<noteq> l \<and> ef_key f = k \<and> is_live (eq_active eq) f)" for f
    by (auto simp: is_live_def cancel_all_def)
  then have "timer (cancel_all l eq) k = map_option (\<lambda>f. (ef_expiration f, ef_retry f))
      (find (\<lambda>f. ek_location k \<noteq> l \<and> ef_key f = k \<and> is_live (eq_active eq) f) (eq_queue eq))"
    by (simp add: timer_def cancel_all_def)
  then show ?thesis by (simp add: timer_def find_None_iff [THEN iffD2])
qed

lemma buffered_bytes_others:
  "k \<noteq> key \<Longrightarrow> buffered_bytes k (abandon_open key rq) = buffered_bytes k rq"
  "k \<noteq> key \<Longrightarrow> buffered_bytes k (detach key rq) = buffered_bytes k rq" "buffered_bytes key (detach key rq) = 0"
  by (auto simp: buffered_bytes_def abandon_open_def detach_def Let_def split: option.split)

text \<open>The two things a removal may do to the inbound queue, and the one notification it may raise.\<close>

lemma remove_association_cases:
  obtains (plain) "receives (remove_association key s) = detach key (receives s)"
    "notifications (remove_association key s) = notifications s"
  | (partial) n where "receives (remove_association key s) = detach key (abandon_open key (receives s))"
    "nt_src n = key" "nt_type n = SCTP_PARTIAL_DELIVERY_EVENT"
    "notifications (remove_association key s) = enqueue_notification n (notifications s)"
proof (cases "associations s key")
  case None
  then show thesis using plain
    by (simp add: remove_association_def purge_sends_def cancel_expirations_def forget_peer_addresses_def detach_receives_def)
next
  case (Some assoc)
  then show thesis
    using plain partial [of "\<lparr>nt_type = SCTP_PARTIAL_DELIVERY_EVENT, nt_src = key, nt_sequence_number = 0,
        nt_payload = Partial_Delivery_Event (ra_stream (reassembly assoc)) (ra_ssn (reassembly assoc))\<rparr>"]
    by (cases "ra_open (reassembly assoc) \<and> partially_delivered (reassembly assoc)")
      (auto simp: remove_association_def purge_sends_def cancel_expirations_def forget_peer_addresses_def detach_receives_def
        erase_association_def abandon_partial_delivery_def raise_notification_def Let_def)
qed


definition empty_socket :: Socket where
  "empty_socket = \<lparr>running = True, linger_ms = 5000, local_address = \<lparr>s_addr = 0, sin_port = 9\<rparr>, associations = Map.empty,
     peer_addresses = Map.empty, sends = empty_send_queue, receives = empty_receive_queue, expirations = empty_expiration_queue,
     notifications = new_notification_queue, cookie_authorizer = example_auth, entropy = []\<rparr>"


end
