(* ===== verification/Socket_Timers.thy ===== *)
theory Socket_Timers
  imports Socket_State
begin

text \<open>
  What happens when a timer expires (\<open>src/socket_timers.cpp\<close>), and the heartbeat machinery behind it. A handler that keeps a reference
  into \<open>associations\<close> works on the association it found and puts it back. Every reading of the clock within one handler is the argument
  \<open>now\<close>. In \<open>plan_next_probe\<close> the divisor \<open>span + 1\<close> is positive, since a retransmission timeout is (\<open>rto_within_bounds\<close>).
\<close>

abbreviation (input) MAX_INIT_RETRANSMITS :: u16 where "MAX_INIT_RETRANSMITS \<equiv> 8"

subsection \<open>T2 and T3\<close>

definition restart_t3 :: "time \<Rightarrow> Association_Key \<Rightarrow> sockaddr_in \<Rightarrow> Socket \<Rightarrow> Socket" where
  "restart_t3 now location destination s =
     (let timer = path_timer location T3_RTX destination in
      case associations s location of
        None \<Rightarrow> cancel_expiration timer s
      | Some assoc \<Rightarrow>
          (case find_path assoc destination of
             None \<Rightarrow> cancel_expiration timer s
           | Some i \<Rightarrow>
               if \<not> has_unacknowledged_data_on assoc i then cancel_expiration timer s
               else schedule_expiration timer (now + microseconds (rto (path_at assoc i))) (no_packet location) s))"

definition start_t3_if_stopped :: "time \<Rightarrow> Association_Key \<Rightarrow> sockaddr_in \<Rightarrow> Socket \<Rightarrow> Socket" where
  "start_t3_if_stopped now location destination s =
     (if \<not> timer_active (path_timer location T3_RTX destination) s then restart_t3 now location destination s else s)"

definition restart_t2 :: "time \<Rightarrow> Association_Key \<Rightarrow> Socket \<Rightarrow> Socket" where
  "restart_t2 now location s =
     (case associations s location of
        None \<Rightarrow> s
      | Some assoc \<Rightarrow>
          schedule_expiration (association_timer location T2_SHUTDOWN)
            (now + microseconds (rto (path_at assoc (data_path assoc)))) (no_packet location) s)"

definition schedule_pending_retransmission :: "Association_Key \<Rightarrow> bool \<Rightarrow> Socket \<Rightarrow> Socket" where
  "schedule_pending_retransmission key gated s =
     (case associations s key of
        None \<Rightarrow> s
      | Some assoc \<Rightarrow>
          (case retransmission_bundle gated assoc of
             None \<Rightarrow> s
           | Some (destination, chunks, assoc') \<Rightarrow>
               enqueue_packet
                 \<lparr>dl_location = key, dl_destination = destination,
                  dl_packet = build_data (local_port s) (peer_port key) (peer_ver_tag assoc') chunks\<rparr> RETRANSMISSION
                 (put_association key assoc' s)))"

text \<open>The end of an association whose peer does not answer.\<close>

definition lose_association :: "Association_Key \<Rightarrow> Socket \<Rightarrow> Socket" where
  "lose_association location s = notify_assoc_change location COMM_LOST (remove_association location s)"

definition handle_t2_expiration :: "time \<Rightarrow> Association_Key \<Rightarrow> Socket \<Rightarrow> Socket" where
  "handle_t2_expiration now location s =
     (case associations s location of
        None \<Rightarrow> s
      | Some assoc \<Rightarrow>
          if assoc_state assoc \<noteq> SHUTDOWN_SENT \<and> assoc_state assoc \<noteq> SHUTDOWN_ACK_SENT then s
          else
            let i = data_path assoc;
                path = back_off (path_at assoc i);
                assoc' = assoc\<lparr>peer_address_list := (peer_address_list assoc)[i := path],
                               assoc_error_count := assoc_error_count assoc + 1\<rparr>;
                packet = (if assoc_state assoc = SHUTDOWN_SENT
                          then build_shutdown (local_port s) (peer_port location) (peer_ver_tag assoc) (last_peer_tsn assoc)
                          else build_shutdown_ack (local_port s) (peer_port location) (peer_ver_tag assoc));
                s1 = put_association location assoc' s
            in if assoc_error_count assoc' > error_threshold assoc' then lose_association location s1
               else restart_t2 now location (send_control location (address path) packet s1))"

definition handle_t5_expiration :: "Association_Key \<Rightarrow> Socket \<Rightarrow> Socket" where
  "handle_t5_expiration location s =
     (case associations s location of
        None \<Rightarrow> s
      | Some assoc \<Rightarrow>
          if assoc_state assoc \<noteq> SHUTDOWN_SENT \<and> assoc_state assoc \<noteq> SHUTDOWN_ACK_SENT then s
          else notify_assoc_change location COMM_LOST
                 (send_control location (address (path_at assoc (data_path assoc)))
                    (build_abort (local_port s) (peer_port location) (peer_ver_tag assoc) False [])
                    (remove_association location s)))"

definition handle_t3_expiration :: "Association_Key \<Rightarrow> sockaddr_in \<Rightarrow> Socket \<Rightarrow> Socket" where
  "handle_t3_expiration location destination s =
     (case associations s location of
        None \<Rightarrow> s
      | Some assoc \<Rightarrow>
          if \<not> transmits_data (assoc_state assoc) then s
          else case find_path assoc destination of
                 None \<Rightarrow> s
               | Some i \<Rightarrow>
                   if \<not> has_unacknowledged_data_on assoc i then s
                   else
                     case t3_timeout i assoc of
                       (assoc', change, unreachable) \<Rightarrow>
                         let s1 = notify_path location (address (path_at assoc i)) change (put_association location assoc' s)
                         in if unreachable then lose_association location s1
                            else schedule_pending_retransmission location False
                                   (drop_retransmissions location DATA (Some destination) s1))"

definition handle_zero_window_probe_expiration :: "Association_Key \<Rightarrow> Socket \<Rightarrow> Socket" where
  "handle_zero_window_probe_expiration location s =
     (case associations s location of
        None \<Rightarrow> s
      | Some assoc \<Rightarrow>
          if outstanding_data assoc = [] then put_association location (assoc\<lparr>zero_window_probe_allowed := True\<rparr>) s else s)"

subsection \<open>Heartbeats\<close>

abbreviation update_path_at :: "nat \<Rightarrow> (Peer_Path \<Rightarrow> Peer_Path) \<Rightarrow> Association \<Rightarrow> Association" where
  "update_path_at i f assoc \<equiv> assoc\<lparr>peer_address_list := (peer_address_list assoc)[i := f (path_at assoc i)]\<rparr>"

definition plan_next_probe :: "time \<Rightarrow> nat \<Rightarrow> Association \<times> Socket \<Rightarrow> Association \<times> Socket" where
  "plan_next_probe now i state =
     (case state of (assoc, s) \<Rightarrow>
        let assoc1 = update_path_at i (\<lambda>path. path\<lparr>hb_period_start := now\<rparr>) assoc;
            span = rto (path_at assoc1 i)
        in if probes_for_confirmation assoc1 i
           then (update_path_at i (\<lambda>path. path\<lparr>hb_next := now + microseconds span\<rparr>) assoc1, s)
           else case random32 s of
                  (jitter, s1) \<Rightarrow>
                    let offset = uint jitter mod (span + 1) - trunc_div span 2
                    in (update_path_at i (\<lambda>path. path\<lparr>hb_next := now + hb_interval assoc1 + microseconds span + microseconds offset\<rparr>) assoc1, s1))"

definition build_probe :: "time \<Rightarrow> Association_Key \<Rightarrow> nat \<Rightarrow> Association \<times> Socket \<Rightarrow> Deliverable \<times> Association \<times> Socket" where
  "build_probe now key i state =
     (case state of (assoc, s) \<Rightarrow>
        case random64 s of
          (nonce, s1) \<Rightarrow>
            let path = (path_at assoc i)\<lparr>hb_nonce := nonce, hb_outstanding := True, hb_sent_at := now\<rparr>
            in (\<lparr>dl_location = key, dl_destination = address path,
                 dl_packet = build_heartbeat (local_port s1) (peer_port key) (peer_ver_tag assoc) (heartbeat_info (hb_nonce path) (address path))\<rparr>,
                update_path_at i (\<lambda>_. path) assoc, s1))"

definition arm_heartbeat :: "Association_Key \<Rightarrow> Association \<Rightarrow> nat \<Rightarrow> Socket \<Rightarrow> Socket" where
  "arm_heartbeat key assoc i s =
     (let path = path_at assoc i; timer = path_timer key HEARTBEAT_TIMER (address path)
      in if hb_outstanding path
         then schedule_expiration timer (hb_sent_at path + microseconds (rto path)) (no_packet key) s
         else if \<not> hb_enabled path \<or> (\<not> confirmed path \<and> active path \<and> \<not> probes_for_confirmation assoc i)
         then cancel_expiration timer s
         else schedule_expiration timer (hb_next path) (no_packet key) s)"

definition arm_confirmation_probe :: "time \<Rightarrow> Association_Key \<Rightarrow> Association \<times> Socket \<Rightarrow> nat \<Rightarrow> Association \<times> Socket" where
  "arm_confirmation_probe now key state i =
     (case state of (assoc, s) \<Rightarrow>
        let path = path_at assoc i
        in if probes_for_confirmation assoc i \<and> \<not> hb_outstanding path
              \<and> \<not> timer_active (path_timer key HEARTBEAT_TIMER (address path)) s
           then let assoc' = update_path_at i (\<lambda>path. path\<lparr>hb_period_start := now, hb_next := now\<rparr>) assoc
                in (assoc', arm_heartbeat key assoc' i s)
           else (assoc, s))"

definition arm_confirmation_probes :: "time \<Rightarrow> Association_Key \<Rightarrow> Association \<times> Socket \<Rightarrow> Association \<times> Socket" where
  "arm_confirmation_probes now key state =
     foldl (arm_confirmation_probe now key) state [0..<length (peer_address_list (fst state))]"

definition start_heartbeat :: "time \<Rightarrow> Association_Key \<Rightarrow> Association \<times> Socket \<Rightarrow> nat \<Rightarrow> Association \<times> Socket" where
  "start_heartbeat now key state i =
     (case plan_next_probe now i state of
        (assoc, s) \<Rightarrow>
          let assoc' = (if probes_for_confirmation assoc i then update_path_at i (\<lambda>path. path\<lparr>hb_next := now\<rparr>) assoc else assoc)
          in (assoc', arm_heartbeat key assoc' i s))"

definition start_heartbeats :: "time \<Rightarrow> Association_Key \<Rightarrow> Association \<times> Socket \<Rightarrow> Association \<times> Socket" where
  "start_heartbeats now key state = foldl (start_heartbeat now key) state [0..<length (peer_address_list (fst state))]"

text \<open>The answer to a probe did not come: the path and perhaps the association count an error. The result of the first function says whether the path was
  being confirmed, whether the peer is unreachable, and what to notify; that of the second, whether to probe now.\<close>

definition count_missed_probe :: "nat \<Rightarrow> Association \<Rightarrow> bool \<times> bool \<times> Peer_Addr_State option \<times> Association" where
  "count_missed_probe i assoc =
     (let assoc1 = update_path_at i (\<lambda>path. back_off (path\<lparr>hb_outstanding := False\<rparr>)) assoc;
          was_probing = probes_for_confirmation assoc1 i;
          carries_data = (confirmed (path_at assoc1 i) \<and> data_path assoc1 = i);
          (path2, change) = count_path_error (path_at assoc1 i);
          errors = (if carries_data then assoc_error_count assoc1 + 1 else assoc_error_count assoc1)
      in (was_probing, carries_data \<and> errors > error_threshold assoc1, change,
          assoc1\<lparr>peer_address_list := (peer_address_list assoc1)[i := path2], assoc_error_count := errors\<rparr>))"

definition miss_probe :: "time \<Rightarrow> Association_Key \<Rightarrow> nat \<Rightarrow> Association \<times> Socket \<Rightarrow> bool \<times> bool \<times> Association \<times> Socket" where
  "miss_probe now location i state =
     (case count_missed_probe i (fst state) of
        (was_probing, unreachable, change, assoc1) \<Rightarrow>
          let s1 = notify_path location (address (path_at assoc1 i)) change (snd state);
              (assoc2, s2) = (if was_probing \<and> \<not> active (path_at assoc1 i)
                              then arm_confirmation_probes now location (assoc1, s1) else (assoc1, s1))
          in (probes_for_confirmation assoc2 i \<or> now \<ge> hb_next (path_at assoc2 i), unreachable, assoc2, s2))"

text \<open>The next probe, if one is due, and the timer.\<close>

definition next_probe :: "time \<Rightarrow> Association_Key \<Rightarrow> nat \<Rightarrow> bool \<Rightarrow> Association \<times> Socket \<Rightarrow> Socket" where
  "next_probe now location i probe_now state =
     (let due = (probe_now \<and> hb_enabled (path_at (fst state) i));
          idle = (new_data_sent_at (path_at (fst state) i) < hb_period_start (path_at (fst state) i));
          (probe, state2) = (if due \<and> idle
            then (case build_probe now location i state of (d, state') \<Rightarrow> (Some d, state')) else (None, state));
          (assoc3, s3) = (if due then plan_next_probe now i state2 else state2);
          s4 = arm_heartbeat location assoc3 i (put_association location assoc3 s3)
      in case probe of None \<Rightarrow> s4 | Some d \<Rightarrow> enqueue_packet d CONTROL s4)"

definition handle_heartbeat_expiration :: "time \<Rightarrow> Association_Key \<Rightarrow> sockaddr_in \<Rightarrow> Socket \<Rightarrow> Socket" where
  "handle_heartbeat_expiration now location destination s =
     (case associations s location of
        None \<Rightarrow> s
      | Some assoc \<Rightarrow>
          if \<not> transmits_data (assoc_state assoc) then s
          else case find_path assoc destination of
                 None \<Rightarrow> s
               | Some i \<Rightarrow>
                   (case (if hb_outstanding (path_at assoc i) then miss_probe now location i (assoc, s) else (True, False, assoc, s)) of
                      (probe_now, unreachable, state) \<Rightarrow>
                        if unreachable then lose_association location (put_association location (fst state) (snd state))
                        else next_probe now location i probe_now state))"

definition record_heartbeat_sent :: "Association_Key \<Rightarrow> sockaddr_in \<Rightarrow> time \<Rightarrow> Socket \<Rightarrow> Socket" where
  "record_heartbeat_sent location destination sent_at s =
     (case associations s location of
        None \<Rightarrow> s
      | Some assoc \<Rightarrow>
          (case find_path assoc destination of
             None \<Rightarrow> s
           | Some i \<Rightarrow>
               if hb_outstanding (path_at assoc i)
               then put_association location (update_path_at i (\<lambda>path. path\<lparr>hb_sent_at := sent_at\<rparr>) assoc) s else s))"

subsection \<open>SACKs\<close>

definition send_sack :: "Association_Key \<Rightarrow> Socket \<Rightarrow> Socket" where
  "send_sack key s =
     (case associations s key of
        None \<Rightarrow> s
      | Some assoc \<Rightarrow>
          if \<not> receives_data (assoc_state assoc) then s
          else case make_sack (sin_port (local_address s)) key (buffered_bytes key (receives s)) assoc of
                 (packet, assoc') \<Rightarrow>
                   send_control key (address (path_at assoc' (data_path assoc'))) packet
                     (cancel_expiration (association_timer key DELAYED_SACK) (put_association key assoc' s)))"

definition handle_delayed_sack_expiration :: "Association_Key \<Rightarrow> Socket \<Rightarrow> Socket" where
  "handle_delayed_sack_expiration location = send_sack location"

subsection \<open>Dispatch\<close>

text \<open>T1-init and T1-cookie: the retransmissions are counted, and the association given up after the last.\<close>

definition give_up_handshake :: "Association_Key \<Rightarrow> Socket \<Rightarrow> Socket" where
  "give_up_handshake location s =
     purge_sends location (cancel_expirations location (notify_assoc_change location CANT_STR_ASSOC
       (forget_peer_addresses location (erase_association location s))))"

definition handle_t1_expiration :: "bool \<Rightarrow> Association_Key \<Rightarrow> Deliverable \<Rightarrow> Socket \<Rightarrow> Socket" where
  "handle_t1_expiration is_init location retry s =
     (case associations s location of
        None \<Rightarrow> s
      | Some assoc \<Rightarrow>
          if assoc_state assoc \<noteq> (if is_init then COOKIE_WAIT else COOKIE_ECHOED) then s
          else
            let retransmits = (if is_init then init_retransmits assoc else cookie_retransmits assoc)
            in if retransmits \<ge> MAX_INIT_RETRANSMITS then give_up_handshake location s
               else enqueue_packet retry RETRANSMISSION
                      (put_association location
                        (if is_init then assoc\<lparr>init_retransmits := retransmits + 1\<rparr> else assoc\<lparr>cookie_retransmits := retransmits + 1\<rparr>) s))"

definition handle_expiration :: "time \<Rightarrow> Expiration_Fallback \<Rightarrow> Socket \<Rightarrow> Socket" where
  "handle_expiration now fallback s =
     (let location = ek_location (ef_key fallback) in
      case ek_type (ef_key fallback) of
        T3_RTX \<Rightarrow> handle_t3_expiration location (ek_path (ef_key fallback)) s
      | DELAYED_SACK \<Rightarrow> handle_delayed_sack_expiration location s
      | HEARTBEAT_TIMER \<Rightarrow> handle_heartbeat_expiration now location (ek_path (ef_key fallback)) s
      | T2_SHUTDOWN \<Rightarrow> handle_t2_expiration now location s
      | T5_SHUTDOWN_GUARD \<Rightarrow> handle_t5_expiration location s
      | ZERO_WINDOW_PROBE \<Rightarrow> handle_zero_window_probe_expiration location s
      | T1_INIT \<Rightarrow> handle_t1_expiration True location (ef_retry fallback) s
      | T1_COOKIE \<Rightarrow> handle_t1_expiration False location (ef_retry fallback) s)"

text \<open>\<open>run_expire\<close>: no handler of a timer throws.\<close>

definition run_expire :: "time \<Rightarrow> Socket \<Rightarrow> Socket" where
  "run_expire now s =
     (case drain_expired now (expirations s) of
        (expired, queue) \<Rightarrow> foldl (\<lambda>s fallback. handle_expiration now fallback s) (s\<lparr>expirations := queue\<rparr>) expired)"

subsection \<open>The invariant\<close>

named_theorems sock_intros

declare sock_ok_send [sock_intros] sock_ok_frame [sock_intros] schedule_timer_ok [sock_intros] cancel_ok [sock_intros] put_ok [sock_intros] forget_addresses_ok [sock_intros] remove_ok [sock_intros]
  add_peer_addresses_ok [sock_intros] record_encapsulation_port_ok [sock_intros]

lemma timer_location [simp]:
  "ek_location (path_timer k ty d) = k" "ek_location (association_timer k ty) = k"
  by (simp_all add: path_timer_def association_timer_def)

lemma restart_t3_ok [sock_intros]: "sock_ok s \<Longrightarrow> sock_ok (restart_t3 now l d s)"
  by (auto simp: restart_t3_def Let_def split: option.split intro!: sock_intros)

lemma start_t3_ok [sock_intros]: "sock_ok s \<Longrightarrow> sock_ok (start_t3_if_stopped now l d s)"
  by (auto simp: start_t3_if_stopped_def intro!: sock_intros)

lemma restart_t2_ok [sock_intros]: "sock_ok s \<Longrightarrow> sock_ok (restart_t2 now l s)"
  by (auto simp: restart_t2_def split: option.split intro!: sock_intros)

lemma retransmission_bundle_ok: "retransmission_bundle g assoc = Some (d, cs, assoc') \<Longrightarrow> assoc_ok assoc' = assoc_ok assoc"
  by (auto simp: retransmission_bundle_def Let_def split: if_splits)

lemma schedule_pending_ok [sock_intros]: "sock_ok s \<Longrightarrow> sock_ok (schedule_pending_retransmission k g s)"
  using association_ok [of s k]
  by (auto simp: schedule_pending_retransmission_def retransmission_bundle_ok split: option.split intro!: sock_intros)

lemma lose_association_ok [sock_intros]: "sock_ok s \<Longrightarrow> sock_ok (lose_association l s)"
  by (simp add: lose_association_def)

lemma handle_t2_ok [sock_intros]: "sock_ok s \<Longrightarrow> sock_ok (handle_t2_expiration now l s)"
  using association_ok [of s l]
  by (auto simp: handle_t2_expiration_def Let_def split: option.split intro!: sock_intros)

lemma handle_t5_ok [sock_intros]: "sock_ok s \<Longrightarrow> sock_ok (handle_t5_expiration l s)"
  by (auto simp: handle_t5_expiration_def split: option.split intro!: sock_intros)

lemma t3_timeout_ok: "assoc_ok (fst (t3_timeout i assoc)) = assoc_ok assoc"
  by (simp add: t3_timeout_def Let_def case_prod_unfold)

lemma handle_t3_ok [sock_intros]: "sock_ok s \<Longrightarrow> sock_ok (handle_t3_expiration l d s)"
proof -
  assume ok: "sock_ok s"
  have "assoc_ok assoc'" if "associations s l = Some assoc" "t3_timeout i assoc = (assoc', c, u)" for assoc i assoc' c u
    using t3_timeout_ok [of i assoc] association_ok [OF ok that(1)] that(2) by simp
  with ok show ?thesis
    by (auto simp: handle_t3_expiration_def Let_def split: option.split prod.split intro!: sock_intros)
qed

lemma handle_zero_window_probe_ok [sock_intros]: "sock_ok s \<Longrightarrow> sock_ok (handle_zero_window_probe_expiration l s)"
  using association_ok [of s l]
  by (auto simp: handle_zero_window_probe_expiration_def split: option.split intro!: sock_intros)

text \<open>A SACK reports the duplicates and forgets them.\<close>

lemma make_sack_ok:
  assumes "make_sack p k b assoc = (packet, assoc')" "assoc_ok (assoc\<lparr>duplicate_tsns := []\<rparr>)" "length (duplicate_tsns assoc) \<le> UINT16_MAX"
  shows "assoc_ok assoc'" "sendable packet"
proof -
  obtain w where assoc': "assoc' = assoc\<lparr>our_rwnd := w, received_since_sack := 0, duplicate_tsns := [], delayed_sack_packet_count := 0\<rparr>"
    using assms(1) unfolding make_sack_def Let_def prod.inject by metis
  have "assoc_ok assoc' = assoc_ok (assoc\<lparr>duplicate_tsns := []\<rparr>)" unfolding assoc' by (rule assoc_ok_cong) simp_all
  with assms(2) show "assoc_ok assoc'" by simp
  have "ooo_ok assoc" using assms(2) by (simp add: assoc_ok_def inbound_ok_def ooo_ok_def)
  then show "sendable packet" using sendable_make_sack [of assoc p k b] assms(1,3) by simp
qed

lemma no_duplicates: "assoc_ok a \<Longrightarrow> duplicate_tsns a = []"
  by (simp add: assoc_ok_def inbound_ok_def)

lemma assoc_ok_no_duplicates: "assoc_ok a \<Longrightarrow> assoc_ok (a\<lparr>duplicate_tsns := []\<rparr>)"
  by (simp add: assoc_ok_def inbound_ok_def ooo_ok_def)

lemma put_put [simp]: "put_association k a (put_association k b s) = put_association k a s"
  by (simp add: put_association_def)

text \<open>A SACK may be sent for an association that has duplicates to report.\<close>

lemma send_sack_reports:
  assumes "sock_ok s" "assoc_ok (assoc\<lparr>duplicate_tsns := []\<rparr>)" "length (duplicate_tsns assoc) \<le> UINT16_MAX" "receives_data (assoc_state assoc)"
  shows "sock_ok (send_sack k (put_association k assoc s))"
proof -
  let ?s = "put_association k assoc s"
  obtain packet assoc' where m: "make_sack (sin_port (local_address ?s)) k (buffered_bytes k (receives ?s)) assoc = (packet, assoc')"
    by (rule prod.exhaust)
  have "sock_ok (put_association k assoc' s)" using make_sack_ok(1) [OF m assms(2,3)] assms(1) by (simp add: put_ok)
  with make_sack_ok(2) [OF m assms(2,3)] show ?thesis by (simp add: send_sack_def assms(4) m cancel_ok)
qed

lemma send_sack_ok [sock_intros]: "sock_ok s \<Longrightarrow> sock_ok (send_sack k s)"
proof (cases "\<exists>assoc. associations s k = Some assoc \<and> receives_data (assoc_state assoc)")
  assume ok: "sock_ok s"
  case True
  then obtain assoc where a: "associations s k = Some assoc" "receives_data (assoc_state assoc)" by blast
  then have "put_association k assoc s = s" by (simp add: put_association_def fun_upd_idem)
  with send_sack_reports [OF ok, of assoc k] association_ok [OF ok a(1)] a(2) show ?thesis by (simp add: assoc_ok_no_duplicates no_duplicates)
next
  assume "sock_ok s"
  case False
  with \<open>sock_ok s\<close> show ?thesis by (auto simp: send_sack_def split: option.split)
qed

text \<open>An association that is worked on next to the socket that holds it under its key.\<close>

definition held_ok :: "Association_Key \<Rightarrow> Association \<times> Socket \<Rightarrow> bool" where
  "held_ok key state \<longleftrightarrow> sock_ok (snd state) \<and> associations (snd state) key \<noteq> None \<and> assoc_ok (fst state)"

lemma held_start: "sock_ok s \<Longrightarrow> associations s key = Some assoc \<Longrightarrow> held_ok key (assoc, s)"
  by (auto simp: held_ok_def dest: association_ok)

lemma held_put: "held_ok key (assoc, s) \<Longrightarrow> sock_ok (put_association key assoc s)"
  by (simp add: held_ok_def put_ok)

lemma arm_heartbeat_ok [sock_intros]:
  "sock_ok s \<Longrightarrow> associations s key \<noteq> None \<Longrightarrow> sock_ok (arm_heartbeat key assoc i s)"
  by (auto simp: arm_heartbeat_def Let_def intro!: sock_intros)

lemma arm_heartbeat_associations [simp]: "associations (arm_heartbeat key assoc i s) = associations s"
  by (simp add: arm_heartbeat_def Let_def)

lemma plan_next_probe_held: "held_ok key state \<Longrightarrow> held_ok key (plan_next_probe now i state)"
  by (cases state) (auto simp: plan_next_probe_def Let_def case_prod_unfold held_ok_def)

lemma build_probe_held: "held_ok key state \<Longrightarrow> held_ok key (snd (build_probe now k i state))"
  by (cases state) (auto simp: build_probe_def Let_def case_prod_unfold held_ok_def)

lemma build_probe_sendable: "sendable (dl_packet (fst (build_probe now k i state)))"
  by (simp add: build_probe_def Let_def case_prod_unfold heartbeat_info_def param_fits_def)

lemma arm_confirmation_probe_held: "held_ok key state \<Longrightarrow> held_ok key (arm_confirmation_probe now key state i)"
  by (cases state) (auto simp: arm_confirmation_probe_def Let_def held_ok_def intro!: sock_intros)

lemma start_heartbeat_held: "held_ok key state \<Longrightarrow> held_ok key (start_heartbeat now key state i)"
  using plan_next_probe_held [of key state now i]
  by (auto simp: start_heartbeat_def Let_def case_prod_unfold held_ok_def intro!: sock_intros)

lemma held_foldl: "(\<And>state x. held_ok key state \<Longrightarrow> held_ok key (f state x)) \<Longrightarrow> held_ok key state \<Longrightarrow> held_ok key (foldl f state xs)"
  by (induction xs arbitrary: state) auto

lemma arm_confirmation_probes_held: "held_ok key state \<Longrightarrow> held_ok key (arm_confirmation_probes now key state)"
  unfolding arm_confirmation_probes_def by (rule held_foldl [OF arm_confirmation_probe_held])

lemma start_heartbeats_held: "held_ok key state \<Longrightarrow> held_ok key (start_heartbeats now key state)"
  unfolding start_heartbeats_def by (rule held_foldl [OF start_heartbeat_held])

lemma count_missed_probe_ok: "count_missed_probe i assoc = (w, u, c, assoc') \<Longrightarrow> assoc_ok assoc' = assoc_ok assoc"
  by (auto simp: count_missed_probe_def Let_def case_prod_unfold)

lemma miss_probe_held: "held_ok key state \<Longrightarrow> held_ok key (snd (snd (miss_probe now key i state)))"
proof -
  assume ok: "held_ok key state"
  obtain w u c assoc1 where m: "count_missed_probe i (fst state) = (w, u, c, assoc1)" by (metis prod_cases4)
  have arm: "held_ok key (if b then arm_confirmation_probes now key st else st)" if "held_ok key st" for b st
    using that by (simp add: arm_confirmation_probes_held)
  have "held_ok key (assoc1, notify_path key (address (path_at assoc1 i)) c (snd state))"
    using ok count_missed_probe_ok [OF m] by (auto simp: held_ok_def)
  from arm [OF this] show ?thesis unfolding miss_probe_def m prod.case Let_def case_prod_unfold fst_conv snd_conv prod.collapse .
qed

lemma next_probe_ok: "held_ok l st \<Longrightarrow> sock_ok (next_probe now l i pn st)"
proof -
  assume held: "held_ok l st"
  define due where "due \<longleftrightarrow> pn \<and> hb_enabled (path_at (fst st) i)"
  define idle where "idle \<longleftrightarrow> new_data_sent_at (path_at (fst st) i) < hb_period_start (path_at (fst st) i)"
  obtain pr st2 where p2: "(if due \<and> idle then (case build_probe now l i st of (d, st') \<Rightarrow> (Some d, st')) else (None, st)) = (pr, st2)"
    by (rule prod.exhaust)
  obtain assoc3 s3 where p3: "(if due then plan_next_probe now i st2 else st2) = (assoc3, s3)" by (rule prod.exhaust)
  have "held_ok l st2" using p2 held build_probe_held [OF held, of now l i] by (auto simp: case_prod_unfold split: if_splits)
  then have "held_ok l (assoc3, s3)" using plan_next_probe_held [of l st2 now i] p3 by (auto split: if_splits)
  then have "sock_ok (arm_heartbeat l assoc3 i (put_association l assoc3 s3))" by (auto intro!: sock_intros held_put)
  moreover have "sendable (dl_packet d)" if "pr = Some d" for d
    using p2 that build_probe_sendable [of now l i st] by (auto simp: case_prod_unfold split: if_splits)
  ultimately show ?thesis
    unfolding next_probe_def Let_def due_def [symmetric] idle_def [symmetric] p2 p3 prod.case by (simp split: option.split)
qed

lemma handle_heartbeat_expiration_ok [sock_intros]: "sock_ok s \<Longrightarrow> sock_ok (handle_heartbeat_expiration now l d s)"
proof -
  assume ok: "sock_ok s"
  have "sock_ok (case (if hb_outstanding (path_at assoc i) then miss_probe now l i (assoc, s) else (True, False, assoc, s)) of
      (probe_now, unreachable, state) \<Rightarrow> if unreachable then lose_association l (put_association l (fst state) (snd state))
        else next_probe now l i probe_now state)" if "associations s l = Some assoc" for assoc i
  proof -
    obtain pn u st where m: "(if hb_outstanding (path_at assoc i) then miss_probe now l i (assoc, s) else (True, False, assoc, s)) = (pn, u, st)"
      by (metis prod_cases3)
    have "held_ok l st"
      using m miss_probe_held [OF held_start [OF ok that], of now i] held_start [OF ok that] by (auto split: if_splits)
    then show ?thesis unfolding m prod.case by (auto intro!: lose_association_ok next_probe_ok held_put)
  qed
  with ok show ?thesis unfolding handle_heartbeat_expiration_def by (simp split: option.split)
qed

lemma record_heartbeat_sent_ok [sock_intros]: "sock_ok s \<Longrightarrow> sock_ok (record_heartbeat_sent l d t s)"
  using association_ok [of s l] by (auto simp: record_heartbeat_sent_def split: option.split intro!: sock_intros)

lemma give_up_handshake_ok [sock_intros]: "sock_ok s \<Longrightarrow> sock_ok (give_up_handshake l s)"
proof -
  assume "sock_ok s"
  then have "sock_ok (purge_sends l (notify_assoc_change l CANT_STR_ASSOC (cancel_expirations l (forget_peer_addresses l (erase_association l s)))))"
    by (intro sock_ok_frame erase_ok)
  moreover have "cancel_expirations l (notify_assoc_change l st u) = notify_assoc_change l st (cancel_expirations l u)" for st u
    by (simp add: cancel_expirations_def notify_assoc_change_def raise_notification_def)
  ultimately show ?thesis by (simp add: give_up_handshake_def)
qed

lemma handle_t1_ok [sock_intros]: "sock_ok s \<Longrightarrow> sendable (dl_packet r) \<Longrightarrow> sock_ok (handle_t1_expiration b l r s)"
  using association_ok [of s l] by (auto simp: handle_t1_expiration_def Let_def split: option.split intro!: sock_intros)

lemma handle_expiration_ok [sock_intros]: "sock_ok s \<Longrightarrow> sendable (dl_packet (ef_retry f)) \<Longrightarrow> sock_ok (handle_expiration now f s)"
  by (auto simp: handle_expiration_def Let_def handle_delayed_sack_expiration_def split: Expiration_Timer_Type.split intro!: sock_intros)

lemma drain_loop_active: "snd (snd (drain_loop now q live expired)) k = Some g \<Longrightarrow> live k = Some g"
proof (induction now q live expired rule: drain_loop.induct)
  case (1 now q live expired)
  have "snd (snd (if q \<noteq> [] \<and> ef_expiration (heap_top q) \<le> now then
        let fallback = heap_top q; queue' = heap_pop q
        in if \<not> is_live live fallback then drain_loop now queue' live expired
           else drain_loop now queue' (live(ef_key fallback := None)) (expired @ [fallback])
      else (expired, q, live))) k = Some g"
    using "1.prems" by (subst (asm) drain_loop.simps)
  then show ?case
    using "1.IH"(1) [OF _ refl refl] "1.IH"(2) [OF _ refl refl]
    by (auto simp: Let_def simp del: fun_upd_apply split: if_splits) (auto split: if_splits)
qed

lemma drain_timers_ok:
  "sock_ok s \<Longrightarrow> drain_expired now (expirations s) = (expired, q) \<Longrightarrow>
   sock_ok (s\<lparr>expirations := q\<rparr>) \<and> list_all (\<lambda>f. sendable (dl_packet (ef_retry f))) expired"
proof -
  assume ok: "sock_ok s" and d: "drain_expired now (expirations s) = (expired, q)"
  have "is_active t (expirations s)" if "is_active t q" for t
    using that d drain_loop_active [of now "eq_queue (expirations s)" "eq_active (expirations s)" "[]" t]
    by (auto simp: drain_expired_def is_active_def case_prod_unfold)
  moreover have "retries_ok q \<and> list_all (\<lambda>f. sendable (dl_packet (ef_retry f))) expired"
    using retries_ok_drain [OF _ d] ok by (simp add: sock_ok_parts)
  ultimately show ?thesis using ok by (auto simp: sock_ok_parts)
qed

lemma sock_ok_foldl: "(\<And>s x. x \<in> set xs \<Longrightarrow> sock_ok s \<Longrightarrow> sock_ok (f s x)) \<Longrightarrow> sock_ok s \<Longrightarrow> sock_ok (foldl f s xs)"
  by (induction xs arbitrary: s) auto

lemma run_expire_ok [sock_intros]: "sock_ok s \<Longrightarrow> sock_ok (run_expire now s)"
  by (auto simp: run_expire_def list_all_iff split: prod.split intro!: sock_ok_foldl handle_expiration_ok dest: drain_timers_ok)

subsection \<open>Giving up\<close>

text \<open>An expiration of T1-init that retransmits, and one that gives up.\<close>

lemma handle_t1_retry:
  "associations s l = Some assoc \<Longrightarrow> assoc_state assoc = COOKIE_WAIT \<Longrightarrow> init_retransmits assoc < 8 \<Longrightarrow>
   handle_t1_expiration True l r s =
     enqueue_packet r RETRANSMISSION (put_association l (assoc\<lparr>init_retransmits := init_retransmits assoc + 1\<rparr>) s)"
  by (simp add: handle_t1_expiration_def Let_def not_le)

lemma handle_t1_give_up:
  "associations s l = Some assoc \<Longrightarrow> assoc_state assoc = COOKIE_WAIT \<Longrightarrow> init_retransmits assoc = 8 \<Longrightarrow>
   handle_t1_expiration True l r s = give_up_handshake l s"
  by (simp add: handle_t1_expiration_def)

lemma handle_t1_gone: "associations s l = None \<Longrightarrow> (handle_t1_expiration True l r ^^ n) s = s"
  by (induction n) (simp_all add: handle_t1_expiration_def)

lemma handle_t1_retries:
  fixes r
  assumes "associations s l = Some assoc" "assoc_state assoc = COOKIE_WAIT" "init_retransmits assoc = 0"
  defines "t \<equiv> \<lambda>n. (handle_t1_expiration True l r ^^ n) s"
  shows "n \<le> 8 \<Longrightarrow> associations (t n) = (associations s)(l \<mapsto> assoc\<lparr>init_retransmits := of_nat n\<rparr>) \<and>
    map q_deliverable (retransmission (sends (t n))) = map q_deliverable (retransmission (sends s)) @ replicate n r \<and>
    notifications (t n) = notifications s"
proof (induction n)
  case 0
  then show ?case using assms by (auto simp: t_def)
next
  case (Suc n)
  then have IH: "associations (t n) = (associations s)(l \<mapsto> assoc\<lparr>init_retransmits := of_nat n\<rparr>)"
    "map q_deliverable (retransmission (sends (t n))) = map q_deliverable (retransmission (sends s)) @ replicate n r"
    "notifications (t n) = notifications s" by auto
  have "(of_nat n :: u16) < 8" using Suc.prems by (simp add: word_less_nat_alt unat_of_nat)
  then have "t (Suc n) = enqueue_packet r RETRANSMISSION (put_association l (assoc\<lparr>init_retransmits := of_nat (Suc n)\<rparr>) (t n))"
    using handle_t1_retry [of "t n" l "assoc\<lparr>init_retransmits := of_nat n\<rparr>" r] IH(1) assms(2) by (simp add: t_def add.commute)
  then show ?case
    using IH by (simp add: enqueue_packet_def enqueue_def put_association_def replicate_append_same)
qed

lemma give_up_handshake_fields:
  "associations (give_up_handshake l s) = (associations s)(l := None)" "\<not> has_packets_for l (sends (give_up_handshake l s))"
  "\<not> has_any_for l (expirations (give_up_handshake l s))"
  "nq_subscribed (notifications s) SCTP_ASSOC_CHANGE \<Longrightarrow> nq_queue (notifications (give_up_handshake l s)) = nq_queue (notifications s) @
     [\<lparr>nt_type = SCTP_ASSOC_CHANGE, nt_src = l, nt_sequence_number = nq_next_sequence_number (notifications s),
       nt_payload = Assoc_Change CANT_STR_ASSOC\<rparr>]"
  using purge_exact [of l] by (auto simp: give_up_handshake_def purge_sends_def cancel_expirations_def notify_assoc_change_def raise_notification_def
      forget_peer_addresses_def erase_association_def has_any_for_def cancel_all_def dom_def enqueue_notification_def is_lifecycle_def)

subsection \<open>Properties\<close>

text \<open>C18: A handshake whose INIT is never answered ends, and the application is told. Through eight expirations of T1-init the association stays in
  COOKIE-WAIT, and each expiration is counted and queues the INIT once more for retransmission; the ninth removes the association with its packets
  and timers and raises the notification that it could not be started, once, however many expirations follow. No other association changes.\<close>

theorem handshake_gives_up:
  fixes now s
  assumes "ek_type (ef_key f) = T1_INIT" "ek_location (ef_key f) = l" "associations s l = Some assoc"
    and "assoc_state assoc = COOKIE_WAIT" "init_retransmits assoc = 0"
  defines "t \<equiv> \<lambda>n. (handle_expiration now f ^^ n) s"
  shows "(n \<le> 8 \<longrightarrow> associations (t n) = (associations s)(l \<mapsto> assoc\<lparr>init_retransmits := of_nat n\<rparr>) \<and>
      map q_deliverable (retransmission (sends (t n))) = map q_deliverable (retransmission (sends s)) @ replicate n (ef_retry f) \<and>
      notifications (t n) = notifications s) \<and>
    (8 < n \<longrightarrow> associations (t n) = (associations s)(l := None) \<and> \<not> has_packets_for l (sends (t n)) \<and> \<not> has_any_for l (expirations (t n)) \<and>
      (nq_subscribed (notifications s) SCTP_ASSOC_CHANGE \<longrightarrow> nq_queue (notifications (t n)) = nq_queue (notifications s) @
        [\<lparr>nt_type = SCTP_ASSOC_CHANGE, nt_src = l, nt_sequence_number = nq_next_sequence_number (notifications s),
          nt_payload = Assoc_Change CANT_STR_ASSOC\<rparr>]))"
proof -
  let ?h = "handle_t1_expiration True l (ef_retry f)"
  have h: "handle_expiration now f = ?h" using assms(1,2) by (simp add: handle_expiration_def fun_eq_iff)
  note retries = handle_t1_retries [OF assms(3-5), of _ "ef_retry f"]
  have "t n = give_up_handshake l ((?h ^^ 8) s)" if "8 < n"
  proof -
    define m where "m = n - Suc 8"
    then have n: "n = m + Suc 8" using that by simp
    have "?h ((?h ^^ 8) s) = give_up_handshake l ((?h ^^ 8) s)"
      using retries [of 8] assms(4) by (intro handle_t1_give_up [where assoc = "assoc\<lparr>init_retransmits := 8\<rparr>"]) simp_all
    then show ?thesis
      unfolding t_def h n funpow_add comp_apply funpow.simps(2)
      by (simp only: handle_t1_gone give_up_handshake_fields fun_upd_same)
  qed
  then show ?thesis
    using retries [of 8] retries [of n] give_up_handshake_fields [where l = l and s = "(?h ^^ 8) s"] by (auto simp: t_def h)
qed

definition example_t1 :: Expiration_Fallback where
  "example_t1 = \<lparr>ef_key = association_timer \<lparr>s_addr = 1, sin_port = 9\<rparr> T1_INIT, ef_expiration = 0, ef_generation = 1,
     ef_retry = no_packet \<lparr>s_addr = 1, sin_port = 9\<rparr>\<rparr>"

definition example_waiting :: Socket where
  "example_waiting = put_association \<lparr>s_addr = 1, sin_port = 9\<rparr> (init_new_association \<lparr>s_addr = 1, sin_port = 9\<rparr> 7 100) empty_socket"

theorem handshake_gives_up_witness:
  "map q_deliverable (retransmission (sends ((handle_expiration 0 example_t1 ^^ 8) example_waiting))) = replicate 8 (ef_retry example_t1) \<and>
   associations ((handle_expiration 0 example_t1 ^^ 9) example_waiting) \<lparr>s_addr = 1, sin_port = 9\<rparr> = None \<and>
   map nt_payload (nq_queue (notifications ((handle_expiration 0 example_t1 ^^ 9) example_waiting))) = [Assoc_Change CANT_STR_ASSOC]"
proof -
  let ?a = "init_new_association \<lparr>s_addr = 1, sin_port = 9\<rparr> 7 100" and ?l = "\<lparr>s_addr = 1, sin_port = 9\<rparr> :: sockaddr_in"
  have key: "ek_type (ef_key example_t1) = T1_INIT" "ek_location (ef_key example_t1) = ?l"
    by (simp_all add: example_t1_def association_timer_def)
  have a: "associations example_waiting ?l = Some ?a" by (simp add: example_waiting_def)
  have st: "assoc_state ?a = COOKIE_WAIT" "init_retransmits ?a = 0"
    by (simp_all add: init_new_association_def blank_association_def)
  have start: "retransmission (sends example_waiting) = []" "nq_queue (notifications example_waiting) = []"
    "nq_subscribed (notifications example_waiting) SCTP_ASSOC_CHANGE"
    by (simp_all add: example_waiting_def empty_socket_def put_association_def empty_send_queue_def new_notification_queue_def)
  have "map q_deliverable (retransmission (sends ((handle_expiration 0 example_t1 ^^ 8) example_waiting))) = replicate 8 (ef_retry example_t1)"
    using handshake_gives_up [OF key a st, where now = 0 and n = 8] start by simp
  then show ?thesis using handshake_gives_up [OF key a st, where now = 0 and n = 9] start by auto
qed

end
