(* ===== verification/Teardown.thy ===== *)
theory Teardown
  imports Socket_Timers
begin

text \<open>
  How an association ends: the graceful shutdown with its three chunks, the ABORT in both directions, and the API calls that start
  either (\<open>src/socket_handlers.cpp\<close>, \<open>src/socket_api.cpp\<close>). The handlers get the body of their chunk.
\<close>

abbreviation (input) T5_SHUTDOWN_GUARD_ns :: time where "T5_SHUTDOWN_GUARD_ns \<equiv> 5 * seconds 60"

subsection \<open>Replies\<close>

definition send_error :: "SCTP_Common_Header \<Rightarrow> Association_Key \<Rightarrow> sockaddr_in \<Rightarrow> u32 \<Rightarrow> error_cause list \<Rightarrow> Socket \<Rightarrow> Socket" where
  "send_error header key destination peer_tag cs =
     send_control key destination (build_error (des_port header) (src_port header) peer_tag cs)"

definition send_abort ::
    "SCTP_Common_Header \<Rightarrow> Association_Key \<Rightarrow> sockaddr_in \<Rightarrow> u32 \<Rightarrow> bool \<Rightarrow> error_cause list \<Rightarrow> Socket \<Rightarrow> Socket" where
  "send_abort header key destination tag reflected cs =
     send_control key destination (build_abort (des_port header) (src_port header) tag reflected cs)"

subsection \<open>Abort\<close>

definition handle_abort :: "error_cause list \<Rightarrow> Association_Key \<Rightarrow> Socket \<Rightarrow> Socket" where
  "handle_abort cs key s =
     (case associations s key of
        None \<Rightarrow> s
      | Some assoc \<Rightarrow>
          let s1 = (if cs \<noteq> [] then raise_notification SCTP_REMOTE_ERROR key (Remote_Error cs) s else s)
          in notify_assoc_change key (if forming (assoc_state assoc) then CANT_STR_ASSOC else COMM_LOST) (remove_association key s1))"

definition abort_association ::
    "Association_Key \<Rightarrow> SCTP_Common_Header \<Rightarrow> sockaddr_in \<Rightarrow> error_cause list \<Rightarrow> Socket \<Rightarrow> Socket" where
  "abort_association key header src cs s =
     (case associations s key of
        None \<Rightarrow> s
      | Some assoc \<Rightarrow>
          let s1 = remove_association key s;
              s2 = (if peer_ver_tag assoc \<noteq> 0
                    then send_abort header key (reply_destination assoc src) (peer_ver_tag assoc) False cs s1 else s1)
          in notify_assoc_change key (if forming (assoc_state assoc) then CANT_STR_ASSOC else COMM_LOST) s2)"

text \<open>The reason is cut to what one packet can carry.\<close>

definition sctp_abort :: "Association_Key \<Rightarrow> bytes \<Rightarrow> Socket \<Rightarrow> Sctp_Status \<times> Socket" where
  "sctp_abort association_id reason s =
     (case associations s association_id of
        None \<Rightarrow> (NO_ASSOCIATION, s)
      | Some assoc \<Rightarrow>
          let s1 = remove_association association_id s;
              abort_reason = take (unat (pmdcs assoc) - 2 * SCTP_CHUNK_HEADER_SIZE) reason
          in if peer_ver_tag assoc = 0 then (OK, s1)
             else (OK, send_control association_id (address (path_at assoc (data_path assoc)))
                     (build_abort (local_port s) (peer_port association_id) (peer_ver_tag assoc) False
                        [\<lparr>cause_code = CAUSE_USER_INITIATED_ABORT, cause_info = abort_reason\<rparr>]) s1))"

subsection \<open>Shutdown\<close>

text \<open>The step once nothing is left to send or to acknowledge, and the condition for it.\<close>

definition all_acknowledged :: "Association \<Rightarrow> bool" where
  "all_acknowledged assoc \<longleftrightarrow> cumulative_tsn_ack assoc = next_tsn assoc - 1 \<and> outbound assoc = []"

definition leave_transfer :: "time \<Rightarrow> Association_Key \<Rightarrow> Association \<Rightarrow> Association_State \<Rightarrow> SCTP_Packet \<Rightarrow> Socket \<Rightarrow> Socket" where
  "leave_transfer now key assoc st packet s =
     (let s1 = put_association key (assoc\<lparr>assoc_state := st\<rparr>) s;
          s2 = cancel_expirations_of_type key HEARTBEAT_TIMER s1;
          s3 = cancel_expiration (association_timer key DELAYED_SACK) s2;
          s4 = cancel_expirations_of_type key T3_RTX s3
      in restart_t2 now key (send_control key (address (path_at assoc (data_path assoc))) packet s4))"

definition do_next_shutdown_step :: "time \<Rightarrow> Association_Key \<Rightarrow> Socket \<Rightarrow> Socket" where
  "do_next_shutdown_step now key s =
     (case associations s key of
        None \<Rightarrow> s
      | Some assoc \<Rightarrow>
          if \<not> all_acknowledged assoc then s
          else case assoc_state assoc of
                 SHUTDOWN_PENDING \<Rightarrow>
                   schedule_expiration (association_timer key T5_SHUTDOWN_GUARD) (now + T5_SHUTDOWN_GUARD_ns) (no_packet key)
                     (leave_transfer now key assoc SHUTDOWN_SENT
                        (build_shutdown (local_port s) (peer_port key) (peer_ver_tag assoc) (last_peer_tsn assoc)) s)
               | SHUTDOWN_RECEIVED \<Rightarrow>
                   leave_transfer now key assoc SHUTDOWN_ACK_SENT
                     (build_shutdown_ack (local_port s) (peer_port key) (peer_ver_tag assoc)) s
               | _ \<Rightarrow> s)"

definition sctp_shutdown :: "time \<Rightarrow> Association_Key \<Rightarrow> Socket \<Rightarrow> Sctp_Status \<times> Socket" where
  "sctp_shutdown now association_id s =
     (case associations s association_id of
        None \<Rightarrow> (NO_ASSOCIATION, s)
      | Some assoc \<Rightarrow>
          if forming (assoc_state assoc)
          then (OK, purge_sends association_id (cancel_expirations association_id
                  (forget_peer_addresses association_id (erase_association association_id s))))
          else if assoc_state assoc = ESTABLISHED
          then (OK, do_next_shutdown_step now association_id
                  (put_association association_id (assoc\<lparr>assoc_state := SHUTDOWN_PENDING\<rparr>) s))
          else (SHUTTING_DOWN, s))"

text \<open>What the Cumulative TSN Ack of a SHUTDOWN settles: the loop over the outstanding DATA, with the paths it clears.\<close>

record Shutdown_Acks =
  sa_paths :: "Peer_Path list"
  sa_kept :: "(u32, Outstanding_Data) omap"
  sa_acked_on :: "bool list"
  sa_changes :: "(sockaddr_in \<times> Peer_Addr_State option) list"
  sa_acked_new :: bool

definition shutdown_ack_entry :: "Association \<Rightarrow> u32 \<Rightarrow> Shutdown_Acks \<Rightarrow> u32 \<times> Outstanding_Data \<Rightarrow> Shutdown_Acks" where
  "shutdown_ack_entry assoc cumulative acks entry =
     (if \<not> tsn_lte (fst entry) cumulative then acks\<lparr>sa_kept := sa_kept acks @ [entry]\<rparr>
      else if gap_acked (snd entry) then acks
      else
        let i = destination_of assoc (snd entry);
            (path, change) = clear_path_errors (sa_paths acks ! i)
        in acks\<lparr>sa_paths := (sa_paths acks)[i := path], sa_acked_on := (sa_acked_on acks)[i := True],
                sa_changes := sa_changes acks @ [(address path, change)], sa_acked_new := True\<rparr>)"

definition apply_shutdown_ack :: "u32 \<Rightarrow> Association \<Rightarrow> Shutdown_Acks \<times> Association" where
  "apply_shutdown_ack cumulative assoc =
     (let acks = foldl (shutdown_ack_entry assoc cumulative)
                   \<lparr>sa_paths = peer_address_list assoc, sa_kept = [], sa_acked_on = replicate (length (peer_address_list assoc)) False,
                    sa_changes = [], sa_acked_new = False\<rparr> (outstanding_data assoc)
      in (acks, assoc\<lparr>peer_address_list := sa_paths acks, outstanding_data := sa_kept acks, cumulative_tsn_ack := cumulative,
            has_rtt_measurement_tsn := (has_rtt_measurement_tsn assoc \<and> \<not> tsn_lte (rtt_measurement_tsn assoc) cumulative),
            in_fast_recovery := (in_fast_recovery assoc \<and> \<not> tsn_gte cumulative (fast_recovery_exit_tsn assoc)),
            assoc_error_count := (if sa_acked_new acks then 0 else assoc_error_count assoc)\<rparr>))"

definition bare_sack :: "u32 \<Rightarrow> sack_chunk_value" where
  "bare_sack cumulative =
     \<lparr>sack_cumulative_tsn_ack = cumulative, sack_a_rwnd = 0, number_of_gap_ack_blocks = 0, number_of_duplicate_tsns = 0,
      gap_ack_blocks = [], sack_duplicate_tsns = []\<rparr>"

definition acked_paths :: "Shutdown_Acks \<Rightarrow> sockaddr_in list" where
  "acked_paths acks = map (\<lambda>i. address (sa_paths acks ! i)) (filter (\<lambda>i. sa_acked_on acks ! i) [0..<length (sa_acked_on acks)])"

definition accept_shutdown :: "time \<Rightarrow> u32 \<Rightarrow> Association_Key \<Rightarrow> Association \<Rightarrow> Socket \<Rightarrow> Socket" where
  "accept_shutdown now cumulative key assoc s =
     (let first_shutdown = (assoc_state assoc \<noteq> SHUTDOWN_RECEIVED);
          notify = (\<lambda>s. if first_shutdown then raise_notification SCTP_SHUTDOWN_EVENT key Shutdown_Event s else s)
      in if tsn_gt cumulative (cumulative_tsn_ack assoc) then
           case apply_shutdown_ack cumulative assoc of
             (acks, assoc') \<Rightarrow>
               let s1 = foldl (\<lambda>s (a, change). notify_path key a change s) s (sa_changes acks);
                   s2 = drop_acked key (bare_sack cumulative)
                          (notify (put_association key (assoc'\<lparr>assoc_state := SHUTDOWN_RECEIVED\<rparr>) s1))
               in do_next_shutdown_step now key (foldl (\<lambda>s a. restart_t3 now key a s) s2 (acked_paths acks))
         else do_next_shutdown_step now key (notify (put_association key (assoc\<lparr>assoc_state := SHUTDOWN_RECEIVED\<rparr>) s)))"

definition handle_shutdown :: "time \<Rightarrow> SCTP_Common_Header \<Rightarrow> u32 \<Rightarrow> Association_Key \<Rightarrow> sockaddr_in \<Rightarrow> Socket \<Rightarrow> Socket" where
  "handle_shutdown now header cumulative key src s =
     (case associations s key of
        None \<Rightarrow> s
      | Some assoc \<Rightarrow>
          if forming (assoc_state assoc) then s
          else if closing (assoc_state assoc) then
            restart_t2 now key (send_control key (reply_destination assoc src)
              (build_shutdown_ack (des_port header) (src_port header) (peer_ver_tag assoc))
              (put_association key (assoc\<lparr>assoc_state := SHUTDOWN_ACK_SENT\<rparr>) s))
          else if \<not> tsn_lt cumulative (next_tsn assoc) then
            abort_association key header src [\<lparr>cause_code = CAUSE_PROTOCOL_VIOLATION, cause_info = []\<rparr>] s
          else accept_shutdown now cumulative key assoc s)"

definition handle_shutdown_ack :: "SCTP_Common_Header \<Rightarrow> Association_Key \<Rightarrow> sockaddr_in \<Rightarrow> Socket \<Rightarrow> Socket" where
  "handle_shutdown_ack header key src s =
     (case associations s key of
        None \<Rightarrow> s
      | Some assoc \<Rightarrow>
          if \<not> closing (assoc_state assoc) then s
          else notify_assoc_change key SHUTDOWN_COMP (send_control key (reply_destination assoc src)
                 (build_shutdown_complete (des_port header) (src_port header) (peer_ver_tag assoc) False)
                 (remove_association key s)))"

definition handle_shutdown_complete :: "Association_Key \<Rightarrow> Socket \<Rightarrow> Socket" where
  "handle_shutdown_complete key s =
     (case associations s key of
        None \<Rightarrow> s
      | Some assoc \<Rightarrow>
          if assoc_state assoc \<noteq> SHUTDOWN_ACK_SENT then s
          else notify_assoc_change key SHUTDOWN_COMP (remove_association key s))"

subsection \<open>The invariant\<close>

abbreviation causes_fit :: "error_cause list \<Rightarrow> bool" where
  "causes_fit cs \<equiv> list_all (\<lambda>c. param_fits (cause_info c)) cs"

lemma send_reply_frame [simp]:
  "sock_ok s \<Longrightarrow> causes_fit cs \<Longrightarrow> sock_ok (send_error h k d t cs s)" "associations (send_error h k d t cs s) = associations s"
  "sock_ok s \<Longrightarrow> causes_fit cs \<Longrightarrow> sock_ok (send_abort h k d t r cs s)" "associations (send_abort h k d t r cs s) = associations s"
  by (simp_all add: send_error_def send_abort_def)

declare send_reply_frame(1) [sock_intros] send_reply_frame(3) [sock_intros]

lemma handle_abort_ok [sock_intros]: "sock_ok s \<Longrightarrow> sock_ok (handle_abort cs k s)"
  by (auto simp: handle_abort_def Let_def split: option.split)

lemma abort_association_ok [sock_intros]: "sock_ok s \<Longrightarrow> causes_fit cs \<Longrightarrow> sock_ok (abort_association k h src cs s)"
  by (auto simp: abort_association_def Let_def split: option.split)

text \<open>An association that breaks the invariant may be aborted.\<close>

lemma abort_put_ok: "sock_ok s \<Longrightarrow> causes_fit cs \<Longrightarrow> sock_ok (abort_association k h src cs (put_association k assoc s))"
  using remove_put_ok [of s k assoc] by (auto simp: abort_association_def Let_def)

lemma sctp_abort_ok [sock_intros]: "sock_ok s \<Longrightarrow> sock_ok (snd (sctp_abort k r s))"
  using association_ok [of s k] by (auto simp: sctp_abort_def Let_def param_fits_def assoc_ok_def split: option.split)

text \<open>The state of an association may change to one that is not closing, or to any once everything is acknowledged.\<close>

lemma assoc_ok_state:
  "assoc_ok a \<Longrightarrow> \<not> closing st \<or> all_acknowledged a \<Longrightarrow> \<not> forming st \<Longrightarrow> assoc_ok (a\<lparr>assoc_state := st\<rparr>)"
  by (auto simp: assoc_ok_def all_acknowledged_def inbound_ok_def ooo_ok_def)

lemma assoc_ok_closing: "assoc_ok a \<Longrightarrow> closing (assoc_state a) \<Longrightarrow> all_acknowledged a"
  by (auto simp: assoc_ok_def all_acknowledged_def)

lemma not_closing [simp]:
  "\<not> closing COOKIE_WAIT" "\<not> closing COOKIE_ECHOED" "\<not> closing ESTABLISHED" "\<not> closing SHUTDOWN_PENDING" "\<not> closing SHUTDOWN_RECEIVED"
  "closing SHUTDOWN_SENT" "closing SHUTDOWN_ACK_SENT"
  by (simp_all add: closing_def)

lemma not_forming [simp]:
  "\<not> forming ESTABLISHED" "\<not> forming SHUTDOWN_PENDING" "\<not> forming SHUTDOWN_SENT" "\<not> forming SHUTDOWN_RECEIVED" "\<not> forming SHUTDOWN_ACK_SENT"
  "forming COOKIE_WAIT" "forming COOKIE_ECHOED"
  by (simp_all add: forming_def)

lemma restart_t2_associations [simp]: "associations (restart_t2 now k s) = associations s"
  by (simp add: restart_t2_def split: option.split)

lemma leave_transfer_associations [simp]:
  "associations (leave_transfer now k assoc st p s) = (associations s)(k \<mapsto> assoc\<lparr>assoc_state := st\<rparr>)"
  by (simp add: leave_transfer_def Let_def)

lemma leave_transfer_ok:
  "sock_ok s \<Longrightarrow> assoc_ok assoc \<Longrightarrow> all_acknowledged assoc \<Longrightarrow> \<not> forming st \<Longrightarrow> sendable p \<Longrightarrow> sock_ok (leave_transfer now k assoc st p s)"
  by (auto simp: leave_transfer_def Let_def assoc_ok_state intro!: sock_intros)

lemma do_next_shutdown_step_ok [sock_intros]: "sock_ok s \<Longrightarrow> sock_ok (do_next_shutdown_step now k s)"
  using association_ok [of s k]
  by (auto simp: do_next_shutdown_step_def split: option.split Association_State.split intro!: schedule_timer_ok leave_transfer_ok)

lemma sctp_shutdown_ok [sock_intros]: "sock_ok s \<Longrightarrow> sock_ok (snd (sctp_shutdown now k s))"
  using association_ok [of s k] by (auto simp: sctp_shutdown_def assoc_ok_state split: option.split intro!: sock_intros erase_ok)

lemma shutdown_ack_paths:
  "length (sa_paths (foldl (shutdown_ack_entry assoc c) acks es)) = length (sa_paths acks)"
proof (induction es arbitrary: acks)
  case (Cons e es)
  have "length (sa_paths (shutdown_ack_entry assoc c acks e)) = length (sa_paths acks)"
    by (simp add: shutdown_ack_entry_def Let_def case_prod_unfold)
  with Cons.IH show ?case by simp
qed simp

lemma apply_shutdown_ack_ok:
  "apply_shutdown_ack c assoc = (acks, assoc') \<Longrightarrow> assoc_ok assoc \<Longrightarrow> assoc_ok (assoc'\<lparr>assoc_state := SHUTDOWN_RECEIVED\<rparr>)"
proof -
  assume a: "apply_shutdown_ack c assoc = (acks, assoc')" "assoc_ok assoc"
  then have "length (sa_paths acks) = length (peer_address_list assoc)"
    using shutdown_ack_paths [of assoc c _ "outstanding_data assoc"] by (auto simp: apply_shutdown_ack_def Let_def)
  with a show ?thesis by (cases "sa_paths acks"; cases "peer_address_list assoc") (auto simp: apply_shutdown_ack_def Let_def assoc_ok_def inbound_ok_def ooo_ok_def)
qed

lemma accept_shutdown_ok:
  assumes "sock_ok s" "associations s k = Some assoc"
  shows "sock_ok (accept_shutdown now c k assoc s)"
proof -
  obtain acks assoc' where a: "apply_shutdown_ack c assoc = (acks, assoc')" by (rule prod.exhaust)
  have ok: "assoc_ok assoc" by (rule association_ok [OF assms])
  have "sock_ok (foldl (\<lambda>s (a, change). notify_path k a change s) s cs)" for cs
    by (rule sock_ok_foldl [OF _ assms(1)]) (simp add: case_prod_unfold)
  then show ?thesis
    using apply_shutdown_ack_ok [OF a ok] assoc_ok_state [OF ok, of SHUTDOWN_RECEIVED] assms(1)
    by (auto simp: accept_shutdown_def Let_def a intro!: do_next_shutdown_step_ok sock_ok_foldl [OF restart_t3_ok] put_ok)
qed

lemma handle_shutdown_ok [sock_intros]: "sock_ok s \<Longrightarrow> sock_ok (handle_shutdown now h c k src s)"
  using association_ok [of s k]
  by (auto simp: handle_shutdown_def assoc_ok_state assoc_ok_closing split: option.split
      intro!: sock_intros accept_shutdown_ok)

lemma handle_shutdown_ack_ok [sock_intros]: "sock_ok s \<Longrightarrow> sock_ok (handle_shutdown_ack h k src s)"
  by (auto simp: handle_shutdown_ack_def split: option.split)

lemma handle_shutdown_complete_ok [sock_intros]: "sock_ok s \<Longrightarrow> sock_ok (handle_shutdown_complete k s)"
  by (auto simp: handle_shutdown_complete_def split: option.split)

subsection \<open>Examples\<close>

definition example_peer :: "u32 \<Rightarrow> u32 \<Rightarrow> Association" where
  "example_peer tsn peer_tsn =
     (init_new_association \<lparr>s_addr = 1, sin_port = 9\<rparr> 7 tsn)\<lparr>assoc_state := ESTABLISHED, peer_ver_tag := 8, last_peer_tsn := peer_tsn - 1\<rparr>"

definition example_established :: "u32 \<Rightarrow> u32 \<Rightarrow> Socket" where
  "example_established tsn peer_tsn = put_association \<lparr>s_addr = 1, sin_port = 9\<rparr> (example_peer tsn peer_tsn) empty_socket"

end
