(* ===== verification/Data_Transfer.thy ===== *)
theory Data_Transfer
  imports Teardown
begin

text \<open>
  DATA and SACKs at the level of the socket: the handlers of a packet's DATA and of a SACK, the window update, and the calls that
  send and receive a message (\<open>src/socket_handlers.cpp\<close>, \<open>src/socket_api.cpp\<close>). A call that waits is modelled from the moment its wait
  returns.
\<close>

abbreviation (input) SACK_DELAY :: time where "SACK_DELAY \<equiv> milliseconds 200"
abbreviation (input) SEND_BUFFER :: nat where "SEND_BUFFER \<equiv> 256 * 1024"

definition protocol_violation :: error_cause where
  "protocol_violation = \<lparr>cause_code = CAUSE_PROTOCOL_VIOLATION, cause_info = []\<rparr>"

subsection \<open>SACK\<close>

definition do_t3_action :: "time \<Rightarrow> Association_Key \<Rightarrow> Socket \<Rightarrow> sockaddr_in \<times> T3_Action \<Rightarrow> Socket" where
  "do_t3_action now key s entry =
     (case snd entry of
        STOP \<Rightarrow> cancel_expiration (path_timer key T3_RTX (fst entry)) s
      | RESTART_T3 \<Rightarrow> restart_t3 now key (fst entry) s
      | START \<Rightarrow> start_t3_if_stopped now key (fst entry) s)"

definition apply_sack :: "time \<Rightarrow> sack_chunk_value \<Rightarrow> Association_Key \<Rightarrow> Association \<Rightarrow> Socket \<Rightarrow> Socket" where
  "apply_sack now sack key assoc s =
     (let outcome = process_sack sack now (\<lambda>a. timer_active (path_timer key T3_RTX a) s) assoc;
          s1 = foldl (\<lambda>s (a, st). notify_peer_addr_change key a st s) s (so_notes outcome);
          s2 = drop_acked key sack (put_association key (so_assoc outcome) s1);
          s3 = (if so_entered_fast_recovery outcome then schedule_pending_retransmission key False s2 else s2)
      in do_next_shutdown_step now key (foldl (do_t3_action now key) s3 (so_t3_actions outcome)))"

definition handle_sack ::
    "time \<Rightarrow> SCTP_Common_Header \<Rightarrow> sack_chunk_value \<Rightarrow> Association_Key \<Rightarrow> sockaddr_in \<Rightarrow> Socket \<Rightarrow> Socket" where
  "handle_sack now header sack key src s =
     (case associations s key of
        None \<Rightarrow> s
      | Some assoc \<Rightarrow>
          if \<not> transmits_data (assoc_state assoc) then s
          else if acks_unsent assoc sack then abort_association key header src [protocol_violation] s
          else if tsn_lt (sack_cumulative_tsn_ack sack) (cumulative_tsn_ack assoc) then s
          else apply_sack now sack key assoc s)"

subsection \<open>DATA\<close>

text \<open>The first DATA chunk without user data.\<close>

definition empty_data :: "SCTP_Chunk list \<Rightarrow> data_chunk_value option" where
  "empty_data chunks =
     (case find (\<lambda>chunk. chunk_type chunk = DATA \<and> (case chunk_value chunk of Data_Value d \<Rightarrow> user_data d = [] | _ \<Rightarrow> False)) chunks of
        Some chunk \<Rightarrow> (case chunk_value chunk of Data_Value d \<Rightarrow> Some d | _ \<Rightarrow> None)
      | None \<Rightarrow> None)"

text \<open>In SHUTDOWN-SENT the answer is a SHUTDOWN, with a SACK when the SHUTDOWN alone would not say it all.\<close>

definition shutdown_reply :: "Association_Key \<Rightarrow> Reception \<Rightarrow> Socket \<Rightarrow> SCTP_Packet \<times> Association" where
  "shutdown_reply key rx s =
     (let assoc = rx_assoc rx;
          packet = build_shutdown (local_port s) (peer_port key) (peer_ver_tag assoc) (last_peer_tsn assoc)
      in if tsn_ooo_buffer assoc \<noteq> [] \<or> duplicate_tsns assoc \<noteq> [] \<or> rx_dropped rx
         then case make_sack (sin_port (local_address s)) key (buffered_bytes key (receives s)) assoc of
                (sack, assoc') \<Rightarrow> (packet\<lparr>pkt_chunks := pkt_chunks packet @ [hd (pkt_chunks sack)]\<rparr>, assoc')
         else (packet, assoc))"

definition sack_now :: "bool \<Rightarrow> Reception \<Rightarrow> bool" where
  "sack_now hole_existed rx =
     (rx_send_immediately rx \<or> rx_saw_duplicate rx \<or> rx_dropped rx \<or> hole_existed \<or> tsn_ooo_buffer (rx_assoc rx) \<noteq> [])"

text \<open>What follows the deliveries: the SHUTDOWN, a SACK now, or the timer of a delayed one.\<close>

definition acknowledge_data :: "time \<Rightarrow> Association_Key \<Rightarrow> bool \<Rightarrow> Reception \<Rightarrow> Socket \<Rightarrow> (Socket \<Rightarrow> Socket) \<times> Association" where
  "acknowledge_data now key hole_existed rx s =
     (let assoc = rx_assoc rx; destination = address (path_at assoc (data_path assoc))
      in if assoc_state assoc = SHUTDOWN_SENT then
           (case shutdown_reply key rx s of
              (packet, assoc') \<Rightarrow>
                ((\<lambda>s. restart_t2 now key (send_control key destination packet
                   (cancel_expiration (association_timer key DELAYED_SACK) s))), assoc'))
         else if sack_now hole_existed rx then (send_sack key, assoc)
         else
           let count = delayed_sack_packet_count assoc + 1
           in (if count \<ge> 2 then send_sack key
               else schedule_expiration (association_timer key DELAYED_SACK) (now + SACK_DELAY) (no_packet key),
               assoc\<lparr>delayed_sack_packet_count := count\<rparr>))"

definition conclude_data ::
    "time \<Rightarrow> SCTP_Common_Header \<Rightarrow> Association_Key \<Rightarrow> sockaddr_in \<Rightarrow> Association \<Rightarrow> Reception \<Rightarrow> Socket \<Rightarrow> Socket" where
  "conclude_data now header key src assoc rx s =
     (case acknowledge_data now key (tsn_ooo_buffer assoc \<noteq> []) rx s of
        (acknowledge, assoc') \<Rightarrow>
          let s1 = put_association key assoc' s
          in if rx_violation rx then abort_association key header src [protocol_violation] s1
             else
               let s2 = foldl (\<lambda>s delivery. push_delivery key delivery s) s1 (rx_delivered rx);
                   s3 = (if rx_invalid_streams rx \<noteq> []
                         then send_error header key (reply_destination assoc src) (peer_ver_tag assoc) (rx_invalid_streams rx) s2
                         else s2)
               in acknowledge s3)"

definition handle_data_packet ::
    "time \<Rightarrow> SCTP_Packet \<Rightarrow> Association_Key \<Rightarrow> sockaddr_in \<Rightarrow> bool \<Rightarrow> Socket \<Rightarrow> Socket" where
  "handle_data_packet now packet key src acknowledge_immediately s =
     (case empty_data (pkt_chunks packet) of
        Some d \<Rightarrow>
          abort_association key (pkt_header packet) src [\<lparr>cause_code = CAUSE_NO_USER_DATA, cause_info = be32_bytes (data_tsn d)\<rparr>] s
      | None \<Rightarrow>
          (case associations s key of
             None \<Rightarrow> s
           | Some assoc \<Rightarrow>
               if \<not> receives_data (assoc_state assoc) then s
               else
                 let rx = receive_chunks (pkt_chunks packet)
                            (start_reception acknowledge_immediately (buffered_bytes key (receives s)) assoc)
                 in if \<not> rx_have_data rx then s
                    else conclude_data now (pkt_header packet) key src assoc (deliver_partially rx) s))"

definition maybe_send_window_update :: "Association_Key \<Rightarrow> Socket \<Rightarrow> Socket" where
  "maybe_send_window_update key s =
     (case associations s key of
        None \<Rightarrow> s
      | Some assoc \<Rightarrow>
          if \<not> receives_data (assoc_state assoc) then s
          else if receive_window (buffered_bytes key (receives s)) assoc < peer_view_of_window assoc + of_nat (RWND div 4) then s
          else send_sack key s)"

subsection \<open>The application's calls\<close>

definition refusal_in :: "Association_State \<Rightarrow> Sctp_Status" where
  "refusal_in st = (if st = COOKIE_WAIT \<or> st = COOKIE_ECHOED then NOT_ESTABLISHED else SHUTTING_DOWN)"

definition send_status :: "Association_Key \<Rightarrow> bytes \<Rightarrow> u16 \<Rightarrow> Socket \<Rightarrow> Sctp_Status" where
  "send_status association_id data stream s =
     (case associations s association_id of
        None \<Rightarrow> NO_ASSOCIATION
      | Some assoc \<Rightarrow>
          if assoc_state assoc \<noteq> ESTABLISHED then refusal_in (assoc_state assoc)
          else if data = [] then EMPTY_MESSAGE
          else if stream \<ge> out_streams assoc then INVALID_STREAM
          else if outbound assoc \<noteq> [] \<and> outbound_bytes assoc + length data > SEND_BUFFER then QUEUE_FULL
          else OK)"

text \<open>A sequence number is read by position; \<open>None\<close> stands for a position past the end of \<open>next_ssn\<close>, which does not occur
  (\<open>send_takes_ssn\<close>).\<close>

definition queue_message :: "bytes \<Rightarrow> u16 \<Rightarrow> bool \<Rightarrow> Association \<Rightarrow> Association option" where
  "queue_message data stream unordered assoc =
     (if \<not> unordered \<and> unat stream \<ge> length (next_ssn assoc) then None
      else
        let ssn = (if unordered then 0 else next_ssn assoc ! unat stream)
        in Some (assoc\<lparr>next_ssn := (if unordered then next_ssn assoc else (next_ssn assoc)[unat stream := ssn + 1]),
             outbound := outbound assoc @ [\<lparr>om_stream = stream, om_ssn = ssn, om_unordered = unordered, om_bytes = data, om_offset = 0\<rparr>],
             outbound_bytes := outbound_bytes assoc + length data\<rparr>))"

definition sctp_send_data :: "Association_Key \<Rightarrow> bytes \<Rightarrow> u16 \<Rightarrow> bool \<Rightarrow> Socket \<Rightarrow> (Sctp_Status \<times> Socket) option" where
  "sctp_send_data association_id data stream unordered s =
     (let status = send_status association_id data stream s in
      if status \<noteq> OK then Some (status, s)
      else map_option (\<lambda>assoc. (OK, put_association association_id assoc s))
             (queue_message data stream unordered (the (associations s association_id))))"

definition sctp_recv_data :: "nat \<Rightarrow> Socket \<Rightarrow> (bytes \<times> Read) option \<times> Socket" where
  "sctp_recv_data capacity s =
     (case read_any capacity (receives s) of
        (None, rq) \<Rightarrow> (None, s\<lparr>receives := rq\<rparr>)
      | (Some (out, read), rq) \<Rightarrow> (Some (out, read), maybe_send_window_update (rd_key read) (s\<lparr>receives := rq\<rparr>)))"

definition sctp_recv_data_from :: "Association_Key \<Rightarrow> nat \<Rightarrow> Socket \<Rightarrow> (bytes \<times> Read) option \<times> Socket" where
  "sctp_recv_data_from association_id capacity s =
     (case read_from association_id capacity (receives s) of
        (None, rq) \<Rightarrow> (None, s\<lparr>receives := rq\<rparr>)
      | (Some (out, read), rq) \<Rightarrow> (Some (out, read), maybe_send_window_update association_id (s\<lparr>receives := rq\<rparr>)))"

subsection \<open>What reception leaves alone\<close>

definition sender_part :: "Association \<Rightarrow> u16 list \<times> u16 \<times> u32 \<times> Outbound_Message list \<times> Association_State \<times> u32 \<times> u32 \<times> Peer_Path list" where
  "sender_part a = (next_ssn a, out_streams a, pmdcs a, outbound a, assoc_state a, cumulative_tsn_ack a, next_tsn a, peer_address_list a)"

lemma assoc_ok_sender: "sender_part a = sender_part b \<Longrightarrow> assoc_ok b \<Longrightarrow> inbound_ok a \<Longrightarrow> assoc_ok a"
  by (simp add: sender_part_def assoc_ok_def)

lemma sender_part_frame [simp]:
  "sender_part (a\<lparr>reassembly := v1\<rparr>) = sender_part a" "sender_part (a\<lparr>held_deliveries := v2\<rparr>) = sender_part a"
  "sender_part (a\<lparr>inbound_streams := v3\<rparr>) = sender_part a" "sender_part (a\<lparr>tsn_ooo_buffer := v4\<rparr>) = sender_part a"
  "sender_part (a\<lparr>last_peer_tsn := v5\<rparr>) = sender_part a" "sender_part (a\<lparr>duplicate_tsns := v6\<rparr>) = sender_part a"
  "sender_part (a\<lparr>received_since_sack := v7\<rparr>) = sender_part a" "sender_part (a\<lparr>delayed_sack_packet_count := v8\<rparr>) = sender_part a"
  "sender_part (a\<lparr>our_rwnd := v9\<rparr>) = sender_part a"
  by (simp_all add: sender_part_def)

definition reception_part ::
    "Association \<Rightarrow> (u16 list \<times> u16 \<times> u32 \<times> Outbound_Message list \<times> Association_State \<times> u32 \<times> u32 \<times> Peer_Path list) \<times> u32 list" where
  "reception_part a = (sender_part a, duplicate_tsns a)"

lemma reception_part_frame [simp]:
  "reception_part (a\<lparr>reassembly := v1\<rparr>) = reception_part a" "reception_part (a\<lparr>held_deliveries := v2\<rparr>) = reception_part a"
  "reception_part (a\<lparr>inbound_streams := v3\<rparr>) = reception_part a" "reception_part (a\<lparr>tsn_ooo_buffer := v4\<rparr>) = reception_part a"
  "reception_part (a\<lparr>last_peer_tsn := v5\<rparr>) = reception_part a" "reception_part (a\<lparr>received_since_sack := v7\<rparr>) = reception_part a"
  by (simp_all add: reception_part_def)

lemma hand_up_sender [simp]: "reception_part (fst (hand_up d r)) = reception_part (fst r)"
  by (simp add: hand_up_def split: prod.split)

lemma set_inbound_stream_sender [simp]: "reception_part (set_inbound_stream i st a) = reception_part a"
  by (simp add: set_inbound_stream_def)

lemma advance_loop_sender [simp]: "reception_part (fst (snd (advance_loop i st r))) = reception_part (fst r)"
proof (induction i st r rule: advance_loop.induct)
  case (1 i st r)
  then show ?case by (subst advance_loop.simps) (simp split: option.split)
qed

lemma advance_stream_sender [simp]: "reception_part (fst (advance_stream i r)) = reception_part (fst r)"
  using advance_loop_sender [of i "(inbound_stream (fst r) i)\<lparr>is_next_ssn := is_next_ssn (inbound_stream (fst r) i) + 1\<rparr>" r]
  by (cases r) (simp add: advance_stream_def Let_def case_prod_unfold del: advance_loop_sender)

lemma order_message_sender [simp]: "reception_part (fst (snd (order_message i n u bs r))) = reception_part (fst r)"
  by (simp add: order_message_def Let_def)

lemma reassemble_sender [simp]: "reception_part (fst (snd (reassemble d keep r))) = reception_part (fst r)"
  by (cases r) (simp add: reassemble_def Let_def)

lemma assemble_early_sender [simp]: "reception_part (fst (snd (assemble_early tsn r))) = reception_part (fst r)"
  by (cases r) (simp add: assemble_early_def Let_def case_prod_unfold split: option.split walk.split)

lemma read_ooo_loop_sender [simp]: "reception_part (fst (snd (snd (read_ooo_loop tsn r)))) = reception_part (fst r)"
proof (induction tsn r rule: read_ooo_loop.induct)
  case (1 tsn r)
  show ?case
  proof (cases "omap_find tsn_lt tsn (tsn_ooo_buffer (fst r))")
    case None
    then show ?thesis by (subst read_ooo_loop.simps) simp
  next
    case (Some held)
    obtain ok a d where re: "reassemble (held_data held) (\<not> assembled held \<and> user_data (held_data held) \<noteq> []) r = (ok, a, d)"
      by (metis prod_cases3)
    have "reception_part a = reception_part (fst r)"
      using reassemble_sender [of "held_data held" "\<not> assembled held \<and> user_data (held_data held) \<noteq> []" r] re by simp
    then show ?thesis using "1.IH" [OF Some re [symmetric] refl] re Some by (subst read_ooo_loop.simps) simp
  qed
qed

lemma read_ooo_buffer_sender [simp]: "reception_part (fst (snd (read_ooo_buffer r))) = reception_part (fst r)"
  using read_ooo_loop_sender [of "last_peer_tsn (fst r) + 1" r]
  by (simp add: read_ooo_buffer_def case_prod_unfold del: read_ooo_loop_sender)

lemma take_next_sender [simp]: "reception_part (fst (snd (take_next d keep r))) = reception_part (fst r)"
  using reassemble_sender [of d keep r] by (simp add: take_next_def case_prod_unfold del: reassemble_sender)

lemma room_for_sender [simp]: "reception_part (fst (snd (room_for a tsn used))) = reception_part a"
  by (simp add: room_for_def make_room_def split: option.split prod.split)

lemma accept_chunk_sender [simp]: "reception_part (rx_assoc (accept_chunk d valid rx)) = reception_part (rx_assoc rx)"
  by (simp add: accept_chunk_def Let_def case_prod_unfold)

lemma deliver_partially_sender [simp]: "reception_part (rx_assoc (deliver_partially rx)) = reception_part (rx_assoc rx)"
  by (simp add: deliver_partially_def Let_def case_prod_unfold)

lemma receive_chunk_sender [simp]: "sender_part (rx_assoc (receive_chunk flag d rx)) = sender_part (rx_assoc rx)"
proof -
  have "sender_part (rx_assoc (accept_chunk d' valid rx')) = sender_part (rx_assoc rx')"
    "sender_part (fst (snd (room_for a tsn used))) = sender_part a" for d' valid rx' a tsn used
    using accept_chunk_sender [of d' valid rx'] room_for_sender [of a tsn used] by (simp_all add: reception_part_def)
  then show ?thesis by (simp add: receive_chunk_def Let_def case_prod_unfold)
qed

lemma receive_chunks_sender [simp]: "sender_part (rx_assoc (receive_chunks chunks rx)) = sender_part (rx_assoc rx)"
  by (induction chunks arbitrary: rx) (simp_all add: Let_def split: Chunk_Value_Type.split)

lemma make_sack_sender [simp]: "sender_part (snd (make_sack p k b a)) = sender_part a"
  by (simp add: make_sack_def Let_def)

text \<open>A duplicate is noticed, there are no more duplicates than chunks, and the invalid streams fit a cause each.\<close>

definition rx_sound :: "nat \<Rightarrow> Reception \<Rightarrow> bool" where
  "rx_sound n rx \<longleftrightarrow> (duplicate_tsns (rx_assoc rx) = [] \<or> rx_saw_duplicate rx) \<and> length (duplicate_tsns (rx_assoc rx)) \<le> n
     \<and> causes_fit (rx_invalid_streams rx)"

lemma accept_chunk_sound: "rx_sound n rx \<Longrightarrow> rx_sound n (accept_chunk d valid rx)"
proof -
  have "duplicate_tsns (rx_assoc (accept_chunk d valid rx)) = duplicate_tsns (rx_assoc rx)"
    using accept_chunk_sender [of d valid rx] by (simp add: reception_part_def)
  moreover have "rx_saw_duplicate (accept_chunk d valid rx) = rx_saw_duplicate rx"
    "causes_fit (rx_invalid_streams rx) \<Longrightarrow> causes_fit (rx_invalid_streams (accept_chunk d valid rx))"
    by (simp_all add: accept_chunk_def Let_def case_prod_unfold invalid_stream_cause_def)
  ultimately show "rx_sound n rx \<Longrightarrow> ?thesis" by (simp add: rx_sound_def)
qed

lemma receive_chunk_sound: "rx_sound n rx \<Longrightarrow> rx_sound (Suc n) (receive_chunk flag d rx)"
proof -
  assume rx: "rx_sound n rx"
  define a1 where "a1 = (rx_assoc rx)\<lparr>received_since_sack := received_since_sack (rx_assoc rx) + of_nat (length (user_data d))\<rparr>"
  define rx1 where "rx1 = rx\<lparr>rx_have_data := True, rx_send_immediately := rx_send_immediately rx \<or> flag AND DATA_IMMEDIATE_SACK_FLAG \<noteq> 0,
    rx_assoc := a1\<rparr>"
  have rx1: "rx_sound n rx1" "rx_assoc rx1 = a1" using rx by (simp_all add: rx_sound_def rx1_def a1_def)
  have dup: "duplicate_tsns (fst (snd (room_for a t u))) = duplicate_tsns a" for a t u
    using room_for_sender [of a t u] by (simp add: reception_part_def)
  have room: "rx_sound n (rx1\<lparr>rx_assoc := fst (snd (room_for a1 t u)), rx_used := m\<rparr>)" for t u m
    using rx1 dup [of a1] by (simp add: rx_sound_def)
  have more: "rx_sound n x \<Longrightarrow> rx_sound (Suc n) x" for x by (simp add: rx_sound_def)
  have "rx_sound (Suc n) (rx1\<lparr>rx_assoc := a1\<lparr>duplicate_tsns := duplicate_tsns a1 @ [t]\<rparr>, rx_saw_duplicate := True\<rparr>)"
    "rx_sound n (rx1\<lparr>rx_dropped := True\<rparr>)" for t
    using rx1 by (simp_all add: rx_sound_def)
  then show ?thesis
    unfolding receive_chunk_def Let_def a1_def [symmetric] rx1_def [symmetric] case_prod_unfold by (auto intro!: more accept_chunk_sound room)
qed

lemma receive_chunks_sound: "rx_sound n rx \<Longrightarrow> rx_sound (n + length chunks) (receive_chunks chunks rx)"
proof (induction chunks arbitrary: n rx)
  case (Cons c cs)
  have more: "rx_sound m x \<Longrightarrow> m \<le> m' \<Longrightarrow> rx_sound m' x" for m m' x by (auto simp: rx_sound_def)
  have "rx_sound (Suc (n + length cs)) (receive_chunks cs rx)" by (rule more [OF Cons.IH [OF Cons.prems]]) simp
  moreover have "rx_sound (Suc (n + length cs)) (receive_chunk flag d rx)" for flag d
    by (rule more [OF receive_chunk_sound [OF Cons.prems]]) simp
  ultimately show ?case
    using Cons.IH [OF receive_chunk_sound [OF Cons.prems]] by (simp add: Let_def split: Chunk_Value_Type.split)
qed simp

lemma deliver_partially_sound: "rx_sound n (deliver_partially rx) = rx_sound n rx" "rx_violation (deliver_partially rx) = rx_violation rx"
proof -
  have "duplicate_tsns (rx_assoc (deliver_partially rx)) = duplicate_tsns (rx_assoc rx)"
    using deliver_partially_sender [of rx] by (simp add: reception_part_def)
  moreover have "rx_saw_duplicate (deliver_partially rx) = rx_saw_duplicate rx" "rx_invalid_streams (deliver_partially rx) = rx_invalid_streams rx"
    by (simp_all add: deliver_partially_def Let_def case_prod_unfold)
  ultimately show "rx_sound n (deliver_partially rx) = rx_sound n rx" by (simp add: rx_sound_def)
  show "rx_violation (deliver_partially rx) = rx_violation rx" by (simp add: deliver_partially_def Let_def case_prod_unfold)
qed

subsection \<open>What a SACK leaves alone\<close>

definition stream_part ::
    "Association \<Rightarrow> (u16 list \<times> u16 \<times> u32 \<times> Outbound_Message list \<times> Association_State \<times> u32) \<times> u32 \<times> (u32, Held_Chunk) omap \<times> u32 list" where
  "stream_part a = ((next_ssn a, out_streams a, pmdcs a, outbound a, assoc_state a, next_tsn a),
     last_peer_tsn a, tsn_ooo_buffer a, duplicate_tsns a)"

lemma apply_ack_stream: "stream_part (sr_assoc (apply_ack sack now run e)) = stream_part (sr_assoc run)"
  by (cases e) (simp add: apply_ack_def newly_ack_def remember_retransmission_def Let_def stream_part_def)

lemma apply_acks_stream: "stream_part (sr_assoc (apply_acks sack now a)) = stream_part a"
proof -
  have "stream_part (sr_assoc (foldl (apply_ack sack now) run es)) = stream_part (sr_assoc run)" for run es
    by (induction es arbitrary: run) (simp_all add: apply_ack_stream)
  then show ?thesis by (simp add: apply_acks_def Let_def stream_part_def)
qed

lemma enter_fast_recovery_stream: "stream_part (fst (enter_fast_recovery sc acks a)) = stream_part a"
  by (simp add: enter_fast_recovery_def Let_def stream_part_def)

lemma sack_tail_stream: "stream_part (update_peer_rwnd sack (choose_measurement (leave_fast_recovery sack a))) = stream_part a"
  by (simp add: update_peer_rwnd_def choose_measurement_def leave_fast_recovery_def Let_def stream_part_def split: option.split)

lemma process_sack_stream: "stream_part (so_assoc (process_sack sack now t3 a)) = stream_part a"
proof -
  obtain a3 sc acks adv htna hr l e ps where
    a3: "a3 = (sr_assoc (apply_acks sack now a))\<lparr>acked_retransmissions := l, assoc_error_count := e, peer_address_list := ps\<rparr>" and
    b: "so_assoc (process_sack sack now t3 a) = update_peer_rwnd sack (choose_measurement (leave_fast_recovery sack (fst (enter_fast_recovery sc acks
         (a3\<lparr>outstanding_data := map (count_missing a3 adv htna hr (sr_reneged (apply_acks sack now a))) (outstanding_data a3)\<rparr>)))))"
    using process_sack_stages [of sack now a t3] by blast
  have "stream_part (a3\<lparr>outstanding_data := x\<rparr>) = stream_part a" for x
    using apply_acks_stream [of sack now a] by (simp add: a3 stream_part_def)
  then show ?thesis unfolding b sack_tail_stream enter_fast_recovery_stream .
qed

lemma process_sack_ok: "assoc_ok a \<Longrightarrow> \<not> closing (assoc_state a) \<Longrightarrow> assoc_ok (so_assoc (process_sack sack now t3 a))"
  using process_sack_stream [of sack now t3 a] list_all2_lengthD [OF process_sack_windows [of a sack now t3]]
  by (cases "peer_address_list a"; cases "peer_address_list (so_assoc (process_sack sack now t3 a))")
    (auto simp: stream_part_def assoc_ok_def inbound_ok_def ooo_ok_def)

subsection \<open>The invariant\<close>

lemma not_closing_transmits: "transmits_data st \<Longrightarrow> \<not> closing st"
  by (auto simp: transmits_data_def)

lemma do_t3_action_ok: "sock_ok s \<Longrightarrow> sock_ok (do_t3_action now k s e)"
  by (auto simp: do_t3_action_def split: T3_Action.split intro!: sock_intros)

lemma apply_sack_ok:
  assumes "sock_ok s" "associations s k = Some assoc" "transmits_data (assoc_state assoc)"
  shows "sock_ok (apply_sack now sack k assoc s)"
proof -
  have "sock_ok (foldl (\<lambda>s (a, st). notify_peer_addr_change k a st s) s cs)" for cs
    by (rule sock_ok_foldl [OF _ assms(1)]) (simp add: case_prod_unfold)
  then show ?thesis
    using process_sack_ok [OF association_ok [OF assms(1,2)] not_closing_transmits [OF assms(3)]]
    by (auto simp: apply_sack_def Let_def intro!: do_next_shutdown_step_ok sock_ok_foldl [OF do_t3_action_ok] schedule_pending_ok put_ok)
qed

lemma handle_sack_ok [sock_intros]: "sock_ok s \<Longrightarrow> sock_ok (handle_sack now h sack k src s)"
  by (auto simp: handle_sack_def protocol_violation_def split: option.split intro!: sock_intros apply_sack_ok)

lemma foldl_associations: "(\<And>s x. associations (f s x) = associations s) \<Longrightarrow> associations (foldl f s xs) = associations s"
  by (induction xs arbitrary: s) auto

text \<open>What comes between the association and its acknowledgement touches neither.\<close>

lemma push_put: "foldl (\<lambda>s d. push_delivery k d s) (put_association k' a s) ds = put_association k' a (foldl (\<lambda>s d. push_delivery k d s) s ds)"
proof (induction ds arbitrary: s)
  case (Cons d ds)
  have "push_delivery k d (put_association k' a s) = put_association k' a (push_delivery k d s)"
    by (simp add: push_delivery_def put_association_def)
  with Cons.IH [of "push_delivery k d s"] show ?case by simp
qed simp

lemma send_error_put: "send_error h k d t cs (put_association k' a s) = put_association k' a (send_error h k d t cs s)"
  by (simp add: send_error_def send_control_def enqueue_packet_def put_association_def)

lemma push_deliveries_ok: "sock_ok s \<Longrightarrow> sock_ok (foldl (\<lambda>s d. push_delivery k d s) s ds)"
  by (rule sock_ok_foldl) simp_all

lemma shutdown_reply_ok:
  assumes "shutdown_reply k rx s = (packet, assoc')" "assoc_ok ((rx_assoc rx)\<lparr>duplicate_tsns := []\<rparr>)" "length (duplicate_tsns (rx_assoc rx)) \<le> UINT16_MAX"
  shows "assoc_ok assoc' \<and> sendable packet"
proof (cases "tsn_ooo_buffer (rx_assoc rx) \<noteq> [] \<or> duplicate_tsns (rx_assoc rx) \<noteq> [] \<or> rx_dropped rx")
  case True
  obtain sack assoc1 where m: "make_sack (sin_port (local_address s)) k (buffered_bytes k (receives s)) (rx_assoc rx) = (sack, assoc1)"
    by (rule prod.exhaust)
  have "pkt_chunks sack \<noteq> []" using m by (auto simp: make_sack_def Let_def build_sack_def append_chunk_def)
  then have "chunk_sendable (hd (pkt_chunks sack))"
    using make_sack_ok(2) [OF m assms(2,3)] by (cases "pkt_chunks sack") (simp_all add: sendable_def)
  moreover have "sendable (build_shutdown x y z w)" for x y z w by simp
  ultimately show ?thesis
    using assms(1) make_sack_ok(1) [OF m assms(2,3)] unfolding shutdown_reply_def Let_def m prod.case if_P [OF True] sendable_def by auto
next
  case False
  then have "(rx_assoc rx)\<lparr>duplicate_tsns := []\<rparr> = rx_assoc rx" by simp
  with assms(1,2) False show ?thesis by (auto simp: shutdown_reply_def Let_def)
qed

lemma acknowledge_ok:
  assumes "sock_ok s" "acknowledge_data now k hole rx s0 = (acknowledge, assoc')" "rx_sound UINT16_MAX rx"
    and "assoc_ok ((rx_assoc rx)\<lparr>duplicate_tsns := []\<rparr>)" "receives_data (assoc_state (rx_assoc rx))"
  shows "sock_ok (acknowledge (put_association k assoc' s))"
proof -
  let ?a = "rx_assoc rx"
  have len: "length (duplicate_tsns ?a) \<le> UINT16_MAX" using assms(3) by (simp add: rx_sound_def)
  consider (shutdown) "assoc_state ?a = SHUTDOWN_SENT" | (now) "assoc_state ?a \<noteq> SHUTDOWN_SENT" "sack_now hole rx"
    | (later) "assoc_state ?a \<noteq> SHUTDOWN_SENT" "\<not> sack_now hole rx" by blast
  then show ?thesis
  proof cases
    case shutdown
    obtain packet assoc1 where r: "shutdown_reply k rx s0 = (packet, assoc1)" by (rule prod.exhaust)
    with shutdown assms(1,2) shutdown_reply_ok [OF r assms(4) len] show ?thesis
      by (auto simp: acknowledge_data_def Let_def intro!: restart_t2_ok)
  next
    case now
    with assms(2) send_sack_reports [OF assms(1,4) len assms(5), of k] show ?thesis by (auto simp: acknowledge_data_def Let_def)
  next
    case later
    then have "duplicate_tsns ?a = []" using assms(3) by (auto simp: sack_now_def rx_sound_def)
    then have "?a\<lparr>duplicate_tsns := []\<rparr> = ?a" by simp
    then have "assoc_ok ?a" using assms(4) by simp
    with later assms(1,2) show ?thesis by (auto simp: acknowledge_data_def Let_def send_sack_ok)
  qed
qed

lemma conclude_data_ok:
  assumes "sock_ok s" "associations s k = Some assoc" "sender_part (rx_assoc rx) = sender_part assoc" "receives_data (assoc_state assoc)"
    and "rx_sound UINT16_MAX rx" "\<not> rx_violation rx \<Longrightarrow> ooo_ok (rx_assoc rx)"
  shows "sock_ok (conclude_data now h k src assoc rx s)"
proof (cases "rx_violation rx")
  case True
  with assms(1) show ?thesis by (simp add: conclude_data_def case_prod_unfold abort_put_ok protocol_violation_def)
next
  case False
  obtain acknowledge assoc' where ack: "acknowledge_data now k (tsn_ooo_buffer assoc \<noteq> []) rx s = (acknowledge, assoc')" by (rule prod.exhaust)
  define s3 where "s3 = (if rx_invalid_streams rx \<noteq> []
    then send_error h k (reply_destination assoc src) (peer_ver_tag assoc) (rx_invalid_streams rx) (foldl (\<lambda>s d. push_delivery k d s) s (rx_delivered rx))
    else foldl (\<lambda>s d. push_delivery k d s) s (rx_delivered rx))"
  have s3: "sock_ok s3" using assms(1,5) by (simp add: s3_def push_deliveries_ok rx_sound_def)
  have st: "assoc_state (rx_assoc rx) = assoc_state assoc" using assms(3) by (simp add: sender_part_def)
  have inbound: "inbound_ok ((rx_assoc rx)\<lparr>duplicate_tsns := []\<rparr>)"
    using assms(4) assms(6) [OF False] st by (auto simp: inbound_ok_def ooo_ok_def receives_data_def)
  have "sender_part ((rx_assoc rx)\<lparr>duplicate_tsns := []\<rparr>) = sender_part assoc" using assms(3) by simp
  from assoc_ok_sender [OF this association_ok [OF assms(1,2)] inbound] have "assoc_ok ((rx_assoc rx)\<lparr>duplicate_tsns := []\<rparr>)" .
  from acknowledge_ok [OF s3 ack assms(5) this] have "sock_ok (acknowledge (put_association k assoc' s3))" using assms(4) st by simp
  then show ?thesis
    using False unfolding conclude_data_def ack prod.case Let_def s3_def by (auto simp: push_put send_error_put)
qed

lemma handle_data_packet_ok:
  assumes "sock_ok s" "length (pkt_chunks packet) \<le> UINT16_MAX"
  shows "sock_ok (handle_data_packet now packet k src imm s)"
proof -
  have "sock_ok (conclude_data now h k src assoc (deliver_partially rx) s)"
    if a: "associations s k = Some assoc" "receives_data (assoc_state assoc)"
      and rx: "rx = receive_chunks (pkt_chunks packet) (start_reception imm b assoc)" for assoc rx h b
  proof (rule conclude_data_ok [OF assms(1) a(1) _ a(2)])
    have ok: "ooo_ok assoc" "duplicate_tsns assoc = []" using association_ok [OF assms(1) a(1)] by (simp_all add: assoc_ok_def inbound_ok_def)
    show "sender_part (rx_assoc (deliver_partially rx)) = sender_part assoc"
      using deliver_partially_sender [of rx] by (simp add: rx reception_part_def start_reception_def)
    have "rx_sound 0 (start_reception imm b assoc)" using ok(2) by (simp add: rx_sound_def start_reception_def)
    from receive_chunks_sound [OF this, of "pkt_chunks packet"] have "rx_sound UINT16_MAX rx" using assms(2) by (simp add: rx rx_sound_def)
    then show "rx_sound UINT16_MAX (deliver_partially rx)" by (simp add: deliver_partially_sound)
    show "ooo_ok (rx_assoc (deliver_partially rx))" if "\<not> rx_violation (deliver_partially rx)"
      using receive_chunks_ok [of "start_reception imm b assoc" "pkt_chunks packet"] deliver_partially_same [of rx] ok(1) that
      by (simp add: rx deliver_partially_sound start_reception_def ooo_ok_def same_tsns_def)
  qed
  with assms(1) show ?thesis by (simp add: handle_data_packet_def Let_def abort_association_ok split: option.split)
qed

lemma receives_ok [simp]: "sock_ok (s\<lparr>receives := r\<rparr>) = sock_ok s"
  by (simp add: sock_ok_parts)

lemma maybe_send_window_update_ok [sock_intros]: "sock_ok s \<Longrightarrow> sock_ok (maybe_send_window_update k s)"
  by (auto simp: maybe_send_window_update_def split: option.split intro!: sock_intros)

lemma sctp_recv_ok [sock_intros]:
  "sock_ok s \<Longrightarrow> sock_ok (snd (sctp_recv_data c s))" "sock_ok s \<Longrightarrow> sock_ok (snd (sctp_recv_data_from k c s))"
  by (auto simp: sctp_recv_data_def sctp_recv_data_from_def split: option.split prod.split intro!: sock_intros)

subsection \<open>Sending\<close>

lemma send_takes_ssn: "assoc_ok assoc \<Longrightarrow> stream < out_streams assoc \<Longrightarrow> queue_message data stream u assoc \<noteq> None"
  by (auto simp: queue_message_def assoc_ok_def word_less_nat_alt Let_def)

lemma queue_message_ok:
  "queue_message data stream u assoc = Some assoc' \<Longrightarrow> assoc_ok assoc \<Longrightarrow> data \<noteq> [] \<Longrightarrow> \<not> closing (assoc_state assoc) \<Longrightarrow> assoc_ok assoc'"
  by (auto simp: queue_message_def assoc_ok_def inbound_ok_def ooo_ok_def Let_def unsent_def split: if_splits)

lemma send_status_OK:
  assumes "send_status k data stream s = OK"
  obtains assoc where "associations s k = Some assoc" "assoc_state assoc = ESTABLISHED" "data \<noteq> []" "stream < out_streams assoc"
  using assms by (auto simp: send_status_def refusal_in_def not_le split: option.splits if_splits)

lemma sctp_send_data_ok [sock_intros]: "sock_ok s \<Longrightarrow> sctp_send_data k data stream u s = Some (status, s') \<Longrightarrow> sock_ok s'"
proof (cases "send_status k data stream s = OK")
  case True
  assume s: "sock_ok s" "sctp_send_data k data stream u s = Some (status, s')"
  obtain assoc where a: "associations s k = Some assoc" "assoc_state assoc = ESTABLISHED" "data \<noteq> []" "stream < out_streams assoc"
    using True by (rule send_status_OK)
  from s(2) True a(1) obtain assoc' where "queue_message data stream u assoc = Some assoc'" "s' = put_association k assoc' s"
    by (auto simp: sctp_send_data_def)
  with a s(1) show "sock_ok s'" using queue_message_ok association_ok [OF s(1) a(1)] by (auto intro!: put_ok)
qed (auto simp: sctp_send_data_def)

text \<open>Messages an application queues one after the other.\<close>

fun queue_all :: "(bytes \<times> u16 \<times> bool) list \<Rightarrow> Association \<Rightarrow> Association option" where
  "queue_all [] assoc = Some assoc"
| "queue_all ((data, stream, unordered) # ms) assoc =
     (case queue_message data stream unordered assoc of None \<Rightarrow> None | Some assoc' \<Rightarrow> queue_all ms assoc')"

lemma numbered_append:
  "numbered f (xs @ [m]) \<longleftrightarrow> numbered f xs \<and>
     (om_unordered m \<or> om_ssn m = f (om_stream m) + of_nat (length (filter (\<lambda>x. \<not> om_unordered x \<and> om_stream x = om_stream m) xs)))"
  by (induction xs arbitrary: f) (auto simp: algebra_simps)

text \<open>The state after some messages were queued: they carry consecutive numbers from \<open>f\<close>, and the next numbers follow.\<close>

definition queued :: "(u16 \<Rightarrow> u16) \<Rightarrow> (bytes \<times> u16 \<times> bool) list \<Rightarrow> Association \<Rightarrow> bool" where
  "queued f ms assoc \<longleftrightarrow> numbered f (outbound assoc) \<and>
     map (\<lambda>m. (om_bytes m, om_stream m, om_unordered m)) (outbound assoc) = ms \<and> list_all (\<lambda>m. om_offset m = 0) (outbound assoc) \<and>
     (\<forall>s. unat s < length (next_ssn assoc) \<longrightarrow>
        next_ssn assoc ! unat s = f s + of_nat (length (filter (\<lambda>x. \<not> om_unordered x \<and> om_stream x = s) (outbound assoc))))"

lemma queue_message_queued:
  assumes "queued f ms assoc" "queue_message data stream u assoc = Some assoc'"
  shows "queued f (ms @ [(data, stream, u)]) assoc'" "pmdcs assoc' = pmdcs assoc"
  using assms by (auto simp: queued_def queue_message_def Let_def numbered_append nth_list_update unsigned_word_eqI split: if_splits)

lemma queue_all_queued:
  "queue_all ms assoc = Some assoc' \<Longrightarrow> queued f done assoc \<Longrightarrow> queued f (done @ ms) assoc' \<and> pmdcs assoc' = pmdcs assoc"
proof (induction ms arbitrary: assoc "done")
  case (Cons m ms)
  obtain data stream u where m: "m = (data, stream, u)" by (metis prod_cases3)
  with Cons.prems(1) obtain a1 where q: "queue_message data stream u assoc = Some a1" "queue_all ms a1 = Some assoc'"
    by (auto split: option.splits)
  then show ?case using Cons.IH [of a1 "done @ [m]"] queue_message_queued [OF Cons.prems(2) q(1)] by (simp add: m)
qed simp

subsection \<open>Properties\<close>

text \<open>C5: Messages arrive as they were sent: whatever non-empty messages an application queues on any streams, ordered or not, and however the
  send loop then cuts them into DATA chunks over any number of passes and under any windows, a peer whose streams expect the same numbers and
  which takes the chunks in TSN order hands up exactly those messages, whole, once each and in the order they were queued.\<close>

theorem messages_arrive_as_sent:
  assumes "queue_all ms assoc = Some sender" "outbound assoc = []" "list_all (\<lambda>(data, stream, unordered). data \<noteq> []) ms"
    and "20 \<le> unat (pmdcs assoc)" "outbound (snd (cut_all als sender)) = []"
    and "\<forall>s. unat s < length (next_ssn assoc) \<longrightarrow> next_ssn assoc ! unat s = is_next_ssn (inbound_stream peer s)"
    and "tsn_ooo_buffer peer = []" "omap_ok (<) UNIV (inbound_streams peer)" "\<forall>s. early (inbound_stream peer s) = []"
      "\<not> ra_open (reassembly peer)"
  shows "\<exists>peer'. take_all (fst (cut_all als sender)) (peer, []) =
    (True, peer', map (\<lambda>(data, stream, unordered). \<lparr>dv_bytes = data, dv_complete = True, dv_stream = stream\<rparr>) ms)"
proof -
  let ?f = "\<lambda>s. is_next_ssn (inbound_stream peer s)"
  have "queued ?f [] assoc" using assms(2,6) by (simp add: queued_def)
  from queue_all_queued [OF assms(1) this] have q: "queued ?f ms sender" "pmdcs sender = pmdcs assoc" by simp_all
  have fresh: "list_all (\<lambda>m. om_offset m = 0 \<and> om_bytes m \<noteq> []) (outbound sender)"
    using q(1) assms(3) unfolding queued_def by (auto simp: list_all_iff)
  have "map (\<lambda>(data, stream, unordered). \<lparr>dv_bytes = data, dv_complete = True, dv_stream = stream\<rparr>) ms = map delivery_of (outbound sender)"
    using q(1) unfolding queued_def by (auto simp: comp_def)
  moreover have "numbered ?f (outbound sender)" using q(1) by (simp add: queued_def)
  ultimately show ?thesis
    using fragments_reassemble [OF refl fresh _ assms(5) _ assms(7-10)] assms(4) q(2) by simp
qed

definition example_sent :: "(bytes \<times> u16 \<times> bool) list" where
  "example_sent = [([1, 2, 3, 4, 5, 6, 7, 8, 9], 3, False), ([10], 3, True), ([11, 12], 3, False)]"

definition example_application :: Association where
  "example_application = blank_association\<lparr>pmdcs := 24, next_ssn := replicate 10 0, next_tsn := 5\<rparr>"

theorem messages_arrive_as_sent_witness:
  "\<exists>sender peer'. queue_all example_sent example_application = Some sender \<and>
     take_all (fst (cut_all (replicate 12 open_allowance) sender)) (blank_association, []) =
       (True, peer', map (\<lambda>(data, stream, unordered). \<lparr>dv_bytes = data, dv_complete = True, dv_stream = stream\<rparr>) example_sent)"
proof -
  let ?sender = "example_application\<lparr>next_ssn := (replicate 10 0)[3 := 2], outbound := example_messages, outbound_bytes := 12\<rparr>"
  have q: "queue_all example_sent example_application = Some ?sender"
    by (simp add: example_sent_def example_application_def queue_message_def Let_def blank_association_def example_messages_def)
  have d: "outbound (snd (cut_all (replicate 12 open_allowance) ?sender)) = []"
    by (rule cut_all_drains)
      (simp_all add: example_application_def example_messages_def open_allowance_def unsent_def unsent_total_def list_all_iff)
  have "\<exists>peer'. take_all (fst (cut_all (replicate 12 open_allowance) ?sender)) (blank_association, []) =
      (True, peer', map (\<lambda>(data, stream, unordered). \<lparr>dv_bytes = data, dv_complete = True, dv_stream = stream\<rparr>) example_sent)"
    by (rule messages_arrive_as_sent [OF q _ _ _ d])
      (auto simp: example_application_def example_sent_def blank_association_def inbound_stream_def
        new_inbound_stream_def empty_reassembly_def omap_ok_def omap_sorted_def omap_keys_def)
  with q show ?thesis by blast
qed

text \<open>C19: What a send call answers and does, on a consistent socket, in every case. It always returns, and never indexes past the stream numbers. It refuses
  an association it does not know, one that is still forming or is shutting down, an empty message, a stream that was not negotiated, and a message
  that would take a queue that is not empty past the send buffer, each exactly then and with its own status, and a refusal changes nothing. In every
  other case the message is accepted: it is last in the queue, under the next number of its stream unless it is unordered, that number is counted up
  (and no other), the queue's bytes grow by the message's length, and nothing else changes.\<close>

theorem send_data_outcome:
  assumes "sock_ok s"
  shows "\<exists>status s'. sctp_send_data key data stream unordered s = Some (status, s') \<and> (status \<noteq> OK \<longrightarrow> s' = s) \<and>
    (case associations s key of
       None \<Rightarrow> status = NO_ASSOCIATION
     | Some assoc \<Rightarrow>
         (status = NOT_ESTABLISHED \<longleftrightarrow> assoc_state assoc \<in> {COOKIE_WAIT, COOKIE_ECHOED}) \<and>
         (status = SHUTTING_DOWN \<longleftrightarrow> assoc_state assoc \<in> {SHUTDOWN_PENDING, SHUTDOWN_SENT, SHUTDOWN_RECEIVED, SHUTDOWN_ACK_SENT}) \<and>
         (status = EMPTY_MESSAGE \<longleftrightarrow> assoc_state assoc = ESTABLISHED \<and> data = []) \<and>
         (status = INVALID_STREAM \<longleftrightarrow> assoc_state assoc = ESTABLISHED \<and> data \<noteq> [] \<and> \<not> stream < out_streams assoc) \<and>
         (status = QUEUE_FULL \<longleftrightarrow> assoc_state assoc = ESTABLISHED \<and> data \<noteq> [] \<and> stream < out_streams assoc \<and>
            outbound assoc \<noteq> [] \<and> SEND_BUFFER < outbound_bytes assoc + length data) \<and>
         (status = OK \<longleftrightarrow> assoc_state assoc = ESTABLISHED \<and> data \<noteq> [] \<and> stream < out_streams assoc \<and>
            (outbound assoc = [] \<or> outbound_bytes assoc + length data \<le> SEND_BUFFER)) \<and>
         (status = OK \<longrightarrow> unat stream < length (next_ssn assoc) \<and>
            (\<exists>assoc'. s' = put_association key assoc' s \<and>
               outbound assoc' = outbound assoc @ [\<lparr>om_stream = stream, om_ssn = (if unordered then 0 else next_ssn assoc ! unat stream),
                 om_unordered = unordered, om_bytes = data, om_offset = 0\<rparr>] \<and>
               outbound_bytes assoc' = outbound_bytes assoc + length data \<and> length (next_ssn assoc') = length (next_ssn assoc) \<and>
               (\<forall>i < length (next_ssn assoc). next_ssn assoc' ! i =
                  (if \<not> unordered \<and> i = unat stream then next_ssn assoc ! i + 1 else next_ssn assoc ! i)) \<and>
               assoc'\<lparr>outbound := outbound assoc, outbound_bytes := outbound_bytes assoc, next_ssn := next_ssn assoc\<rparr> = assoc)))"
proof (cases "associations s key")
  case (Some assoc)
  define status where "status = send_status key data stream s"
  have st: "status = (if assoc_state assoc \<noteq> ESTABLISHED then refusal_in (assoc_state assoc) else if data = [] then EMPTY_MESSAGE
      else if stream \<ge> out_streams assoc then INVALID_STREAM
      else if outbound assoc \<noteq> [] \<and> outbound_bytes assoc + length data > SEND_BUFFER then QUEUE_FULL else OK)"
    by (simp add: status_def send_status_def Some)
  have ssn: "unat stream < length (next_ssn assoc)" if "status = OK"
  proof -
    have "stream < out_streams assoc" using that st by (auto simp: not_le refusal_in_def split: if_splits)
    then show ?thesis using association_ok [OF assms Some] by (simp add: assoc_ok_def word_less_nat_alt)
  qed
  show ?thesis
  proof (cases "status = OK")
    case True
    then show ?thesis
      using ssn st Some by (auto simp: sctp_send_data_def status_def [symmetric] queue_message_def Let_def refusal_in_def nth_list_update split: if_splits)
  next
    case False
    have "sctp_send_data key data stream unordered s = Some (status, s)" using False by (simp add: sctp_send_data_def status_def [symmetric])
    with False show ?thesis
      using st Some by (cases "assoc_state assoc") (auto simp: refusal_in_def split: if_splits)
  qed
qed (simp add: sctp_send_data_def send_status_def)

lemma empty_socket_ok: "sock_ok empty_socket"
  by (simp add: sock_ok_parts empty_socket_def empty_expiration_queue_def is_active_def queued_ok_def empty_send_queue_def retries_ok_def)

lemma example_established_ok: "sock_ok (example_established tsn peer_tsn)"
proof -
  have "assoc_ok (example_peer tsn peer_tsn)"
    by (simp add: example_peer_def init_new_association_def blank_association_def assoc_ok_def inbound_ok_def empty_buffer_ok)
  then show ?thesis unfolding example_established_def by (rule put_ok [OF empty_socket_ok])
qed

theorem send_data_outcome_witness:
  "(\<exists>s'. sctp_send_data \<lparr>s_addr = 1, sin_port = 9\<rparr> [1, 2] 3 False (example_established 5 50) = Some (OK, s')) \<and>
   sctp_send_data \<lparr>s_addr = 1, sin_port = 9\<rparr> [1, 2] 10 False (example_established 5 50) = Some (INVALID_STREAM, example_established 5 50)"
proof -
  let ?k = "\<lparr>s_addr = 1, sin_port = 9\<rparr> :: sockaddr_in"
  have "associations (example_established 5 50) ?k = Some (example_peer 5 50)" "assoc_state (example_peer 5 50) = ESTABLISHED"
    "out_streams (example_peer 5 50) = 10" "outbound (example_peer 5 50) = []"
    by (simp_all add: example_established_def example_peer_def init_new_association_def blank_association_def)
  then show ?thesis
    using send_data_outcome [OF example_established_ok, of ?k "[1, 2]" 3 False 5 50]
      send_data_outcome [OF example_established_ok, of ?k "[1, 2]" 10 False 5 50] by auto
qed

end
