(* ===== verification/Path_Management.thy ===== *)
theory Path_Management
  imports Data_Transfer
begin

text \<open>
  Heartbeats on the wire and the calls on destinations (\<open>src/socket_handlers.cpp\<close>, \<open>src/socket_api.cpp\<close>).
\<close>

subsection \<open>HEARTBEAT and HEARTBEAT ACK\<close>

definition handle_heartbeat :: "SCTP_Common_Header \<Rightarrow> bytes \<Rightarrow> Association_Key \<Rightarrow> sockaddr_in \<Rightarrow> Socket \<Rightarrow> Socket" where
  "handle_heartbeat header info key src s =
     (case associations s key of
        None \<Rightarrow> s
      | Some assoc \<Rightarrow>
          if assoc_state assoc = SHUTDOWN_SENT \<or> assoc_state assoc = SHUTDOWN_ACK_SENT
             \<or> 2 * SCTP_CHUNK_HEADER_SIZE + length info > unat (pmdcs assoc) then s
          else send_control key src (build_heartbeat_ack (des_port header) (src_port header) (peer_ver_tag assoc) info) s)"

text \<open>The path the acknowledged probe confirms or clears, with what to notify.\<close>

definition answer_probe :: "time \<Rightarrow> Association_Key \<Rightarrow> nat \<Rightarrow> Association \<Rightarrow> Socket \<Rightarrow> Association \<times> Socket" where
  "answer_probe now key i assoc s =
     (let path1 = update_rto (trunc_div (now - hb_sent_at (path_at assoc i)) 1000) ((path_at assoc i)\<lparr>hb_outstanding := False\<rparr>);
          (path2, change) = clear_path_errors path1;
          assoc1 = assoc\<lparr>peer_address_list := (peer_address_list assoc)[i := path2]\<rparr>;
          s1 = notify_path key (address path2) change s;
          assoc2 = (if data_path assoc1 = i then assoc1\<lparr>assoc_error_count := 0\<rparr> else assoc1)
      in if confirmed path2 then (assoc2, s1)
         else plan_next_probe now i (update_path_at i (\<lambda>path. path\<lparr>confirmed := True\<rparr>) assoc2,
                notify_peer_addr_change key (address path2) ADDR_CONFIRMED s1))"

definition handle_heartbeat_ack :: "time \<Rightarrow> bytes \<Rightarrow> Association_Key \<Rightarrow> Socket \<Rightarrow> Socket" where
  "handle_heartbeat_ack now info key s =
     (if length info \<noteq> HEARTBEAT_INFO_SIZE then s
      else case associations s key of
             None \<Rightarrow> s
           | Some assoc \<Rightarrow>
               (case (heartbeat_info_destination info, heartbeat_info_nonce info) of
                  (Inr destination, Inr nonce) \<Rightarrow>
                    (case find_path assoc destination of
                       None \<Rightarrow> s
                     | Some i \<Rightarrow>
                         if \<not> hb_outstanding (path_at assoc i) \<or> nonce \<noteq> hb_nonce (path_at assoc i) then s
                         else case answer_probe now key i assoc s of
                                (assoc1, s1) \<Rightarrow>
                                  if transmits_data (assoc_state assoc1)
                                  then case arm_confirmation_probes now key (assoc1, arm_heartbeat key assoc1 i s1) of
                                         (assoc2, s2) \<Rightarrow> put_association key assoc2 s2
                                  else put_association key assoc1 s1)
                | _ \<Rightarrow> s))"

subsection \<open>The application's calls\<close>

definition replan_path :: "time \<Rightarrow> Association_Key \<Rightarrow> nat \<Rightarrow> bool \<Rightarrow> Association \<times> Socket \<Rightarrow> nat \<Rightarrow> Association \<times> Socket" where
  "replan_path now key changed all_paths state i =
     (if i \<noteq> changed \<and> \<not> all_paths then state
      else
        let state1 = (if hb_outstanding (path_at (fst state) i) then state
                      else case plan_next_probe now i state of
                             (assoc, s) \<Rightarrow>
                               (if probes_for_confirmation assoc i then update_path_at i (\<lambda>path. path\<lparr>hb_next := now\<rparr>) assoc else assoc, s))
        in (fst state1, arm_heartbeat key (fst state1) i (snd state1)))"

definition set_heartbeat :: "nat \<Rightarrow> bool \<Rightarrow> time option \<Rightarrow> Association \<Rightarrow> Association" where
  "set_heartbeat changed enabled interval assoc =
     (let assoc1 = update_path_at changed (\<lambda>path. path\<lparr>hb_enabled := enabled\<rparr>) assoc
      in case interval of None \<Rightarrow> assoc1 | Some t \<Rightarrow> assoc1\<lparr>hb_interval := t\<rparr>)"

definition replan_paths :: "time \<Rightarrow> Association_Key \<Rightarrow> nat \<Rightarrow> bool \<Rightarrow> Association \<times> Socket \<Rightarrow> Association \<times> Socket" where
  "replan_paths now key changed all_paths state =
     arm_confirmation_probes now key
       (foldl (replan_path now key changed all_paths) state [0..<length (peer_address_list (fst state))])"

definition sctp_change_heartbeat ::
    "time \<Rightarrow> Association_Key \<Rightarrow> sockaddr_in \<Rightarrow> bool \<Rightarrow> time option \<Rightarrow> Socket \<Rightarrow> Sctp_Status \<times> Socket" where
  "sctp_change_heartbeat now association_id destination enabled interval s =
     (case associations s association_id of
        None \<Rightarrow> (NO_ASSOCIATION, s)
      | Some assoc \<Rightarrow>
          (case find_path assoc destination of
             None \<Rightarrow> (UNKNOWN_DESTINATION, s)
           | Some changed \<Rightarrow>
               if \<not> transmits_data (assoc_state assoc)
               then (OK, put_association association_id (set_heartbeat changed enabled interval assoc) s)
               else case replan_paths now association_id changed (interval \<noteq> None) (set_heartbeat changed enabled interval assoc, s) of
                      (assoc3, s3) \<Rightarrow> (OK, put_association association_id assoc3 s3)))"

definition sctp_request_heartbeat :: "time \<Rightarrow> Association_Key \<Rightarrow> sockaddr_in \<Rightarrow> Socket \<Rightarrow> Sctp_Status \<times> Socket" where
  "sctp_request_heartbeat now association_id destination s =
     (case associations s association_id of
        None \<Rightarrow> (NO_ASSOCIATION, s)
      | Some assoc \<Rightarrow>
          (case find_path assoc destination of
             None \<Rightarrow> (UNKNOWN_DESTINATION, s)
           | Some i \<Rightarrow>
               if \<not> transmits_data (assoc_state assoc) then (refusal_in (assoc_state assoc), s)
               else case build_probe now association_id i (assoc, s) of
                      (probe, assoc1, s1) \<Rightarrow>
                        (OK, enqueue_packet probe CONTROL
                               (arm_heartbeat association_id assoc1 i (put_association association_id assoc1 s1)))))"

definition sctp_set_primary :: "Association_Key \<Rightarrow> sockaddr_in \<Rightarrow> Socket \<Rightarrow> Sctp_Status \<times> Socket" where
  "sctp_set_primary association_id destination s =
     (case associations s association_id of
        None \<Rightarrow> (NO_ASSOCIATION, s)
      | Some assoc \<Rightarrow>
          (case find_path assoc destination of
             None \<Rightarrow> (UNKNOWN_DESTINATION, s)
           | Some i \<Rightarrow>
               if \<not> confirmed (path_at assoc i) then (UNCONFIRMED_DESTINATION, s)
               else (OK, put_association association_id (assoc\<lparr>primary_path := address (path_at assoc i)\<rparr>) s)))"

definition sctp_recv_notification :: "int \<Rightarrow> Socket \<Rightarrow> Notification option \<times> Socket" where
  "sctp_recv_notification timeout_ms s =
     (case (if timeout_ms \<le> 0 then dequeue (notifications s) else wait_dequeue (notifications s)) of
        (n, q) \<Rightarrow> (n, s\<lparr>notifications := q\<rparr>))"

definition sctp_subscribe :: "Notification_Type \<Rightarrow> bool \<Rightarrow> Socket \<Rightarrow> Socket" where
  "sctp_subscribe type on s = s\<lparr>notifications := set_subscribed type on (notifications s)\<rparr>"

subsection \<open>The invariant\<close>

lemma handle_heartbeat_ok [sock_intros]: "sock_ok s \<Longrightarrow> sock_ok (handle_heartbeat h info k src s)"
  using association_ok [of s k] by (auto simp: handle_heartbeat_def assoc_ok_def param_fits_def split: option.split)

lemma answer_probe_held: "held_ok k (assoc, s) \<Longrightarrow> held_ok k (answer_probe now k i assoc s)"
proof -
  assume "held_ok k (assoc, s)"
  then have "held_ok k (assoc', notify_peer_addr_change k a st (notify_path k b c s)) \<and> held_ok k (assoc', notify_path k b c s)"
    if "assoc_ok assoc' = assoc_ok assoc" for assoc' a st b c
    using that by (simp add: held_ok_def)
  then show ?thesis
    unfolding answer_probe_def Let_def case_prod_unfold by (auto intro!: plan_next_probe_held)
qed

lemma handle_heartbeat_ack_ok [sock_intros]: "sock_ok s \<Longrightarrow> sock_ok (handle_heartbeat_ack now info k s)"
proof -
  assume ok: "sock_ok s"
  have "sock_ok (case answer_probe now k i assoc s of (assoc1, s1) \<Rightarrow>
      if transmits_data (assoc_state assoc1)
      then case arm_confirmation_probes now k (assoc1, arm_heartbeat k assoc1 i s1) of (assoc2, s2) \<Rightarrow> put_association k assoc2 s2
      else put_association k assoc1 s1)" if "associations s k = Some assoc" for assoc i
  proof -
    obtain assoc1 s1 where a: "answer_probe now k i assoc s = (assoc1, s1)" by (rule prod.exhaust)
    have h: "held_ok k (assoc1, s1)" using answer_probe_held [OF held_start [OF ok that], of now i] a by simp
    then have "held_ok k (assoc1, arm_heartbeat k assoc1 i s1)" by (auto simp: held_ok_def intro!: arm_heartbeat_ok)
    then have "held_ok k (arm_confirmation_probes now k (assoc1, arm_heartbeat k assoc1 i s1))" by (rule arm_confirmation_probes_held)
    then show ?thesis unfolding a using h by (auto split: prod.split intro: held_put)
  qed
  with ok show ?thesis unfolding handle_heartbeat_ack_def by (simp split: option.split sum.split)
qed

lemma replan_path_held: "held_ok k state \<Longrightarrow> held_ok k (replan_path now k c al state i)"
proof -
  assume h: "held_ok k state"
  obtain assoc s where p: "plan_next_probe now i state = (assoc, s)" by (rule prod.exhaust)
  have "held_ok k (if b then update_path_at i f assoc else assoc, s)" for b f
    using plan_next_probe_held [OF h, of now i] by (simp add: p held_ok_def)
  with h have "held_ok k (if hb_outstanding (path_at (fst state) i) then state
      else case plan_next_probe now i state of (assoc, s) \<Rightarrow>
        (if probes_for_confirmation assoc i then update_path_at i (\<lambda>path. path\<lparr>hb_next := now\<rparr>) assoc else assoc, s))"
    by (simp add: p)
  with h show ?thesis unfolding replan_path_def Let_def by (auto simp: held_ok_def intro!: arm_heartbeat_ok)
qed

lemma set_heartbeat_ok [simp]: "assoc_ok (set_heartbeat c e iv assoc) = assoc_ok assoc"
  by (cases iv) (simp_all add: set_heartbeat_def Let_def)

lemma replan_paths_held: "held_ok k state \<Longrightarrow> held_ok k (replan_paths now k c al state)"
  unfolding replan_paths_def by (intro arm_confirmation_probes_held held_foldl [OF replan_path_held])

lemma sctp_change_heartbeat_ok [sock_intros]: "sock_ok s \<Longrightarrow> sock_ok (snd (sctp_change_heartbeat now k d e iv s))"
proof -
  assume ok: "sock_ok s"
  have "held_ok k (set_heartbeat c e iv assoc, s)" if "associations s k = Some assoc" for assoc c
    using held_start [OF ok that] by (simp add: held_ok_def)
  note held = this and planned = this [THEN replan_paths_held, of _ now]
  have "sock_ok (put_association k (set_heartbeat c e iv assoc) s)"
    if "associations s k = Some assoc" for assoc c
    using held_put [OF held [OF that]] .
  moreover have "sock_ok (case replan_paths now k c al (set_heartbeat c e iv assoc, s) of (a, s') \<Rightarrow> put_association k a s')"
    if "associations s k = Some assoc" for assoc c al
    using held_put [of k "fst st" "snd st" for st] planned [OF that, of c al c] by (simp add: case_prod_unfold)
  ultimately show ?thesis
    using ok by (simp add: sctp_change_heartbeat_def case_prod_unfold split: option.split)
qed

lemma sctp_request_heartbeat_ok [sock_intros]: "sock_ok s \<Longrightarrow> sock_ok (snd (sctp_request_heartbeat now k d s))"
proof -
  assume ok: "sock_ok s"
  have "sock_ok (snd (case build_probe now k i (assoc, s) of (probe, assoc1, s1) \<Rightarrow>
      (OK, enqueue_packet probe CONTROL (arm_heartbeat k assoc1 i (put_association k assoc1 s1)))))"
    if "associations s k = Some assoc" for assoc i
  proof -
    obtain probe assoc1 s1 where b: "build_probe now k i (assoc, s) = (probe, assoc1, s1)" by (rule prod_cases3)
    have "sock_ok (put_association k assoc1 s1)"
      using build_probe_held [OF held_start [OF ok that], of now k i] b by (intro held_put) simp
    then have "sock_ok (arm_heartbeat k assoc1 i (put_association k assoc1 s1))" by (rule arm_heartbeat_ok) simp
    with build_probe_sendable [of now k i "(assoc, s)"] show ?thesis by (simp add: b)
  qed
  with ok show ?thesis by (simp add: sctp_request_heartbeat_def split: option.split)
qed

lemma sctp_set_primary_ok [sock_intros]: "sock_ok s \<Longrightarrow> sock_ok (snd (sctp_set_primary k d s))"
  using association_ok [of s k] put_ok [of s _ k] by (simp add: sctp_set_primary_def split: option.split)

lemma notification_calls_ok [sock_intros]:
  "sock_ok s \<Longrightarrow> sock_ok (snd (sctp_recv_notification t s))" "sock_ok s \<Longrightarrow> sock_ok (sctp_subscribe ty on s)"
proof -
  have "sock_ok (s\<lparr>notifications := q\<rparr>) = sock_ok s" for q by (simp add: sock_ok_parts)
  then show "sock_ok s \<Longrightarrow> sock_ok (snd (sctp_recv_notification t s))" "sock_ok s \<Longrightarrow> sock_ok (sctp_subscribe ty on s)"
    by (simp_all add: sctp_recv_notification_def sctp_subscribe_def case_prod_unfold)
qed

end
