(* ===== verification/Handshake.thy ===== *)
theory Handshake
  imports Path_Management
begin

text \<open>
  Setting an association up (RFC 9260, section 5): the handlers of INIT, INIT ACK, COOKIE ECHO, COOKIE ACK and ERROR of
  \<open>src/socket_handlers.cpp\<close> and \<open>sctp_associate\<close> of \<open>src/socket_api.cpp\<close>.

  A handler that can throw returns an \<open>outcome\<close>: \<open>Throws\<close> for an exception or a read outside a buffer, \<open>Starved\<close> when the
  random bytes listed in the socket end while a tag that is not zero is still being drawn. The state at a throw is not kept: the
  lemmas on safety show that no handler throws. The text form of an address is parsed by the platform, so \<open>sctp_associate\<close> takes
  the result of parsing it.
\<close>

subsection \<open>Outcomes\<close>

datatype 'a outcome = Returns 'a | Throws sctp_error | Starved

fun bind_outcome :: "'a outcome \<Rightarrow> ('a \<Rightarrow> 'b outcome) \<Rightarrow> 'b outcome" where
  "bind_outcome (Returns x) f = f x"
| "bind_outcome (Throws e) f = Throws e"
| "bind_outcome Starved f = Starved"

fun lift_res :: "'a res \<Rightarrow> 'a outcome" where
  "lift_res (Inr x) = Returns x"
| "lift_res (Inl e) = Throws e"

definition draw_tag :: "Socket \<Rightarrow> (u32 \<times> Socket) outcome" where
  "draw_tag s = (case generate_nonzero_tag s of None \<Rightarrow> Starved | Some drawn \<Rightarrow> Returns drawn)"

subsection \<open>Parameters and causes\<close>

fun trim_loop :: "nat \<Rightarrow> nat \<Rightarrow> nat \<Rightarrow> bytes list \<Rightarrow> bytes list" where
  "trim_loop room per_report used [] = []"
| "trim_loop room per_report used (report # reports) =
     (let used' = used + per_report + length report
      in if used' > room then [] else report # trim_loop room per_report used' reports)"

definition trim_reports :: "bytes list \<Rightarrow> nat \<Rightarrow> nat \<Rightarrow> bytes list" where
  "trim_reports reports room per_report = trim_loop room per_report 0 reports"

definition missing_parameter_cause :: "u16 \<Rightarrow> error_cause" where
  "missing_parameter_cause type =
     \<lparr>cause_code = CAUSE_MISSING_MANDATORY_PARAM, cause_info = [0, 0, 0, 1, ucast (drop_bit 8 type), ucast type]\<rparr>"

definition unresolvable_address_cause :: "bytes \<Rightarrow> error_cause res" where
  "unresolvable_address_cause host_name =
     bind_res (append_parameter [] PARAM_HOST_NAME_ADDRESS host_name) (\<lambda>info.
       Inr \<lparr>cause_code = CAUSE_UNRESOLVABLE_ADDRESS, cause_info = info\<rparr>)"

definition invalid_parameter_cause :: error_cause where
  "invalid_parameter_cause = \<lparr>cause_code = CAUSE_INVALID_MANDATORY_PARAM, cause_info = []\<rparr>"

definition scan_init :: "init_chunk_value \<Rightarrow> Parameter_Scan res" where
  "scan_init init = scan_parameters (optional_parameters init)
     [PARAM_IPV4_ADDRESS, PARAM_IPV6_ADDRESS, PARAM_COOKIE_PRESERVATIVE, PARAM_HOST_NAME_ADDRESS, PARAM_SUPPORTED_ADDRESS_TYPES]"

definition scan_init_ack :: "init_chunk_value \<Rightarrow> Parameter_Scan res" where
  "scan_init_ack init_ack = scan_parameters (optional_parameters init_ack)
     [PARAM_STATE_COOKIE, PARAM_IPV4_ADDRESS, PARAM_IPV6_ADDRESS, PARAM_UNRECOGNIZED, PARAM_HOST_NAME_ADDRESS]"

definition add_listed :: "sockaddr_in \<Rightarrow> sockaddr_in list \<Rightarrow> u32 \<Rightarrow> sockaddr_in list" where
  "add_listed src out a =
     (let listed = src\<lparr>s_addr := htonl a\<rparr>
      in if list_ex (\<lambda>seen. same_destination seen listed) out then out else out @ [listed])"

definition transport_addresses :: "sockaddr_in \<Rightarrow> bytes \<Rightarrow> sockaddr_in list res" where
  "transport_addresses src params =
     bind_res (find_ipv4_addresses params) (\<lambda>listed. Inr (foldl (add_listed src) [src] listed))"

definition get_init :: "Chunk_Value_Type \<Rightarrow> init_chunk_value res" where
  "get_init v = (case v of Init_Value i \<Rightarrow> Inr i | _ \<Rightarrow> Inl Bad_Variant_Access)"

definition init_addresses :: "SCTP_Packet \<Rightarrow> sockaddr_in \<Rightarrow> sockaddr_in list res" where
  "init_addresses packet src =
     (case pkt_chunks packet of
        [] \<Rightarrow> Inr []
      | first # _ \<Rightarrow>
          if chunk_type first = INIT
          then bind_res (get_init (chunk_value first)) (\<lambda>init. bind_res (scan_init init) (\<lambda>scan. transport_addresses src (recognized scan)))
          else if chunk_type first = INIT_ACK
          then bind_res (get_init (chunk_value first)) (\<lambda>init. bind_res (scan_init_ack init) (\<lambda>scan. transport_addresses src (recognized scan)))
          else Inr [])"

fun append_addresses :: "u32 list \<Rightarrow> sockaddr_in list \<Rightarrow> bytes \<Rightarrow> bytes res" where
  "append_addresses listed [] info = Inr info"
| "append_addresses listed (a # added) info =
     (if ntohl (s_addr a) \<in> set listed
      then bind_res (append_parameter info PARAM_IPV4_ADDRESS (mem32 (s_addr a))) (append_addresses listed added)
      else append_addresses listed added info)"

definition new_address_causes :: "sockaddr_in list \<Rightarrow> bytes \<Rightarrow> error_cause list res" where
  "new_address_causes added params =
     bind_res (find_ipv4_addresses params) (\<lambda>listed. bind_res (append_addresses listed added []) (\<lambda>info.
       Inr (if info = [] then [] else [\<lparr>cause_code = CAUSE_RESTART_WITH_NEW_ADDRESSES, cause_info = info\<rparr>])))"

definition cookie_addresses :: "State_Cookie \<Rightarrow> sockaddr_in list" where
  "cookie_addresses cookie =
     cookie_source cookie # map (\<lambda>a. (cookie_source cookie)\<lparr>s_addr := htonl a\<rparr>) (ck_peer_addresses cookie)"

subsection \<open>INIT\<close>

text \<open>What to answer with: the local tag and TSN, the Tie-Tags and the destination of the INIT ACK.\<close>

datatype Init_Answer =
    Shutdown_Ack_Again sockaddr_in u32
  | New_Addresses "sockaddr_in list"
  | Send_Init_Ack u32 u32 u32 u32 sockaddr_in

definition draw_tie_tags :: "Association \<Rightarrow> Socket \<Rightarrow> (Association \<times> Socket) outcome" where
  "draw_tie_tags assoc s =
     (if local_tie_tag assoc = 0
      then bind_outcome (draw_tag s) (\<lambda>(local_tag, s1). bind_outcome (draw_tag s1) (\<lambda>(peer_tag, s2).
             Returns (assoc\<lparr>local_tie_tag := local_tag, peer_tie_tag := peer_tag\<rparr>, s2)))
      else Returns (assoc, s))"

definition answer_init ::
    "u32 \<Rightarrow> u32 \<Rightarrow> sockaddr_in list \<Rightarrow> Association_Key \<Rightarrow> sockaddr_in \<Rightarrow> Socket \<Rightarrow> (Init_Answer \<times> Socket) outcome" where
  "answer_init tag tsn addresses key src s =
     (case associations s key of
        None \<Rightarrow> Returns (Send_Init_Ack tag tsn 0 0 src, s)
      | Some assoc \<Rightarrow>
          if assoc_state assoc = SHUTDOWN_ACK_SENT
          then Returns (Shutdown_Ack_Again (reply_destination assoc src) (peer_ver_tag assoc), s)
          else if assoc_state assoc = COOKIE_WAIT
          then Returns (Send_Init_Ack (this_ver_tag assoc) (next_tsn assoc) 0 0 (address (path_at assoc (primary assoc))), s)
          else
            let added = filter (\<lambda>a. find_path assoc a = None) addresses
            in if added \<noteq> [] then Returns (New_Addresses added, s)
               else bind_outcome (draw_tie_tags assoc s) (\<lambda>(assoc', s').
                      Returns (Send_Init_Ack
                          (if assoc_state assoc = COOKIE_ECHOED then this_ver_tag assoc else tag)
                          (if assoc_state assoc = COOKIE_ECHOED then next_tsn assoc else tsn)
                          (local_tie_tag assoc') (peer_tie_tag assoc') src,
                        put_association key assoc' s')))"

text \<open>The authorizer takes random bytes only when it changes its secret.\<close>

definition secret_due :: "time \<Rightarrow> Cookie_Auth \<Rightarrow> bool" where
  "secret_due now ca \<longleftrightarrow> \<not> auth_initialized ca \<or> now - rotated_at ca \<ge> COOKIE_SECRET_ROTATION"

definition generate_cookie ::
    "time \<Rightarrow> SCTP_Common_Header \<Rightarrow> init_chunk_value \<Rightarrow> sockaddr_in \<Rightarrow> u32 \<Rightarrow> u32 \<Rightarrow> u32 \<Rightarrow> u32 \<Rightarrow> u32 \<Rightarrow> u32 list \<Rightarrow>
     Socket \<Rightarrow> (bytes \<times> Socket) res" where
  "generate_cookie now header init src tag tsn local_tie peer_tie lifespan others s =
     (case generate (resize0 COOKIE_SECRET_SIZE (entropy s)) now now (cookie_authorizer s) header init src tag tsn local_tie peer_tie
             lifespan others of
        (ca, cookie) \<Rightarrow> bind_res cookie (\<lambda>bytes.
          Inr (bytes, s\<lparr>cookie_authorizer := ca,
            entropy := (if secret_due now (cookie_authorizer s) then drop COOKIE_SECRET_SIZE (entropy s) else entropy s)\<rparr>)))"

definition send_init_ack ::
    "time \<Rightarrow> SCTP_Common_Header \<Rightarrow> init_chunk_value \<Rightarrow> Association_Key \<Rightarrow> sockaddr_in \<Rightarrow> bytes list \<Rightarrow> u32 \<Rightarrow> sockaddr_in list \<Rightarrow>
     u32 \<Rightarrow> u32 \<Rightarrow> u32 \<Rightarrow> u32 \<Rightarrow> sockaddr_in \<Rightarrow> Socket \<Rightarrow> Socket res" where
  "send_init_ack now header init key src reports lifespan addresses tag tsn local_tie peer_tie destination s =
     bind_res (generate_cookie now header init src tag tsn local_tie peer_tie lifespan
                 (map (\<lambda>a. ntohl (s_addr a)) (tl addresses)) s) (\<lambda>(cookie, s1).
       let init_ack_size = SCTP_CHUNK_HEADER_SIZE + 16 + SCTP_CHUNK_HEADER_SIZE + pad4 (length cookie)
       in bind_res (build_init_ack (des_port header) (src_port header) (initiate_tag init) tag tsn cookie
                      (trim_reports reports (unat DEFAULT_PMDCS - min (unat DEFAULT_PMDCS) init_ack_size) SCTP_CHUNK_HEADER_SIZE))
            (\<lambda>packet. Inr (send_control key destination packet s1)))"

definition cookie_preservative :: "bytes \<Rightarrow> u32 res" where
  "cookie_preservative params =
     bind_res (find_parameter params PARAM_COOKIE_PRESERVATIVE) (\<lambda>found.
       case found of
         None \<Rightarrow> Inr 0
       | Some preservative \<Rightarrow> if length preservative = 4 then read_be32 preservative 0 else Inr 0)"

definition carry_out_answer ::
    "time \<Rightarrow> SCTP_Common_Header \<Rightarrow> init_chunk_value \<Rightarrow> Association_Key \<Rightarrow> sockaddr_in \<Rightarrow> Parameter_Scan \<Rightarrow> sockaddr_in list \<Rightarrow> u32 \<Rightarrow>
     Init_Answer \<Rightarrow> Socket \<Rightarrow> Socket res" where
  "carry_out_answer now header init key src params addresses lifespan answer s =
     (case answer of
        Shutdown_Ack_Again destination peer_tag \<Rightarrow>
          Inr (send_control key destination (build_shutdown_ack (des_port header) (src_port header) peer_tag) s)
      | New_Addresses added \<Rightarrow>
          bind_res (new_address_causes added (recognized params)) (\<lambda>listed.
            Inr (send_abort header key src (initiate_tag init) False listed s))
      | Send_Init_Ack tag tsn local_tie peer_tie destination \<Rightarrow>
          send_init_ack now header init key src (reported params) lifespan addresses tag tsn local_tie peer_tie destination s)"

definition finish_init ::
    "time \<Rightarrow> SCTP_Common_Header \<Rightarrow> init_chunk_value \<Rightarrow> Association_Key \<Rightarrow> sockaddr_in \<Rightarrow> Parameter_Scan \<Rightarrow> Socket \<Rightarrow> Socket outcome" where
  "finish_init now header init key src params s =
     bind_outcome (lift_res (transport_addresses src (recognized params))) (\<lambda>addresses.
     bind_outcome (lift_res (cookie_preservative (recognized params))) (\<lambda>lifespan.
     bind_outcome (draw_tag s) (\<lambda>(tag, s1).
     bind_outcome (answer_init tag (fst (random32 s1)) addresses key src (snd (random32 s1))) (\<lambda>(answer, s2).
       lift_res (carry_out_answer now header init key src params addresses lifespan answer s2)))))"

definition handle_init ::
    "time \<Rightarrow> SCTP_Common_Header \<Rightarrow> init_chunk_value \<Rightarrow> Association_Key \<Rightarrow> sockaddr_in \<Rightarrow> Socket \<Rightarrow> Socket outcome" where
  "handle_init now header init key src s =
     (if initiate_tag init = 0
      then Returns (send_abort header key src (verification_tag header) True [invalid_parameter_cause] s)
      else if init_out_streams init = 0 \<or> init_in_streams init = 0
      then Returns (send_abort header key src (initiate_tag init) False [invalid_parameter_cause] s)
      else bind_outcome (lift_res (scan_init init)) (\<lambda>params.
           bind_outcome (lift_res (find_parameter (recognized params) PARAM_HOST_NAME_ADDRESS)) (\<lambda>host_name.
             case host_name of
               Some name \<Rightarrow>
                 bind_outcome (lift_res (unresolvable_address_cause name)) (\<lambda>cause.
                   Returns (send_abort header key src (initiate_tag init) False [cause] s))
             | None \<Rightarrow> finish_init now header init key src params s)))"

subsection \<open>INIT ACK\<close>

definition reject_init_ack ::
    "SCTP_Common_Header \<Rightarrow> Association_Key \<Rightarrow> sockaddr_in \<Rightarrow> u32 \<Rightarrow> bool \<Rightarrow> error_cause list \<Rightarrow> Socket \<Rightarrow> Socket" where
  "reject_init_ack header key src tag reflected listed s =
     notify_assoc_change key CANT_STR_ASSOC (send_abort header key src tag reflected listed (remove_association key s))"

definition learn_init_ack :: "init_chunk_value \<Rightarrow> Association \<Rightarrow> Association" where
  "learn_init_ack init_ack assoc =
     assoc\<lparr>last_peer_tsn := initial_tsn init_ack - 1, peer_ver_tag := initiate_tag init_ack,
       peer_rwnd := init_a_rwnd init_ack, peer_max_rwnd := init_a_rwnd init_ack,
       out_streams := min LOCAL_OUT_STREAMS (init_in_streams init_ack),
       in_streams := min LOCAL_MAX_IN_STREAMS (init_out_streams init_ack),
       next_ssn := replicate (unat (min LOCAL_OUT_STREAMS (init_in_streams init_ack))) 0,
       assoc_state := COOKIE_ECHOED\<rparr>"

definition unrecognized_parameters :: "bytes list \<Rightarrow> error_cause list" where
  "unrecognized_parameters reports =
     (if reports = [] then [] else [\<lparr>cause_code = CAUSE_UNRECOGNIZED_PARAMS, cause_info = concat reports\<rparr>])"

definition accept_init_ack ::
    "SCTP_Common_Header \<Rightarrow> init_chunk_value \<Rightarrow> Association_Key \<Rightarrow> sockaddr_in \<Rightarrow> sockaddr_in list \<Rightarrow> bytes \<Rightarrow> bytes list \<Rightarrow>
     Association \<Rightarrow> Socket \<Rightarrow> Socket" where
  "accept_init_ack header init_ack key src addresses cookie reports assoc s =
     (let s1 = add_peer_addresses key assoc addresses s in
      case associations s1 key of
        None \<Rightarrow> s1
      | Some assoc1 \<Rightarrow>
          let room = unat (pmdcs assoc1) - min (unat (pmdcs assoc1)) (3 * SCTP_CHUNK_HEADER_SIZE + pad4 (length cookie));
              s2 = drop_retransmissions key INIT None
                     (cancel_expiration (association_timer key T1_INIT) (put_association key (learn_init_ack init_ack assoc1) s1))
          in send_control key (reply_destination assoc1 src)
               (build_cookie_echo (des_port header) (src_port header) (initiate_tag init_ack) cookie
                  (unrecognized_parameters (trim_reports reports room 0))) s2)"

definition handle_init_ack ::
    "SCTP_Common_Header \<Rightarrow> init_chunk_value \<Rightarrow> Association_Key \<Rightarrow> sockaddr_in \<Rightarrow> Socket \<Rightarrow> Socket res" where
  "handle_init_ack header init_ack key src s =
     (case associations s key of
        None \<Rightarrow> Inr s
      | Some assoc \<Rightarrow>
          if assoc_state assoc \<noteq> COOKIE_WAIT then Inr s
          else if initiate_tag init_ack = 0
          then Inr (reject_init_ack header key src (verification_tag header) True [invalid_parameter_cause] s)
          else bind_res (scan_init_ack init_ack) (\<lambda>params.
               bind_res (find_parameter (recognized params) PARAM_STATE_COOKIE) (\<lambda>cookie.
                 case cookie of
                   None \<Rightarrow>
                     Inr (reject_init_ack header key src (initiate_tag init_ack) False [missing_parameter_cause PARAM_STATE_COOKIE] s)
                 | Some bytes \<Rightarrow>
                     if init_out_streams init_ack = 0 \<or> init_in_streams init_ack = 0
                     then Inr (reject_init_ack header key src (initiate_tag init_ack) False [invalid_parameter_cause] s)
                     else bind_res (find_parameter (recognized params) PARAM_HOST_NAME_ADDRESS) (\<lambda>host_name.
                       case host_name of
                         Some name \<Rightarrow>
                           bind_res (unresolvable_address_cause name) (\<lambda>cause.
                             Inr (reject_init_ack header key src (initiate_tag init_ack) False [cause] s))
                       | None \<Rightarrow>
                           bind_res (transport_addresses src (recognized params)) (\<lambda>addresses.
                             Inr (accept_init_ack header init_ack key src addresses bytes (reported params) assoc s))))))"

subsection \<open>COOKIE ECHO\<close>

definition send_cookie_ack :: "SCTP_Common_Header \<Rightarrow> Association_Key \<Rightarrow> sockaddr_in \<Rightarrow> u32 \<Rightarrow> Socket \<Rightarrow> Socket" where
  "send_cookie_ack header key destination peer_tag =
     send_control key destination (build_cookie_ack (des_port header) (src_port header) peer_tag)"

definition send_stale_cookie_error :: "SCTP_Common_Header \<Rightarrow> Association_Key \<Rightarrow> sockaddr_in \<Rightarrow> State_Cookie \<Rightarrow> u32 \<Rightarrow> Socket \<Rightarrow> Socket" where
  "send_stale_cookie_error header key destination cookie staleness_us =
     send_error header key destination (ck_peer_ver_tag cookie) [stale_cookie_cause staleness_us]"

text \<open>A new association under a key: its addresses, the notification and its heartbeats.\<close>

definition beat_hearts :: "time \<Rightarrow> Association_Key \<Rightarrow> Socket \<Rightarrow> Socket" where
  "beat_hearts now key s =
     (case associations s key of
        None \<Rightarrow> s
      | Some assoc \<Rightarrow> (case start_heartbeats now key (assoc, s) of (assoc', s') \<Rightarrow> put_association key assoc' s'))"

definition set_up :: "time \<Rightarrow> Association_Key \<Rightarrow> State_Cookie \<Rightarrow> Assoc_Change_State \<Rightarrow> Socket \<Rightarrow> Socket" where
  "set_up now key cookie change s =
     (let assoc = init_new_association_from_cookie cookie
      in beat_hearts now key (notify_assoc_change key change
           (add_peer_addresses key assoc (cookie_addresses cookie) (put_association key assoc s))))"

definition reply_to :: "Association_Key \<Rightarrow> sockaddr_in \<Rightarrow> Socket \<Rightarrow> sockaddr_in" where
  "reply_to key src s = (case associations s key of None \<Rightarrow> src | Some assoc \<Rightarrow> reply_destination assoc src)"

definition peer_restart :: "time \<Rightarrow> Association_Key \<Rightarrow> State_Cookie \<Rightarrow> Association \<Rightarrow> Socket \<Rightarrow> Socket" where
  "peer_restart now key cookie tcb s =
     set_up now key cookie RESTART
       (detach_receives key (abandon_partial_delivery key tcb (forget_peer_addresses key (purge_sends key (cancel_expirations key s)))))"

definition adopt_cookie :: "State_Cookie \<Rightarrow> Association \<Rightarrow> Association" where
  "adopt_cookie cookie tcb =
     tcb\<lparr>peer_ver_tag := ck_peer_ver_tag cookie, last_peer_tsn := peer_initial_tsn cookie - 1, peer_rwnd := peer_a_rwnd cookie,
       peer_max_rwnd := peer_a_rwnd cookie, tsn_ooo_buffer := [], reassembly := empty_reassembly, inbound_streams := [],
       held_deliveries := [], duplicate_tsns := []\<rparr>"

definition come_up :: "time \<Rightarrow> Association_Key \<Rightarrow> Association \<Rightarrow> Socket \<Rightarrow> Socket" where
  "come_up now key tcb s =
     beat_hearts now key (notify_assoc_change key COMM_UP (put_association key (tcb\<lparr>assoc_state := ESTABLISHED\<rparr>) s))"

definition collide :: "time \<Rightarrow> Association_Key \<Rightarrow> State_Cookie \<Rightarrow> Association \<Rightarrow> Socket \<Rightarrow> Socket" where
  "collide now key cookie tcb s =
     (let s1 = add_peer_addresses key tcb (cookie_addresses cookie) s in
      case associations s1 key of
        None \<Rightarrow> s1
      | Some tcb1 \<Rightarrow>
          let tcb2 = adopt_cookie cookie tcb1;
              s2 = put_association key tcb2 (abandon_partial_delivery key tcb1 s1)
          in if forming (assoc_state tcb2) then come_up now key tcb2 s2
             else if transmits_data (assoc_state tcb2)
             then case arm_confirmation_probes now key (tcb2, s2) of (tcb3, s3) \<Rightarrow> put_association key tcb3 s3
             else s2)"

definition end_handshake :: "SCTP_Common_Header \<Rightarrow> Association_Key \<Rightarrow> sockaddr_in \<Rightarrow> u32 \<Rightarrow> Socket \<Rightarrow> Socket" where
  "end_handshake header key destination peer_tag s =
     send_cookie_ack header key destination peer_tag
       (drop_retransmissions key COOKIE_ECHO None (drop_retransmissions key INIT None
         (cancel_expiration (association_timer key T1_COOKIE) (cancel_expiration (association_timer key T1_INIT) s))))"

text \<open>Table 12 of RFC 9260 for a cookie that found an association.\<close>

definition echo_existing ::
    "time \<Rightarrow> SCTP_Common_Header \<Rightarrow> Association_Key \<Rightarrow> sockaddr_in \<Rightarrow> Cookie_Result \<Rightarrow> State_Cookie \<Rightarrow> u32 \<Rightarrow> Association \<Rightarrow> Socket \<Rightarrow>
     bool \<times> Socket" where
  "echo_existing now header key src result cookie staleness_us tcb s =
     (let local_match = (local_ver_tag cookie = this_ver_tag tcb);
          peer_match = (ck_peer_ver_tag cookie = peer_ver_tag tcb);
          tie_tags_match = (ck_local_tie_tag cookie \<noteq> 0 \<and> ck_local_tie_tag cookie = local_tie_tag tcb
                            \<and> ck_peer_tie_tag cookie = peer_tie_tag tcb);
          destination = reply_destination tcb src
      in if result = STALE \<and> \<not> (local_match \<and> peer_match)
         then (False, send_stale_cookie_error header key destination cookie staleness_us s)
         else if local_match \<and> peer_match
         then (True, end_handshake header key destination (ck_peer_ver_tag cookie)
                 (if assoc_state tcb = COOKIE_ECHOED then come_up now key tcb s else s))
         else if \<not> local_match \<and> \<not> peer_match \<and> tie_tags_match
         then (if assoc_state tcb = SHUTDOWN_ACK_SENT
               then (False, send_error header key destination (ck_peer_ver_tag cookie)
                       [\<lparr>cause_code = CAUSE_COOKIE_WHILE_SHUTTING_DOWN, cause_info = []\<rparr>]
                       (send_control key destination (build_shutdown_ack (des_port header) (src_port header) (peer_ver_tag tcb)) s))
               else let s1 = peer_restart now key cookie tcb s
                    in (True, end_handshake header key (reply_to key src s1) (ck_peer_ver_tag cookie) s1))
         else if local_match
         then (True, end_handshake header key destination (ck_peer_ver_tag cookie) (collide now key cookie tcb s))
         else (False, s))"

definition handle_cookie_echo ::
    "time \<Rightarrow> SCTP_Common_Header \<Rightarrow> bytes \<Rightarrow> Association_Key \<Rightarrow> sockaddr_in \<Rightarrow> Socket \<Rightarrow> (bool \<times> Association_Key \<times> Socket) res" where
  "handle_cookie_echo now header echo key src s =
     bind_res (verify (cookie_authorizer s) now echo header src) (\<lambda>(result, parsed, staleness_us).
       case parsed of
         None \<Rightarrow> Inr (False, key, s)
       | Some cookie \<Rightarrow>
           if result \<noteq> VALID \<and> result \<noteq> STALE then Inr (False, key, s)
           else
             let key' = association_key_for (cookie_key cookie) s in
             case associations s key' of
               None \<Rightarrow>
                 if result = STALE then Inr (False, key', send_stale_cookie_error header key' src cookie staleness_us s)
                 else
                   let s1 = set_up now key' cookie COMM_UP s
                   in Inr (True, key', send_cookie_ack header key' (reply_to key' src s1) (ck_peer_ver_tag cookie) s1)
             | Some tcb \<Rightarrow>
                 (case echo_existing now header key' src result cookie staleness_us tcb s of
                    (accepted, s') \<Rightarrow> Inr (accepted, key', s')))"

subsection \<open>COOKIE ACK and ERROR\<close>

definition handle_cookie_ack :: "time \<Rightarrow> Association_Key \<Rightarrow> Socket \<Rightarrow> Socket" where
  "handle_cookie_ack now key s =
     (case associations s key of
        None \<Rightarrow> s
      | Some assoc \<Rightarrow>
          if assoc_state assoc \<noteq> COOKIE_ECHOED then s
          else drop_retransmissions key COOKIE_ECHO None
                 (cancel_expiration (association_timer key T1_COOKIE) (come_up now key assoc s)))"

abbreviation (input) MAX_STALE_COOKIE_RETRIES :: u8 where "MAX_STALE_COOKIE_RETRIES \<equiv> 2"

record Error_Scan =
  es_assoc :: Association
  es_retry :: "(sockaddr_in \<times> SCTP_Packet) option"
  es_failed :: bool

definition restart_handshake :: "Association \<Rightarrow> Association" where
  "restart_handshake assoc =
     assoc\<lparr>stale_cookie_retries := stale_cookie_retries assoc + 1, assoc_state := COOKIE_WAIT, peer_ver_tag := 0,
       init_retransmits := 0, cookie_retransmits := 0\<rparr>"

definition heed_cause :: "Association_Key \<Rightarrow> Socket \<Rightarrow> error_cause \<Rightarrow> Error_Scan \<Rightarrow> Error_Scan res" where
  "heed_cause key s cause scan =
     (let assoc = es_assoc scan in
      if cause_code cause \<noteq> CAUSE_STALE_COOKIE \<or> es_retry scan \<noteq> None \<or> es_failed scan
         \<or> assoc_state assoc \<noteq> COOKIE_ECHOED \<or> length (cause_info cause) \<noteq> 4 then Inr scan
      else if stale_cookie_retries assoc \<ge> MAX_STALE_COOKIE_RETRIES then Inr (scan\<lparr>es_failed := True\<rparr>)
      else bind_res (read_be32 (cause_info cause) 0) (\<lambda>staleness_us.
             let staleness_ms = staleness_us div 1000 + 1; assoc' = restart_handshake assoc
             in bind_res (build_init (local_port s) (peer_port key) (this_ver_tag assoc') (next_tsn assoc')
                            (staleness_ms + min staleness_ms 1000)) (\<lambda>packet.
                  Inr (scan\<lparr>es_assoc := assoc', es_retry := Some (address (path_at assoc' (primary assoc')), packet)\<rparr>))))"

fun heed_causes :: "Association_Key \<Rightarrow> Socket \<Rightarrow> error_cause list \<Rightarrow> Error_Scan \<Rightarrow> Error_Scan res" where
  "heed_causes key s [] scan = Inr scan"
| "heed_causes key s (cause # rest) scan = bind_res (heed_cause key s cause scan) (heed_causes key s rest)"

definition handle_error :: "error_cause list \<Rightarrow> Association_Key \<Rightarrow> Socket \<Rightarrow> Socket res" where
  "handle_error listed key s =
     (if listed = [] then Inr s
      else case associations s key of
             None \<Rightarrow> Inr s
           | Some assoc \<Rightarrow>
               bind_res (heed_causes key s listed \<lparr>es_assoc = assoc, es_retry = None, es_failed = False\<rparr>) (\<lambda>scan.
                 let s1 = put_association key (es_assoc scan) s;
                     s2 = drop_retransmissions key COOKIE_ECHO None (cancel_expiration (association_timer key T1_COOKIE) s1)
                 in if es_failed scan
                    then Inr (notify_assoc_change key CANT_STR_ASSOC (remove_association key s2))
                    else case es_retry scan of
                           None \<Rightarrow> Inr (raise_notification SCTP_REMOTE_ERROR key (Remote_Error listed) s1)
                         | Some (destination, packet) \<Rightarrow> Inr (send_control key destination packet s2)))"

subsection \<open>The application's call\<close>

text \<open>\<open>None\<close> is an address that does not parse; ports that do not fit are taken modulo \<open>2 ^ 16\<close>, as \<open>htons\<close> takes them.\<close>

definition sctp_associate ::
    "u32 option \<Rightarrow> int \<Rightarrow> int option \<Rightarrow> Socket \<Rightarrow> (Sctp_Status \<times> Association_Key option \<times> Socket) outcome" where
  "sctp_associate ip_address port udp_port s =
     (if \<not> running s then Returns (NOT_RUNNING, None, s)
      else case ip_address of
             None \<Rightarrow> Returns (INVALID_ADDRESS, None, s)
           | Some ip \<Rightarrow>
               let to_location = \<lparr>s_addr = ip, sin_port = htons (word_of_int (case udp_port of None \<Rightarrow> port | Some p \<Rightarrow> p))\<rparr>;
                   key = peer_key to_location (word_of_int port)
               in bind_outcome (draw_tag s) (\<lambda>(tag, s1). case random32 s1 of (tsn, s2) \<Rightarrow>
                    if associations s2 (association_key_for key s2) \<noteq> None then Returns (ASSOCIATION_EXISTS, None, s2)
                    else
                      let assoc = init_new_association to_location tag tsn
                      in bind_outcome (lift_res (build_init (local_port s2) (peer_port key) (this_ver_tag assoc) (next_tsn assoc) 0)) (\<lambda>packet.
                           Returns (OK, Some key,
                             send_control key (primary_path assoc) packet (put_association key assoc s2)))))"

subsection \<open>Outcomes that hold\<close>

text \<open>The computation does not throw and, unless it starves, its value satisfies the predicate.\<close>

definition outcome_ok :: "('a \<Rightarrow> bool) \<Rightarrow> 'a outcome \<Rightarrow> bool" where
  "outcome_ok P r \<longleftrightarrow> (case r of Returns x \<Rightarrow> P x | Throws e \<Rightarrow> False | Starved \<Rightarrow> True)"

definition res_ok :: "('a \<Rightarrow> bool) \<Rightarrow> 'a res \<Rightarrow> bool" where
  "res_ok P r \<longleftrightarrow> (case r of Inr x \<Rightarrow> P x | Inl e \<Rightarrow> False)"

lemma outcome_ok_simps [simp]: "outcome_ok P (Returns x) = P x" "outcome_ok P Starved" "\<not> outcome_ok P (Throws e)"
  by (simp_all add: outcome_ok_def)

lemma res_ok_simps [simp]: "res_ok P (Inr x) = P x" "\<not> res_ok P (Inl e)"
  by (simp_all add: res_ok_def)

lemma outcome_bindI: "outcome_ok P m \<Longrightarrow> (\<And>x. P x \<Longrightarrow> outcome_ok Q (f x)) \<Longrightarrow> outcome_ok Q (bind_outcome m f)"
  by (cases m) simp_all

lemma res_bindI: "res_ok P m \<Longrightarrow> (\<And>x. P x \<Longrightarrow> res_ok Q (f x)) \<Longrightarrow> res_ok Q (bind_res m f)"
  by (cases m) simp_all

lemma res_mono: "res_ok P m \<Longrightarrow> (\<And>x. P x \<Longrightarrow> Q x) \<Longrightarrow> res_ok Q m"
  by (cases m) simp_all

lemma lift_ok [simp]: "outcome_ok P (lift_res r) = res_ok P r"
  by (cases r) simp_all

lemma res_ok_total: "\<exists>x. m = Inr x \<Longrightarrow> res_ok (\<lambda>_. True) m"
  by auto

subsection \<open>Facts on parameters\<close>

lemma find_parameter_at_small:
  "res_ok (\<lambda>r. \<forall>v. r = Some v \<longrightarrow> length v \<le> 65531 \<and> length v + 4 \<le> length params) (find_parameter_at params type offset)"
proof (induction params type offset rule: find_parameter_at.induct)
  case (1 params type offset)
  show ?case
  proof (cases "offset + 4 \<le> length params")
    case True
    obtain t l where rd: "read16 params offset = Inr t" "read16 params (offset + 2) = Inr l"
      using True read16_in [of offset params] read16_in [of "offset + 2" params] by auto
    show ?thesis
      using "1.IH" True rd unat_u16_less [of l] by (subst find_parameter_at.simps) (auto simp: min_def)
  qed (simp add: find_parameter_at.simps)
qed

lemma find_parameter_small:
  "res_ok (\<lambda>r. \<forall>v. r = Some v \<longrightarrow> length v \<le> 65531 \<and> length v + 4 \<le> length params) (find_parameter params type)"
  by (simp add: find_parameter_def find_parameter_at_small)

lemma find_ipv4_addresses_at_few:
  "res_ok (\<lambda>r. 8 * length r \<le> 8 * length out + (length params - offset)) (find_ipv4_addresses_at params offset out)"
proof (induction params offset out rule: find_ipv4_addresses_at.induct)
  case (1 params offset out)
  note unfold = find_ipv4_addresses_at.simps [of params offset out]
  show ?case
  proof (cases "offset + 4 \<le> length params")
    case True
    obtain t l where rd: "read16 params offset = Inr t" "read16 params (offset + 2) = Inr l"
      using True read16_in [of offset params] read16_in [of "offset + 2" params] by auto
    have pad: "pad4 8 = 8" by (simp add: pad4_def)
    consider "unat l < 4 \<or> offset + unat l > length params"
      | "\<not> (unat l < 4 \<or> offset + unat l > length params)" "t = 5 \<and> unat l = 8"
      | "\<not> (unat l < 4 \<or> offset + unat l > length params)" "\<not> (t = 5 \<and> unat l = 8)" by blast
    then show ?thesis
    proof cases
      case 1
      then show ?thesis using True rd by (subst unfold) simp
    next
      case 2
      then obtain a where a: "read32 params (offset + 4) = Inr a" by (auto simp: read32_def)
      have "find_ipv4_addresses_at params offset out = find_ipv4_addresses_at params (offset + 8) (out @ [a])"
        using True rd 2 a pad by (subst unfold) simp
      with "1.IH"(1) [OF True rd 2 a] 2 pad show ?thesis by (auto elim!: res_mono)
    next
      case 3
      then have "find_ipv4_addresses_at params offset out = find_ipv4_addresses_at params (offset + pad4 (unat l)) out"
        using True rd by (subst unfold) auto
      with "1.IH"(2) [OF True rd 3] show ?thesis by (auto elim!: res_mono)
    qed
  qed (simp add: unfold)
qed

lemma scan_parameters_at_short:
  "res_ok (\<lambda>r. length (recognized r) \<le> length (recognized scan) + (length params - offset)) (scan_parameters_at params known offset scan)"
proof (induction params known offset scan rule: scan_parameters_at.induct)
  case (1 params known offset scan)
  note unfold = scan_parameters_at.simps [of params known offset scan]
  show ?case
  proof (cases "offset + 4 \<le> length params")
    case True
    obtain t l where rd: "read16 params offset = Inr t" "read16 params (offset + 2) = Inr l"
      using True read16_in [of offset params] read16_in [of "offset + 2" params] by auto
    consider "unat l < 4 \<or> offset + unat l > length params"
      | "\<not> (unat l < 4 \<or> offset + unat l > length params)" "t \<in> set known"
      | "\<not> (unat l < 4 \<or> offset + unat l > length params)" "t \<notin> set known" by blast
    then show ?thesis
    proof cases
      case 1
      then show ?thesis using True rd by (subst unfold) simp
    next
      case 2
      have tlv: "read_range params offset (min (pad4 (unat l)) (length params - offset)) =
          Inr (take (min (pad4 (unat l)) (length params - offset)) (drop offset params))"
        using True by (intro read_range_in) simp
      have "scan_parameters_at params known offset scan = scan_parameters_at params known (offset + pad4 (unat l))
          (scan\<lparr>recognized := recognized scan @ take (min (pad4 (unat l)) (length params - offset)) (drop offset params)\<rparr>)"
        using True rd 2 by (subst unfold) (simp add: Let_def tlv)
      with "1.IH"(1) [OF True rd refl 2 tlv] show ?thesis by (auto elim!: res_mono)
    next
      case 3
      define scan' where "scan' = (if t AND 0x4000 \<noteq> 0
        then scan\<lparr>reported := reported scan @ [resize0 (pad4 (unat l)) (take (unat l) (drop offset params))]\<rparr> else scan)"
      have tlv: "(if t AND 0x4000 \<noteq> 0 then bind_res (read_range params offset (unat l)) (\<lambda>tlv.
          Inr (scan\<lparr>reported := reported scan @ [resize0 (pad4 (unat l)) tlv]\<rparr>)) else Inr scan) = Inr scan'"
        using 3(1) by (simp add: scan'_def)
      have "scan_parameters_at params known offset scan =
          (if t AND 0x8000 = 0 then Inr scan' else scan_parameters_at params known (offset + pad4 (unat l)) scan')"
        using True rd 3 by (subst unfold) (simp only: Let_def tlv if_True if_False bind_res_Inr simp_thms)
      moreover have "recognized scan' = recognized scan" by (simp add: scan'_def)
      ultimately show ?thesis using "1.IH"(2) [OF True rd refl 3 tlv] by (auto elim!: res_mono)
    qed
  qed (simp add: unfold)
qed


lemma scan_ok:
  "res_ok (\<lambda>r. length (recognized r) \<le> length (optional_parameters init)) (scan_init init)"
  "res_ok (\<lambda>r. length (recognized r) \<le> length (optional_parameters init)) (scan_init_ack init)"
  unfolding scan_init_def scan_init_ack_def scan_parameters_def
  by (rule res_mono [OF scan_parameters_at_short], simp)+

lemma append_short: "length v \<le> 65531 \<Longrightarrow> res_ok (\<lambda>_. True) (append_parameter out type v)"
  by (simp add: append_parameter_def Let_def)

lemma append_length:
  "length v \<le> 65531 \<Longrightarrow> res_ok (\<lambda>out'. length out' = length out + pad4 (4 + length v)) (append_parameter out type v)"
  using pad4_ge [of "4 + length v"] by (simp add: append_parameter_eq param_fits_def param_bytes_def)

text \<open>A host name that came in a chunk fits a cause.\<close>

lemma unresolvable_ok: "length name \<le> 65511 \<Longrightarrow> res_ok (\<lambda>cause. param_fits (cause_info cause)) (unresolvable_address_cause name)"
  unfolding unresolvable_address_cause_def
  by (rule res_bindI [OF append_length]) (use pad4_less [of "4 + length name"] in \<open>simp_all add: param_fits_def\<close>)

lemma length_add_listed: "length (foldl (add_listed src) out xs) \<le> length out + length xs"
proof (induction xs arbitrary: out)
  case (Cons x xs)
  have "length (add_listed src out x) \<le> length out + 1" by (simp add: add_listed_def Let_def)
  with Cons.IH [of "add_listed src out x"] show ?case by simp
qed simp

lemma transport_addresses_few: "res_ok (\<lambda>as. 8 * length as \<le> 8 + length params) (transport_addresses src params)"
  unfolding transport_addresses_def find_ipv4_addresses_def
proof (rule res_bindI [OF find_ipv4_addresses_at_few])
  fix xs :: "u32 list"
  assume "8 * length xs \<le> 8 * length ([] :: u32 list) + (length params - 0)"
  then show "res_ok (\<lambda>as. 8 * length as \<le> 8 + length params) (Inr (foldl (add_listed src) [src] xs))"
    using length_add_listed [of src "[src]" xs] by simp
qed

lemma append_addresses_ok: "res_ok (\<lambda>r. length r \<le> length info + 8 * length added) (append_addresses listed added info)"
proof (induction added arbitrary: info)
  case (Cons a added)
  have "res_ok (\<lambda>r. length r \<le> length info + 8 * length (a # added))
      (bind_res (append_parameter info PARAM_IPV4_ADDRESS (mem32 (s_addr a))) (append_addresses listed added))"
    by (rule res_bindI [OF append_length]) (auto simp: pad4_def intro!: res_mono [OF Cons.IH])
  moreover have "res_ok (\<lambda>r. length r \<le> length info + 8 * length (a # added)) (append_addresses listed added info)"
    by (rule res_mono [OF Cons.IH]) simp
  ultimately show ?case by simp
qed simp

lemma new_address_causes_ok: "8 * length added \<le> 65531 \<Longrightarrow> res_ok causes_fit (new_address_causes added params)"
  unfolding new_address_causes_def find_ipv4_addresses_def
  by (intro res_bindI [OF find_ipv4_addresses_at_few] res_bindI [OF append_addresses_ok]) (simp add: param_fits_def)

lemma cookie_preservative_ok: "res_ok (\<lambda>_. True) (cookie_preservative params)"
  unfolding cookie_preservative_def
  by (intro res_bindI [OF find_parameter_small]) (simp add: read_be32_def split: option.split)

lemma trim_loop_small: "r \<in> set (trim_loop room per used rs) \<Longrightarrow> length r \<le> room"
  by (induction rs arbitrary: used) (auto simp: Let_def split: if_splits)

lemma trim_loop_total: "used \<le> room \<Longrightarrow> used + length (concat (trim_loop room 0 used rs)) \<le> room"
proof (induction rs arbitrary: used)
  case (Cons r rs)
  show ?case
  proof (cases "used + length r \<le> room")
    case True
    then show ?thesis using Cons.IH [of "used + length r"] by simp
  qed (use Cons.prems in simp)
qed simp

lemma unrecognized_parameters_fit: "room \<le> 65531 \<Longrightarrow> causes_fit (unrecognized_parameters (trim_reports rs room 0))"
  using trim_loop_total [of 0 room rs] by (simp add: unrecognized_parameters_def trim_reports_def param_fits_def)

lemma append_unrecognized_ok: "(\<And>r. r \<in> set rs \<Longrightarrow> length r \<le> 65531) \<Longrightarrow> res_ok (\<lambda>_. True) (append_unrecognized rs info)"
  by (induction rs arbitrary: info) (auto intro!: res_bindI [OF append_short])

lemma build_init_ok: "res_ok sendable (build_init src des tag tsn ms)"
proof -
  have "res_ok (\<lambda>_. True) (build_init src des tag tsn ms)"
    unfolding build_init_def by (auto intro!: res_bindI [OF append_short] simp: be32_bytes_def)
  then show ?thesis by (cases "build_init src des tag tsn ms") (simp_all add: sendable_build_init)
qed

lemma build_init_ack_ok:
  assumes "length cookie \<le> 65531" "\<And>r. r \<in> set rs \<Longrightarrow> length r \<le> 65531"
  shows "res_ok sendable (build_init_ack src des pt tag tsn cookie rs)"
proof -
  have "res_ok (\<lambda>_. True) (build_init_ack src des pt tag tsn cookie rs)"
    unfolding build_init_ack_def using assms by (intro res_bindI [OF append_short] res_bindI [OF append_unrecognized_ok]) simp_all
  then show ?thesis by (cases "build_init_ack src des pt tag tsn cookie rs") (simp_all add: sendable_build_init_ack)
qed

lemma verify_ok: "res_ok (\<lambda>_. True) (verify ca now cookie header src)"
  using state_cookie_exact [of cookie]
  by (auto simp: verify_def Let_def intro!: res_bindI [of "\<lambda>_. True"] split: sum.splits option.splits)

subsection \<open>The invariant\<close>

lemma authorizer_ok [simp]:
  "sock_ok (s\<lparr>cookie_authorizer := ca\<rparr>) = sock_ok s" "sock_ok (s\<lparr>entropy := e\<rparr>) = sock_ok s"
  by (simp_all add: sock_ok_parts)

lemma draw_tag_ok: "sock_ok s \<Longrightarrow> outcome_ok (\<lambda>(tag, s'). sock_ok s') (draw_tag s)"
  by (auto simp: draw_tag_def generate_nonzero_tag_def split: option.split)

lemma draw_tie_tags_ok:
  "sock_ok s \<Longrightarrow> assoc_ok assoc \<Longrightarrow> outcome_ok (\<lambda>(assoc', s'). sock_ok s' \<and> assoc_ok assoc') (draw_tie_tags assoc s)"
  by (auto simp: draw_tie_tags_def intro!: outcome_bindI [OF draw_tag_ok])

lemma answer_init_ok:
  "sock_ok s \<Longrightarrow> outcome_ok (\<lambda>(answer, s'). sock_ok s' \<and> (\<forall>added. answer = New_Addresses added \<longrightarrow> length added \<le> length as))
     (answer_init tag tsn as k src s)"
  using association_ok [of s k]
  by (auto simp: answer_init_def Let_def split: option.split intro!: outcome_bindI [OF draw_tie_tags_ok] put_ok)

lemma generate_cookie_ok:
  "sock_ok s \<Longrightarrow> res_ok (\<lambda>(cookie, s'). length cookie = 96 + 4 * length others \<and> sock_ok s')
     (generate_cookie now h init src tag tsn lt pt span others s)"
  by (auto simp: generate_cookie_def generate_def Let_def serialize_state_cookie_eq cookie_for_def)

lemma send_init_ack_ok:
  assumes "sock_ok s" "8 * length addresses \<le> 65531"
  shows "res_ok sock_ok (send_init_ack now h init k src reports span addresses tag tsn lt pt d s)"
proof -
  have "96 + 4 * length (map f (tl addresses)) \<le> 65531" for f :: "sockaddr_in \<Rightarrow> u32"
    using assms(2) by simp
  moreover have "length r \<le> 65531" if "r \<in> set (trim_reports reports (unat (1200::u32) - n) 4)" for r n
    using trim_loop_small that by (fastforce simp: trim_reports_def)
  ultimately show ?thesis
    using assms(1) unfolding send_init_ack_def Let_def
    by (auto intro!: res_bindI [OF generate_cookie_ok] res_bindI [OF build_init_ack_ok])
qed

lemma carry_out_answer_ok:
  "sock_ok s \<Longrightarrow> 8 * length addresses \<le> 65531 \<Longrightarrow> (\<And>added. answer = New_Addresses added \<Longrightarrow> length added \<le> length addresses) \<Longrightarrow>
   res_ok sock_ok (carry_out_answer now h init k src params addresses span answer s)"
  by (auto simp: carry_out_answer_def send_init_ack_ok intro!: res_bindI [OF new_address_causes_ok] split: Init_Answer.split)

lemma finish_init_ok:
  assumes "sock_ok s" "length (recognized params) \<le> 65515"
  shows "outcome_ok sock_ok (finish_init now h init k src params s)"
proof -
  have "outcome_ok (\<lambda>as. 8 * length as \<le> 65531) (lift_res (transport_addresses src (recognized params)))"
    using assms(2) res_mono [OF transport_addresses_few] by fastforce
  moreover have "outcome_ok (\<lambda>(answer, s2). sock_ok s2 \<and> (\<forall>added. answer = New_Addresses added \<longrightarrow> length added \<le> length as))
      (answer_init tag (fst (random32 s1)) as k src (snd (random32 s1)))"
    if "sock_ok s1" for s1 tag as using that by (intro answer_init_ok) simp
  ultimately show ?thesis
    using assms(1) cookie_preservative_ok [of "recognized params"] unfolding finish_init_def
    by (elim outcome_bindI) (auto intro!: outcome_bindI [of "\<lambda>_. True" "lift_res (cookie_preservative _)"]
        outcome_bindI [OF draw_tag_ok] outcome_bindI [of _ "answer_init _ _ _ _ _ _"] carry_out_answer_ok)
qed

lemma handle_init_ok:
  assumes "sock_ok s" "length (optional_parameters init) \<le> 65515"
  shows "outcome_ok sock_ok (handle_init now h init k src s)"
proof -
  have scan: "outcome_ok (\<lambda>r. length (recognized r) \<le> 65515) (lift_res (scan_init init))"
    using assms(2) res_mono [OF scan_ok(1) [of init]] by fastforce
  have name: "outcome_ok (\<lambda>r. \<forall>v. r = Some v \<longrightarrow> length v \<le> 65531 \<and> length v + 4 \<le> length ps) (lift_res (find_parameter ps ty))" for ps ty
    by (simp add: find_parameter_small)
  have "outcome_ok sock_ok (bind_outcome (lift_res (unresolvable_address_cause v)) (\<lambda>c. Returns (send_abort h k src t r [c] s)))"
    if "length v \<le> 65511" for v t r
    using unresolvable_ok [OF that] assms(1) by (intro outcome_bindI [of "\<lambda>c. param_fits (cause_info c)"]) simp_all
  with assms(1) show ?thesis
    unfolding handle_init_def
    by (auto simp: invalid_parameter_cause_def intro!: outcome_bindI [OF scan] outcome_bindI [OF name] finish_init_ok split: option.split)
qed

lemma reject_init_ack_ok: "sock_ok s \<Longrightarrow> causes_fit cs \<Longrightarrow> sock_ok (reject_init_ack h k src t r cs s)"
  by (simp add: reject_init_ack_def)

lemma learn_init_ack_ok: "assoc_ok assoc \<Longrightarrow> forming (assoc_state assoc) \<Longrightarrow> assoc_ok (learn_init_ack i assoc)"
  by (simp add: learn_init_ack_def assoc_ok_def closing_def inbound_ok_def empty_buffer_ok)

lemma add_peer_address_state: "assoc_state (fst (foldl (add_peer_address k) state as)) = assoc_state (fst state)"
proof (induction as arbitrary: state)
  case (Cons a as)
  have "assoc_state (fst (add_peer_address k state a)) = assoc_state (fst state)"
    by (simp add: add_peer_address_def Let_def case_prod_unfold)
  with Cons.IH show ?case by simp
qed simp

lemma add_peer_addresses_found:
  obtains assoc1 where "associations (add_peer_addresses k assoc as s) k = Some assoc1" "assoc_state assoc1 = assoc_state assoc"
  using add_peer_address_state [of k "(assoc, peer_addresses s)" as] by (auto simp: add_peer_addresses_def case_prod_unfold)

lemma accept_init_ack_ok:
  assumes "sock_ok s" "associations s k = Some assoc" "assoc_state assoc = COOKIE_WAIT"
  shows "sock_ok (accept_init_ack h i k src as cookie rs assoc s)"
proof -
  obtain assoc1 where a: "associations (add_peer_addresses k assoc as s) k = Some assoc1" "assoc_state assoc1 = COOKIE_WAIT"
    using add_peer_addresses_found [of k assoc as s] assms(3) by metis
  have ok: "sock_ok (add_peer_addresses k assoc as s)" using add_peer_addresses_ok [OF assms(1) association_ok [OF assms(1,2)]] .
  have "assoc_ok assoc1" using association_ok [OF ok a(1)] .
  then have "assoc_ok (learn_init_ack i assoc1)" "pmdcs assoc1 = DEFAULT_PMDCS" using a(2) by (simp_all add: learn_init_ack_ok) (simp add: assoc_ok_def)
  then show ?thesis using ok by (simp add: accept_init_ack_def Let_def a(1) unrecognized_parameters_fit)
qed

lemma handle_init_ack_ok:
  assumes "sock_ok s" "length (optional_parameters i) \<le> 65515"
  shows "res_ok sock_ok (handle_init_ack h i k src s)"
proof -
  have scan: "res_ok (\<lambda>r. length (recognized r) \<le> 65515) (scan_init_ack i)"
    using assms(2) res_mono [OF scan_ok(2) [of i]] by fastforce
  have "res_ok sock_ok (bind_res (unresolvable_address_cause v) (\<lambda>c. Inr (reject_init_ack h k src t r [c] s)))"
    if "length v \<le> 65511" for v t r
    using assms(1) by (intro res_bindI [OF unresolvable_ok [OF that]]) (simp add: reject_init_ack_ok)
  with assms(1) show ?thesis
    unfolding handle_init_ack_def
    by (auto simp: reject_init_ack_ok accept_init_ack_ok invalid_parameter_cause_def missing_parameter_cause_def split: option.split
        intro!: res_bindI [OF scan] res_bindI [OF find_parameter_small] res_bindI [OF transport_addresses_few])
qed

lemma beat_hearts_ok: "sock_ok s \<Longrightarrow> sock_ok (beat_hearts now k s)"
proof (cases "associations s k")
  case (Some assoc)
  assume "sock_ok s"
  from start_heartbeats_held [OF held_start [OF this Some], of now] show ?thesis
    by (auto simp: beat_hearts_def Some split: prod.split intro: held_put)
qed (simp add: beat_hearts_def)

lemma new_from_cookie_ok: "assoc_ok (init_new_association_from_cookie cookie)"
  by (simp add: assoc_ok_def init_new_association_from_cookie_def blank_association_def closing_def inbound_ok_def empty_buffer_ok)

lemma set_up_ok: "sock_ok s \<Longrightarrow> sock_ok (set_up now k cookie change s)"
  unfolding set_up_def Let_def
  by (intro beat_hearts_ok) (simp add: add_peer_addresses_ok put_ok new_from_cookie_ok)

lemma peer_restart_ok: "sock_ok s \<Longrightarrow> sock_ok (peer_restart now k cookie tcb s)"
  unfolding peer_restart_def by (intro set_up_ok) (simp add: forget_addresses_ok cancel_ok)

lemma come_up_ok: "sock_ok s \<Longrightarrow> assoc_ok tcb \<Longrightarrow> sock_ok (come_up now k tcb s)"
  unfolding come_up_def by (intro beat_hearts_ok) (simp add: assoc_ok_state)

lemma adopt_cookie_ok [simp]: "assoc_ok tcb \<Longrightarrow> assoc_ok (adopt_cookie cookie tcb)"
  by (simp add: adopt_cookie_def assoc_ok_def inbound_ok_def empty_buffer_ok)

lemma collide_ok: "sock_ok s \<Longrightarrow> associations s k = Some tcb \<Longrightarrow> sock_ok (collide now k cookie tcb s)"
proof -
  assume "sock_ok s" "associations s k = Some tcb"
  then have ok: "sock_ok (add_peer_addresses k tcb (cookie_addresses cookie) s)"
    by (intro add_peer_addresses_ok) (auto dest: association_ok)
  show ?thesis
  proof (cases "associations (add_peer_addresses k tcb (cookie_addresses cookie) s) k")
    case (Some tcb1)
    define s2 where "s2 = put_association k (adopt_cookie cookie tcb1)
      (abandon_partial_delivery k tcb1 (add_peer_addresses k tcb (cookie_addresses cookie) s))"
    have good: "assoc_ok (adopt_cookie cookie tcb1)" "sock_ok s2" "associations s2 k = Some (adopt_cookie cookie tcb1)"
      using association_ok [OF ok Some] ok by (auto simp: s2_def put_ok)
    have "held_ok k (arm_confirmation_probes now k (adopt_cookie cookie tcb1, s2))"
      using good by (intro arm_confirmation_probes_held held_start)
    then show ?thesis
      using good come_up_ok [of s2 "adopt_cookie cookie tcb1" now k]
      by (auto simp: collide_def Let_def Some s2_def [symmetric] split: prod.split intro: held_put)
  qed (simp add: collide_def Let_def ok)
qed

lemma stale_cookie_fits [simp]: "param_fits (cause_info (stale_cookie_cause st))"
  by (simp add: stale_cookie_cause_def)

lemma end_handshake_ok: "sock_ok s \<Longrightarrow> sock_ok (end_handshake h k d t s)"
  by (simp add: end_handshake_def send_cookie_ack_def cancel_ok)

lemma echo_existing_ok:
  "sock_ok s \<Longrightarrow> associations s k = Some tcb \<Longrightarrow> sock_ok (snd (echo_existing now h k src result cookie st tcb s))"
  using association_ok [of s k tcb]
  by (simp add: echo_existing_def Let_def send_stale_cookie_error_def end_handshake_ok come_up_ok peer_restart_ok collide_ok)

lemma handle_cookie_echo_ok: "sock_ok s \<Longrightarrow> res_ok (\<lambda>(accepted, key', s'). sock_ok s') (handle_cookie_echo now h echo k src s)"
  using echo_existing_ok [of s]
  by (auto simp: handle_cookie_echo_def Let_def send_stale_cookie_error_def send_cookie_ack_def set_up_ok case_prod_unfold
      intro!: res_bindI [OF verify_ok] split: option.split)

lemma handle_cookie_ack_ok [sock_intros]: "sock_ok s \<Longrightarrow> sock_ok (handle_cookie_ack now k s)"
  using association_ok [of s k] by (simp add: handle_cookie_ack_def cancel_ok come_up_ok split: option.split)

definition scan_sound :: "Error_Scan \<Rightarrow> bool" where
  "scan_sound scan \<longleftrightarrow> assoc_ok (es_assoc scan) \<and> (\<forall>d p. es_retry scan = Some (d, p) \<longrightarrow> sendable p)"

lemma restart_handshake_ok: "assoc_ok assoc \<Longrightarrow> assoc_state assoc = COOKIE_ECHOED \<Longrightarrow> assoc_ok (restart_handshake assoc)"
  by (simp add: restart_handshake_def assoc_ok_def inbound_ok_def empty_buffer_ok)

lemma heed_cause_ok: "scan_sound scan \<Longrightarrow> res_ok scan_sound (heed_cause k s cause scan)"
  unfolding heed_cause_def Let_def
  by (auto intro!: res_bindI [of "\<lambda>_. True" "read_be32 _ _"] res_bindI [OF build_init_ok]
      simp: read_be32_def scan_sound_def restart_handshake_ok)

lemma heed_causes_ok: "scan_sound scan \<Longrightarrow> res_ok scan_sound (heed_causes k s cs scan)"
  by (induction cs arbitrary: scan) (auto intro: res_bindI [OF heed_cause_ok])

lemma handle_error_ok:
  assumes "sock_ok s"
  shows "res_ok sock_ok (handle_error listed k s)"
proof (cases "associations s k")
  case (Some assoc)
  have start: "scan_sound \<lparr>es_assoc = assoc, es_retry = None, es_failed = False\<rparr>"
    using association_ok [OF assms Some] by (simp add: scan_sound_def)
  show ?thesis
    unfolding handle_error_def Some option.case Let_def
    using assms by (auto simp: scan_sound_def intro!: res_bindI [OF heed_causes_ok [OF start]] split: option.split)
qed (simp add: handle_error_def assms)

lemma new_association_ok: "assoc_ok (init_new_association a tag tsn)"
  by (simp add: assoc_ok_def init_new_association_def blank_association_def closing_def inbound_ok_def empty_buffer_ok)

lemma sctp_associate_ok: "sock_ok s \<Longrightarrow> outcome_ok (\<lambda>(status, key, s'). sock_ok s') (sctp_associate ip port udp s)"
proof -
  assume "sock_ok s"
  have "sock_ok s2" if "sock_ok s1" "random32 s1 = (tsn, s2)" for s1 s2 tsn
    using that sock_ok_frame(11) [of s1] by simp
  with \<open>sock_ok s\<close> show ?thesis
    by (auto simp: sctp_associate_def Let_def build_init_ok split: option.split prod.split
        intro!: outcome_bindI [OF draw_tag_ok] outcome_bindI [of sendable "lift_res (build_init _ _ _ _ _)"]
          sock_ok_send put_ok new_association_ok)
qed

subsection \<open>An INIT leaves no state\<close>

lemma bind_outcome_Returns: "bind_outcome m f = Returns y \<longleftrightarrow> (\<exists>x. m = Returns x \<and> f x = Returns y)"
  by (cases m) simp_all

lemma lift_res_Returns: "lift_res r = Returns x \<longleftrightarrow> r = Inr x"
  by (cases r) simp_all

lemmas outcome_simps = bind_outcome_Returns lift_res_Returns

text \<open>Everything of the socket an INIT must not change; of an association, all but the Tie-Tags.\<close>

definition untied :: "Association \<Rightarrow> Association" where
  "untied assoc = assoc\<lparr>local_tie_tag := 0, peer_tie_tag := 0\<rparr>"

definition same_but_ties :: "Socket \<Rightarrow> Socket \<Rightarrow> bool" where
  "same_but_ties s s' \<longleftrightarrow> (\<forall>k. map_option untied (associations s' k) = map_option untied (associations s k)) \<and>
     peer_addresses s' = peer_addresses s \<and> expirations s' = expirations s \<and> receives s' = receives s \<and>
     notifications s' = notifications s"

lemma untied_simp [simp]: "untied (assoc\<lparr>local_tie_tag := l, peer_tie_tag := p\<rparr>) = untied assoc"
  by (simp add: untied_def)

lemma same_refl [simp]: "same_but_ties s s"
  by (simp add: same_but_ties_def)

lemma same_trans: "same_but_ties s s1 \<Longrightarrow> same_but_ties s1 s2 \<Longrightarrow> same_but_ties s s2"
  by (simp add: same_but_ties_def)

lemma same_frame [simp]:
  "same_but_ties s (send_control k d pkt s') = same_but_ties s s'" "same_but_ties s (send_abort h k d t r cs s') = same_but_ties s s'"
  "same_but_ties s (s'\<lparr>entropy := e\<rparr>) = same_but_ties s s'" "same_but_ties s (s'\<lparr>cookie_authorizer := ca\<rparr>) = same_but_ties s s'"
  "same_but_ties s (snd (random32 s')) = same_but_ties s s'" "same_but_ties (snd (random32 s)) s' = same_but_ties s s'"
  by (simp_all add: same_but_ties_def send_abort_def send_control_def enqueue_packet_def random32_def Let_def)

lemma draw_tag_same: "draw_tag s = Returns (tag, s') \<Longrightarrow> same_but_ties s s'"
  by (auto simp: draw_tag_def generate_nonzero_tag_def split: option.splits)

lemma draw_tie_tags_same: "draw_tie_tags assoc s = Returns (assoc', s') \<Longrightarrow> same_but_ties s s' \<and> untied assoc' = untied assoc"
  by (auto simp: draw_tie_tags_def outcome_simps split: if_splits dest!: draw_tag_same intro: same_trans)

lemma put_same: "same_but_ties s s' \<Longrightarrow> associations s k = Some assoc \<Longrightarrow> untied assoc' = untied assoc \<Longrightarrow>
    same_but_ties s (put_association k assoc' s')"
  by (simp add: same_but_ties_def put_association_def)

lemma answer_init_same: "answer_init tag tsn as k src s = Returns (answer, s') \<Longrightarrow> same_but_ties s s'"
  by (auto simp: answer_init_def Let_def outcome_simps split: option.splits if_splits dest!: draw_tie_tags_same intro: put_same)

lemma generate_cookie_same: "generate_cookie now h i src tag tsn lt pt span others s = Inr (cookie, s') \<Longrightarrow> same_but_ties s s'"
  by (auto simp: generate_cookie_def generate_eq)

lemma carry_out_answer_same: "carry_out_answer now h i k src params as span answer s = Inr s' \<Longrightarrow> same_but_ties s s'"
  by (auto simp: carry_out_answer_def send_init_ack_def Let_def res_simps split: Init_Answer.splits dest: generate_cookie_same)

lemma finish_init_same: "finish_init now h i k src params s = Returns s' \<Longrightarrow> same_but_ties s s'"
  by (auto simp: finish_init_def outcome_simps
      dest!: draw_tag_same answer_init_same carry_out_answer_same) (blast intro: same_trans)

text \<open>C15: An INIT carries no proof of where it comes from, and it changes nothing that matters: whatever it holds and whatever association
  exists, every association stays as it was but for Tie-Tags being drawn, no alias, timer, message or notification appears or goes,
  and the answer is at most packets to send.\<close>

theorem init_leaves_no_state:
  "handle_init now header init key src s = Returns s' \<Longrightarrow>
   (\<forall>k. map_option untied (associations s' k) = map_option untied (associations s k)) \<and>
   peer_addresses s' = peer_addresses s \<and> expirations s' = expirations s \<and> receives s' = receives s \<and>
   notifications s' = notifications s"
  unfolding same_but_ties_def [symmetric] handle_init_def
  by (auto simp: outcome_simps split: option.splits if_splits dest: finish_init_same)

definition init_with_no_streams :: init_chunk_value where
  "init_with_no_streams = \<lparr>initiate_tag = 9, init_a_rwnd = 65535, init_out_streams = 0, init_in_streams = 10, initial_tsn = 5,
     optional_parameters = []\<rparr>"


theorem init_leaves_no_state_witness:
  "\<exists>s'. handle_init 0 example_header init_with_no_streams \<lparr>s_addr = 1, sin_port = 9\<rparr> \<lparr>s_addr = 1, sin_port = 9\<rparr> empty_socket = Returns s'
     \<and> expirations s' = expirations empty_socket"
proof -
  obtain s' where r: "handle_init 0 example_header init_with_no_streams \<lparr>s_addr = 1, sin_port = 9\<rparr> \<lparr>s_addr = 1, sin_port = 9\<rparr>
      empty_socket = Returns s'"
    by (simp add: handle_init_def init_with_no_streams_def)
  from init_leaves_no_state [OF r] r show ?thesis by blast
qed

end
