(* ===== verification/Packet_Input.thy ===== *)
theory Packet_Input
  imports Handshake
begin

text \<open>
  A datagram from the wire to the handlers (\<open>src/socket_handlers.cpp\<close>): the checksum, the parser, the association the packet belongs
  to, the Verification Tag (RFC 9260, section 8.5), packets out of the blue (8.4), unrecognized chunks (3.2) and the dispatch of every
  chunk to its handler.

  \<open>std::get\<close> is explicit: a chunk whose body is not of the alternative its type says throws. The parser catches its own exceptions;
  a read outside the datagram is not an exception and would not be caught.
\<close>

subsection \<open>Out of the blue\<close>

datatype Packet_Validation = ACCEPT | DISCARD | ABORT_OOTB | ABORT_INIT | SHUTDOWN_COMPLETE_OOTB

definition contains_chunk :: "SCTP_Packet \<Rightarrow> u8 \<Rightarrow> bool" where
  "contains_chunk packet type = list_ex (\<lambda>chunk. chunk_type chunk = type) (pkt_chunks packet)"

definition get_error :: "Chunk_Value_Type \<Rightarrow> error_cause list res" where
  "get_error v = (case v of Error_Value cs \<Rightarrow> Inr cs | _ \<Rightarrow> Inl Bad_Variant_Access)"

definition carries_stale_cookie :: "SCTP_Chunk \<Rightarrow> bool res" where
  "carries_stale_cookie chunk =
     bind_res (get_error (chunk_value chunk)) (\<lambda>cs. Inr (list_ex (\<lambda>cause. cause_code cause = CAUSE_STALE_COOKIE) cs))"

fun any_stale_cookie :: "SCTP_Chunk list \<Rightarrow> bool res" where
  "any_stale_cookie [] = Inr False"
| "any_stale_cookie (chunk # chunks) =
     (if chunk_type chunk = OP_ERROR
      then bind_res (carries_stale_cookie chunk) (\<lambda>stale. if stale then Inr True else any_stale_cookie chunks)
      else any_stale_cookie chunks)"

definition ootb_response :: "SCTP_Packet \<Rightarrow> Packet_Validation res" where
  "ootb_response pkt =
     (if contains_chunk pkt ABORT then Inr DISCARD
      else if contains_chunk pkt SHUTDOWN_ACK then Inr SHUTDOWN_COMPLETE_OOTB
      else bind_res (any_stale_cookie (pkt_chunks pkt)) (\<lambda>stale_cookie.
        Inr (if stale_cookie \<or> contains_chunk pkt SHUTDOWN_COMPLETE \<or> contains_chunk pkt COOKIE_ACK
             then DISCARD else ABORT_OOTB)))"

subsection \<open>The Verification Tag\<close>

definition validate_verification_tag :: "SCTP_Packet \<Rightarrow> Association_Key \<Rightarrow> Socket \<Rightarrow> Packet_Validation res" where
  "validate_verification_tag pkt key s =
     (case pkt_chunks pkt of
        [] \<Rightarrow> Inr DISCARD
      | first # rest \<Rightarrow>
          let tag = verification_tag (pkt_header pkt); type = chunk_type first in
          if des_port (pkt_header pkt) \<noteq> local_port s then
            (if type \<noteq> INIT then ootb_response pkt
             else if tag = 0 \<and> rest = []
             then bind_res (get_init (chunk_value first)) (\<lambda>init. Inr (if initiate_tag init \<noteq> 0 then ABORT_INIT else DISCARD))
             else Inr DISCARD)
          else if type = INIT then Inr (if tag = 0 \<and> rest = [] then ACCEPT else DISCARD)
          else if type = COOKIE_ECHO then Inr ACCEPT
          else case associations s key of
                 None \<Rightarrow> ootb_response pkt
               | Some assoc \<Rightarrow>
                   if type = ABORT \<or> type = SHUTDOWN_COMPLETE then
                     let expected = (if ch_flag (chunk_header first) AND CHUNK_FLAG_T_BIT \<noteq> 0 then peer_ver_tag assoc else this_ver_tag assoc)
                     in Inr (if expected \<noteq> 0 \<and> tag = expected then ACCEPT else DISCARD)
                   else if forming (assoc_state assoc) \<and> contains_chunk pkt SHUTDOWN_ACK then ootb_response pkt
                   else Inr (if tag = this_ver_tag assoc then ACCEPT else DISCARD))"

subsection \<open>Unrecognized chunks\<close>

definition unrecognized_chunk_cause :: "SCTP_Chunk \<Rightarrow> bytes \<Rightarrow> error_cause" where
  "unrecognized_chunk_cause chunk body =
     (let len = of_nat (SCTP_CHUNK_HEADER_SIZE + length body) :: u16
      in \<lparr>cause_code = CAUSE_UNRECOGNIZED_CHUNK,
          cause_info = [chunk_type chunk, ch_flag (chunk_header chunk), ucast (drop_bit 8 len), ucast len] @ body\<rparr>)"

fun sift_chunks :: "SCTP_Chunk list \<Rightarrow> SCTP_Chunk list \<times> error_cause list" where
  "sift_chunks [] = ([], [])"
| "sift_chunks (chunk # chunks) =
     (case chunk_value chunk of
        Unknown_Value body \<Rightarrow>
          let found = (if chunk_type chunk AND 0x40 \<noteq> 0 then [unrecognized_chunk_cause chunk body] else [])
          in if chunk_type chunk AND 0x80 \<noteq> 0
             then (case sift_chunks chunks of (kept, listed) \<Rightarrow> (kept, found @ listed))
             else ([], found)
      | _ \<Rightarrow> (case sift_chunks chunks of (kept, listed) \<Rightarrow> (chunk # kept, listed)))"

fun fit_causes :: "nat \<Rightarrow> nat \<Rightarrow> error_cause list \<Rightarrow> error_cause list" where
  "fit_causes budget used [] = []"
| "fit_causes budget used (cause # listed) =
     (let used' = used + pad4 (SCTP_CHUNK_HEADER_SIZE + length (cause_info cause))
      in if used' > budget then [] else cause # fit_causes budget used' listed)"

definition report_unrecognized_chunks ::
    "SCTP_Common_Header \<Rightarrow> Association_Key \<Rightarrow> sockaddr_in \<Rightarrow> error_cause list \<Rightarrow> Socket \<Rightarrow> Socket" where
  "report_unrecognized_chunks header key src listed s =
     (case associations s key of
        None \<Rightarrow> s
      | Some assoc \<Rightarrow>
          if assoc_state assoc = COOKIE_WAIT then s
          else
            let fits = fit_causes (unat (pmdcs assoc)) SCTP_CHUNK_HEADER_SIZE listed
            in if fits = [] then s
               else send_error header key (reply_destination assoc src) (peer_ver_tag assoc) fits s)"

subsection \<open>Dispatch\<close>

text \<open>One chunk: whether an ABORT ends the packet, and the socket.\<close>

definition dispatch_chunk ::
    "time \<Rightarrow> SCTP_Common_Header \<Rightarrow> Association_Key \<Rightarrow> sockaddr_in \<Rightarrow> SCTP_Chunk \<Rightarrow> Socket \<Rightarrow> (bool \<times> Socket) outcome" where
  "dispatch_chunk now header key src chunk s =
     (let type = chunk_type chunk; v = chunk_value chunk; go_on = (\<lambda>s. Returns (False, s)) in
      if type = INIT then
        bind_outcome (lift_res (get_init v)) (\<lambda>init. bind_outcome (handle_init now header init key src s) go_on)
      else if type = INIT_ACK then
        bind_outcome (lift_res (get_init v)) (\<lambda>init. bind_outcome (lift_res (handle_init_ack header init key src s)) go_on)
      else if type = COOKIE_ACK then go_on (handle_cookie_ack now key s)
      else if type = SACK then
        (case v of Sack_Value sack \<Rightarrow> go_on (handle_sack now header sack key src s) | _ \<Rightarrow> Throws Bad_Variant_Access)
      else if type = OP_ERROR then
        bind_outcome (lift_res (get_error v)) (\<lambda>listed. bind_outcome (lift_res (handle_error listed key s)) go_on)
      else if type = ABORT then
        bind_outcome (lift_res (get_error v)) (\<lambda>listed. Returns (True, handle_abort listed key s))
      else if type = HEARTBEAT then
        (case v of Heartbeat_Value info \<Rightarrow> go_on (handle_heartbeat header info key src s) | _ \<Rightarrow> Throws Bad_Variant_Access)
      else if type = HEARTBEAT_ACK then
        (case v of Heartbeat_Value info \<Rightarrow> go_on (handle_heartbeat_ack now info key s) | _ \<Rightarrow> Throws Bad_Variant_Access)
      else if type = SHUTDOWN then
        (case v of Shutdown_Value cumulative \<Rightarrow> go_on (handle_shutdown now header cumulative key src s) | _ \<Rightarrow> Throws Bad_Variant_Access)
      else if type = SHUTDOWN_ACK then go_on (handle_shutdown_ack header key src s)
      else if type = SHUTDOWN_COMPLETE then go_on (handle_shutdown_complete key s)
      else go_on s)"

fun dispatch_chunks ::
    "time \<Rightarrow> SCTP_Common_Header \<Rightarrow> Association_Key \<Rightarrow> sockaddr_in \<Rightarrow> SCTP_Chunk list \<Rightarrow> Socket \<Rightarrow> (bool \<times> Socket) outcome" where
  "dispatch_chunks now header key src [] s = Returns (False, s)"
| "dispatch_chunks now header key src (chunk # chunks) s =
     bind_outcome (dispatch_chunk now header key src chunk s) (\<lambda>(ended, s').
       if ended then Returns (True, s') else dispatch_chunks now header key src chunks s')"

subsection \<open>A packet\<close>

definition packet_key :: "SCTP_Packet \<Rightarrow> sockaddr_in \<Rightarrow> Socket \<Rightarrow> Association_Key res" where
  "packet_key pkt src s =
     (let port = src_port (pkt_header pkt); key = association_key_for (peer_key src port) s
      in if associations s key \<noteq> None then Inr key
         else bind_res (init_addresses pkt src) (\<lambda>addresses.
           Inr (case find (\<lambda>listed. associations s listed \<noteq> None) (map (\<lambda>a. association_key_for (peer_key a port) s) addresses) of
                  Some listed \<Rightarrow> listed
                | None \<Rightarrow> key)))"

text \<open>9.2: any packet from the peer in SHUTDOWN-SENT gives it more time.\<close>

definition give_more_time :: "time \<Rightarrow> Association_Key \<Rightarrow> Socket \<Rightarrow> Socket" where
  "give_more_time now key s =
     (case associations s key of
        None \<Rightarrow> s
      | Some assoc \<Rightarrow>
          if assoc_state assoc = SHUTDOWN_SENT
          then restart_t2 now key (put_association key (assoc\<lparr>assoc_error_count := 0\<rparr>) s) else s)"

definition process_chunks ::
    "time \<Rightarrow> SCTP_Packet \<Rightarrow> Association_Key \<Rightarrow> sockaddr_in \<Rightarrow> bool \<Rightarrow> error_cause list \<Rightarrow> Socket \<Rightarrow> Socket outcome" where
  "process_chunks now pkt key src carried_cookie_echo listed s =
     (let header = pkt_header pkt;
          s1 = (if pkt_chunks pkt = [] \<or> chunk_type (hd (pkt_chunks pkt)) \<noteq> INIT then record_encapsulation_port key src s else s);
          s2 = give_more_time now key s1
      in bind_outcome (dispatch_chunks now header key src
           (if carried_cookie_echo then tl (pkt_chunks pkt) else pkt_chunks pkt) s2) (\<lambda>(ended, s3).
           if ended then Returns s3
           else
             let s4 = handle_data_packet now pkt key src carried_cookie_echo s3
             in Returns (if listed \<noteq> [] then report_unrecognized_chunks header key src listed s4 else s4)))"

definition accept_packet :: "time \<Rightarrow> SCTP_Packet \<Rightarrow> Association_Key \<Rightarrow> sockaddr_in \<Rightarrow> Socket \<Rightarrow> Socket outcome" where
  "accept_packet now in_pkt key src s =
     (case sift_chunks (pkt_chunks in_pkt) of
        (chunks, listed) \<Rightarrow>
          let pkt = in_pkt\<lparr>pkt_chunks := chunks\<rparr>
          in if chunks \<noteq> [] \<and> chunk_type (hd chunks) = COOKIE_ECHO
             then (case chunk_value (hd chunks) of
                     Cookie_Echo_Value echo \<Rightarrow>
                       bind_outcome (lift_res (handle_cookie_echo now (pkt_header pkt) echo key src s)) (\<lambda>(accepted, key', s').
                         if accepted then process_chunks now pkt key' src True listed s' else Returns s')
                   | _ \<Rightarrow> Throws Bad_Variant_Access)
             else process_chunks now pkt key src False listed s)"

definition handle_packet :: "time \<Rightarrow> SCTP_Packet \<Rightarrow> sockaddr_in \<Rightarrow> Socket \<Rightarrow> Socket outcome" where
  "handle_packet now pkt src s =
     (let header = pkt_header pkt in
      bind_outcome (lift_res (packet_key pkt src s)) (\<lambda>key.
      bind_outcome (lift_res (validate_verification_tag pkt key s)) (\<lambda>verdict.
        case verdict of
          ACCEPT \<Rightarrow> accept_packet now pkt key src s
        | ABORT_OOTB \<Rightarrow> Returns (send_abort header key src (verification_tag header) True [] s)
        | ABORT_INIT \<Rightarrow>
            bind_outcome (lift_res (get_init (chunk_value (hd (pkt_chunks pkt))))) (\<lambda>init.
              Returns (send_abort header key src (initiate_tag init) False [] s))
        | SHUTDOWN_COMPLETE_OOTB \<Rightarrow>
            Returns (send_control key src (build_shutdown_complete (des_port header) (src_port header) (verification_tag header) True) s)
        | DISCARD \<Rightarrow> Returns s)))"

definition handle_recv_packet :: "time \<Rightarrow> bytes \<Rightarrow> sockaddr_in \<Rightarrow> Socket \<Rightarrow> Socket outcome" where
  "handle_recv_packet now data src s =
     (if length data < SCTP_COMMON_HEADER_SIZE then Returns s
      else bind_outcome (lift_res (sctp_read_wire_checksum data)) (\<lambda>received_checksum.
        if calculate_sctp_checksum (sctp_clear_wire_checksum data) \<noteq> received_checksum then Returns s
        else case deserialize_sctp_packet data of
               Inl Out_Of_Bounds \<Rightarrow> Throws Out_Of_Bounds
             | Inl e \<Rightarrow> Returns s
             | Inr pkt \<Rightarrow> handle_packet now pkt src s))"

subsection \<open>Packets the parser returns\<close>

text \<open>Every chunk has the body its type says, an INIT has no more parameters than a chunk can hold, and the packet has no more chunks than a
  datagram can hold.\<close>

abbreviation (input) MAX_UDP_DATAGRAM :: nat where "MAX_UDP_DATAGRAM \<equiv> 65535"

definition init_small :: "SCTP_Chunk \<Rightarrow> bool" where
  "init_small c \<longleftrightarrow> (case chunk_value c of Init_Value i \<Rightarrow> length (optional_parameters i) \<le> 65515 | _ \<Rightarrow> True)"

definition chunk_good :: "SCTP_Chunk \<Rightarrow> bool" where
  "chunk_good c \<longleftrightarrow> chunk_typed c \<and> init_small c"

lemma deserialize_value_small:
  "deserialize_chunk_value type body = Inr v \<Longrightarrow> length body \<le> 65531 \<Longrightarrow> take_data_flags type flag v = Inr v' \<Longrightarrow>
   init_small \<lparr>chunk_header = h, chunk_value = v'\<rparr>"
  by (auto simp: deserialize_chunk_value_def deserialize_init_chunk_def take_data_flags_def init_small_def res_simps
      split: if_splits Chunk_Value_Type.splits)

lemma deserialize_chunks_next:
  assumes "deserialize_chunks data offset out = Inr cs" "offset < length data"
  obtains c nxt where "offset < nxt" "init_small c" "deserialize_chunks data nxt (out @ [c]) = Inr cs"
proof -
  note unfold = deserialize_chunks.simps [of data offset out]
  obtain t f l where rd: "read8 data offset = Inr t" "read8 data (offset + 1) = Inr f" "read16 data (offset + 2) = Inr l"
    using assms by (auto simp: unfold res_simps split: if_splits)
  have l: "\<not> unat l < 4" "unat l - 4 \<le> length data - (offset + 4)" "4 \<le> length data - offset"
    using assms rd by (auto simp: unfold Let_def split: if_splits)
  then obtain v v' where v: "deserialize_chunk_value t (take (unat l - 4) (drop (offset + 4) data)) = Inr v"
      "take_data_flags t f v = Inr v'"
    using assms rd by (auto simp: unfold Let_def res_simps)
  let ?c = "\<lparr>chunk_header = \<lparr>ch_type = t, ch_flag = f, ch_length = l\<rparr>, chunk_value = v'\<rparr>"
  let ?n = "offset + 4 + (unat l - 4) + (if pad4 (unat l) - unat l \<le> length data - (offset + 4 + (unat l - 4))
      then pad4 (unat l) - unat l else length data - (offset + 4 + (unat l - 4)))"
  have "init_small ?c" using deserialize_value_small [OF v(1) _ v(2)] unat_u16_less [of l] by simp
  moreover have "deserialize_chunks data ?n (out @ [?c]) = Inr cs"
    using assms rd l v by (auto simp: unfold Let_def split: if_splits)
  moreover have "offset < ?n" by simp
  ultimately show thesis using that by blast
qed

lemma deserialize_chunks_small: "deserialize_chunks data offset out = Inr cs \<Longrightarrow> list_all init_small out \<Longrightarrow> list_all init_small cs"
proof (induction "length data - offset" arbitrary: offset out rule: less_induct)
  case less
  show ?case
  proof (cases "offset < length data")
    case True
    then obtain c nxt where c: "offset < nxt" "init_small c" "deserialize_chunks data nxt (out @ [c]) = Inr cs"
      using less.prems deserialize_chunks_next by metis
    then have "length data - nxt < length data - offset" using True by simp
    from less.hyps [OF this c(3)] c(2) less.prems(2) show ?thesis by simp
  qed (use less.prems in \<open>simp add: deserialize_chunks.simps [of data offset out]\<close>)
qed

lemma deserialize_chunks_few: "deserialize_chunks data offset out = Inr cs \<Longrightarrow> length cs \<le> length out + (length data - offset)"
proof (induction "length data - offset" arbitrary: offset out rule: less_induct)
  case less
  show ?case
  proof (cases "offset < length data")
    case True
    then obtain c nxt where c: "offset < nxt" "init_small c" "deserialize_chunks data nxt (out @ [c]) = Inr cs"
      using less.prems deserialize_chunks_next by metis
    then have "length data - nxt < length data - offset" using True by simp
    from less.hyps [OF this c(3)] this show ?thesis by simp
  qed (use less.prems in \<open>simp add: deserialize_chunks.simps [of data offset out]\<close>)
qed

lemma parsed_packet_few: "deserialize_sctp_packet data = Inr pkt \<Longrightarrow> length (pkt_chunks pkt) \<le> length data"
  using deserialize_chunks_few [of data 12 "[]"] by (auto simp: deserialize_sctp_packet_def res_simps split: if_splits)

lemma parsed_packet_good: "deserialize_sctp_packet data = Inr pkt \<Longrightarrow> list_all chunk_good (pkt_chunks pkt)"
  using deserialize_chunks_sound [of data 12 "[]"] deserialize_chunks_small [of data 12 "[]"]
  by (auto simp: deserialize_sctp_packet_def res_simps list_all_iff chunk_good_def split: if_splits)

subsection \<open>No packet throws\<close>

lemma get_ok:
  "chunk_good c \<Longrightarrow> chunk_type c = INIT \<or> chunk_type c = INIT_ACK \<Longrightarrow>
     res_ok (\<lambda>i. length (optional_parameters i) \<le> 65515) (get_init (chunk_value c))"
  "chunk_good c \<Longrightarrow> chunk_type c = OP_ERROR \<or> chunk_type c = ABORT \<Longrightarrow> res_ok (\<lambda>_. True) (get_error (chunk_value c))"
  by (cases "chunk_value c"; auto simp: chunk_good_def chunk_typed_def init_small_def get_init_def get_error_def)+

lemma init_addresses_ok: "list_all chunk_good (pkt_chunks pkt) \<Longrightarrow> res_ok (\<lambda>_. True) (init_addresses pkt src)"
  unfolding init_addresses_def
  by (auto split: list.split intro!: res_bindI [OF get_ok(1)] res_bindI [OF scan_ok(1)] res_bindI [OF scan_ok(2)]
      res_mono [OF transport_addresses_few])

lemma packet_key_ok: "list_all chunk_good (pkt_chunks pkt) \<Longrightarrow> res_ok (\<lambda>_. True) (packet_key pkt src s)"
  by (auto simp: packet_key_def Let_def intro!: res_bindI [OF init_addresses_ok])

lemma any_stale_cookie_ok: "list_all chunk_good cs \<Longrightarrow> res_ok (\<lambda>_. True) (any_stale_cookie cs)"
proof (induction cs)
  case (Cons c cs)
  then have "chunk_type c = OP_ERROR \<Longrightarrow> res_ok (\<lambda>_. True) (carries_stale_cookie c)"
    by (auto simp: carries_stale_cookie_def intro!: res_bindI [OF get_ok(2)])
  with Cons show ?case by (auto intro!: res_bindI [of "\<lambda>_. True" "carries_stale_cookie c"])
qed simp

lemma ootb_response_ok: "list_all chunk_good (pkt_chunks pkt) \<Longrightarrow> res_ok (\<lambda>v. v \<noteq> ACCEPT \<and> v \<noteq> ABORT_INIT) (ootb_response pkt)"
  by (auto simp: ootb_response_def intro!: res_bindI [OF any_stale_cookie_ok])

lemma validate_ok:
  "list_all chunk_good (pkt_chunks pkt) \<Longrightarrow>
     res_ok (\<lambda>v. v = ABORT_INIT \<longrightarrow> pkt_chunks pkt \<noteq> [] \<and> chunk_type (hd (pkt_chunks pkt)) = INIT) (validate_verification_tag pkt k s)"
  by (auto simp: validate_verification_tag_def Let_def split: list.split option.split
      intro!: res_bindI [OF get_ok(1)] res_mono [OF ootb_response_ok])

lemma dispatch_chunk_ok:
  "sock_ok s \<Longrightarrow> chunk_good c \<Longrightarrow> outcome_ok (\<lambda>(ended, s'). sock_ok s') (dispatch_chunk now h k src c s)"
proof -
  assume ok: "sock_ok s" and good: "chunk_good c"
  have init: "outcome_ok (\<lambda>i. length (optional_parameters i) \<le> 65515) (lift_res (get_init (chunk_value c)))"
    if "chunk_type c = INIT \<or> chunk_type c = INIT_ACK" using get_ok(1) [OF good that] by simp
  have err: "outcome_ok (\<lambda>_. True) (lift_res (get_error (chunk_value c)))"
    if "chunk_type c = OP_ERROR \<or> chunk_type c = ABORT" using get_ok(2) [OF good that] by simp
  have "chunk_type c = SACK \<Longrightarrow> \<exists>v. chunk_value c = Sack_Value v" "chunk_type c = HEARTBEAT \<Longrightarrow> \<exists>v. chunk_value c = Heartbeat_Value v"
    "chunk_type c = HEARTBEAT_ACK \<Longrightarrow> \<exists>v. chunk_value c = Heartbeat_Value v"
    "chunk_type c = SHUTDOWN \<Longrightarrow> \<exists>v. chunk_value c = Shutdown_Value v"
    using good by (cases "chunk_value c"; auto simp: chunk_good_def chunk_typed_def)+
  with ok show ?thesis
    unfolding dispatch_chunk_def Let_def
    by (auto intro!: sock_intros outcome_bindI [OF init] outcome_bindI [OF err] outcome_bindI [OF handle_init_ok]
        outcome_bindI [of sock_ok "lift_res (handle_init_ack _ _ _ _ _)"] outcome_bindI [of sock_ok "lift_res (handle_error _ _ _)"]
        simp: handle_init_ack_ok handle_error_ok)
qed

lemma dispatch_chunks_ok:
  "sock_ok s \<Longrightarrow> list_all chunk_good cs \<Longrightarrow> outcome_ok (\<lambda>(ended, s'). sock_ok s') (dispatch_chunks now h k src cs s)"
  by (induction cs arbitrary: s) (auto intro!: outcome_bindI [OF dispatch_chunk_ok])

lemma sift_chunks_good: "list_all chunk_good cs \<Longrightarrow> list_all chunk_good (fst (sift_chunks cs))"
  by (induction cs) (auto simp: Let_def case_prod_unfold split: Chunk_Value_Type.split)

lemma sift_chunks_few: "length (fst (sift_chunks cs)) \<le> length cs"
  by (induction cs) (auto simp: Let_def case_prod_unfold split: Chunk_Value_Type.split)

lemma fit_causes_fit: "budget \<le> 65535 \<Longrightarrow> causes_fit (fit_causes budget used cs)"
proof (induction cs arbitrary: used)
  case (Cons c cs)
  then show ?case using pad4_ge [of "4 + length (cause_info c)"] by (auto simp: Let_def param_fits_def)
qed simp

lemma report_unrecognized_chunks_ok: "sock_ok s \<Longrightarrow> sock_ok (report_unrecognized_chunks h k src cs s)"
  using association_ok [of s k] by (auto simp: report_unrecognized_chunks_def Let_def assoc_ok_def fit_causes_fit split: option.split)

lemma give_more_time_ok: "sock_ok s \<Longrightarrow> sock_ok (give_more_time now k s)"
  using association_ok [of s k] by (auto simp: give_more_time_def split: option.split intro!: restart_t2_ok put_ok)

lemma process_chunks_ok:
  assumes "sock_ok s" "list_all chunk_good (pkt_chunks pkt)" "length (pkt_chunks pkt) \<le> UINT16_MAX"
  shows "outcome_ok sock_ok (process_chunks now pkt k src carried cs s)"
proof -
  define s2 where "s2 = give_more_time now k
    (if pkt_chunks pkt = [] \<or> chunk_type (hd (pkt_chunks pkt)) \<noteq> INIT then record_encapsulation_port k src s else s)"
  have "sock_ok s2" using assms(1) by (simp add: s2_def give_more_time_ok record_encapsulation_port_ok)
  moreover have "list_all chunk_good (if carried then tl (pkt_chunks pkt) else pkt_chunks pkt)"
    using assms(2) by (cases "pkt_chunks pkt") auto
  ultimately show ?thesis
    unfolding process_chunks_def Let_def s2_def [symmetric]
    using assms(3) by (intro outcome_bindI [OF dispatch_chunks_ok]) (auto simp: report_unrecognized_chunks_ok handle_data_packet_ok)
qed

lemma accept_packet_ok:
  assumes "sock_ok s" "list_all chunk_good (pkt_chunks pkt)" "length (pkt_chunks pkt) \<le> UINT16_MAX"
  shows "outcome_ok sock_ok (accept_packet now pkt k src s)"
proof -
  obtain cs listed where c: "sift_chunks (pkt_chunks pkt) = (cs, listed)" by (rule prod.exhaust)
  have good: "list_all chunk_good cs" "length cs \<le> UINT16_MAX"
    using sift_chunks_good [OF assms(2)] sift_chunks_few [of "pkt_chunks pkt"] assms(3) c by simp_all
  have "\<exists>echo. chunk_value (hd cs) = Cookie_Echo_Value echo" if "cs \<noteq> []" "chunk_type (hd cs) = COOKIE_ECHO"
    using good that by (cases cs; cases "chunk_value (hd cs)") (auto simp: chunk_good_def chunk_typed_def)
  then show ?thesis
    using assms(1) good handle_cookie_echo_ok [OF assms(1), of now "pkt_header pkt" _ k src] unfolding accept_packet_def c Let_def
    by (auto intro!: process_chunks_ok outcome_bindI [of "\<lambda>(accepted, key', s'). sock_ok s'"])
qed

lemma handle_packet_ok:
  assumes "sock_ok s" "list_all chunk_good (pkt_chunks pkt)" "length (pkt_chunks pkt) \<le> UINT16_MAX"
  shows "outcome_ok sock_ok (handle_packet now pkt src s)"
proof -
  have first: "chunk_good (hd (pkt_chunks pkt))" if "pkt_chunks pkt \<noteq> []" using assms(2) that by (cases "pkt_chunks pkt") auto
  have "outcome_ok sock_ok (bind_outcome (lift_res (get_init (chunk_value (hd (pkt_chunks pkt))))) (\<lambda>init.
      Returns (send_abort h k src (initiate_tag init) False [] s)))"
    if "pkt_chunks pkt \<noteq> []" "chunk_type (hd (pkt_chunks pkt)) = INIT" for h k
    using get_ok(1) [OF first] that assms(1) by (intro outcome_bindI [of "\<lambda>i. length (optional_parameters i) \<le> 65515"]) simp_all
  then show ?thesis
    using assms packet_key_ok [OF assms(2)] validate_ok [OF assms(2)] unfolding handle_packet_def Let_def
    by (auto intro!: outcome_bindI [of "\<lambda>_. True" "lift_res (packet_key _ _ _)"]
        outcome_bindI [of "\<lambda>v. v = ABORT_INIT \<longrightarrow> pkt_chunks pkt \<noteq> [] \<and> chunk_type (hd (pkt_chunks pkt)) = INIT"]
        accept_packet_ok split: Packet_Validation.split)
qed

lemma handle_recv_packet_ok:
  assumes "sock_ok s" "length data \<le> MAX_UDP_DATAGRAM"
  shows "outcome_ok sock_ok (handle_recv_packet now data src s)"
proof (cases "deserialize_sctp_packet data")
  case (Inl e)
  then have "e \<noteq> Out_Of_Bounds" using deserialize_sctp_packet_safe [of data] by (auto simp: parse_safe_def)
  with assms Inl show ?thesis
    by (cases e) (auto simp: handle_recv_packet_def sctp_read_wire_checksum_def read_checksum_le_def intro!: outcome_bindI [of "\<lambda>_. True"])
next
  case (Inr pkt)
  with assms show ?thesis
    by (auto simp: handle_recv_packet_def sctp_read_wire_checksum_def read_checksum_le_def intro!: outcome_bindI [of "\<lambda>_. True"]
        handle_packet_ok parsed_packet_good dest: parsed_packet_few)
qed

subsection \<open>A packet with one chunk that is not DATA\<close>

lemma handle_no_data: "list_all (\<lambda>c. chunk_type c \<noteq> DATA) (pkt_chunks p) \<Longrightarrow> handle_data_packet now p k src imm s = s"
proof -
  assume a: "list_all (\<lambda>c. chunk_type c \<noteq> DATA) (pkt_chunks p)"
  have r: "list_all (\<lambda>c. chunk_type c \<noteq> DATA) cs \<Longrightarrow> receive_chunks cs rx = rx" for cs rx
    by (induction cs) simp_all
  have "empty_data (pkt_chunks p) = None"
    using a by (auto simp: empty_data_def find_None_iff list_all_iff find_Some_iff split: option.split)
  with a r show ?thesis by (simp add: handle_data_packet_def start_reception_def split: option.split)
qed

text \<open>A packet that was serialized passes the checksum and the parser.\<close>

lemma handle_recv_serialized:
  assumes "list_all chunk_ok (pkt_chunks p)" "serialize_sctp_packet p = Inr data"
  shows "handle_recv_packet now data src b = handle_packet now (on_wire p) src b"
proof -
  have "\<not> length data < SCTP_COMMON_HEADER_SIZE" using assms(2) by (auto simp: serialize_packet_eq [OF assms(1)] packet_bytes_def)
  then show ?thesis
    using serialized_checksum_verifies [OF assms(2)] packets.decodes [OF assms] by (simp add: handle_recv_packet_def)
qed

subsection \<open>Properties\<close>

text \<open>C4: No datagram harms the socket: whatever bytes arrive from whatever address, processing them neither reads nor copies bytes outside the datagram,
  a chunk body, a parameter list or a cookie (each such access is one that would yield \<open>Out_Of_Bounds\<close>), accesses no body of the wrong kind and throws no
  exception, and the socket it leaves is consistent; in particular every packet it queues in answer is serialized without an exception. The only way not to
  return is to draw a tag from random bytes that never come.\<close>

theorem recv_packet_safe:
  "sock_ok s \<Longrightarrow> length data \<le> MAX_UDP_DATAGRAM \<Longrightarrow>
   (case handle_recv_packet now data src s of Returns s' \<Rightarrow> sock_ok s' | Throws e \<Rightarrow> False | Starved \<Rightarrow> True)"
  using handle_recv_packet_ok [of s data now src] by (simp add: outcome_ok_def)

theorem recv_packet_safe_witness:
  "\<exists>data s'. serialize_sctp_packet (build_heartbeat 2304 2304 7 [1, 2, 3]) = Inr data \<and>
     handle_recv_packet 0 data \<lparr>s_addr = 1, sin_port = 9\<rparr> (example_established 5 9) = Returns s' \<and>
     map (\<lambda>q. map chunk_type (pkt_chunks (dl_packet (q_deliverable q)))) (control (sends s')) = [[HEARTBEAT_ACK]] \<and> sock_ok s'"
proof -
  let ?p = "build_heartbeat 2304 2304 7 [1, 2, 3]" and ?s = "example_established 5 9" and ?src = "\<lparr>s_addr = 1, sin_port = 9\<rparr> :: sockaddr_in"
  have ok: "list_all chunk_ok (pkt_chunks ?p)"
    by (simp add: single_chunk_builders chunk_ok_def chunk_typed_def pad4_def)
  obtain data where data: "serialize_sctp_packet ?p = Inr data" using packets.encodes [OF ok] by blast
  then have "length data \<le> MAX_UDP_DATAGRAM"
    unfolding serialize_packet_eq [OF ok] by (auto simp: packet_bytes_def single_chunk_builders length_chunk_bytes pad4_def)
  note safe = recv_packet_safe [OF example_established_ok this, of 0 ?src 5 9]
  have port: "htons 2304 = 9" "ntohs 9 = 2304" by code_simp+
  have assoc: "associations ?s ?src = Some (example_peer 5 9)" by (simp add: example_established_def)
  have up: "this_ver_tag (example_peer 5 9) = 7" "assoc_state (example_peer 5 9) = ESTABLISHED" "local_port ?s = 2304" "control (sends ?s) = []"
    by (simp_all add: example_peer_def init_new_association_def example_established_def empty_socket_def put_association_def empty_send_queue_def port)
  have rec: "record_encapsulation_port ?src ?src ?s = ?s"
    by (simp add: record_encapsulation_port_def assoc)
      (simp add: example_established_def example_peer_def init_new_association_def blank_association_def find_path_def make_path_def same_destination_def
        put_association_def)
  have "pmdcs (example_peer 5 9) = DEFAULT_PMDCS" by (simp add: example_peer_def init_new_association_def blank_association_def)
  then have "\<exists>s'. handle_packet 0 (on_wire ?p) ?src ?s = Returns s' \<and>
      map (\<lambda>q. map chunk_type (pkt_chunks (dl_packet (q_deliverable q)))) (control (sends s')) = [[HEARTBEAT_ACK]]"
    using assoc up
    by (simp add: handle_packet_def packet_key_def association_key_for_def peer_key_def path_key_def validate_verification_tag_def accept_packet_def
        process_chunks_def contains_chunk_def dispatch_chunk_def handle_heartbeat_def handle_no_data give_more_time_def on_wire_def
        with_wire_length_def single_chunk_builders port rec send_control_def
        enqueue_packet_def enqueue_def Let_def)
  then show ?thesis using data safe handle_recv_serialized [OF ok data, of 0 ?src ?s] by auto
qed

text \<open>C6: A packet whose Verification Tag is neither the one this endpoint gave out nor the peer's own cannot touch the association it names: unless
  it leads with INIT or COOKIE ECHO, which are judged by other means, no association, timer, received message or notification changes,
  whatever else the packet holds.\<close>

theorem wrong_tag_harmless:
  assumes "list_all chunk_good (pkt_chunks pkt)" "packet_key pkt src s = Inr key" "associations s key = Some assoc"
    and "pkt_chunks pkt = first # rest" "chunk_type first \<noteq> INIT" "chunk_type first \<noteq> COOKIE_ECHO"
    and "verification_tag (pkt_header pkt) \<noteq> this_ver_tag assoc" "verification_tag (pkt_header pkt) \<noteq> peer_ver_tag assoc"
  shows "\<exists>s'. handle_packet now pkt src s = Returns s' \<and> associations s' = associations s \<and> expirations s' = expirations s
    \<and> receives s' = receives s \<and> notifications s' = notifications s"
proof -
  have "res_ok (\<lambda>v. v \<noteq> ACCEPT \<and> v \<noteq> ABORT_INIT) (validate_verification_tag pkt key s)"
    using assms ootb_response_ok [OF assms(1)] by (auto simp: validate_verification_tag_def Let_def)
  then obtain v where "validate_verification_tag pkt key s = Inr v" "v \<noteq> ACCEPT" "v \<noteq> ABORT_INIT"
    by (cases "validate_verification_tag pkt key s") auto
  then show ?thesis
    using assms(2)
    by (cases v) (auto simp: handle_packet_def Let_def send_abort_def send_control_def enqueue_packet_def)
qed

definition example_sack_packet :: "u32 \<Rightarrow> SCTP_Packet" where
  "example_sack_packet tag = build_sack 9 9 tag 4 65535 [] []"

theorem wrong_tag_harmless_witness:
  "\<exists>s'. handle_packet 0 (example_sack_packet 6) \<lparr>s_addr = 1, sin_port = 9\<rparr>
      (put_association \<lparr>s_addr = 1, sin_port = htons 9\<rparr> (example_peer 5 9) empty_socket) = Returns s'
    \<and> associations s' \<lparr>s_addr = 1, sin_port = htons 9\<rparr> = Some (example_peer 5 9)"
proof -
  let ?s = "put_association \<lparr>s_addr = 1, sin_port = htons 9\<rparr> (example_peer 5 9) empty_socket"
  have "packet_key (example_sack_packet 6) \<lparr>s_addr = 1, sin_port = 9\<rparr> ?s = Inr \<lparr>s_addr = 1, sin_port = htons 9\<rparr>"
    by (simp add: packet_key_def association_key_for_def peer_key_def path_key_def example_sack_packet_def single_chunk_builders)
  moreover have "this_ver_tag (example_peer 5 9) = 7" "peer_ver_tag (example_peer 5 9) = 8"
    by (simp_all add: example_peer_def init_new_association_def)
  ultimately have "\<exists>s'. handle_packet 0 (example_sack_packet 6) \<lparr>s_addr = 1, sin_port = 9\<rparr> ?s = Returns s'
      \<and> associations s' = associations ?s \<and> expirations s' = expirations ?s
      \<and> receives s' = receives ?s \<and> notifications s' = notifications ?s"
    by (intro wrong_tag_harmless [where key = "\<lparr>s_addr = 1, sin_port = htons 9\<rparr>" and assoc = "example_peer 5 9"
      and first = "hd (pkt_chunks (example_sack_packet 6))" and rest = "[]"])
      (simp_all add: example_sack_packet_def single_chunk_builders chunk_good_def chunk_typed_def init_small_def)
  then show ?thesis by auto
qed

end
