(* ===== verification/Association_Setup.thy ===== *)
theory Association_Setup
  imports Packet_Input
begin

text \<open>
  Two sockets set an association up: \<open>sctp_associate\<close> on one side and, on both, \<open>handle_recv_packet\<close> on the bytes of the packets the other
  side queues. No operation is defined here that the code has; \<open>transmit\<close> says that a packet is carried from one socket to the other.
\<close>

subsection \<open>A packet carried from one socket to the other\<close>

definition newest_packet :: "Socket \<Rightarrow> SCTP_Packet" where
  "newest_packet s = dl_packet (q_deliverable (last (control (sends s))))"

definition transmit :: "time \<Rightarrow> sockaddr_in \<Rightarrow> Socket \<Rightarrow> Socket \<Rightarrow> Socket outcome" where
  "transmit now src sender receiver =
     bind_outcome (lift_res (serialize_sctp_packet (newest_packet sender))) (\<lambda>data. handle_recv_packet now data src receiver)"

lemma transmit_received:
  assumes "list_all chunk_ok (pkt_chunks (newest_packet a))"
  shows "transmit now src a b = handle_packet now (on_wire (newest_packet a)) src b"
  using packets.encodes [OF assms] handle_recv_serialized [OF assms] by (auto simp: transmit_def)

lemma newest_send_control [simp]:
  "length (control (sends s)) < 256 \<Longrightarrow> newest_packet (send_control k d p s) = p"
  "length (control (sends s)) < 256 \<Longrightarrow> length (control (sends (send_control k d p s))) = Suc (length (control (sends s)))"
  by (simp_all add: newest_packet_def send_control_def enqueue_packet_def enqueue_def)

lemma send_control_keeps [simp]:
  "local_address (send_control k d p s) = local_address s" "cookie_authorizer (send_control k d p s) = cookie_authorizer s"
  by (simp_all add: send_control_def enqueue_packet_def)

subsection \<open>What the two ends agree on\<close>

text \<open>The identity of an association: what the two ends have to agree on.\<close>

definition ident :: "Association \<Rightarrow> Association_State \<times> u32 \<times> u32 \<times> u32 \<times> u32 \<times> u16 \<times> u16" where
  "ident assoc = (assoc_state assoc, this_ver_tag assoc, peer_ver_tag assoc, next_tsn assoc, last_peer_tsn assoc, out_streams assoc,
     in_streams assoc)"

lemma ident_paths [simp]: "ident (assoc\<lparr>peer_address_list := ps\<rparr>) = ident assoc"
  by (simp add: ident_def)

subsection \<open>The server answers an INIT\<close>

definition init_packet :: "u16 \<Rightarrow> u16 \<Rightarrow> u32 \<Rightarrow> u32 \<Rightarrow> SCTP_Packet" where
  "init_packet src des tag tsn = append_chunk (packet_with_header src des 0) INIT
     (Init_Value \<lparr>initiate_tag = tag, init_a_rwnd = of_nat RWND, init_out_streams = LOCAL_OUT_STREAMS,
        init_in_streams = LOCAL_MAX_IN_STREAMS, initial_tsn = tsn, optional_parameters = []\<rparr>) 0"

definition init_ack_packet :: "u16 \<Rightarrow> u16 \<Rightarrow> u32 \<Rightarrow> u32 \<Rightarrow> u32 \<Rightarrow> bytes \<Rightarrow> SCTP_Packet" where
  "init_ack_packet src des peer_tag tag tsn cookie = append_chunk (packet_with_header src des peer_tag) INIT_ACK
     (Init_Value \<lparr>initiate_tag = tag, init_a_rwnd = of_nat RWND, init_out_streams = LOCAL_OUT_STREAMS,
        init_in_streams = LOCAL_MAX_IN_STREAMS, initial_tsn = tsn, optional_parameters = param_bytes PARAM_STATE_COOKIE cookie\<rparr>) 0"

lemma build_init_plain: "build_init src des tag tsn 0 = Inr (init_packet src des tag tsn)"
  by (simp add: build_init_def init_packet_def)

lemma build_init_ack_plain: "param_fits cookie \<Longrightarrow> build_init_ack src des peer_tag tag tsn cookie [] = Inr (init_ack_packet src des peer_tag tag tsn cookie)"
  by (simp add: build_init_ack_def init_ack_packet_def append_parameter_eq)

lemma scan_nothing: "scan_parameters [] known = Inr \<lparr>recognized = [], reported = []\<rparr>" "find_parameter [] t = Inr None"
  by (simp_all add: scan_parameters_def scan_parameters_at.simps find_parameter_def find_parameter_at.simps)

lemma no_addresses: "transport_addresses src [] = Inr [src]" "cookie_preservative [] = Inr 0"
  by (simp_all add: transport_addresses_def find_ipv4_addresses_def find_ipv4_addresses_at.simps cookie_preservative_def scan_nothing)

lemma draw_tag_drawn: "draw_tag s = Returns (tag, s') \<Longrightarrow> tag \<noteq> 0 \<and> (\<exists>e. s' = s\<lparr>entropy := e\<rparr>)"
proof -
  have "nonzero_tag bs = Some (t, rest) \<Longrightarrow> t \<noteq> 0" for bs t rest
    by (induction bs rule: nonzero_tag.induct) (auto simp: Let_def split: if_splits)
  then show "draw_tag s = Returns (tag, s') \<Longrightarrow> tag \<noteq> 0 \<and> (\<exists>e. s' = s\<lparr>entropy := e\<rparr>)"
    by (auto simp: draw_tag_def generate_nonzero_tag_def split: option.splits)
qed

lemma length_signed_cookie: "ck_peer_addresses c = [] \<Longrightarrow> length (signed_cookie secret c) = 96"
  by (simp add: signed_cookie_def Let_def serialize_cookie_fields_def tsn_bytes_def append16_def append32_def)

lemma init_chunk_ok: "20 + length (optional_parameters v) \<le> 65535 \<Longrightarrow> t = INIT \<or> t = INIT_ACK \<Longrightarrow>
    list_all chunk_ok (pkt_chunks (append_chunk (packet_with_header src des tag) t (Init_Value v) 0))"
  by (auto simp: append_chunk_def packet_with_header_def chunk_ok_def chunk_typed_def length_init_value_bytes simp del: value_bytes.simps)

text \<open>The cookie the server puts into its answer to an INIT of a client it does not know.\<close>

definition answer_cookie :: "Cookie_Auth \<Rightarrow> time \<Rightarrow> SCTP_Packet \<Rightarrow> init_chunk_value \<Rightarrow> sockaddr_in \<Rightarrow> u32 \<Rightarrow> u32 \<Rightarrow> State_Cookie" where
  "answer_cookie ca now pkt init src tag tsn = cookie_for ca now (pkt_header (on_wire pkt)) init src tag tsn 0 0 0 []"

definition plain_init :: "u32 \<Rightarrow> u32 \<Rightarrow> init_chunk_value" where
  "plain_init tag tsn = \<lparr>initiate_tag = tag, init_a_rwnd = of_nat RWND, init_out_streams = LOCAL_OUT_STREAMS,
     init_in_streams = LOCAL_MAX_IN_STREAMS, initial_tsn = tsn, optional_parameters = []\<rparr>"

lemma server_answers_init:
  fixes src pa pb tag tsn now
  defines "k \<equiv> peer_key src pa" and "init \<equiv> init_packet pa pb tag tsn"
  assumes "local_port b = pb" "associations b k = None" "peer_addresses b k = None" "tag \<noteq> 0" "draw_tag b = Returns (tag_b, b0)"
  shows "\<exists>ca fresh tsn_b e. ca = rotate_if_due fresh now (cookie_authorizer b) \<and>
    handle_packet now (on_wire init) src b = Returns (send_control k src
      (init_ack_packet pb pa tag tag_b tsn_b (signed_cookie (current_secret ca) (answer_cookie ca now init (plain_init tag tsn) src tag_b tsn_b)))
      (b\<lparr>cookie_authorizer := ca, entropy := e\<rparr>))"
proof -
  obtain e where b0: "b0 = b\<lparr>entropy := e\<rparr>" using draw_tag_drawn [OF assms(7)] by blast
  define tsn_b where "tsn_b = fst (random32 b0)"
  obtain e1 where b1: "snd (random32 b0) = b\<lparr>entropy := e1\<rparr>" by (auto simp: random32_def Let_def b0)
  define fresh where "fresh = resize0 COOKIE_SECRET_SIZE e1"
  define ca where "ca = rotate_if_due fresh now (cookie_authorizer b)"
  let ?h = "pkt_header (on_wire init)" and ?i = "plain_init tag tsn"
  let ?cookie = "signed_cookie (current_secret ca) (answer_cookie ca now init ?i src tag_b tsn_b)"
  obtain c where chunks: "pkt_chunks (on_wire init) = [c]" "chunk_type c = INIT" "chunk_value c = Init_Value ?i"
    by (simp add: init_def on_wire_def init_packet_def append_chunk_def packet_with_header_def with_wire_length_def plain_init_def)
  have h: "src_port ?h = pa" "des_port ?h = pb" "verification_tag ?h = 0"
    by (simp_all add: init_def on_wire_def init_packet_def append_chunk_def packet_with_header_def)
  have len: "length ?cookie = 96" by (simp add: length_signed_cookie answer_cookie_def cookie_for_def)
  obtain e2 where gen: "generate_cookie now ?h ?i src tag_b tsn_b 0 0 0 [] (b\<lparr>entropy := e1\<rparr>) =
      Inr (?cookie, b\<lparr>cookie_authorizer := ca, entropy := e2\<rparr>)"
    by (auto simp: generate_cookie_def generate_eq ca_def fresh_def answer_cookie_def)
  have ans: "answer_init tag_b (fst (random32 b0)) [src] k src (snd (random32 b0)) = Returns (Send_Init_Ack tag_b tsn_b 0 0 src, b\<lparr>entropy := e1\<rparr>)"
    using assms(4) unfolding b1 tsn_b_def by (simp add: answer_init_def)
  have tag: "initiate_tag ?i = tag" by (simp add: plain_init_def)
  have ack: "send_init_ack now ?h ?i k src [] 0 [src] tag_b tsn_b 0 0 src (b\<lparr>entropy := e1\<rparr>) =
      Inr (send_control k src (init_ack_packet pb pa tag tag_b tsn_b ?cookie) (b\<lparr>cookie_authorizer := ca, entropy := e2\<rparr>))"
    using len unfolding send_init_ack_def list.sel list.map gen bind_res_Inr prod.case h tag
    by (simp add: trim_reports_def build_init_ack_plain param_fits_def)
  have fin: "finish_init now ?h ?i k src \<lparr>recognized = [], reported = []\<rparr> b = Returns (send_control k src
      (init_ack_packet pb pa tag tag_b tsn_b ?cookie) (b\<lparr>cookie_authorizer := ca, entropy := e2\<rparr>))"
    by (simp add: finish_init_def no_addresses assms(7) ans carry_out_answer_def ack)
  have key: "association_key_for k b = k" using assms(4,5) by (simp add: association_key_for_def)
  have pk: "packet_key (on_wire init) src b = Inr k"
    using assms(4) key chunks
    by (simp add: packet_key_def h k_def [symmetric] init_addresses_def get_init_def scan_init_def plain_init_def scan_nothing no_addresses Let_def)
  have hi: "handle_init now ?h ?i k src b = Returns (send_control k src
      (init_ack_packet pb pa tag tag_b tsn_b ?cookie) (b\<lparr>cookie_authorizer := ca, entropy := e2\<rparr>))"
    using assms(6) fin by (simp add: handle_init_def scan_init_def plain_init_def scan_nothing)
  show ?thesis
    apply (rule exI [of _ ca], rule exI [of _ fresh], rule exI [of _ tsn_b], rule exI [of _ e2])
    using pk hi chunks assms(3,4) h
    by (simp add: handle_packet_def validate_verification_tag_def accept_packet_def process_chunks_def give_more_time_def
        dispatch_chunk_def get_init_def handle_no_data ca_def)
qed

subsection \<open>The client answers the INIT ACK\<close>

lemma scan_cookie:
  assumes "param_fits cookie"
  shows "scan_parameters (param_bytes PARAM_STATE_COOKIE cookie) (PARAM_STATE_COOKIE # known) =
      Inr \<lparr>recognized = param_bytes PARAM_STATE_COOKIE cookie, reported = []\<rparr>"
    and "find_parameter (param_bytes PARAM_STATE_COOKIE cookie) PARAM_STATE_COOKIE = Inr (Some cookie)"
    and "find_parameter (param_bytes PARAM_STATE_COOKIE cookie) PARAM_HOST_NAME_ADDRESS = Inr None"
    and "find_ipv4_addresses (param_bytes PARAM_STATE_COOKIE cookie) = Inr []"
proof -
  let ?b = "param_bytes PARAM_STATE_COOKIE cookie"
  show "scan_parameters ?b (PARAM_STATE_COOKIE # known) = Inr \<lparr>recognized = ?b, reported = []\<rparr>"
    using scan_parameters_at_spec [of "[(PARAM_STATE_COOKIE, cookie)]" "[]" "PARAM_STATE_COOKIE # known"] assms
    by (simp add: scan_parameters_def params_bytes_def)
  show "find_parameter ?b PARAM_STATE_COOKIE = Inr (Some cookie)"
    using find_parameter_at_param [OF assms, of "[]" PARAM_STATE_COOKIE "[]" PARAM_STATE_COOKIE] by (simp add: find_parameter_def)
  have past: "\<not> pad4 (4 + length cookie) + 4 \<le> length ?b" by simp
  then show "find_parameter ?b PARAM_HOST_NAME_ADDRESS = Inr None"
    using find_parameter_at_param [OF assms, of "[]" PARAM_STATE_COOKIE "[]" PARAM_HOST_NAME_ADDRESS]
    by (simp add: find_parameter_def find_parameter_at.simps [of _ _ "pad4 (4 + length cookie)"])
  obtain len where "read16 ?b 0 = Inr PARAM_STATE_COOKIE" "read16 ?b 2 = Inr len" "unat len = 4 + length cookie"
    using param_header [OF assms, of "[]" PARAM_STATE_COOKIE "[]"] by (auto simp: numeral_2_eq_2)
  then show "find_ipv4_addresses ?b = Inr []"
    using past pad4_ge [of "4 + length cookie"] unfolding find_ipv4_addresses_def
    by (subst find_ipv4_addresses_at.simps) (simp add: numeral_2_eq_2 find_ipv4_addresses_at.simps [of _ "pad4 (4 + length cookie)"])
qed

lemma record_encapsulation_known:
  assumes "associations s k = Some x"
  obtains ps where "record_encapsulation_port k src s = put_association k (x\<lparr>peer_address_list := ps\<rparr>) s"
    "find_path (x\<lparr>peer_address_list := ps\<rparr>) src = find_path x src"
proof (cases "find_path x src")
  case None
  then show ?thesis using assms that [of "peer_address_list x"]
    by (simp add: record_encapsulation_port_def put_association_def fun_upd_idem)
next
  case (Some i)
  have idx: "find_index P (ps[i := p]) = Some i" if "find_index P ps = Some i" "P p" for P p and ps :: "Peer_Path list"
    using that by (induction ps arbitrary: i) (auto split: if_splits)
  let ?p = "path_at x i"
  have "P (ps ! i)" if "find_index P ps = Some i" for P and ps :: "Peer_Path list"
    using that by (induction ps arbitrary: i) (auto split: if_splits)
  then have "same_destination (address ?p) src" using Some by (simp add: find_path_def)
  then have "find_path (x\<lparr>peer_address_list := (peer_address_list x)[i := ?p\<lparr>address := (address ?p)\<lparr>sin_port := sin_port src\<rparr>\<rparr>]\<rparr>) src = find_path x src"
    using Some by (simp add: find_path_def idx same_destination_def)
  moreover have "record_encapsulation_port k src s =
      put_association k (x\<lparr>peer_address_list := (peer_address_list x)[i := ?p\<lparr>address := (address ?p)\<lparr>sin_port := sin_port src\<rparr>\<rparr>]\<rparr>) s"
    using Some assms by (simp add: record_encapsulation_port_def Let_def)
  ultimately show ?thesis by (rule that [rotated])
qed

lemma add_known_address:
  "find_path x a \<noteq> None \<Longrightarrow> same_destination a k \<Longrightarrow> add_peer_addresses k x [a] s = put_association k x s"
  by (auto simp: add_peer_addresses_def add_peer_address_def put_association_def)

lemma client_answers_init_ack:
  fixes src pa pb cookie tag tag_b tsn_b
  defines "k \<equiv> peer_key src pb" and "ack \<equiv> init_ack_packet pb pa tag tag_b tsn_b cookie"
  assumes "local_port a = pa" "associations a k = Some x" "assoc_state x = COOKIE_WAIT" "this_ver_tag x = tag" "find_path x src \<noteq> None"
    and "tag_b \<noteq> 0" "length cookie = 96"
  shows "\<exists>x' d s1. handle_packet now (on_wire ack) src a = Returns (send_control k d (build_cookie_echo pa pb tag_b cookie []) s1) \<and>
    associations s1 = (associations a)(k \<mapsto> x') \<and> control (sends s1) = control (sends a) \<and> local_address s1 = local_address a \<and>
    ident x' = (COOKIE_ECHOED, tag, tag_b, next_tsn x, tsn_b - 1, 10, 10) \<and> find_path x' src \<noteq> None"
proof -
  define i where "i = \<lparr>initiate_tag = tag_b, init_a_rwnd = of_nat RWND, init_out_streams = LOCAL_OUT_STREAMS,
    init_in_streams = LOCAL_MAX_IN_STREAMS, initial_tsn = tsn_b, optional_parameters = param_bytes PARAM_STATE_COOKIE cookie\<rparr>"
  let ?h = "pkt_header (on_wire ack)"
  obtain c where chunks: "pkt_chunks (on_wire ack) = [c]" "chunk_type c = INIT_ACK" "chunk_value c = Init_Value i"
    by (simp add: ack_def on_wire_def init_ack_packet_def append_chunk_def packet_with_header_def with_wire_length_def i_def)
  have h: "src_port ?h = pb" "des_port ?h = pa" "verification_tag ?h = tag"
    by (simp_all add: ack_def on_wire_def init_ack_packet_def append_chunk_def packet_with_header_def)
  have fits: "param_fits cookie" using assms(9) by (simp add: param_fits_def)
  obtain ps where rec: "record_encapsulation_port k src a = put_association k (x\<lparr>peer_address_list := ps\<rparr>) a"
    "find_path (x\<lparr>peer_address_list := ps\<rparr>) src \<noteq> None"
    using record_encapsulation_known [OF assms(4), of src] assms(7) by metis
  define y where "y = x\<lparr>peer_address_list := ps\<rparr>"
  define a1 where "a1 = put_association k y a"
  have y: "assoc_state y = COOKIE_WAIT" "find_path y src \<noteq> None" using rec(2) assms(5) by (simp_all add: y_def)
  have more_time: "give_more_time now k a1 = a1" by (simp add: give_more_time_def a1_def put_association_def y)
  have same: "same_destination src k" by (simp add: same_destination_def k_def peer_key_def path_key_def)
  define s1 where "s1 = drop_retransmissions k INIT None (cancel_expiration (association_timer k T1_INIT) (put_association k (learn_init_ack i y) a1))"
  have acc: "accept_init_ack ?h i k src [src] cookie [] y a1 = send_control k (reply_destination y src) (build_cookie_echo pa pb tag_b cookie []) s1"
    unfolding accept_init_ack_def add_known_address [OF y(2) same] Let_def s1_def h
    by (simp add: a1_def put_association_def trim_reports_def unrecognized_parameters_def i_def)
  have hia: "handle_init_ack ?h i k src a1 = Inr (send_control k (reply_destination y src) (build_cookie_echo pa pb tag_b cookie []) s1)"
    using assms(8) scan_cookie [OF fits] acc
    by (simp add: handle_init_ack_def a1_def put_association_def y scan_init_ack_def i_def transport_addresses_def)
  have key: "association_key_for k a = k" using assms(4) by (simp add: association_key_for_def)
  have pk: "packet_key (on_wire ack) src a = Inr k"
    using assms(4) key by (simp add: packet_key_def h k_def [symmetric])
  have hp: "handle_packet now (on_wire ack) src a = Returns (send_control k (reply_destination y src) (build_cookie_echo pa pb tag_b cookie []) s1)"
    using pk chunks assms(3,4,6) h rec(1) more_time hia
    by (simp add: handle_packet_def validate_verification_tag_def accept_packet_def process_chunks_def contains_chunk_def
        dispatch_chunk_def get_init_def handle_no_data y_def [symmetric] a1_def [symmetric])
  have "associations s1 = (associations a)(k \<mapsto> learn_init_ack i y)" "control (sends s1) = control (sends a)" "local_address s1 = local_address a"
    by (simp_all add: s1_def a1_def drop_retransmissions_def cancel_expiration_def put_association_def remove_retransmissions_of_type_def)
  moreover have "ident (learn_init_ack i y) = (COOKIE_ECHOED, tag, tag_b, next_tsn x, tsn_b - 1, 10, 10)"
    using assms(6) by (simp add: ident_def learn_init_ack_def i_def y_def)
  moreover have "find_path (learn_init_ack i y) src \<noteq> None" using y(2) by (simp add: learn_init_ack_def find_path_def)
  ultimately show ?thesis using hp by blast
qed

subsection \<open>Heartbeats start\<close>

definition paths_only :: "Association \<Rightarrow> Socket \<Rightarrow> Association \<times> Socket \<Rightarrow> bool" where
  "paths_only x s state \<longleftrightarrow>
     (\<exists>ps. fst state = x\<lparr>peer_address_list := ps\<rparr>) \<and> associations (snd state) = associations s \<and> sends (snd state) = sends s"

lemma plan_next_probe_paths: "paths_only x s (y, u) \<Longrightarrow> paths_only x s (plan_next_probe now i (y, u))"
  by (auto simp: paths_only_def plan_next_probe_def Let_def random32_def)

lemma start_heartbeat_paths: "paths_only x s state \<Longrightarrow> paths_only x s (start_heartbeat now k state i)"
proof -
  assume a: "paths_only x s state"
  obtain y u where p: "plan_next_probe now i state = (y, u)" by (rule prod.exhaust)
  have "paths_only x s (y, u)" using plan_next_probe_paths [of x s "fst state" "snd state" now i] a p by simp
  then show ?thesis
    by (auto simp: start_heartbeat_def p Let_def paths_only_def arm_heartbeat_def)
qed

lemma beat_hearts_paths:
  assumes "associations s k = Some x"
  shows "\<exists>ps. associations (beat_hearts now k s) = (associations s)(k \<mapsto> x\<lparr>peer_address_list := ps\<rparr>)" "sends (beat_hearts now k s) = sends s"
proof -
  obtain y u where p: "start_heartbeats now k (x, s) = (y, u)" by (rule prod.exhaust)
  have "paths_only x s (foldl (start_heartbeat now k) state ixs)" if "paths_only x s state" for state ixs
    using that by (induction ixs arbitrary: state) (simp_all add: start_heartbeat_paths)
  moreover have "paths_only x s (x, s)" by (auto simp: paths_only_def intro: exI [of _ "peer_address_list x"])
  ultimately have "paths_only x s (y, u)" unfolding p [symmetric] start_heartbeats_def by blast
  then show "\<exists>ps. associations (beat_hearts now k s) = (associations s)(k \<mapsto> x\<lparr>peer_address_list := ps\<rparr>)" "sends (beat_hearts now k s) = sends s"
    by (auto simp: beat_hearts_def assms p paths_only_def put_association_def)
qed

subsection \<open>The server accepts the cookie\<close>

lemma answered_cookie_valid:
  fixes ca t1 pkt i src tag tsn
  defines "c \<equiv> answer_cookie ca t1 pkt i src tag tsn"
  assumes "auth_initialized ca" "0 \<le> t1" "t1 \<le> t" "t < 2 ^ 63" "t - t1 \<le> seconds 60"
    and "src_port header = src_port (pkt_header pkt)" "des_port header = des_port (pkt_header pkt)" "verification_tag header = tag"
    and "s_addr src' = s_addr src"
  shows "\<exists>m. verify ca t (signed_cookie (current_secret ca) c) header src' = Inr (VALID, Some (c\<lparr>mac := m\<rparr>), 0)"
proof -
  have "secret_for ca (generation ca) = Some (current_secret ca)" using assms(2) by (simp add: secret_for_def)
  moreover have "t - t1 \<le> microseconds (cookie_lifespan 0)" using assms(6) cookie_lifespan_bounds [of 0] by linarith
  ultimately show ?thesis
    using assms(7-10) signed_cookie_age [OF assms(3-5), of 0] verify_signed [of c ca "current_secret ca" header src' t]
    by (auto simp: c_def answer_cookie_def cookie_for_def on_wire_def)
qed

lemma set_up_associations:
  fixes c now b
  defines "x \<equiv> init_new_association_from_cookie c" and "k \<equiv> cookie_key c"
  assumes "ck_peer_addresses c = []"
  shows "\<exists>ps. associations (set_up now k c change b) = (associations b)(k \<mapsto> x\<lparr>peer_address_list := ps\<rparr>)"
    "sends (set_up now k c change b) = sends b"
proof -
  have "find_path x (cookie_source c) \<noteq> None" "same_destination (cookie_source c) k" "cookie_addresses c = [cookie_source c]"
    using assms(3) by (simp_all add: x_def init_new_association_from_cookie_def find_path_def make_path_def same_destination_def k_def
        cookie_key_def peer_key_def path_key_def cookie_addresses_def)
  then have add: "add_peer_addresses k x (cookie_addresses c) u = put_association k x u" for u
    by (simp add: add_known_address)
  show "\<exists>ps. associations (set_up now k c change b) = (associations b)(k \<mapsto> x\<lparr>peer_address_list := ps\<rparr>)"
    "sends (set_up now k c change b) = sends b"
    unfolding set_up_def x_def [symmetric] Let_def add
    using beat_hearts_paths [of "notify_assoc_change k change (put_association k x (put_association k x b))" k x now]
    by (auto simp: notify_assoc_change_def raise_notification_def put_association_def)
qed

lemma server_accepts_cookie:
  fixes src pa pb tag tsn tag_b tsn_b ca t1
  defines "k \<equiv> peer_key src pa" and "init \<equiv> init_packet pa pb tag tsn"
  defines "cookie \<equiv> signed_cookie (current_secret ca) (answer_cookie ca t1 init (plain_init tag tsn) src tag_b tsn_b)"
  defines "echo \<equiv> build_cookie_echo pa pb tag_b cookie []"
  assumes "cookie_authorizer b = ca" "auth_initialized ca" "0 \<le> t1" "t1 \<le> t" "t < 2 ^ 63" "t - t1 \<le> seconds 60"
    and "local_port b = pb" "associations b k = None" "peer_addresses b k = None" "length (control (sends b)) < 256"
  shows "\<exists>y s'. handle_packet t (on_wire echo) src b = Returns s' \<and> newest_packet s' = build_cookie_ack pb pa tag \<and>
    associations s' = (associations b)(k \<mapsto> y) \<and> ident y = (ESTABLISHED, tag_b, tag, tsn_b, tsn - 1, 10, 10)"
proof -
  let ?h = "pkt_header (on_wire echo)"
  obtain c where chunks: "pkt_chunks (on_wire echo) = [c]" "chunk_type c = COOKIE_ECHO" "chunk_value c = Cookie_Echo_Value cookie"
    by (simp add: echo_def on_wire_def build_cookie_echo_def append_chunk_def packet_with_header_def with_wire_length_def)
  have chunk_same: "on_wire echo = (on_wire echo)\<lparr>pkt_chunks := [c]\<rparr>" using chunks(1) by simp
  have h: "src_port ?h = pa" "des_port ?h = pb" "verification_tag ?h = tag_b"
    by (simp_all add: echo_def on_wire_def build_cookie_echo_def append_chunk_def packet_with_header_def)
  define sc where "sc m = (answer_cookie ca t1 init (plain_init tag tsn) src tag_b tsn_b)\<lparr>mac := m\<rparr>" for m
  obtain m where ver: "verify ca t cookie ?h src = Inr (VALID, Some (sc m), 0)"
    unfolding cookie_def sc_def using answered_cookie_valid [OF assms(6-10), of ?h init tag_b src src "plain_init tag tsn" tsn_b] h
    by (auto simp: init_def init_packet_def append_chunk_def packet_with_header_def)
  have source: "ck_peer_addresses (sc m) = []" "ck_peer_ver_tag (sc m) = tag" and ck: "cookie_key (sc m) = k"
    by (simp_all add: cookie_key_def cookie_source_def peer_key_def path_key_def k_def sc_def answer_cookie_def cookie_for_def on_wire_def
        plain_init_def init_def init_packet_def append_chunk_def packet_with_header_def)
  have key: "association_key_for k b = k" using assms(12,13) by (simp add: association_key_for_def)
  define x where "x = init_new_association_from_cookie (sc m)"
  have x: "ident x = (ESTABLISHED, tag_b, tag, tsn_b, tsn - 1, 10, 10)"
    by (simp add: x_def ident_def init_new_association_from_cookie_def sc_def answer_cookie_def cookie_for_def plain_init_def)
  define s1 where "s1 = set_up t k (sc m) COMM_UP b"
  obtain ps where s1: "associations s1 = (associations b)(k \<mapsto> x\<lparr>peer_address_list := ps\<rparr>)" "sends s1 = sends b"
    unfolding s1_def x_def using set_up_associations [OF source(1), of t COMM_UP b] by (auto simp: ck)
  define s2 where "s2 = send_control k (reply_to k src s1) (build_cookie_ack pb pa tag) s1"
  have echoed: "handle_cookie_echo t ?h cookie k src b = Inr (True, k, s2)"
    using assms(12) source(2)
    by (simp add: handle_cookie_echo_def assms(5) ver ck key s1_def [symmetric] send_cookie_ack_def h s2_def)
  have s2: "associations s2 k = Some (x\<lparr>peer_address_list := ps\<rparr>)" "associations s2 = associations s1"
    "newest_packet s2 = build_cookie_ack pb pa tag"
    using s1 assms(14) by (simp_all add: s2_def)
  obtain qs where rec: "record_encapsulation_port k src s2 = put_association k (x\<lparr>peer_address_list := qs\<rparr>) s2"
    using record_encapsulation_known [OF s2(1), of src] by auto
  have "process_chunks t (on_wire echo) k src True [] s2 = Returns (put_association k (x\<lparr>peer_address_list := qs\<rparr>) s2)"
    using chunks x by (simp add: process_chunks_def rec give_more_time_def put_association_def handle_no_data ident_def)
  then have "process_chunks t ((on_wire echo)\<lparr>pkt_chunks := [c]\<rparr>) k src True [] s2 = Returns (put_association k (x\<lparr>peer_address_list := qs\<rparr>) s2)"
    by (subst (asm) chunk_same)
  then have "handle_packet t (on_wire echo) src b = Returns (put_association k (x\<lparr>peer_address_list := qs\<rparr>) s2)"
    using chunks h assms(11,12) key echoed
    by (simp add: handle_packet_def packet_key_def k_def [symmetric] init_addresses_def validate_verification_tag_def accept_packet_def)
  moreover have "associations (put_association k (x\<lparr>peer_address_list := qs\<rparr>) s2) = (associations b)(k \<mapsto> x\<lparr>peer_address_list := qs\<rparr>)"
    using s1 s2 by (simp add: put_association_def)
  moreover have "newest_packet (put_association k (x\<lparr>peer_address_list := qs\<rparr>) s2) = build_cookie_ack pb pa tag"
    using s2(3) by (simp add: newest_packet_def)
  ultimately show ?thesis using x by (metis ident_paths)
qed

subsection \<open>The client comes up\<close>

lemma client_comes_up:
  fixes src pb pa tag
  defines "k \<equiv> peer_key src pb" and "ack \<equiv> build_cookie_ack pb pa tag"
  assumes "local_port a = pa" "associations a k = Some x" "ident x = (COOKIE_ECHOED, tag, tag_b, tsn, tsn_b, outs, ins)"
  shows "\<exists>y s'. handle_packet now (on_wire ack) src a = Returns s' \<and> associations s' = (associations a)(k \<mapsto> y) \<and>
    ident y = (ESTABLISHED, tag, tag_b, tsn, tsn_b, outs, ins)"
proof -
  let ?h = "pkt_header (on_wire ack)"
  obtain c where chunks: "pkt_chunks (on_wire ack) = [c]" "chunk_type c = COOKIE_ACK" "chunk_value c = Empty_Value"
    by (simp add: ack_def on_wire_def build_cookie_ack_def append_chunk_def packet_with_header_def with_wire_length_def)
  have h: "src_port ?h = pb" "des_port ?h = pa" "verification_tag ?h = tag"
    by (simp_all add: ack_def on_wire_def build_cookie_ack_def append_chunk_def packet_with_header_def)
  obtain ps where rec: "record_encapsulation_port k src a = put_association k (x\<lparr>peer_address_list := ps\<rparr>) a"
    using record_encapsulation_known [OF assms(4), of src] by auto
  define y where "y = x\<lparr>peer_address_list := ps\<rparr>"
  have y: "ident y = (COOKIE_ECHOED, tag, tag_b, tsn, tsn_b, outs, ins)" using assms(5) by (simp add: y_def)
  define a1 where "a1 = put_association k y a"
  have more_time: "give_more_time now k a1 = a1" using y by (simp add: give_more_time_def a1_def put_association_def ident_def)
  obtain qs where up: "associations (come_up now k y a1) = (associations a)(k \<mapsto> y\<lparr>assoc_state := ESTABLISHED, peer_address_list := qs\<rparr>)"
    unfolding come_up_def
    using beat_hearts_paths(1) [of "notify_assoc_change k COMM_UP (put_association k (y\<lparr>assoc_state := ESTABLISHED\<rparr>) a1)" k "y\<lparr>assoc_state := ESTABLISHED\<rparr>" now]
    by (auto simp: notify_assoc_change_def raise_notification_def put_association_def a1_def)
  have key: "association_key_for k a = k" using assms(4) by (simp add: association_key_for_def)
  have "handle_packet now (on_wire ack) src a = Returns (handle_cookie_ack now k a1)"
    using chunks h assms(3-5) key rec more_time
    by (simp add: handle_packet_def packet_key_def k_def [symmetric] validate_verification_tag_def accept_packet_def process_chunks_def
        contains_chunk_def dispatch_chunk_def handle_no_data y_def [symmetric] a1_def [symmetric] ident_def)
  moreover have "associations (handle_cookie_ack now k a1) = (associations a)(k \<mapsto> y\<lparr>assoc_state := ESTABLISHED, peer_address_list := qs\<rparr>)"
    using y up by (simp add: handle_cookie_ack_def a1_def put_association_def ident_def drop_retransmissions_def cancel_expiration_def)
  moreover have "ident (y\<lparr>assoc_state := ESTABLISHED, peer_address_list := qs\<rparr>) = (ESTABLISHED, tag, tag_b, tsn, tsn_b, outs, ins)"
    using y by (simp add: ident_def)
  ultimately show ?thesis by blast
qed

subsection \<open>The whole handshake\<close>

lemma associate_sends_init:
  assumes "sctp_associate (Some ip) port udp_port a = Returns (OK, Some k, a1)" "length (control (sends a)) < 256" "s_addr src = ip"
  shows "\<exists>tag tsn x. k = peer_key src (word_of_int port) \<and> tag \<noteq> 0 \<and> newest_packet a1 = init_packet (local_port a) (word_of_int port) tag tsn \<and>
    associations a1 = (associations a)(k \<mapsto> x) \<and> assoc_state x = COOKIE_WAIT \<and> this_ver_tag x = tag \<and> next_tsn x = tsn \<and>
    find_path x src \<noteq> None \<and> local_address a1 = local_address a \<and> length (control (sends a1)) = Suc (length (control (sends a)))"
proof -
  have run: "running a" using assms(1) by (auto simp: sctp_associate_def split: if_splits)
  define to where "to = \<lparr>s_addr = ip, sin_port = htons (word_of_int (case udp_port of None \<Rightarrow> port | Some p \<Rightarrow> p))\<rparr>"
  obtain tag e where tag: "draw_tag a = Returns (tag, a\<lparr>entropy := e\<rparr>)" "tag \<noteq> 0"
    using assms(1) run draw_tag_drawn [of a] by (cases "draw_tag a") (auto simp: sctp_associate_def)
  obtain tsn e' where tsn: "random32 (a\<lparr>entropy := e\<rparr>) = (tsn, a\<lparr>entropy := e'\<rparr>)" by (simp add: random32_def Let_def)
  define x where "x = init_new_association to tag tsn"
  have "k = peer_key to (word_of_int port) \<and> a1 = send_control k (primary_path x) (init_packet (local_port a) (peer_port k) tag tsn)
      (put_association k x (a\<lparr>entropy := e'\<rparr>))"
    using assms(1) run by (auto simp: sctp_associate_def tag tsn to_def [symmetric] x_def init_new_association_def build_init_plain Let_def
        split: if_splits)
  moreover have "peer_key to (word_of_int port) = peer_key src (word_of_int port)" "peer_port (peer_key src p) = p" for p
    using assms(3) by (simp_all add: peer_key_def path_key_def to_def)
  moreover have "assoc_state x = COOKIE_WAIT" "this_ver_tag x = tag" "next_tsn x = tsn" "find_path x src \<noteq> None"
    using assms(3) by (simp_all add: x_def init_new_association_def find_path_def make_path_def same_destination_def to_def)
  ultimately show ?thesis using tag(2) assms(2) by (auto simp: put_association_def)
qed

text \<open>The two ends of an association agree: each has the other's Verification Tag, expects the other's first TSN, and may send on as many
  streams as the other receives.\<close>

definition joined :: "Association \<Rightarrow> Association \<Rightarrow> bool" where
  "joined x y \<longleftrightarrow> assoc_state x = ESTABLISHED \<and> assoc_state y = ESTABLISHED \<and>
     this_ver_tag x \<noteq> 0 \<and> this_ver_tag y \<noteq> 0 \<and> peer_ver_tag x = this_ver_tag y \<and> peer_ver_tag y = this_ver_tag x \<and>
     last_peer_tsn x + 1 = next_tsn y \<and> last_peer_tsn y + 1 = next_tsn x \<and>
     out_streams x = in_streams y \<and> out_streams y = in_streams x"

lemma handshake_packets_ok:
  "list_all chunk_ok (pkt_chunks (init_packet src des tag tsn))"
  "length cookie = 96 \<Longrightarrow> list_all chunk_ok (pkt_chunks (init_ack_packet src des peer_tag tag tsn cookie))"
  "length cookie = 96 \<Longrightarrow> list_all chunk_ok (pkt_chunks (build_cookie_echo src des tag cookie []))"
  "list_all chunk_ok (pkt_chunks (build_cookie_ack src des tag))"
proof -
  show "list_all chunk_ok (pkt_chunks (init_packet src des tag tsn))" unfolding init_packet_def by (rule init_chunk_ok) simp_all
  show "list_all chunk_ok (pkt_chunks (init_ack_packet src des peer_tag tag tsn cookie))" if "length cookie = 96"
    unfolding init_ack_packet_def using that by (intro init_chunk_ok) (simp_all add: pad4_def)
  show "list_all chunk_ok (pkt_chunks (build_cookie_echo src des tag cookie []))" if "length cookie = 96"
    using that by (simp add: build_cookie_echo_def append_chunk_def packet_with_header_def chunk_ok_def chunk_typed_def)
  show "list_all chunk_ok (pkt_chunks (build_cookie_ack src des tag))"
    by (simp add: build_cookie_ack_def append_chunk_def packet_with_header_def chunk_ok_def chunk_typed_def)
qed

lemma carried:
  "newest_packet a = p \<Longrightarrow> list_all chunk_ok (pkt_chunks p) \<Longrightarrow> handle_packet now (on_wire p) src b = r \<Longrightarrow> transmit now src a b = r"
  using transmit_received by simp

text \<open>INIT and its answer: the server keeps nothing but the cookie's key, and the client has the cookie to echo.\<close>

lemma first_round:
  fixes pa pb tag tsn src_a src_b
  defines "init \<equiv> init_packet pa pb tag tsn" and "ka \<equiv> peer_key src_b pb" and "kb \<equiv> peer_key src_a pa"
  assumes "newest_packet a = init" "tag \<noteq> 0" "local_port a = pa" "length (control (sends a)) < 256" "associations a ka = Some x"
    and "assoc_state x = COOKIE_WAIT" "this_ver_tag x = tag" "next_tsn x = tsn" "find_path x src_b \<noteq> None"
    and "local_port b = pb" "associations b kb = None" "peer_addresses b kb = None" "length (control (sends b)) < 255"
    and "draw_tag b = Returns (tag_b, b0)"
  obtains b1 a2 ca cookie tsn_b x2 where "transmit t1 src_a a b = Returns b1" "transmit t2 src_b b1 a = Returns a2"
    "cookie = signed_cookie (current_secret ca) (answer_cookie ca t1 init (plain_init tag tsn) src_a tag_b tsn_b)" "length cookie = 96"
    "cookie_authorizer b1 = ca" "auth_initialized ca" "local_port b1 = pb" "associations b1 = associations b" "peer_addresses b1 kb = None"
    "length (control (sends b1)) < 256" "newest_packet a2 = build_cookie_echo pa pb tag_b cookie []" "local_port a2 = pa"
    "associations a2 = (associations a)(ka \<mapsto> x2)" "ident x2 = (COOKIE_ECHOED, tag, tag_b, tsn, tsn_b - 1, 10, 10)"
proof -
  obtain ca fresh tsn_b e where ca: "ca = rotate_if_due fresh t1 (cookie_authorizer b)" and
    b1: "handle_packet t1 (on_wire init) src_a b = Returns (send_control kb src_a
      (init_ack_packet pb pa tag tag_b tsn_b (signed_cookie (current_secret ca) (answer_cookie ca t1 init (plain_init tag tsn) src_a tag_b tsn_b)))
      (b\<lparr>cookie_authorizer := ca, entropy := e\<rparr>))"
    using server_answers_init [OF assms(13-15) [unfolded kb_def] assms(5,17), of t1 tsn, folded kb_def init_def] by (elim exE conjE)
  define cookie where "cookie = signed_cookie (current_secret ca) (answer_cookie ca t1 init (plain_init tag tsn) src_a tag_b tsn_b)"
  define u1 where "u1 = send_control kb src_a (init_ack_packet pb pa tag tag_b tsn_b cookie) (b\<lparr>cookie_authorizer := ca, entropy := e\<rparr>)"
  have len: "length cookie = 96" by (simp add: cookie_def length_signed_cookie answer_cookie_def cookie_for_def)
  have new1: "newest_packet u1 = init_ack_packet pb pa tag tag_b tsn_b cookie" using assms(16) by (simp add: u1_def)
  have step1: "transmit t1 src_a a b = Returns u1"
    using carried [OF assms(4) _ b1] handshake_packets_ok(1) by (simp add: u1_def cookie_def init_def)
  obtain x2 d s2 where cl2: "handle_packet t2 (on_wire (init_ack_packet pb pa tag tag_b tsn_b cookie)) src_b a =
      Returns (send_control ka d (build_cookie_echo pa pb tag_b cookie []) s2)"
    "associations s2 = (associations a)(ka \<mapsto> x2)" "control (sends s2) = control (sends a)" "local_address s2 = local_address a"
    "ident x2 = (COOKIE_ECHOED, tag, tag_b, next_tsn x, tsn_b - 1, 10, 10)"
    using client_answers_init_ack [OF assms(6) assms(8) [unfolded ka_def] assms(9,10,12) _ len] draw_tag_drawn [OF assms(17)]
    unfolding ka_def by blast
  note step2 = carried [OF new1 handshake_packets_ok(2) [OF len] cl2(1)]
  show ?thesis
    by (rule that [OF step1 step2 cookie_def len])
      (use assms(6,7,11,13,15,16) cl2 in \<open>simp_all add: u1_def ca rotate_initialized\<close>)
qed

text \<open>C2: Association setup completes. When a running socket starts an association with a socket that does not know it, carrying each side's
  packet over the wire to the other four times (INIT, INIT ACK, COOKIE ECHO, COOKIE ACK) brings the association up on both sides, if the
  cookie comes back within its life: both ends are ESTABLISHED, each has the other's tag and first TSN, and no other association changes.\<close>

theorem handshake_completes:
  assumes "sctp_associate (Some ip) port udp_port a = Returns (OK, Some ka, a1)" "s_addr src_b = ip"
    and "local_port b = word_of_int port" "draw_tag b = Returns drawn"
    and "kb = peer_key src_a (local_port a)" "associations b kb = None" "peer_addresses b kb = None"
    and "length (control (sends a)) < 255" "length (control (sends b)) < 255"
    and "0 \<le> t1" "t1 \<le> t3" "t3 < 2 ^ 63" "t3 - t1 \<le> seconds 60"
  shows "\<exists>b1 a2 b2 a3 x y. transmit t1 src_a a1 b = Returns b1 \<and> transmit t2 src_b b1 a1 = Returns a2 \<and>
    transmit t3 src_a a2 b1 = Returns b2 \<and> transmit t4 src_b b2 a2 = Returns a3 \<and>
    associations a3 = (associations a)(ka \<mapsto> x) \<and> associations b2 = (associations b)(kb \<mapsto> y) \<and> joined x y"
proof -
  let ?pa = "local_port a" and ?pb = "word_of_int port :: u16"
  obtain tag_b b0 where drawn: "draw_tag b = Returns (tag_b, b0)" using assms(4) by (cases drawn) auto
  obtain tag tsn x where cl: "ka = peer_key src_b ?pb" "tag \<noteq> 0" "newest_packet a1 = init_packet ?pa ?pb tag tsn"
    "associations a1 = (associations a)(ka \<mapsto> x)" "assoc_state x = COOKIE_WAIT" "this_ver_tag x = tag" "next_tsn x = tsn"
    "find_path x src_b \<noteq> None" "local_address a1 = local_address a" "length (control (sends a1)) = Suc (length (control (sends a)))"
    using associate_sends_init [OF assms(1) _ assms(2)] assms(8) by auto
  have a1: "local_port a1 = ?pa" "length (control (sends a1)) < 256" "associations a1 (peer_key src_b ?pb) = Some x"
    using cl assms(8) by simp_all
  obtain b1 a2 ca cookie tsn_b x2 where round: "transmit t1 src_a a1 b = Returns b1" "transmit t2 src_b b1 a1 = Returns a2"
    "cookie = signed_cookie (current_secret ca) (answer_cookie ca t1 (init_packet ?pa ?pb tag tsn) (plain_init tag tsn) src_a tag_b tsn_b)"
    "length cookie = 96"
    "cookie_authorizer b1 = ca" "auth_initialized ca" "local_port b1 = ?pb" "associations b1 = associations b" "peer_addresses b1 kb = None"
    "length (control (sends b1)) < 256" "newest_packet a2 = build_cookie_echo ?pa ?pb tag_b cookie []" "local_port a2 = ?pa"
    "associations a2 = (associations a1)(ka \<mapsto> x2)" "ident x2 = (COOKIE_ECHOED, tag, tag_b, tsn, tsn_b - 1, 10, 10)"
    by (rule first_round [OF cl(3,2) a1 cl(5-8) assms(3) assms(6,7) [unfolded assms(5)] assms(9) drawn, of t1 t2, folded cl(1) assms(5)])
      (rule that)
  have unknown: "associations b1 kb = None" using round(8) assms(6) by simp
  obtain y u3 where sv: "handle_packet t3 (on_wire (build_cookie_echo ?pa ?pb tag_b cookie [])) src_a b1 = Returns u3"
    "newest_packet u3 = build_cookie_ack ?pb ?pa tag" "associations u3 = (associations b1)(kb \<mapsto> y)"
    "ident y = (ESTABLISHED, tag_b, tag, tsn_b, tsn - 1, 10, 10)"
    using server_accepts_cookie [OF round(5,6) assms(10-13) round(7) unknown [unfolded assms(5)] round(9) [unfolded assms(5)] round(10),
        of tag_b tag tsn tsn_b, folded round(3) assms(5)] by blast
  note step3 = carried [OF round(11) handshake_packets_ok(3) [OF round(4)] sv(1)]
  have "associations a2 (peer_key src_b ?pb) = Some x2" using round(13) cl(1) by simp
  then obtain z u4 where up: "handle_packet t4 (on_wire (build_cookie_ack ?pb ?pa tag)) src_b a2 = Returns u4"
    "associations u4 = (associations a2)(ka \<mapsto> z)" "ident z = (ESTABLISHED, tag, tag_b, tsn, tsn_b - 1, 10, 10)"
    using client_comes_up [OF round(12) _ round(14), of src_b ?pb t4] unfolding cl(1) by blast
  note step4 = carried [OF sv(2) handshake_packets_ok(4) up(1)]
  have "joined z y" using up(3) sv(4) cl(2) draw_tag_drawn [OF drawn] by (simp add: joined_def ident_def)
  moreover have "associations u4 = (associations a)(ka \<mapsto> z)" "associations u3 = (associations b)(kb \<mapsto> y)"
    using up(2) sv(3) cl(4) round(8,13) by simp_all
  ultimately show ?thesis using round(1,2) step3 step4 by blast
qed

definition example_server :: Socket where
  "example_server = empty_socket\<lparr>entropy := [0, 0, 0, 7, 0, 0, 0, 1]\<rparr>"

theorem handshake_completes_witness:
  "\<exists>ka a1 b1 a2 b2 a3 x y. sctp_associate (Some 1) 2304 None (empty_socket\<lparr>entropy := [0, 0, 0, 5, 0, 0, 0, 3]\<rparr>) = Returns (OK, Some ka, a1) \<and>
     transmit 0 \<lparr>s_addr = 2, sin_port = 9\<rparr> a1 example_server = Returns b1 \<and> transmit 1 \<lparr>s_addr = 1, sin_port = 9\<rparr> b1 a1 = Returns a2 \<and>
     transmit 2 \<lparr>s_addr = 2, sin_port = 9\<rparr> a2 b1 = Returns b2 \<and> transmit 3 \<lparr>s_addr = 1, sin_port = 9\<rparr> b2 a2 = Returns a3 \<and>
     associations a3 = [ka \<mapsto> x] \<and> associations b2 = [\<lparr>s_addr = 2, sin_port = 9\<rparr> \<mapsto> y] \<and> joined x y"
proof -
  let ?a = "empty_socket\<lparr>entropy := [0, 0, 0, 5, 0, 0, 0, 3]\<rparr>" and ?src = "\<lparr>s_addr = 2, sin_port = 9\<rparr> :: sockaddr_in"
  have port: "local_port empty_socket = 2304" by (simp add: empty_socket_def) code_simp
  obtain ka a1 where a1: "sctp_associate (Some 1) 2304 None ?a = Returns (OK, Some ka, a1)"
    by (simp add: sctp_associate_def draw_tag_def generate_nonzero_tag_def empty_socket_def load32_def random32_def resize0_def
        association_key_for_def build_init_plain Let_def)
  have kb: "?src = peer_key ?src (local_port ?a)" by (simp add: port peer_key_def path_key_def) code_simp
  have drawn: "draw_tag example_server = Returns (the (generate_nonzero_tag example_server))"
    by (simp add: draw_tag_def example_server_def generate_nonzero_tag_def load32_def)
  have "\<exists>b1 a2 b2 a3 x y. transmit 0 ?src a1 example_server = Returns b1 \<and> transmit 1 \<lparr>s_addr = 1, sin_port = 9\<rparr> b1 a1 = Returns a2 \<and>
      transmit 2 ?src a2 b1 = Returns b2 \<and> transmit 3 \<lparr>s_addr = 1, sin_port = 9\<rparr> b2 a2 = Returns a3 \<and>
      associations a3 = (associations ?a)(ka \<mapsto> x) \<and> associations b2 = (associations example_server)(?src \<mapsto> y) \<and> joined x y"
    by (rule handshake_completes [OF a1 _ _ drawn kb]) (simp_all add: example_server_def port, simp_all add: empty_socket_def empty_send_queue_def)
  then show ?thesis using a1 by (auto simp: example_server_def empty_socket_def)
qed

end
