(* ===== verification/Association_Teardown.thy ===== *)
theory Association_Teardown
  imports Association_Setup
begin

text \<open>
  Two sockets take an association down: \<open>sctp_shutdown\<close> on one side and, on both, \<open>handle_recv_packet\<close> on the bytes of the packets the other
  side queues (SHUTDOWN, SHUTDOWN ACK, SHUTDOWN COMPLETE). As in \<open>Association_Setup\<close>, no operation is defined here that the code has.
\<close>

subsection \<open>A packet with one control chunk of a known association\<close>

lemma shutdown_packets_ok:
  "list_all chunk_ok (pkt_chunks (build_shutdown src des tag c))" "list_all chunk_ok (pkt_chunks (build_shutdown_ack src des tag))"
  "list_all chunk_ok (pkt_chunks (build_shutdown_complete src des tag False))"
  by (simp_all add: single_chunk_builders chunk_ok_def chunk_typed_def)

text \<open>What the dispatcher has done to the association before the chunk's handler runs: the encapsulation port is recorded, and in SHUTDOWN-SENT
  the error count is cleared and T2 restarted.\<close>

definition reached :: "time \<Rightarrow> Association_Key \<Rightarrow> sockaddr_in \<Rightarrow> Socket \<Rightarrow> Socket" where
  "reached now k src s = give_more_time now k (record_encapsulation_port k src s)"

lemma reached_association:
  assumes "associations s k = Some x"
  shows "\<exists>x'. associations (reached now k src s) = (associations s)(k \<mapsto> x') \<and> assoc_state x' = assoc_state x \<and>
      peer_ver_tag x' = peer_ver_tag x \<and> next_tsn x' = next_tsn x \<and> cumulative_tsn_ack x' = cumulative_tsn_ack x \<and>
      outbound x' = outbound x \<and> last_peer_tsn x' = last_peer_tsn x \<and> this_ver_tag x' = this_ver_tag x"
    "sends (reached now k src s) = sends s" "local_address (reached now k src s) = local_address s"
    "notifications (reached now k src s) = notifications s"
proof -
  obtain ps where "record_encapsulation_port k src s = put_association k (x\<lparr>peer_address_list := ps\<rparr>) s"
    using record_encapsulation_known [OF assms] by metis
  then show "\<exists>x'. associations (reached now k src s) = (associations s)(k \<mapsto> x') \<and> assoc_state x' = assoc_state x \<and>
      peer_ver_tag x' = peer_ver_tag x \<and> next_tsn x' = next_tsn x \<and> cumulative_tsn_ack x' = cumulative_tsn_ack x \<and>
      outbound x' = outbound x \<and> last_peer_tsn x' = last_peer_tsn x \<and> this_ver_tag x' = this_ver_tag x"
    "sends (reached now k src s) = sends s" "local_address (reached now k src s) = local_address s"
    "notifications (reached now k src s) = notifications s"
    by (auto simp: reached_def give_more_time_def restart_t2_def schedule_expiration_def put_association_def split: option.split)
qed

lemma one_chunk_dispatched:
  fixes src p s
  defines "k \<equiv> peer_key src (src_port (pkt_header p))"
  assumes "pkt_chunks p = [c]" "chunk_type c \<in> {SHUTDOWN, SHUTDOWN_ACK, SHUTDOWN_COMPLETE}" "chunk_typed c" "ch_flag (chunk_header c) = 0"
    and "des_port (pkt_header p) = local_port s" "associations s k = Some x" "\<not> forming (assoc_state x)"
    and "verification_tag (pkt_header p) = this_ver_tag x" "this_ver_tag x \<noteq> 0"
    and "dispatch_chunk now (pkt_header p) k src c (reached now k src s) = Returns (False, s')"
  shows "handle_packet now p src s = Returns s'"
proof -
  have known: "case chunk_value c of Unknown_Value body \<Rightarrow> False | _ \<Rightarrow> True"
    using assms(3,4) by (cases "chunk_value c") (auto simp: chunk_typed_def)
  have sift: "sift_chunks (pkt_chunks p) = ([c], [])"
    using assms(2) known by (cases "chunk_value c") simp_all
  have same: "p\<lparr>pkt_chunks := [c]\<rparr> = p" using assms(2) by (cases p) simp
  have "process_chunks now p k src False [] s = Returns s'"
    using assms(2,3,11) by (auto simp: process_chunks_def Let_def reached_def handle_no_data)
  then have "accept_packet now p k src s = Returns s'"
    using assms(3) by (auto simp: accept_packet_def sift same Let_def)
  moreover have "packet_key p src s = Inr k" using assms(7) by (simp add: packet_key_def association_key_for_def k_def [symmetric])
  moreover have "validate_verification_tag p k s = Inr ACCEPT"
    using assms(2,3,5-10) by (auto simp: validate_verification_tag_def Let_def)
  ultimately show ?thesis by (simp add: handle_packet_def)
qed

lemma transmit_one_chunk:
  assumes "newest_packet a = p" "list_all chunk_ok (pkt_chunks p)" "pkt_chunks p = [c]"
    and "chunk_type c \<in> {SHUTDOWN, SHUTDOWN_ACK, SHUTDOWN_COMPLETE}" "ch_flag (chunk_header c) = 0"
    and "k = peer_key src (src_port (pkt_header p))" "des_port (pkt_header p) = local_port b" "associations b k = Some x"
    and "\<not> forming (assoc_state x)" "verification_tag (pkt_header p) = this_ver_tag x" "this_ver_tag x \<noteq> 0"
    and "dispatch_chunk now (pkt_header (on_wire p)) k src (with_wire_length c) (reached now k src b) = Returns (False, b')"
  shows "transmit now src a b = Returns b'"
proof (rule carried [OF assms(1,2)], rule one_chunk_dispatched)
  show "pkt_chunks (on_wire p) = [with_wire_length c]" using assms(3) by (simp add: on_wire_def)
  show "chunk_typed (with_wire_length c)" using assms(2,3) by (simp add: chunk_ok_def chunk_typed_def with_wire_length_def)
qed (use assms(4-12) in \<open>simp_all add: on_wire_def with_wire_length_def\<close>)

lemma transmit_shutdown:
  assumes "newest_packet a = build_shutdown pa pb tag c" "k = peer_key src pa" "pb = local_port b" "associations b k = Some x"
    and "\<not> forming (assoc_state x)" "tag = this_ver_tag x" "tag \<noteq> 0"
  shows "transmit now src a b = Returns (handle_shutdown now (pkt_header (on_wire (newest_packet a))) c k src (reached now k src b))"
proof (rule transmit_one_chunk [OF assms(1), where c = "\<lparr>chunk_header = \<lparr>ch_type = SHUTDOWN, ch_flag = 0, ch_length = 0\<rparr>, chunk_value = Shutdown_Value c\<rparr>"])
  show "list_all chunk_ok (pkt_chunks (build_shutdown pa pb tag c))" by (rule shutdown_packets_ok)
qed (use assms in \<open>simp_all add: single_chunk_builders dispatch_chunk_def with_wire_length_def Let_def\<close>)

lemma transmit_shutdown_ack:
  assumes "newest_packet a = build_shutdown_ack pa pb tag" "k = peer_key src pa" "pb = local_port b" "associations b k = Some x"
    and "\<not> forming (assoc_state x)" "tag = this_ver_tag x" "tag \<noteq> 0"
  shows "transmit now src a b = Returns (handle_shutdown_ack (pkt_header (on_wire (newest_packet a))) k src (reached now k src b))"
proof (rule transmit_one_chunk [OF assms(1), where c = "\<lparr>chunk_header = \<lparr>ch_type = SHUTDOWN_ACK, ch_flag = 0, ch_length = 0\<rparr>, chunk_value = Empty_Value\<rparr>"])
  show "list_all chunk_ok (pkt_chunks (build_shutdown_ack pa pb tag))" by (rule shutdown_packets_ok)
qed (use assms in \<open>simp_all add: single_chunk_builders dispatch_chunk_def with_wire_length_def Let_def\<close>)

lemma transmit_shutdown_complete:
  assumes "newest_packet a = build_shutdown_complete pa pb tag False" "k = peer_key src pa" "pb = local_port b" "associations b k = Some x"
    and "\<not> forming (assoc_state x)" "tag = this_ver_tag x" "tag \<noteq> 0"
  shows "transmit now src a b = Returns (handle_shutdown_complete k (reached now k src b))"
proof (rule transmit_one_chunk [OF assms(1), where c = "\<lparr>chunk_header = \<lparr>ch_type = SHUTDOWN_COMPLETE, ch_flag = 0, ch_length = 0\<rparr>, chunk_value = Empty_Value\<rparr>"])
  show "list_all chunk_ok (pkt_chunks (build_shutdown_complete pa pb tag False))" by (rule shutdown_packets_ok)
qed (use assms in \<open>simp_all add: single_chunk_builders dispatch_chunk_def with_wire_length_def Let_def\<close>)

subsection \<open>The packets\<close>

definition newest_notification :: "Socket \<Rightarrow> Notification" where
  "newest_notification s = last (nq_queue (notifications s))"

text \<open>The application is told of a change of an association: it is the newest notification.\<close>

definition told :: "Association_Key \<Rightarrow> Assoc_Change_State \<Rightarrow> Socket \<Rightarrow> bool" where
  "told k change s \<longleftrightarrow> nq_queue (notifications s) \<noteq> [] \<and> nt_type (newest_notification s) = SCTP_ASSOC_CHANGE \<and>
     nt_src (newest_notification s) = k \<and> nt_payload (newest_notification s) = Assoc_Change change"

abbreviation reports_changes :: "Socket \<Rightarrow> bool" where
  "reports_changes s \<equiv> nq_subscribed (notifications s) SCTP_ASSOC_CHANGE"

lemma told_notify: "reports_changes s \<Longrightarrow> told k st (notify_assoc_change k st s)"
  by (simp add: told_def newest_notification_def notify_assoc_change_def raise_notification_def enqueue_notification_def is_lifecycle_def)

lemma subscribed_kept [simp]:
  "nq_subscribed (notifications (raise_notification t k p s)) = nq_subscribed (notifications s)"
  "nq_subscribed (notifications (send_control k d pkt s)) = nq_subscribed (notifications s)"
  "nq_subscribed (notifications (remove_association k s)) = nq_subscribed (notifications s)"
proof -
  show "nq_subscribed (notifications (remove_association k s)) = nq_subscribed (notifications s)"
    by (cases rule: remove_association_cases [of k s]) (simp_all add: enqueue_notification_def)
qed (simp_all add: raise_notification_def enqueue_notification_def send_control_def enqueue_packet_def)

lemma leave_transfer_keeps:
  assumes "length (control (sends s)) < 256"
  shows "newest_packet (leave_transfer now k x st p s) = p"
    "length (control (sends (leave_transfer now k x st p s))) = Suc (length (control (sends s)))"
    "local_address (leave_transfer now k x st p s) = local_address s" "notifications (leave_transfer now k x st p s) = notifications s"
  using assms by (simp_all add: leave_transfer_def Let_def restart_t2_def newest_packet_def send_control_def enqueue_packet_def enqueue_def
      schedule_expiration_def cancel_expirations_of_type_def cancel_expiration_def put_association_def split: option.split)

lemma shutdown_starts:
  assumes "associations a k = Some x" "assoc_state x = ESTABLISHED" "all_acknowledged x" "length (control (sends a)) < 256"
  obtains a1 where "sctp_shutdown now k a = (OK, a1)" "associations a1 = (associations a)(k \<mapsto> x\<lparr>assoc_state := SHUTDOWN_SENT\<rparr>)"
    "newest_packet a1 = build_shutdown (local_port a) (peer_port k) (peer_ver_tag x) (last_peer_tsn x)" "local_address a1 = local_address a"
    "length (control (sends a1)) = Suc (length (control (sends a)))" "notifications a1 = notifications a"
proof
  let ?x = "x\<lparr>assoc_state := SHUTDOWN_PENDING\<rparr>"
  let ?u = "leave_transfer now k ?x SHUTDOWN_SENT (build_shutdown (local_port a) (peer_port k) (peer_ver_tag x) (last_peer_tsn x)) (put_association k ?x a)"
  let ?a1 = "schedule_expiration (association_timer k T5_SHUTDOWN_GUARD) (now + T5_SHUTDOWN_GUARD_ns) (no_packet k) ?u"
  show "sctp_shutdown now k a = (OK, ?a1)"
    using assms by (simp add: sctp_shutdown_def do_next_shutdown_step_def all_acknowledged_def put_association_def)
  have u: "newest_packet ?u = build_shutdown (local_port a) (peer_port k) (peer_ver_tag x) (last_peer_tsn x)"
    "length (control (sends ?u)) = Suc (length (control (sends a)))" "local_address ?u = local_address a" "notifications ?u = notifications a"
    using leave_transfer_keeps [of "put_association k ?x a"] assms(4) by (simp_all add: put_association_def)
  then show "newest_packet ?a1 = build_shutdown (local_port a) (peer_port k) (peer_ver_tag x) (last_peer_tsn x)"
    "local_address ?a1 = local_address a" "length (control (sends ?a1)) = Suc (length (control (sends a)))" "notifications ?a1 = notifications a"
    by (simp_all add: newest_packet_def schedule_expiration_def)
  show "associations ?a1 = (associations a)(k \<mapsto> x\<lparr>assoc_state := SHUTDOWN_SENT\<rparr>)" by simp
qed

lemma shutdown_answered:
  assumes "associations b k = Some y" "assoc_state y = ESTABLISHED" "all_acknowledged y" "c = cumulative_tsn_ack y" "length (control (sends b)) < 256"
  obtains b1 where "handle_shutdown now h c k src b = b1" "associations b1 = (associations b)(k \<mapsto> y\<lparr>assoc_state := SHUTDOWN_ACK_SENT\<rparr>)"
    "newest_packet b1 = build_shutdown_ack (local_port b) (peer_port k) (peer_ver_tag y)" "local_address b1 = local_address b"
    "nq_subscribed (notifications b1) = nq_subscribed (notifications b)"
proof
  let ?y = "y\<lparr>assoc_state := SHUTDOWN_RECEIVED\<rparr>"
  let ?u = "raise_notification SCTP_SHUTDOWN_EVENT k Shutdown_Event (put_association k ?y b)"
  let ?b1 = "leave_transfer now k ?y SHUTDOWN_ACK_SENT (build_shutdown_ack (local_port b) (peer_port k) (peer_ver_tag y)) ?u"
  have "tsn_lt c (next_tsn y)" "\<not> tsn_gt c (cumulative_tsn_ack y)"
    using assms(3,4) by (auto simp: all_acknowledged_def tsn_lt_def tsn_gt_def Let_def)
  then show "handle_shutdown now h c k src b = ?b1"
    using assms by (simp add: handle_shutdown_def accept_shutdown_def do_next_shutdown_step_def all_acknowledged_def put_association_def
        raise_notification_def)
  have "length (control (sends ?u)) < 256" using assms(5) by simp
  from leave_transfer_keeps [OF this]
  show "newest_packet ?b1 = build_shutdown_ack (local_port b) (peer_port k) (peer_ver_tag y)" "local_address ?b1 = local_address b"
    "nq_subscribed (notifications ?b1) = nq_subscribed (notifications b)"
    by (simp_all add: put_association_def raise_notification_def enqueue_notification_def)
  show "associations ?b1 = (associations b)(k \<mapsto> y\<lparr>assoc_state := SHUTDOWN_ACK_SENT\<rparr>)" by simp
qed

lemma shutdown_ack_answered:
  assumes "associations a k = Some x" "closing (assoc_state x)" "length (control (sends a)) < 256" "reports_changes a"
  obtains a2 where "handle_shutdown_ack h k src a = a2" "associations a2 = (associations a)(k := None)" "told k SHUTDOWN_COMP a2"
    "newest_packet a2 = build_shutdown_complete (des_port h) (src_port h) (peer_ver_tag x) False"
    "\<not> has_any_for k (expirations a2)"
proof
  let ?u = "send_control k (reply_destination x src) (build_shutdown_complete (des_port h) (src_port h) (peer_ver_tag x) False) (remove_association k a)"
  show "handle_shutdown_ack h k src a = notify_assoc_change k SHUTDOWN_COMP ?u" using assms(1,2) by (simp add: handle_shutdown_ack_def)
  show "told k SHUTDOWN_COMP (notify_assoc_change k SHUTDOWN_COMP ?u)" using assms(4) by (intro told_notify) simp
  have "length (control (sends (remove_association k a))) < 256"
    using assms(3) le_less_trans [OF length_filter_le] by (simp add: remove_association_sends purge_def purge_one_def)
  then show "newest_packet (notify_assoc_change k SHUTDOWN_COMP ?u) = build_shutdown_complete (des_port h) (src_port h) (peer_ver_tag x) False"
    using newest_send_control(1) [of "remove_association k a"] by (simp add: newest_packet_def)
  show "associations (notify_assoc_change k SHUTDOWN_COMP ?u) = (associations a)(k := None)" by (simp add: remove_association_fields)
  show "\<not> has_any_for k (expirations (notify_assoc_change k SHUTDOWN_COMP ?u))"
    by (auto simp: remove_association_fields has_any_for_def cancel_all_def dom_def)
qed

lemma shutdown_complete_taken:
  assumes "associations b k = Some y" "assoc_state y = SHUTDOWN_ACK_SENT" "reports_changes b"
  obtains b2 where "handle_shutdown_complete k b = b2" "associations b2 = (associations b)(k := None)" "told k SHUTDOWN_COMP b2"
    "\<not> has_any_for k (expirations b2)"
proof
  show "handle_shutdown_complete k b = notify_assoc_change k SHUTDOWN_COMP (remove_association k b)"
    using assms(1,2) by (simp add: handle_shutdown_complete_def)
  show "told k SHUTDOWN_COMP (notify_assoc_change k SHUTDOWN_COMP (remove_association k b))" using assms(3) by (intro told_notify) simp
  show "associations (notify_assoc_change k SHUTDOWN_COMP (remove_association k b)) = (associations b)(k := None)"
    by (simp add: remove_association_fields)
  show "\<not> has_any_for k (expirations (notify_assoc_change k SHUTDOWN_COMP (remove_association k b)))"
    by (auto simp: remove_association_fields has_any_for_def cancel_all_def dom_def)
qed

subsection \<open>The whole shutdown\<close>

text \<open>C17: A graceful shutdown completes at both ends in three packets. When an association is up on both sides and neither end has anything unsent or
  unacknowledged, \<open>sctp_shutdown\<close> at one end queues a SHUTDOWN; its bytes bring the other end to SHUTDOWN-ACK-SENT with a SHUTDOWN ACK queued; the bytes
  of that remove the association of the first end, which queues a SHUTDOWN COMPLETE; and the bytes of that remove the association of the second. Both
  applications are told that the shutdown completed, no timer of the association is left on either side, and no other association changes.\<close>

theorem shutdown_completes:
  assumes "associations a ka = Some x" "assoc_state x = ESTABLISHED" "all_acknowledged x"
    and "associations b kb = Some y" "assoc_state y = ESTABLISHED" "all_acknowledged y"
    and "ka = peer_key src_b (local_port b)" "kb = peer_key src_a (local_port a)"
    and "peer_ver_tag x = this_ver_tag y" "peer_ver_tag y = this_ver_tag x" "this_ver_tag x \<noteq> 0" "this_ver_tag y \<noteq> 0"
    and "last_peer_tsn x = cumulative_tsn_ack y"
    and "length (control (sends a)) < 255" "length (control (sends b)) < 256" "reports_changes a" "reports_changes b"
  shows "\<exists>a1 b1 a2 b2 x1 y1. sctp_shutdown now ka a = (OK, a1) \<and> transmit t1 src_a a1 b = Returns b1 \<and>
    transmit t2 src_b b1 a1 = Returns a2 \<and> transmit t3 src_a a2 b1 = Returns b2 \<and>
    map chunk_type (pkt_chunks (newest_packet a1)) = [SHUTDOWN] \<and> map chunk_type (pkt_chunks (newest_packet b1)) = [SHUTDOWN_ACK] \<and>
    map chunk_type (pkt_chunks (newest_packet a2)) = [SHUTDOWN_COMPLETE] \<and>
    associations a1 ka = Some x1 \<and> assoc_state x1 = SHUTDOWN_SENT \<and> associations b1 kb = Some y1 \<and> assoc_state y1 = SHUTDOWN_ACK_SENT \<and>
    associations a2 = (associations a)(ka := None) \<and> told ka SHUTDOWN_COMP a2 \<and> \<not> has_any_for ka (expirations a2) \<and>
    associations b2 = (associations b)(kb := None) \<and> told kb SHUTDOWN_COMP b2 \<and> \<not> has_any_for kb (expirations b2)"
proof -
  have ports: "peer_port ka = local_port b" "peer_port kb = local_port a" by (simp_all add: assms(7,8) peer_key_def path_key_def)
  obtain a1 where a1: "sctp_shutdown now ka a = (OK, a1)" "associations a1 = (associations a)(ka \<mapsto> x\<lparr>assoc_state := SHUTDOWN_SENT\<rparr>)"
    "newest_packet a1 = build_shutdown (local_port a) (local_port b) (this_ver_tag y) (last_peer_tsn x)" "local_address a1 = local_address a"
    "length (control (sends a1)) = Suc (length (control (sends a)))" "notifications a1 = notifications a"
    by (rule shutdown_starts [OF assms(1-3), of now]) (use assms(9,14) ports in simp_all)
  obtain y0 where y0: "associations (reached t1 kb src_a b) = (associations b)(kb \<mapsto> y0)" "assoc_state y0 = ESTABLISHED" "all_acknowledged y0"
    "cumulative_tsn_ack y0 = cumulative_tsn_ack y" "peer_ver_tag y0 = peer_ver_tag y" "this_ver_tag y0 = this_ver_tag y"
    using reached_association(1) [OF assms(4), of t1 src_a] assms(5,6) by (auto simp: all_acknowledged_def)
  obtain b1 where b1: "handle_shutdown t1 (pkt_header (on_wire (newest_packet a1))) (last_peer_tsn x) kb src_a (reached t1 kb src_a b) = b1"
    "associations b1 = (associations b)(kb \<mapsto> y0\<lparr>assoc_state := SHUTDOWN_ACK_SENT\<rparr>)"
    "newest_packet b1 = build_shutdown_ack (local_port b) (local_port a) (this_ver_tag x)" "local_address b1 = local_address b" "reports_changes b1"
    by (rule shutdown_answered [of "reached t1 kb src_a b" kb y0 "last_peer_tsn x" t1 "pkt_header (on_wire (newest_packet a1))" src_a])
      (use y0 reached_association(2-4) [OF assms(4), of t1 src_a] assms(10,13,15,17) ports in simp_all)
  have step1: "transmit t1 src_a a1 b = Returns b1"
    using transmit_shutdown [OF a1(3) assms(8) refl assms(4), of t1] b1(1) assms(5,12) by simp
  obtain x0 where x0: "associations (reached t2 ka src_b a1) = (associations a)(ka \<mapsto> x0)" "assoc_state x0 = SHUTDOWN_SENT"
    "peer_ver_tag x0 = this_ver_tag y"
    using reached_association(1) [of a1 ka "x\<lparr>assoc_state := SHUTDOWN_SENT\<rparr>" t2 src_b] a1(2) assms(9) by auto
  obtain a2 where a2: "handle_shutdown_ack (pkt_header (on_wire (newest_packet b1))) ka src_b (reached t2 ka src_b a1) = a2"
    "associations a2 = (associations a)(ka := None)" "told ka SHUTDOWN_COMP a2" "\<not> has_any_for ka (expirations a2)"
    "newest_packet a2 = build_shutdown_complete (local_port a) (local_port b) (this_ver_tag y) False"
    by (rule shutdown_ack_answered [of "reached t2 ka src_b a1" ka x0 "pkt_header (on_wire (newest_packet b1))" src_b])
      (use x0 reached_association(2-4) [of a1 ka "x\<lparr>assoc_state := SHUTDOWN_SENT\<rparr>" t2 src_b] a1(2,5,6) assms(14,16) b1(3)
       in \<open>simp_all add: on_wire_def single_chunk_builders\<close>)
  have step2: "transmit t2 src_b b1 a1 = Returns a2"
    using transmit_shutdown_ack [OF b1(3) assms(7), of a1 "x\<lparr>assoc_state := SHUTDOWN_SENT\<rparr>" t2] a2(1) a1(2,4) assms(11) by simp
  obtain y2 where y2: "associations (reached t3 kb src_a b1) = (associations b)(kb \<mapsto> y2)" "assoc_state y2 = SHUTDOWN_ACK_SENT"
    using reached_association(1) [of b1 kb "y0\<lparr>assoc_state := SHUTDOWN_ACK_SENT\<rparr>" t3 src_a] b1(2) by auto
  obtain b2 where b2: "handle_shutdown_complete kb (reached t3 kb src_a b1) = b2" "associations b2 = (associations b)(kb := None)"
    "told kb SHUTDOWN_COMP b2" "\<not> has_any_for kb (expirations b2)"
    by (rule shutdown_complete_taken [of "reached t3 kb src_a b1" kb y2])
      (use y2 reached_association(4) [of b1 kb "y0\<lparr>assoc_state := SHUTDOWN_ACK_SENT\<rparr>" t3 src_a] b1(2,5) in simp_all)
  have step3: "transmit t3 src_a a2 b1 = Returns b2"
    using transmit_shutdown_complete [OF a2(5) assms(8), of b1 "y0\<lparr>assoc_state := SHUTDOWN_ACK_SENT\<rparr>" t3] b2(1) b1(2,4) y0(6) assms(12) by simp
  show ?thesis
    using a1(1,2) step1 step2 step3 a1(3) b1(2,3) a2(2-5) b2(2-4) by (auto simp: single_chunk_builders)
qed

definition example_closing :: "u32 \<Rightarrow> u32 \<Rightarrow> Socket" where
  "example_closing tsn peer_tsn =
     put_association \<lparr>s_addr = 1, sin_port = 9\<rparr> ((example_peer tsn peer_tsn)\<lparr>this_ver_tag := 8, peer_ver_tag := 7\<rparr>) empty_socket"

theorem shutdown_completes_witness:
  "\<exists>a1 b1 a2 b2. sctp_shutdown 0 \<lparr>s_addr = 1, sin_port = 9\<rparr> (example_established 5 50) = (OK, a1) \<and>
     transmit 1 \<lparr>s_addr = 1, sin_port = 9\<rparr> a1 (example_closing 50 5) = Returns b1 \<and> transmit 2 \<lparr>s_addr = 1, sin_port = 9\<rparr> b1 a1 = Returns a2 \<and>
     transmit 3 \<lparr>s_addr = 1, sin_port = 9\<rparr> a2 b1 = Returns b2 \<and> associations a2 = Map.empty \<and> associations b2 = Map.empty"
proof -
  let ?k = "\<lparr>s_addr = 1, sin_port = 9\<rparr> :: sockaddr_in" and ?a = "example_established 5 50" and ?b = "example_closing 50 5"
  let ?x = "example_peer 5 50" and ?y = "(example_peer 50 5)\<lparr>this_ver_tag := 8, peer_ver_tag := 7\<rparr>"
  have "\<exists>a1 b1 a2 b2 x1 y1. sctp_shutdown 0 ?k ?a = (OK, a1) \<and> transmit 1 ?k a1 ?b = Returns b1 \<and>
    transmit 2 ?k b1 a1 = Returns a2 \<and> transmit 3 ?k a2 b1 = Returns b2 \<and>
    map chunk_type (pkt_chunks (newest_packet a1)) = [SHUTDOWN] \<and> map chunk_type (pkt_chunks (newest_packet b1)) = [SHUTDOWN_ACK] \<and>
    map chunk_type (pkt_chunks (newest_packet a2)) = [SHUTDOWN_COMPLETE] \<and>
    associations a1 ?k = Some x1 \<and> assoc_state x1 = SHUTDOWN_SENT \<and> associations b1 ?k = Some y1 \<and> assoc_state y1 = SHUTDOWN_ACK_SENT \<and>
    associations a2 = (associations ?a)(?k := None) \<and> told ?k SHUTDOWN_COMP a2 \<and> \<not> has_any_for ?k (expirations a2) \<and>
    associations b2 = (associations ?b)(?k := None) \<and> told ?k SHUTDOWN_COMP b2 \<and> \<not> has_any_for ?k (expirations b2)"
    by (rule shutdown_completes [where x = ?x and y = ?y])
      (simp_all add: example_established_def example_closing_def example_peer_def init_new_association_def blank_association_def all_acknowledged_def
        put_association_def empty_socket_def empty_send_queue_def new_notification_queue_def peer_key_def path_key_def)
  then show ?thesis by (auto simp: example_established_def example_closing_def put_association_def empty_socket_def)
qed

end
