(* ===== verification/Event_Loop.thy ===== *)
theory Event_Loop
  imports Packet_Input
begin

text \<open>
  The event loop (\<open>src/socket_event_loop.cpp\<close>): what may be sent, the packets that are built just before they go out, what a sent packet
  arms, the deadline of \<open>poll\<close>, and one pass of the loop; and what opening and closing the socket do to its state
  (\<open>src/socket_api.cpp\<close>).

  The operating system is a parameter: \<open>network n\<close> says whether the \<open>n\<close>-th \<open>sendto\<close> of a batch takes a datagram whole, the datagrams
  \<open>recvfrom\<close> returns are a list, and \<open>clock n\<close> is the time of the \<open>n\<close>-th turn. \<open>order\<close> lists the keys of the hash map of allowances in
  the order it is walked. \<open>serialize_sctp_packet\<close> may throw, so what serializes returns a result.
\<close>

subsection \<open>What may be sent\<close>

abbreviation (input) MAX_BURST :: u32 where "MAX_BURST \<equiv> 4"
abbreviation (input) SEND_RETRY_DELAY :: time where "SEND_RETRY_DELAY \<equiv> milliseconds 10"
abbreviation (input) MAX_SEND_BATCH :: nat where "MAX_SEND_BATCH \<equiv> 64"
abbreviation (input) MAX_RECEIVE_BATCH :: nat where "MAX_RECEIVE_BATCH \<equiv> 64"
abbreviation (input) DATA_IMMEDIATE_SACK :: u8 where "DATA_IMMEDIATE_SACK \<equiv> 8"
abbreviation (input) RTO_MAX_ms :: int where "RTO_MAX_ms \<equiv> 60000"

definition start_transmission_opportunity :: "Socket \<Rightarrow> Socket" where
  "start_transmission_opportunity s =
     s\<lparr>associations := (\<lambda>key. map_option (\<lambda>assoc. assoc\<lparr>burst_count := 0\<rparr>) (associations s key))\<rparr>"

definition decay_paths :: "time \<Rightarrow> Association \<Rightarrow> Association" where
  "decay_paths now assoc =
     (if transmits_data (assoc_state assoc)
      then assoc\<lparr>peer_address_list := map (decay_idle_cwnd (pmdcs assoc) now) (peer_address_list assoc)\<rparr> else assoc)"

definition allowance_of :: "Association \<Rightarrow> Send_Allowance" where
  "allowance_of assoc =
     (let flight = bytes_in_flight assoc None
      in \<lparr>flight_size = flight, al_cwnd_open = cwnd_open assoc (data_path assoc), burst_spent = burst_count assoc \<ge> MAX_BURST,
          al_rwnd = peer_rwnd assoc, zero_window_probe = zero_window_probe_allowed assoc \<and> flight = 0, rwnd_blocked = False\<rparr>)"

definition send_allowances :: "time \<Rightarrow> Socket \<Rightarrow> Send_Allowances \<times> Socket" where
  "send_allowances now s =
     (let s' = s\<lparr>associations := (\<lambda>key. map_option (decay_paths now) (associations s key))\<rparr>
      in (\<lambda>key. case associations s' key of
                  None \<Rightarrow> None
                | Some assoc \<Rightarrow> if transmits_data (assoc_state assoc) then Some (allowance_of assoc) else None, s'))"

subsection \<open>Packets built ahead\<close>

definition refill_retransmission :: "Send_Allowances \<Rightarrow> Socket \<Rightarrow> Association_Key \<Rightarrow> Socket" where
  "refill_retransmission allowances s key =
     (if allowances key \<noteq> None \<and> \<not> has_retransmission_for key (sends s) then schedule_pending_retransmission key True s else s)"

definition refill_retransmissions :: "Association_Key list \<Rightarrow> Send_Allowances \<Rightarrow> Socket \<Rightarrow> Socket" where
  "refill_retransmissions order allowances s = foldl (refill_retransmission allowances) s order"

definition refill_one :: "Send_Allowances \<times> Socket \<Rightarrow> Association_Key \<Rightarrow> Send_Allowances \<times> Socket" where
  "refill_one state key =
     (case state of (allowances, s) \<Rightarrow>
        (case allowances key of
           None \<Rightarrow> state
         | Some allowance \<Rightarrow>
             if \<not> al_cwnd_open allowance \<or> burst_spent allowance \<or> has_new_data_for key (sends s) then state
             else case associations s key of
                    None \<Rightarrow> state
                  | Some assoc \<Rightarrow>
                      (case cut_new_data assoc allowance of
                         (chunks, assoc', allowance') \<Rightarrow>
                           let s1 = put_association key assoc' s; allowances' = allowances(key \<mapsto> allowance')
                           in if chunks = [] then (allowances', s1)
                              else (allowances', enqueue_packet
                                     \<lparr>dl_location = key, dl_destination = address (path_at assoc' (data_path assoc')),
                                      dl_packet = build_data (local_port s) (peer_port key) (peer_ver_tag assoc') chunks\<rparr> NEW_DATA s1))))"

definition refill_new_data :: "Association_Key list \<Rightarrow> Send_Allowances \<Rightarrow> Socket \<Rightarrow> Send_Allowances \<times> Socket" where
  "refill_new_data order allowances s = foldl refill_one (allowances, s) order"

definition arm_zero_window_probe :: "time \<Rightarrow> Send_Allowances \<Rightarrow> Socket \<Rightarrow> Association_Key \<Rightarrow> Socket" where
  "arm_zero_window_probe now allowances s key =
     (case allowances key of
        None \<Rightarrow> s
      | Some allowance \<Rightarrow>
          let timer = association_timer key ZERO_WINDOW_PROBE in
          if \<not> rwnd_blocked allowance \<or> flight_size allowance \<noteq> 0 \<or> timer_active timer s then s
          else case associations s key of
                 None \<Rightarrow> s
               | Some assoc \<Rightarrow>
                   if zero_window_probe_allowed assoc then s
                   else schedule_expiration timer (now + microseconds (rto (path_at assoc (data_path assoc)))) (no_packet key) s)"

definition arm_zero_window_probes :: "time \<Rightarrow> Association_Key list \<Rightarrow> Send_Allowances \<Rightarrow> Socket \<Rightarrow> Socket" where
  "arm_zero_window_probes now order allowances s = foldl (arm_zero_window_probe now allowances) s order"

subsection \<open>The packet about to go\<close>

text \<open>The last DATA chunk of the packet, found from the end.\<close>

definition last_data :: "SCTP_Chunk list \<Rightarrow> nat option" where
  "last_data chunks =
     map_option (\<lambda>i. length chunks - 1 - i) (find_index (\<lambda>chunk. chunk_type chunk = DATA) (rev chunks))"

definition ask_immediate_sack :: "nat \<Rightarrow> SCTP_Packet \<Rightarrow> SCTP_Packet" where
  "ask_immediate_sack i packet =
     (let chunk = pkt_chunks packet ! i
      in packet\<lparr>pkt_chunks := (pkt_chunks packet)
           [i := chunk\<lparr>chunk_header := (chunk_header chunk)\<lparr>ch_flag := ch_flag (chunk_header chunk) OR DATA_IMMEDIATE_SACK\<rparr>\<rparr>]\<rparr>)"

definition fills_window :: "Association \<Rightarrow> Deliverable \<Rightarrow> bool \<Rightarrow> bool" where
  "fills_window assoc deliverable is_new =
     (let i = (case find_path assoc (dl_destination deliverable) of Some i \<Rightarrow> i | None \<Rightarrow> primary assoc);
          size = data_bytes (dl_packet deliverable);
          flight_after = bytes_in_flight assoc (Some i) + (if is_new then size else 0)
      in flight_after \<ge> unat (cwnd (path_at assoc i)) \<or> size \<ge> unat (peer_rwnd assoc) \<or> assoc_state assoc = SHUTDOWN_PENDING)"

definition bundle_sack :: "Deliverable \<Rightarrow> SCTP_Packet \<Rightarrow> u32 \<Rightarrow> Socket \<Rightarrow> (Deliverable \<times> Socket) res" where
  "bundle_sack deliverable sack chunk_size s =
     bind_res (serialize_sctp_packet sack) (\<lambda>sack_bytes.
     bind_res (serialize_sctp_packet (dl_packet deliverable)) (\<lambda>bytes.
       if length bytes + (length sack_bytes - SCTP_COMMON_HEADER_SIZE) \<le> SCTP_COMMON_HEADER_SIZE + unat chunk_size
       then Inr (deliverable\<lparr>dl_packet := (dl_packet deliverable)
              \<lparr>pkt_chunks := hd (pkt_chunks sack) # pkt_chunks (dl_packet deliverable)\<rparr>\<rparr>, s)
       else Inr (deliverable, send_control (dl_location deliverable) (dl_destination deliverable) sack s)))"

definition prepare_data_packet :: "Deliverable \<Rightarrow> bool \<Rightarrow> Socket \<Rightarrow> (Deliverable \<times> Socket) res" where
  "prepare_data_packet deliverable is_new s =
     (case last_data (pkt_chunks (dl_packet deliverable)) of
        None \<Rightarrow> Inr (deliverable, s)
      | Some i \<Rightarrow>
          let key = dl_location deliverable; delayed_sack = association_timer key DELAYED_SACK in
          case associations s key of
            None \<Rightarrow> Inr (deliverable, s)
          | Some assoc \<Rightarrow>
              let deliverable1 = (if fills_window assoc deliverable is_new
                    then deliverable\<lparr>dl_packet := ask_immediate_sack i (dl_packet deliverable)\<rparr> else deliverable)
              in if \<not> timer_active delayed_sack s \<or> \<not> receives_data (assoc_state assoc) then Inr (deliverable1, s)
                 else case make_sack (sin_port (local_address s)) key (buffered_bytes key (receives s)) assoc of
                        (sack, assoc') \<Rightarrow>
                          bundle_sack deliverable1 sack (pmdcs assoc') (cancel_expiration delayed_sack (put_association key assoc' s)))"

definition next_packet :: "time \<Rightarrow> Association_Key list \<Rightarrow> Socket \<Rightarrow> (Pending option \<times> Socket) res" where
  "next_packet now order s =
     (case send_allowances now s of
        (allowances, s1) \<Rightarrow>
          case refill_new_data order allowances (refill_retransmissions order allowances s1) of
            (allowances2, s2) \<Rightarrow>
              case peek now allowances2 (sends s2) of
                (pending, allowances3, queue) \<Rightarrow>
                  let s3 = arm_zero_window_probes now order allowances3 (s2\<lparr>sends := queue\<rparr>)
                  in case pending of
                       None \<Rightarrow> Inr (None, s3)
                     | Some p \<Rightarrow>
                         if p_priority p = CONTROL then Inr (Some p, s3)
                         else bind_res (prepare_data_packet (p_deliverable p) (p_priority p = NEW_DATA) s3) (\<lambda>(d, s4).
                                Inr (Some (p\<lparr>p_deliverable := d\<rparr>), s4)))"

subsection \<open>A packet that was sent\<close>

text \<open>\<open>EXPIRE_HANDLERS\<close>: the timers a chunk arms, with their delay in milliseconds.\<close>

definition EXPIRE_HANDLERS :: "u8 \<Rightarrow> (Expiration_Timer_Type \<times> int) list" where
  "EXPIRE_HANDLERS type =
     (if type = INIT then [(T1_INIT, 1000)] else if type = COOKIE_ECHO then [(T1_COOKIE, 1000)]
      else if type = DATA then [(T3_RTX, 0)] else [])"

fun t1_delay :: "nat \<Rightarrow> int \<Rightarrow> int" where
  "t1_delay 0 delay = delay"
| "t1_delay (Suc n) delay = (if delay < RTO_MAX_ms then t1_delay n (min (delay * 2) RTO_MAX_ms) else delay)"

definition record_sent :: "Association_Key \<Rightarrow> sockaddr_in \<Rightarrow> data_chunk_value \<Rightarrow> time \<Rightarrow> Socket \<Rightarrow> Socket" where
  "record_sent location destination d sent_at s =
     (case associations s location of
        None \<Rightarrow> s
      | Some assoc \<Rightarrow> put_association location (record_data_sent destination d sent_at assoc) s)"

definition arm_t1 :: "Deliverable \<Rightarrow> time \<Rightarrow> bool \<Rightarrow> int \<Rightarrow> Socket \<Rightarrow> Socket" where
  "arm_t1 deliverable sent_at is_init delay s =
     (case associations s (dl_location deliverable) of
        None \<Rightarrow> s
      | Some assoc \<Rightarrow>
          if assoc_state assoc \<noteq> (if is_init then COOKIE_WAIT else COOKIE_ECHOED) then s
          else schedule_expiration (association_timer (dl_location deliverable) (if is_init then T1_INIT else T1_COOKIE))
                 (sent_at + milliseconds (t1_delay (unat (if is_init then init_retransmits assoc else cookie_retransmits assoc)) delay))
                 deliverable s)"

definition apply_policy :: "Deliverable \<Rightarrow> time \<Rightarrow> SCTP_Chunk \<Rightarrow> bool \<times> Socket \<Rightarrow> Expiration_Timer_Type \<times> int \<Rightarrow> (bool \<times> Socket) res" where
  "apply_policy deliverable sent_at chunk state policy =
     (case (state, policy) of
        ((sent_data, s), (type, delay)) \<Rightarrow>
          if type = T3_RTX
          then bind_res (get_data (chunk_value chunk)) (\<lambda>d.
                 Inr (True, record_sent (dl_location deliverable) (dl_destination deliverable) d sent_at s))
          else if type = T1_INIT \<or> type = T1_COOKIE then Inr (sent_data, arm_t1 deliverable sent_at (type = T1_INIT) delay s)
          else Inr (sent_data, schedule_expiration (association_timer (dl_location deliverable) type) (sent_at + milliseconds delay) deliverable s))"

fun apply_policies ::
    "Deliverable \<Rightarrow> time \<Rightarrow> SCTP_Chunk \<Rightarrow> (Expiration_Timer_Type \<times> int) list \<Rightarrow> bool \<times> Socket \<Rightarrow> (bool \<times> Socket) res" where
  "apply_policies deliverable sent_at chunk [] state = Inr state"
| "apply_policies deliverable sent_at chunk (policy # policies) state =
     bind_res (apply_policy deliverable sent_at chunk state policy) (apply_policies deliverable sent_at chunk policies)"

fun after_send :: "Deliverable \<Rightarrow> time \<Rightarrow> SCTP_Chunk list \<Rightarrow> bool \<times> Socket \<Rightarrow> (bool \<times> Socket) res" where
  "after_send deliverable sent_at [] state = Inr state"
| "after_send deliverable sent_at (chunk # chunks) state =
     (if chunk_type chunk = HEARTBEAT
      then after_send deliverable sent_at chunks
             (fst state, record_heartbeat_sent (dl_location deliverable) (dl_destination deliverable) sent_at (snd state))
      else bind_res (apply_policies deliverable sent_at chunk (EXPIRE_HANDLERS (chunk_type chunk)) state)
             (after_send deliverable sent_at chunks))"

definition schedule_expirations_after_send :: "Deliverable \<Rightarrow> time \<Rightarrow> Socket \<Rightarrow> Socket res" where
  "schedule_expirations_after_send deliverable sent_at s =
     bind_res (after_send deliverable sent_at (pkt_chunks (dl_packet deliverable)) (False, s)) (\<lambda>(sent_data, s1).
       Inr (if sent_data then start_t3_if_stopped sent_at (dl_location deliverable) (dl_destination deliverable) s1 else s1))"

definition count_burst :: "Pending \<Rightarrow> Socket \<Rightarrow> Socket" where
  "count_burst pending s =
     (if p_priority pending \<noteq> NEW_DATA then s
      else case associations s (dl_location (p_deliverable pending)) of
             None \<Rightarrow> s
           | Some assoc \<Rightarrow> put_association (dl_location (p_deliverable pending)) (assoc\<lparr>burst_count := burst_count assoc + 1\<rparr>) s)"

definition packet_sent :: "time \<Rightarrow> Pending \<Rightarrow> Socket \<Rightarrow> Socket res" where
  "packet_sent now pending s =
     bind_res (schedule_expirations_after_send (p_deliverable pending) now (s\<lparr>sends := commit pending (sends s)\<rparr>)) (\<lambda>s1.
       Inr (count_burst pending s1))"

definition requeue_bundled_sack :: "Pending \<Rightarrow> Socket \<Rightarrow> Socket" where
  "requeue_bundled_sack pending s =
     (let packet = dl_packet (p_deliverable pending) in
      case pkt_chunks packet of
        [] \<Rightarrow> s
      | first # _ \<Rightarrow>
          if p_priority pending = CONTROL \<or> chunk_type first \<noteq> SACK then s
          else send_control (dl_location (p_deliverable pending)) (dl_destination (p_deliverable pending))
                 \<lparr>pkt_header = pkt_header packet, pkt_chunks = [first]\<rparr> s)"

subsection \<open>The loop\<close>

definition handle_send_packet :: "(sockaddr_in \<Rightarrow> bytes \<Rightarrow> bool) \<Rightarrow> Deliverable \<Rightarrow> bool res" where
  "handle_send_packet taken deliverable =
     bind_res (serialize_sctp_packet (dl_packet deliverable)) (\<lambda>bytes. Inr (taken (dl_destination deliverable) bytes))"

text \<open>The packets of the batch that were sent, and the socket.\<close>

fun send_batch ::
    "nat \<Rightarrow> (nat \<Rightarrow> time) \<Rightarrow> Association_Key list \<Rightarrow> (nat \<Rightarrow> sockaddr_in \<Rightarrow> bytes \<Rightarrow> bool) \<Rightarrow> Socket \<Rightarrow> (Pending list \<times> Socket) res" where
  "send_batch 0 clock order network s = Inr ([], s)"
| "send_batch (Suc n) clock order network s =
     bind_res (next_packet (clock n) order s) (\<lambda>(pending, s1).
       case pending of
         None \<Rightarrow> Inr ([], s1)
       | Some p \<Rightarrow>
           bind_res (handle_send_packet (network n) (p_deliverable p)) (\<lambda>accepted.
             if \<not> accepted
             then Inr ([], requeue_bundled_sack p (s1\<lparr>sends := defer_send (clock n + SEND_RETRY_DELAY) (sends s1)\<rparr>))
             else bind_res (packet_sent (clock n) p s1) (\<lambda>s2.
                    bind_res (send_batch n clock order network s2) (\<lambda>(ps, s'). Inr (p # ps, s')))))"

definition run_sending ::
    "(nat \<Rightarrow> time) \<Rightarrow> Association_Key list \<Rightarrow> (nat \<Rightarrow> sockaddr_in \<Rightarrow> bytes \<Rightarrow> bool) \<Rightarrow> Socket \<Rightarrow> (Pending list \<times> Socket) res" where
  "run_sending clock order network s = send_batch MAX_SEND_BATCH clock order network (start_transmission_opportunity s)"

fun receive_batch :: "nat \<Rightarrow> time \<Rightarrow> (bytes \<times> sockaddr_in) list \<Rightarrow> Socket \<Rightarrow> Socket outcome" where
  "receive_batch 0 now datagrams s = Returns s"
| "receive_batch (Suc n) now [] s = Returns s"
| "receive_batch (Suc n) now ((data, src) # datagrams) s =
     (if data = [] then Returns s
      else bind_outcome (handle_recv_packet now data src s) (receive_batch n now datagrams))"

definition run_receiving :: "time \<Rightarrow> (bytes \<times> sockaddr_in) list \<Rightarrow> Socket \<Rightarrow> Socket outcome" where
  "run_receiving now datagrams s = receive_batch MAX_RECEIVE_BATCH now datagrams s"

text \<open>The wait for a deadline, in whole milliseconds: \<open>duration_cast\<close> drops the rest before \<open>ceil\<close> could round it up.\<close>

definition poll_wait :: "time \<Rightarrow> time \<Rightarrow> int" where
  "poll_wait now deadline = (if deadline \<le> now then 0 else min (trunc_div (deadline - now) 1000000) (2 ^ 31 - 1))"

definition next_poll_timeout :: "time \<Rightarrow> Socket \<Rightarrow> int \<times> Socket" where
  "next_poll_timeout now s =
     (case next_deadline (sends s) of
        Some attempt \<Rightarrow>
          if attempt \<le> now then (0, s)
          else (case next_expiration (expirations s) of
                  (expiration, queue) \<Rightarrow>
                    (poll_wait now (case expiration of Some t \<Rightarrow> (if t < attempt then t else attempt) | None \<Rightarrow> attempt),
                     s\<lparr>expirations := queue\<rparr>))
      | None \<Rightarrow>
          (case next_expiration (expirations s) of
             (None, queue) \<Rightarrow> (- 1, s\<lparr>expirations := queue\<rparr>)
           | (Some t, queue) \<Rightarrow> (poll_wait now t, s\<lparr>expirations := queue\<rparr>)))"

text \<open>What \<open>poll\<close> reports: an error of its own, or the events of the wakeup pair and of the UDP socket.\<close>

datatype Poll = Poll_Interrupted | Poll_Failed | Polled (wakeup_failed: bool) (socket_ready: bool) (socket_fatal: bool)

record Pass =
  pass_now :: time
  pass_poll :: "int \<Rightarrow> Poll"
  pass_datagrams :: "(bytes \<times> sockaddr_in) list"
  pass_clock :: "nat \<Rightarrow> time"
  pass_order :: "Association_Key list"
  pass_network :: "nat \<Rightarrow> sockaddr_in \<Rightarrow> bytes \<Rightarrow> bool"

text \<open>One turn of the loop while the socket runs.\<close>

definition event_loop_pass :: "Pass \<Rightarrow> Socket \<Rightarrow> Socket outcome" where
  "event_loop_pass pass s =
     (if \<not> running s then Returns s
      else
        case next_poll_timeout (pass_now pass) s of
          (timeout, s1) \<Rightarrow>
            (case pass_poll pass timeout of
               Poll_Interrupted \<Rightarrow> Returns s1
             | Poll_Failed \<Rightarrow> Returns (s1\<lparr>running := False\<rparr>)
             | Polled wakeup_error ready fatal \<Rightarrow>
                 if wakeup_error then Returns (s1\<lparr>running := False\<rparr>)
                 else
                   bind_outcome (if ready then run_receiving (pass_now pass) (pass_datagrams pass) s1 else Returns s1) (\<lambda>s2.
                     if fatal then Returns (s2\<lparr>running := False\<rparr>)
                     else bind_outcome (lift_res (run_sending (pass_clock pass) (pass_order pass) (pass_network pass)
                            (run_expire (pass_now pass) s2))) (\<lambda>(sent, s3). Returns s3))))"

fun event_loop :: "Pass list \<Rightarrow> Socket \<Rightarrow> Socket outcome" where
  "event_loop [] s = Returns s"
| "event_loop (pass # passes) s =
     (if \<not> running s then Returns s else bind_outcome (event_loop_pass pass s) (event_loop passes))"

subsection \<open>Opening and closing\<close>

text \<open>\<open>bound\<close> says that the socket has a UDP socket, \<open>opened\<close> that the operating system made it non-blocking and gave the wakeup
  pair.\<close>

definition sctp_run :: "bool \<Rightarrow> bool \<Rightarrow> Socket \<Rightarrow> bool \<times> Socket" where
  "sctp_run bound opened s =
     (if running s \<or> \<not> bound then (False, s) else if \<not> opened then (False, s) else (True, s\<lparr>running := True\<rparr>))"

definition sctp_set_linger :: "int \<Rightarrow> Socket \<Rightarrow> Socket" where
  "sctp_set_linger linger s = s\<lparr>linger_ms := max linger 0\<rparr>"

abbreviation (input) USE_SOCKET_LINGER :: int where "USE_SOCKET_LINGER \<equiv> - 1"

definition close_linger :: "int \<Rightarrow> Socket \<Rightarrow> int" where
  "close_linger linger s = max (if linger = USE_SOCKET_LINGER then linger_ms s else linger) 0"

definition shutdown_all :: "time \<Rightarrow> Association_Key list \<Rightarrow> Socket \<Rightarrow> Socket" where
  "shutdown_all now keys s = foldl (\<lambda>s key. snd (sctp_shutdown now key s)) s keys"

definition abort_all :: "Association_Key list \<Rightarrow> Socket \<Rightarrow> Socket" where
  "abort_all keys s = foldl (\<lambda>s key. snd (sctp_abort key [] s)) s keys"

text \<open>The event loop and the other threads keep running while \<open>close_associations\<close> lingers and while it drains the send queue: what the
  socket becomes meanwhile are the functions \<open>lingering\<close> and \<open>draining\<close>. They stand for sequences of the steps of \<open>Socket_Life\<close>, which
  \<open>only_steps\<close> there requires of them. \<open>keys\<close> lists the associations.\<close>

definition close_associations ::
    "time \<Rightarrow> (Socket \<Rightarrow> Association_Key list) \<Rightarrow> (Socket \<Rightarrow> Socket) \<Rightarrow> (Socket \<Rightarrow> Socket) \<Rightarrow> int \<Rightarrow> Socket \<Rightarrow> Socket" where
  "close_associations now keys lingering draining linger s =
     (let s1 = (if linger > 0 then lingering (shutdown_all now (keys s) s) else s)
      in draining (abort_all (keys s1) s1))"

definition end_close :: "Socket \<Rightarrow> Socket" where
  "end_close s =
     s\<lparr>running := False, notifications := close_notifications (notifications s),
       receives := clear_receive_queue (close_receive_queue (receives s)),
       expirations := clear_expirations (expirations s), sends := clear_queue (sends s)\<rparr>"

definition sctp_close ::
    "time \<Rightarrow> (Socket \<Rightarrow> Association_Key list) \<Rightarrow> (Socket \<Rightarrow> Socket) \<Rightarrow> (Socket \<Rightarrow> Socket) \<Rightarrow> int \<Rightarrow> Socket \<Rightarrow> Socket" where
  "sctp_close now keys lingering draining linger s =
     end_close (if running s then close_associations now keys lingering draining (close_linger linger s) s else s)"

text \<open>The condition \<open>await_established_association\<close> waits for, with what it remembers, and the wait over the sockets it finds each
  time it is woken; after the last one the time is up.\<close>

definition await_check :: "Association_Key \<Rightarrow> bool \<Rightarrow> Socket \<Rightarrow> Sctp_Status \<times> bool" where
  "await_check association_id seen s =
     (case associations s association_id of
        Some assoc \<Rightarrow> (if assoc_state assoc = ESTABLISHED then OK else TIMED_OUT, True)
      | None \<Rightarrow> (if seen then NO_ASSOCIATION else if \<not> running s then NOT_RUNNING else TIMED_OUT, seen))"

fun await_established_association :: "Association_Key \<Rightarrow> bool \<Rightarrow> Socket list \<Rightarrow> Sctp_Status" where
  "await_established_association association_id seen [] = TIMED_OUT"
| "await_established_association association_id seen (s # found) =
     (case await_check association_id seen s of
        (status, seen') \<Rightarrow> if status \<noteq> TIMED_OUT then status else await_established_association association_id seen' found)"

subsection \<open>The invariant\<close>

lemma map_associations_ok:
  "sock_ok s \<Longrightarrow> (\<And>assoc. assoc_ok assoc \<Longrightarrow> assoc_ok (f assoc)) \<Longrightarrow> sock_ok (s\<lparr>associations := (\<lambda>key. map_option f (associations s key))\<rparr>)"
  by (fastforce simp: sock_ok_parts)

lemma start_transmission_opportunity_ok: "sock_ok s \<Longrightarrow> sock_ok (start_transmission_opportunity s)"
  unfolding start_transmission_opportunity_def by (rule map_associations_ok) simp_all

lemma send_allowances_ok: "sock_ok s \<Longrightarrow> sock_ok (snd (send_allowances now s))"
  unfolding send_allowances_def Let_def snd_conv by (rule map_associations_ok) (simp_all add: decay_paths_def)

text \<open>What cutting a packet leaves alone.\<close>

definition cut_part :: "Association \<Rightarrow> Peer_Path list \<times> u16 list \<times> u16 \<times> Association_State \<times> u32 \<times> u32 \<times> (u32, Held_Chunk) omap \<times> u32 list" where
  "cut_part a = (peer_address_list a, next_ssn a, out_streams a, assoc_state a, cumulative_tsn_ack a, last_peer_tsn a, tsn_ooo_buffer a,
     duplicate_tsns a)"

lemma cut_loop_part: "cut_part (fst (snd (cut_loop allowance assoc chunks used))) = cut_part assoc"
proof (induction allowance assoc chunks used rule: cut_loop.induct)
  case (1 allowance assoc chunks used)
  have "cut_part (take_chunk n assoc) = cut_part assoc" for n by (simp add: cut_part_def take_chunk_def)
  note take = this
  let ?probe = "zero_window_probe allowance \<and> chunks = []"
  show ?case
  proof (cases "outbound assoc")
    case Nil
    then show ?thesis by (subst cut_loop.simps) simp
  next
    case (Cons m rest)
    show ?thesis
    proof (cases "cut_size assoc m (cut_window assoc allowance ?probe used)")
      case None
      with Cons show ?thesis by (subst cut_loop.simps) simp
    next
      case (Some n)
      show ?thesis
        using Cons Some take "1.IH" [OF Cons refl Some refl] by (subst cut_loop.simps) (simp add: Let_def)
    qed
  qed
qed

lemma cut_new_data_ok:
  assumes "assoc_ok assoc" "cut_new_data assoc allowance = (chunks, assoc', allowance')"
  shows "assoc_ok assoc'"
proof (cases "outbound assoc")
  case Nil
  then have "cut_loop allowance assoc [] 0 = ([], assoc, allowance)" by (subst cut_loop.simps) simp
  with assms show ?thesis by (simp add: cut_new_data_def)
next
  case (Cons m rest)
  have part: "cut_part assoc' = cut_part assoc" using cut_loop_part [of allowance assoc "[]" 0] assms(2) by (simp add: cut_new_data_def)
  have "list_all unsent (outbound assoc)" "pmdcs assoc = DEFAULT_PMDCS" using assms(1) by (simp_all add: assoc_ok_def)
  then have "cut_result assoc (chunks, assoc', allowance') []"
    using cut_loop_run [of assoc allowance "[]" 0] assms(2) by (simp add: cut_new_data_def)
  then have "list_all unsent (outbound assoc')" "pmdcs assoc' = pmdcs assoc"
    using cut_run_unsent \<open>list_all unsent (outbound assoc)\<close> by (auto simp: cut_result_def)
  moreover have "\<not> closing (assoc_state assoc)" using assms(1) Cons by (auto simp: assoc_ok_def)
  ultimately show ?thesis using assms(1) part by (simp add: assoc_ok_def cut_part_def inbound_ok_def ooo_ok_def)
qed

lemma refill_retransmissions_ok: "sock_ok s \<Longrightarrow> sock_ok (refill_retransmissions order allowances s)"
  unfolding refill_retransmissions_def by (rule sock_ok_foldl) (auto simp: refill_retransmission_def schedule_pending_ok)

lemma refill_one_ok: "sock_ok (snd state) \<Longrightarrow> sock_ok (snd (refill_one state key))"
proof -
  assume ok: "sock_ok (snd state)"
  have cut: "assoc_ok (fst (snd (cut_new_data assoc allowance)))" if "associations (snd state) key = Some assoc" for assoc allowance
    using cut_new_data_ok [OF association_ok [OF ok that]] by (cases "cut_new_data assoc allowance") simp
  show ?thesis
    using ok cut unfolding refill_one_def case_prod_unfold Let_def by (simp split: option.split)
qed

lemma refill_new_data_ok: "sock_ok s \<Longrightarrow> sock_ok (snd (refill_new_data order allowances s))"
proof -
  have "sock_ok (snd state) \<Longrightarrow> sock_ok (snd (foldl refill_one state order))" for state
    by (induction order arbitrary: state) (simp_all add: refill_one_ok)
  then show "sock_ok s \<Longrightarrow> ?thesis" by (simp add: refill_new_data_def)
qed

lemma arm_zero_window_probes_ok: "sock_ok s \<Longrightarrow> sock_ok (arm_zero_window_probes now order allowances s)"
  unfolding arm_zero_window_probes_def
  by (rule sock_ok_foldl) (simp_all add: arm_zero_window_probe_def Let_def split: option.split)

abbreviation deliverable_ok :: "Deliverable \<Rightarrow> bool" where
  "deliverable_ok d \<equiv> sendable (dl_packet d)"

lemma ask_immediate_sack_sendable: "sendable p \<Longrightarrow> sendable (ask_immediate_sack i p)"
proof (cases "i < length (pkt_chunks p)")
  case True
  assume "sendable p"
  then have "chunk_sendable c" if "c \<in> set (pkt_chunks p)" for c using that by (simp add: sendable_def list_all_iff)
  moreover have "chunk_sendable (c\<lparr>chunk_header := (chunk_header c)\<lparr>ch_flag := f\<rparr>\<rparr>) = chunk_sendable c" for c f
    by (simp add: chunk_sendable_def chunk_typed_def)
  ultimately show ?thesis
    using True unfolding ask_immediate_sack_def Let_def sendable_def list_all_iff
    by (auto dest!: subsetD [OF set_update_subset_insert])
qed (simp add: ask_immediate_sack_def Let_def list_update_beyond)

lemma bundle_sack_ok:
  assumes "sock_ok s" "deliverable_ok d" "sendable sack" "pkt_chunks sack \<noteq> []"
  shows "res_ok (\<lambda>(d', s'). sock_ok s' \<and> deliverable_ok d') (bundle_sack d sack n s)"
proof -
  obtain b1 b2 where "serialize_sctp_packet sack = Inr b1" "serialize_sctp_packet (dl_packet d) = Inr b2"
    using serialize_sctp_packet_total assms(2,3) by metis
  moreover have "chunk_sendable (hd (pkt_chunks sack))" using assms(3,4) by (cases "pkt_chunks sack") (simp_all add: sendable_def)
  then have "sendable ((dl_packet d)\<lparr>pkt_chunks := hd (pkt_chunks sack) # pkt_chunks (dl_packet d)\<rparr>)"
    using assms(2) by (simp add: sendable_def)
  ultimately show ?thesis using assms by (simp add: bundle_sack_def)
qed

lemma prepare_data_packet_ok:
  assumes "sock_ok s" "deliverable_ok d"
  shows "res_ok (\<lambda>(d', s'). sock_ok s' \<and> deliverable_ok d') (prepare_data_packet d is_new s)"
proof (cases "associations s (dl_location d)")
  case (Some assoc)
  note ok = association_ok [OF assms(1) Some]
  obtain sack assoc' where m: "make_sack (sin_port (local_address s)) (dl_location d) (buffered_bytes (dl_location d) (receives s)) assoc = (sack, assoc')"
    by (rule prod.exhaust)
  have sack: "assoc_ok assoc'" "sendable sack" using make_sack_ok [OF m assoc_ok_no_duplicates [OF ok]] no_duplicates [OF ok] by simp_all
  have "pkt_chunks sack \<noteq> []" using m by (auto simp: make_sack_def Let_def build_sack_def append_chunk_def)
  then show ?thesis
    using assms sack ask_immediate_sack_sendable unfolding prepare_data_packet_def Let_def Some option.case m prod.case
    by (auto intro!: bundle_sack_ok split: option.split)
qed (simp add: prepare_data_packet_def assms split: option.split)

definition pending_ok :: "Pending option \<Rightarrow> bool" where
  "pending_ok p \<longleftrightarrow> (case p of None \<Rightarrow> True | Some p \<Rightarrow> deliverable_ok (p_deliverable p))"

lemma next_packet_ok: "sock_ok s \<Longrightarrow> res_ok (\<lambda>(p, s'). sock_ok s' \<and> pending_ok p) (next_packet now order s)"
proof -
  assume ok: "sock_ok s"
  obtain al s1 where a: "send_allowances now s = (al, s1)" by (rule prod.exhaust)
  obtain al2 s2 where r: "refill_new_data order al (refill_retransmissions order al s1) = (al2, s2)" by (rule prod.exhaust)
  obtain p al3 q where pk: "peek now al2 (sends s2) = (p, al3, q)" by (rule prod_cases3)
  have "sock_ok s1" using send_allowances_ok [OF ok, of now] a by simp
  from refill_new_data_ok [OF refill_retransmissions_ok [OF this], of order al order al] have s2: "sock_ok s2" by (simp add: r)
  then have "sock_ok (s2\<lparr>sends := q\<rparr>)" using queued_ok_peek [OF _ pk] by (simp add: sock_ok_parts)
  then have s3: "sock_ok (arm_zero_window_probes now order al3 (s2\<lparr>sends := q\<rparr>))" by (rule arm_zero_window_probes_ok)
  have p: "deliverable_ok (p_deliverable p')" if "p = Some p'" for p' using peeked_sendable [of "sends s2"] s2 pk that by simp
  show ?thesis
    using s3 p unfolding next_packet_def a prod.case r pk Let_def
    by (auto simp: pending_ok_def intro!: res_bindI [OF prepare_data_packet_ok] split: option.split)
qed

lemma record_data_sent_ok: "assoc_ok assoc \<Longrightarrow> assoc_ok (record_data_sent destination d t assoc)"
proof -
  assume ok: "assoc_ok assoc"
  define i where "i = (case find_path assoc destination of Some i \<Rightarrow> i | None \<Rightarrow> primary assoc)"
  have "assoc_ok (record_data_sent destination d t assoc) = assoc_ok (assoc\<lparr>peer_address_list := (peer_address_list assoc)[i := p]\<rparr>)" for p
    by (simp add: record_data_sent_def Let_def i_def [symmetric] assoc_ok_def inbound_ok_def ooo_ok_def split: option.split)
  with ok show ?thesis by simp
qed

lemma record_sent_ok: "sock_ok s \<Longrightarrow> sock_ok (record_sent l d c t s)"
  using association_ok [of s l] by (simp add: record_sent_def record_data_sent_ok split: option.split)

lemma arm_t1_ok: "sock_ok s \<Longrightarrow> deliverable_ok d \<Longrightarrow> sock_ok (arm_t1 d t b n s)"
  by (auto simp: arm_t1_def split: option.split)

lemma apply_policies_ok:
  assumes "sock_ok (snd state)" "deliverable_ok d" "chunk_sendable c"
  shows "res_ok (\<lambda>state'. sock_ok (snd state')) (apply_policies d t c (EXPIRE_HANDLERS (chunk_type c)) state)"
proof -
  have "chunk_type c = DATA \<Longrightarrow> \<exists>v. get_data (chunk_value c) = Inr v"
    using assms(3) by (cases "chunk_value c") (auto simp: chunk_sendable_def chunk_typed_def get_data_def)
  with assms show ?thesis by (cases state) (auto simp: EXPIRE_HANDLERS_def apply_policy_def arm_t1_ok record_sent_ok)
qed

lemma after_send_ok:
  "sock_ok (snd state) \<Longrightarrow> deliverable_ok d \<Longrightarrow> list_all chunk_sendable cs \<Longrightarrow>
   res_ok (\<lambda>state'. sock_ok (snd state')) (after_send d t cs state)"
proof (induction cs arbitrary: state)
  case (Cons c cs)
  then show ?case by (auto simp: record_heartbeat_sent_ok intro!: res_bindI [OF apply_policies_ok])
qed simp

lemma packet_sent_ok: "sock_ok s \<Longrightarrow> deliverable_ok (p_deliverable p) \<Longrightarrow> res_ok sock_ok (packet_sent now p s)"
proof -
  assume ok: "sock_ok s" "deliverable_ok (p_deliverable p)"
  have count: "sock_ok (count_burst p s1)" if "sock_ok s1" for s1
    using that association_ok [of s1 "dl_location (p_deliverable p)"] by (simp add: count_burst_def split: option.split)
  have "sock_ok (s\<lparr>sends := commit p (sends s)\<rparr>)" using ok(1) queued_ok_commit by (simp add: sock_ok_parts)
  then have sent: "res_ok (\<lambda>state. sock_ok (snd state)) (after_send (p_deliverable p) now (pkt_chunks (dl_packet (p_deliverable p)))
      (False, s\<lparr>sends := commit p (sends s)\<rparr>))"
    using ok(2) by (intro after_send_ok) (simp_all add: sendable_def)
  show ?thesis
    unfolding packet_sent_def schedule_expirations_after_send_def
    by (rule res_bindI [of sock_ok]) (auto intro!: res_bindI [OF sent] count start_t3_ok simp: case_prod_unfold)
qed

lemma requeue_bundled_sack_ok: "sock_ok s \<Longrightarrow> deliverable_ok (p_deliverable p) \<Longrightarrow> sock_ok (requeue_bundled_sack p s)"
  by (auto simp: requeue_bundled_sack_def Let_def sendable_def split: list.split)

lemma send_batch_ok: "sock_ok s \<Longrightarrow> res_ok (\<lambda>(ps, s'). sock_ok s') (send_batch n clock order network s)"
proof (induction n arbitrary: s)
  case (Suc n)
  have sent: "res_ok (\<lambda>_. True) (handle_send_packet taken d)" if "deliverable_ok d" for taken d
    using serialize_sctp_packet_total [OF that] by (auto simp: handle_send_packet_def)
  have "res_ok (\<lambda>(ps, s'). sock_ok s') (bind_res (send_batch n clock order network s2) (\<lambda>(ps, s'). Inr (p # ps, s')))" if "sock_ok s2" for s2 p
    by (rule res_bindI [OF Suc.IH [OF that]]) auto
  moreover have "sock_ok (s1\<lparr>sends := defer_send t (sends s1)\<rparr>)" if "sock_ok s1" for s1 t
    using that by (simp add: sock_ok_parts queued_ok_shrink)
  ultimately show ?case
    using Suc.prems
    by (auto simp: pending_ok_def split: option.split
        intro!: res_bindI [OF next_packet_ok] res_bindI [OF sent] res_bindI [OF packet_sent_ok] requeue_bundled_sack_ok)
qed simp

lemma run_sending_ok: "sock_ok s \<Longrightarrow> res_ok (\<lambda>(ps, s'). sock_ok s') (run_sending clock order network s)"
  unfolding run_sending_def by (intro send_batch_ok start_transmission_opportunity_ok)

lemma receive_batch_ok:
  "sock_ok s \<Longrightarrow> list_all (\<lambda>(data, src). length data \<le> MAX_UDP_DATAGRAM) ds \<Longrightarrow> outcome_ok sock_ok (receive_batch n now ds s)"
proof (induction n now ds s rule: receive_batch.induct)
  case (3 n now data src ds s)
  then show ?case by (auto intro!: outcome_bindI [OF handle_recv_packet_ok])
qed simp_all

lemma drop_stale_ok: "sock_ok s \<Longrightarrow> next_expiration (expirations s) = (t, q) \<Longrightarrow> sock_ok (s\<lparr>expirations := q\<rparr>)"
proof -
  assume ok: "sock_ok s" and q: "next_expiration (expirations s) = (t, q)"
  have "is_active k q = is_active k (expirations s)" for k using q by (auto simp: next_expiration_def is_active_def split: prod.splits)
  with ok retries_ok_next [OF _ q] show ?thesis by (simp add: sock_ok_parts)
qed

lemma next_poll_timeout_ok: "sock_ok s \<Longrightarrow> sock_ok (snd (next_poll_timeout now s))"
  by (auto simp: next_poll_timeout_def drop_stale_ok split: option.split prod.split)

lemma running_ok [simp]: "sock_ok (s\<lparr>running := b\<rparr>) = sock_ok s" "sock_ok (s\<lparr>linger_ms := l\<rparr>) = sock_ok s"
  by (simp_all add: sock_ok_parts)

definition pass_ok :: "Pass \<Rightarrow> bool" where
  "pass_ok pass \<longleftrightarrow> list_all (\<lambda>(data, src). length data \<le> MAX_UDP_DATAGRAM) (pass_datagrams pass)"

lemma event_loop_pass_ok: "sock_ok s \<Longrightarrow> pass_ok pass \<Longrightarrow> outcome_ok sock_ok (event_loop_pass pass s)"
proof -
  assume ok: "sock_ok s" "pass_ok pass"
  obtain timeout s1 where t: "next_poll_timeout (pass_now pass) s = (timeout, s1)" by (rule prod.exhaust)
  have s1: "sock_ok s1" using next_poll_timeout_ok [OF ok(1), of "pass_now pass"] t by simp
  have recv: "outcome_ok sock_ok (run_receiving (pass_now pass) (pass_datagrams pass) s1)"
    using s1 ok(2) by (simp add: run_receiving_def receive_batch_ok pass_ok_def)
  have send: "outcome_ok (\<lambda>(ps, s'). sock_ok s') (lift_res (run_sending c ord nw s2))" if "sock_ok s2" for c ord nw s2
    using run_sending_ok [OF that] by simp
  show ?thesis
    using s1 ok(1) unfolding event_loop_pass_def t prod.case
    by (auto split: Poll.split intro!: outcome_bindI [OF recv] outcome_bindI [OF send] run_expire_ok)
qed

lemma event_loop_ok: "sock_ok s \<Longrightarrow> list_all pass_ok passes \<Longrightarrow> outcome_ok sock_ok (event_loop passes s)"
  by (induction passes arbitrary: s) (auto intro!: outcome_bindI [OF event_loop_pass_ok])

lemma close_all_ok: "sock_ok s \<Longrightarrow> sock_ok (shutdown_all now keys s)" "sock_ok s \<Longrightarrow> sock_ok (abort_all keys s)"
  unfolding shutdown_all_def abort_all_def by (rule sock_ok_foldl; simp add: sctp_shutdown_ok sctp_abort_ok)+

lemma end_close_ok: "sock_ok s \<Longrightarrow> sock_ok (end_close s)"
  by (simp add: end_close_def sock_ok_parts clear_expirations_def is_active_def queued_ok_shrink retries_ok_def)

subsection \<open>Closing\<close>

lemma sctp_abort_removes: "associations (snd (sctp_abort key reason s)) = (associations s)(key := None)"
  by (auto simp: sctp_abort_def Let_def remove_association_fields fun_eq_iff split: option.split)

lemma abort_all_associations: "associations (abort_all keys s) = (\<lambda>key. if key \<in> set keys then None else associations s key)"
proof -
  have "associations (foldl (\<lambda>s key. snd (sctp_abort key [] s)) s keys) = (\<lambda>key. if key \<in> set keys then None else associations s key)" for s
    by (induction keys arbitrary: s) (auto simp: sctp_abort_removes fun_eq_iff)
  then show ?thesis by (simp add: abort_all_def)
qed

subsection \<open>Max.Burst\<close>

text \<open>The packets of new DATA each association has sent in this pass.\<close>

definition bursts :: "Socket \<Rightarrow> Association_Key \<Rightarrow> u32 option" where
  "bursts s key = map_option burst_count (associations s key)"

lemma bursts_cong: "associations s' = associations s \<Longrightarrow> bursts s' = bursts s"
  by (simp add: bursts_def fun_eq_iff)

lemma bursts_put [simp]: "bursts (put_association k assoc s) = (bursts s)(k \<mapsto> burst_count assoc)"
  by (simp add: bursts_def fun_eq_iff)

lemma bursts_same: "associations s k = Some assoc \<Longrightarrow> burst_count assoc' = burst_count assoc \<Longrightarrow> bursts (put_association k assoc' s) = bursts s"
  by (auto simp: bursts_def fun_eq_iff)

lemma bursts_foldl: "(\<And>s x. bursts (f s x) = bursts s) \<Longrightarrow> bursts (foldl f s xs) = bursts s"
  by (induction xs arbitrary: s) simp_all

lemma bursts_frame [simp]:
  "bursts (enqueue_packet d p s) = bursts s" "bursts (send_control k a pkt s) = bursts s" "bursts (schedule_expiration ek t r s) = bursts s"
  "bursts (cancel_expiration ek s) = bursts s" "bursts (s\<lparr>sends := q\<rparr>) = bursts s"
  by (rule bursts_cong; simp)+

lemma decay_paths_burst [simp]: "burst_count (decay_paths now assoc) = burst_count assoc"
  by (simp add: decay_paths_def)

lemma send_allowances_bursts: "bursts (snd (send_allowances now s)) = bursts s"
  by (simp add: send_allowances_def Let_def bursts_def fun_eq_iff option.map_comp o_def)

lemma retransmission_bundle_burst: "retransmission_bundle g assoc = Some (d, cs, assoc') \<Longrightarrow> burst_count assoc' = burst_count assoc"
  by (auto simp: retransmission_bundle_def Let_def split: if_splits)

lemma schedule_pending_bursts: "bursts (schedule_pending_retransmission k g s) = bursts s"
  by (auto simp: schedule_pending_retransmission_def bursts_same retransmission_bundle_burst simp del: bursts_put split: option.split)

lemma refill_retransmissions_bursts: "bursts (refill_retransmissions order al s) = bursts s"
  unfolding refill_retransmissions_def by (rule bursts_foldl) (simp add: refill_retransmission_def schedule_pending_bursts)

lemma cut_loop_keeps:
  "burst_count (fst (snd (cut_loop al assoc chunks used))) = burst_count assoc \<and> burst_spent (snd (snd (cut_loop al assoc chunks used))) = burst_spent al"
proof (induction al assoc chunks used rule: cut_loop.induct)
  case (1 al assoc chunks used)
  have take: "burst_count (take_chunk n assoc) = burst_count assoc" for n by (simp add: take_chunk_def)
  let ?probe = "zero_window_probe al \<and> chunks = []"
  show ?case
  proof (cases "outbound assoc")
    case Nil
    then show ?thesis by (subst (1 2) cut_loop.simps) simp
  next
    case (Cons m rest)
    show ?thesis
    proof (cases "cut_size assoc m (cut_window assoc al ?probe used)")
      case None
      with Cons show ?thesis by (subst (1 2) cut_loop.simps) simp
    next
      case (Some n)
      show ?thesis
        using Cons Some take "1.IH" [OF Cons refl Some refl] by (subst (1 2) cut_loop.simps) (simp add: Let_def)
    qed
  qed
qed

text \<open>What an allowance says of the burst is what the association's count says.\<close>

definition burst_allowed :: "Send_Allowances \<Rightarrow> Socket \<Rightarrow> bool" where
  "burst_allowed al s \<longleftrightarrow> (\<forall>k a. al k = Some a \<longrightarrow> \<not> burst_spent a \<longrightarrow> (\<exists>n. bursts s k = Some n \<and> n < MAX_BURST))"

lemma send_allowances_allowed: "send_allowances now s = (al, s1) \<Longrightarrow> burst_allowed al s1"
  by (auto simp: burst_allowed_def send_allowances_def Let_def allowance_of_def bursts_def not_le split: option.splits if_splits)

lemma burst_allowed_bursts: "bursts s' = bursts s \<Longrightarrow> burst_allowed al s' = burst_allowed al s"
  by (simp add: burst_allowed_def)

lemma refill_one_keeps:
  "bursts (snd (refill_one state k)) = bursts (snd state) \<and> (burst_allowed (fst state) s0 \<longrightarrow> burst_allowed (fst (refill_one state k)) s0)"
proof -
  obtain al s where st: "state = (al, s)" by (rule prod.exhaust)
  have "bursts (put_association k (fst (snd (cut_new_data assoc a))) s) = bursts s" if "associations s k = Some assoc" for assoc a
    using bursts_same [OF that] cut_loop_keeps [of a assoc "[]" 0] by (simp add: cut_new_data_def del: bursts_put)
  moreover have "burst_allowed (al(k \<mapsto> snd (snd (cut_new_data assoc a)))) s0" if "al k = Some a" "burst_allowed al s0" for assoc a
    using that cut_loop_keeps [of a assoc "[]" 0] by (auto simp: burst_allowed_def cut_new_data_def)
  ultimately show ?thesis unfolding refill_one_def st prod.case case_prod_unfold Let_def by (simp del: bursts_put split: option.split)
qed

lemma refill_new_data_keeps:
  "refill_new_data order al s = (al2, s2) \<Longrightarrow> bursts s2 = bursts s \<and> (burst_allowed al s0 \<longrightarrow> burst_allowed al2 s0)"
proof -
  have "bursts (snd (foldl refill_one state order)) = bursts (snd state) \<and>
      (burst_allowed (fst state) s0 \<longrightarrow> burst_allowed (fst (foldl refill_one state order)) s0)" for state
    by (induction order arbitrary: state) (simp_all add: refill_one_keeps)
  from this [of "(al, s)"] show "refill_new_data order al s = (al2, s2) \<Longrightarrow> ?thesis" by (simp add: refill_new_data_def)
qed

lemma peeked_allowed:
  assumes "peek now al sq = (Some p, al', sq')" "p_priority p = NEW_DATA"
  shows "\<exists>a. al (dl_location (p_deliverable p)) = Some a \<and> \<not> burst_spent a"
proof -
  obtain q where q: "fst (scan_new_data (new_data sq) [] al) = Some q" "p = pending_of NEW_DATA q"
    using assms by (auto simp: peek_def peek_locked_def pending_of_def split: if_splits option.splits prod.splits)
  then have "may_send al q" using scan_new_data_spec [of "[]" al al "new_data sq"] by (auto simp: find_Some_iff)
  then show ?thesis using q(2) by (auto simp: may_send_def pending_of_def)
qed

lemma arm_zero_window_probes_bursts: "bursts (arm_zero_window_probes now order al s) = bursts s"
  unfolding arm_zero_window_probes_def
  by (rule bursts_foldl) (simp add: arm_zero_window_probe_def Let_def split: option.split)

lemma prepare_data_packet_bursts:
  assumes "prepare_data_packet d is_new s = Inr (d', s')"
  shows "bursts s' = bursts s \<and> dl_location d' = dl_location d"
proof (cases "associations s (dl_location d)")
  case (Some assoc)
  have "bursts (put_association (dl_location d) assoc' s) = bursts s" if "make_sack p k b assoc = (sack, assoc')" for p k b sack assoc'
    using bursts_same [OF Some, of assoc'] that by (auto simp: make_sack_def Let_def simp del: bursts_put)
  then show ?thesis
    using assms Some unfolding prepare_data_packet_def bundle_sack_def Let_def
    by (auto simp: res_simps simp del: bursts_put split: option.splits prod.splits if_splits)
qed (use assms in \<open>auto simp: prepare_data_packet_def split: option.splits\<close>)

text \<open>A packet of new DATA is offered only to an association that has not spent its burst.\<close>

lemma next_packet_bursts:
  assumes "next_packet now order s = Inr (p, s')"
  shows "bursts s' = bursts s \<and>
    (\<forall>p'. p = Some p' \<longrightarrow> p_priority p' = NEW_DATA \<longrightarrow> (\<exists>n. bursts s' (dl_location (p_deliverable p')) = Some n \<and> n < MAX_BURST))"
proof -
  obtain al s1 where a: "send_allowances now s = (al, s1)" by (rule prod.exhaust)
  obtain al2 s2 where r: "refill_new_data order al (refill_retransmissions order al s1) = (al2, s2)" by (rule prod.exhaust)
  obtain p0 al3 q where pk: "peek now al2 (sends s2) = (p0, al3, q)" by (rule prod_cases3)
  define s3 where "s3 = arm_zero_window_probes now order al3 (s2\<lparr>sends := q\<rparr>)"
  have b1: "bursts s1 = bursts s" using send_allowances_bursts [of now s] a by simp
  have b2: "bursts s2 = bursts s" using refill_new_data_keeps [OF r] refill_retransmissions_bursts b1 by simp
  have b3: "bursts s3 = bursts s" by (simp add: s3_def arm_zero_window_probes_bursts b2)
  have "burst_allowed al2 s1" using refill_new_data_keeps [OF r, of s1] send_allowances_allowed [OF a] by simp
  then have al: "burst_allowed al2 s" using burst_allowed_bursts [OF b1] by simp
  have new: "\<exists>n. bursts s (dl_location (p_deliverable p')) = Some n \<and> n < MAX_BURST" if "p0 = Some p'" "p_priority p' = NEW_DATA" for p'
    using peeked_allowed [of now al2 "sends s2" p'] pk that al by (auto simp: burst_allowed_def)
  have step: "next_packet now order s = (case p0 of None \<Rightarrow> Inr (None, s3)
      | Some p \<Rightarrow> if p_priority p = CONTROL then Inr (Some p, s3)
                  else bind_res (prepare_data_packet (p_deliverable p) (p_priority p = NEW_DATA) s3) (\<lambda>(d, s4). Inr (Some (p\<lparr>p_deliverable := d\<rparr>), s4)))"
    unfolding next_packet_def a prod.case r pk Let_def s3_def ..
  show ?thesis
    using assms b3 new prepare_data_packet_bursts unfolding step
    by (auto simp: res_simps split: option.splits if_splits)
qed

lemma record_data_sent_burst [simp]: "burst_count (record_data_sent destination d t assoc) = burst_count assoc"
  by (simp add: record_data_sent_def Let_def split: option.split)

lemma sent_bursts:
  "bursts (record_sent l d c t s) = bursts s" "bursts (arm_t1 d' t b n s) = bursts s"
  "bursts (record_heartbeat_sent l d t s) = bursts s" "bursts (start_t3_if_stopped t l d s) = bursts s"
proof -
  show "bursts (record_sent l d c t s) = bursts s" by (simp add: record_sent_def bursts_same del: bursts_put split: option.split)
  show "bursts (arm_t1 d' t b n s) = bursts s" by (simp add: arm_t1_def split: option.split)
  show "bursts (record_heartbeat_sent l d t s) = bursts s"
    by (simp add: record_heartbeat_sent_def bursts_same del: bursts_put split: option.split)
  show "bursts (start_t3_if_stopped t l d s) = bursts s"
    by (simp add: start_t3_if_stopped_def restart_t3_def Let_def split: option.split)
qed

lemma apply_policies_bursts:
  "apply_policies d t c ps state = Inr state' \<Longrightarrow> bursts (snd state') = bursts (snd state)"
proof (induction ps arbitrary: state)
  case (Cons p ps)
  obtain state1 where st: "apply_policy d t c state p = Inr state1" "apply_policies d t c ps state1 = Inr state'"
    using Cons.prems by (auto simp: res_simps)
  have "bursts (snd state1) = bursts (snd state)"
    using st(1) by (cases state; cases p) (auto simp: apply_policy_def res_simps sent_bursts split: if_splits)
  with Cons.IH [OF st(2)] show ?case by simp
qed simp

lemma after_send_bursts: "after_send d t cs state = Inr state' \<Longrightarrow> bursts (snd state') = bursts (snd state)"
proof (induction cs arbitrary: state)
  case (Cons c cs)
  show ?case
  proof (cases "chunk_type c = HEARTBEAT")
    case True
    then show ?thesis using Cons.prems Cons.IH [of "(fst state, record_heartbeat_sent (dl_location d) (dl_destination d) t (snd state))"]
      by (simp add: sent_bursts)
  next
    case False
    then obtain state1 where "apply_policies d t c (EXPIRE_HANDLERS (chunk_type c)) state = Inr state1" "after_send d t cs state1 = Inr state'"
      using Cons.prems by (auto simp: res_simps)
    then show ?thesis using Cons.IH apply_policies_bursts by metis
  qed
qed simp

lemma packet_sent_bursts:
  assumes "packet_sent now p s = Inr s'"
  shows "bursts s' = (if p_priority p = NEW_DATA
    then (bursts s)(dl_location (p_deliverable p) := map_option (\<lambda>n. n + 1) (bursts s (dl_location (p_deliverable p)))) else bursts s)"
proof -
  obtain sent s1 where s1: "after_send (p_deliverable p) now (pkt_chunks (dl_packet (p_deliverable p))) (False, s\<lparr>sends := commit p (sends s)\<rparr>) = Inr (sent, s1)"
    and s': "s' = count_burst p (if sent then start_t3_if_stopped now (dl_location (p_deliverable p)) (dl_destination (p_deliverable p)) s1 else s1)"
    using assms by (auto simp: packet_sent_def schedule_expirations_after_send_def res_simps)
  have b: "bursts (if sent then start_t3_if_stopped now l d s1 else s1) = bursts s" for l d
    using after_send_bursts [OF s1] by (simp add: sent_bursts)
  have "bursts (count_burst p u) = (if p_priority p = NEW_DATA
      then (bursts u)(dl_location (p_deliverable p) := map_option (\<lambda>n. n + 1) (bursts u (dl_location (p_deliverable p)))) else bursts u)" for u
    by (auto simp: count_burst_def bursts_def fun_eq_iff split: option.split)
  from this [of "if sent then start_t3_if_stopped now (dl_location (p_deliverable p)) (dl_destination (p_deliverable p)) s1 else s1"]
  show ?thesis unfolding s' b .
qed

text \<open>The packets of new DATA of one association among those sent.\<close>

definition new_data_of :: "Association_Key \<Rightarrow> Pending list \<Rightarrow> Pending list" where
  "new_data_of key ps = filter (\<lambda>p. p_priority p = NEW_DATA \<and> dl_location (p_deliverable p) = key) ps"

lemma send_batch_burst:
  "send_batch n clock order network s = Inr (ps, s') \<Longrightarrow> (case bursts s key of None \<Rightarrow> True | Some b \<Rightarrow> b \<le> MAX_BURST) \<Longrightarrow>
   length (new_data_of key ps) + (case bursts s key of None \<Rightarrow> 4 | Some b \<Rightarrow> unat b) \<le> 4"
proof (induction n arbitrary: s ps)
  case 0
  then show ?case by (auto simp: new_data_of_def word_le_nat_alt split: option.split)
next
  case (Suc n)
  obtain p s1 where nx: "next_packet (clock n) order s = Inr (p, s1)" using Suc.prems(1) by (auto simp: res_simps)
  note b1 = conjunct1 [OF next_packet_bursts [OF nx]]
  have stop: "length (new_data_of key []) + (case bursts s key of None \<Rightarrow> 4 | Some b \<Rightarrow> unat b) \<le> 4"
    using Suc.prems(2) by (auto simp: new_data_of_def word_le_nat_alt split: option.split)
  show ?case
  proof (cases "p = None \<or> ps = []")
    case True
    with Suc.prems(1) nx stop show ?thesis by (auto simp: res_simps)
  next
    case False
    then obtain p' where p: "p = Some p'" by (cases p) auto
    obtain s2 ps2 where s2: "packet_sent (clock n) p' s1 = Inr s2" "send_batch n clock order network s2 = Inr (ps2, s')" "ps = p' # ps2"
      using Suc.prems(1) nx False p by (auto simp: res_simps split: if_splits)
    have b2: "bursts s2 = (if p_priority p' = NEW_DATA
        then (bursts s)(dl_location (p_deliverable p') := map_option (\<lambda>n. n + 1) (bursts s (dl_location (p_deliverable p')))) else bursts s)"
      using packet_sent_bursts [OF s2(1)] b1 by simp
    show ?thesis
    proof (cases "p_priority p' = NEW_DATA \<and> dl_location (p_deliverable p') = key")
      case True
      then obtain b where b: "bursts s key = Some b" "b < 4" using next_packet_bursts [OF nx] p by auto
      then have k: "bursts s2 key = Some (b + 1)" using b2 True by simp
      have "unat (b + 1) = Suc (unat b)" "b + 1 \<le> 4" using b(2) by (simp_all add: unat_word_ariths word_less_nat_alt word_le_nat_alt)
      then show ?thesis using Suc.IH [OF s2(2)] k b(1) True by (simp add: s2(3) new_data_of_def)
    next
      case False
      then have "bursts s2 key = bursts s key" using b2 by auto
      then show ?thesis using Suc.IH [OF s2(2)] Suc.prems(2) False by (auto simp: s2(3) new_data_of_def)
    qed
  qed
qed

subsection \<open>A packet the network refuses\<close>

lemma enqueue_keeps: "q \<in> set (queue_for prio sq) \<Longrightarrow> q \<in> set (queue_for prio (enqueue d prio' sq))"
  by (cases prio; cases prio') (auto simp: enqueue_def)

lemma enqueue_control_packet:
  "length (control sq) < MAX_QUEUED_CONTROL \<Longrightarrow> \<exists>q \<in> set (control (enqueue d CONTROL sq)). q_deliverable q = d"
  by (auto simp: enqueue_def)

lemma prepare_keeps_queue:
  "prepare_data_packet d is_new s = Inr (d', s') \<Longrightarrow> q \<in> set (queue_for prio (sends s)) \<Longrightarrow> q \<in> set (queue_for prio (sends s'))"
  unfolding prepare_data_packet_def bundle_sack_def Let_def send_control_def enqueue_packet_def
  by (auto simp: res_simps put_association_def cancel_expiration_def enqueue_keeps split: option.splits prod.splits if_splits)

lemma arm_zero_window_probes_sends: "sends (arm_zero_window_probes now order al s) = sends s"
proof -
  have "sends (foldl (arm_zero_window_probe now al) s order) = sends s" for s
    by (induction order arbitrary: s) (simp_all add: arm_zero_window_probe_def Let_def split: option.split)
  then show ?thesis by (simp add: arm_zero_window_probes_def)
qed

lemma next_packet_queued:
  assumes "next_packet now order s = Inr (Some p, s')"
  shows "\<exists>q \<in> set (queue_for (p_priority p) (sends s')). q_id q = p_id p"
proof -
  obtain al s1 where a: "send_allowances now s = (al, s1)" by (rule prod.exhaust)
  obtain al2 s2 where r: "refill_new_data order al (refill_retransmissions order al s1) = (al2, s2)" by (rule prod.exhaust)
  obtain p0 al3 q where pk: "peek now al2 (sends s2) = (p0, al3, q)" by (rule prod_cases3)
  define s3 where "s3 = arm_zero_window_probes now order al3 (s2\<lparr>sends := q\<rparr>)"
  have step: "next_packet now order s = (case p0 of None \<Rightarrow> Inr (None, s3)
      | Some p \<Rightarrow> if p_priority p = CONTROL then Inr (Some p, s3)
                  else bind_res (prepare_data_packet (p_deliverable p) (p_priority p = NEW_DATA) s3) (\<lambda>(d, s4). Inr (Some (p\<lparr>p_deliverable := d\<rparr>), s4)))"
    unfolding next_packet_def a prod.case r pk Let_def s3_def ..
  obtain p1 where p1: "p0 = Some p1" "p_priority p1 = p_priority p" "p_id p1 = p_id p"
    using assms unfolding step by (auto simp: res_simps split: option.splits if_splits)
  obtain l where l: "peek_locked now (Some al2) (sends s2) = (Some p1, l, q)" using pk p1(1) by (auto simp: peek_def split: prod.splits)
  from peek_in_queue [OF this] have "\<lparr>q_id = p_id p1, q_deliverable = p_deliverable p1\<rparr> \<in> set (queue_for (p_priority p) (sends s3))"
    using peek_locked_queues [OF l] p1(2) by (simp add: s3_def arm_zero_window_probes_sends)
  moreover have "s' = s3 \<or> (\<exists>d is_new d'. prepare_data_packet d is_new s3 = Inr (d', s'))"
    using assms unfolding step by (auto simp: res_simps split: option.splits if_splits)
  ultimately have "\<lparr>q_id = p_id p1, q_deliverable = p_deliverable p1\<rparr> \<in> set (queue_for (p_priority p) (sends s'))"
    using prepare_keeps_queue by blast
  then show ?thesis using p1(3) by force
qed

subsection \<open>Waiting\<close>

text \<open>The wait ends with OK only when it found the association established.\<close>

lemma await_OK:
  "await_established_association k seen found = OK \<Longrightarrow> \<exists>s \<in> set found. \<exists>assoc. associations s k = Some assoc \<and> assoc_state assoc = ESTABLISHED"
proof (induction k seen found rule: await_established_association.induct)
  case (2 k seen s found)
  show ?case
  proof (cases "\<exists>assoc. associations s k = Some assoc \<and> assoc_state assoc = ESTABLISHED")
    case False
    then have "fst (await_check k seen s) \<noteq> OK" by (auto simp: await_check_def split: option.splits)
    with 2 show ?thesis by (auto split: prod.splits if_splits)
  qed auto
qed simp

subsection \<open>Properties\<close>

text \<open>C7: A pass of the send loop always ends: no packet the loop takes from the queues makes the serializer throw, the socket it leaves is
  consistent, and no association sends more than Max.Burst (four) packets of new DATA in it (RFC 9260, section 6.1), however the network
  answers.\<close>

theorem run_sending_bounded:
  assumes "sock_ok s"
  shows "\<exists>ps s'. run_sending clock order network s = Inr (ps, s') \<and> sock_ok s' \<and> (\<forall>key. length (new_data_of key ps) \<le> 4)"
proof -
  obtain ps s' where r: "run_sending clock order network s = Inr (ps, s')" "sock_ok s'"
    using run_sending_ok [OF assms, of clock order network] by (cases "run_sending clock order network s") auto
  have "bursts (start_transmission_opportunity s) key = map_option (\<lambda>_. 0) (associations s key)" for key
    by (simp add: bursts_def start_transmission_opportunity_def option.map_comp o_def)
  then have "length (new_data_of key ps) \<le> 4" for key
    using send_batch_burst [OF r(1) [unfolded run_sending_def], of key] by (cases "associations s key") simp_all
  with r show ?thesis by blast
qed

theorem run_sending_bounded_witness:
  "\<exists>ps s'. run_sending (\<lambda>_. 0) [] (\<lambda>_ _ _. True) (example_established 5 9) = Inr (ps, s') \<and> sock_ok s' \<and> (\<forall>key. length (new_data_of key ps) \<le> 4)"
  by (rule run_sending_bounded [OF example_established_ok])

lemma poll_wait_bounds: "0 \<le> poll_wait now d" "now + milliseconds (poll_wait now d) \<le> max now d"
proof -
  have t: "now < d \<Longrightarrow> trunc_div (d - now) 1000000 = (d - now) div 1000000" by (simp add: trunc_div_nonneg)
  then show "0 \<le> poll_wait now d" by (simp add: poll_wait_def pos_imp_zdiv_nonneg_iff)
  have "(d - now) div 1000000 * 1000000 \<le> d - now" by (simp add: div_times_less_eq_dividend)
  then show "now + milliseconds (poll_wait now d) \<le> max now d" using t by (auto simp: poll_wait_def min_def)
qed

text \<open>C8: The event loop never sleeps past a deadline: the timeout it gives \<open>poll\<close> is infinite only when no timer runs and nothing waits to be
  sent, and otherwise ends no later than the expiration of every running timer and the next attempt to send.\<close>

theorem poll_never_oversleeps:
  assumes "eq_ok n (expirations s)" "next_poll_timeout now s = (timeout, s')"
  shows "(timeout = - 1 \<longleftrightarrow> timer (expirations s) = Map.empty \<and> next_deadline (sends s) = None) \<and>
    (\<forall>k t retry. timer (expirations s) k = Some (t, retry) \<longrightarrow> 0 \<le> timeout \<and> now + milliseconds timeout \<le> max now t) \<and>
    (\<forall>t. next_deadline (sends s) = Some t \<longrightarrow> 0 \<le> timeout \<and> now + milliseconds timeout \<le> max now t)"
proof -
  obtain deadline q where nx: "next_expiration (expirations s) = (deadline, q)" by (rule prod.exhaust)
  note earliest = next_expiration_earliest [OF assms(1) nx]
  note wait = poll_wait_bounds [of now]
  have le: "now + milliseconds (poll_wait now d) \<le> max now t" if "d \<le> t" for d t using wait(2) [of d] that by linarith
  show ?thesis
  proof (cases "next_deadline (sends s)")
    case None
    then have "timeout = (case deadline of None \<Rightarrow> - 1 | Some t \<Rightarrow> poll_wait now t)"
      using assms(2) nx by (auto simp: next_poll_timeout_def split: option.splits)
    then show ?thesis
    proof (cases deadline)
      case None
      with \<open>next_deadline (sends s) = None\<close> \<open>timeout = _\<close> earliest show ?thesis by simp
    next
      case (Some t)
      then have "timeout = poll_wait now t" "timer (expirations s) \<noteq> Map.empty" using \<open>timeout = _\<close> earliest by simp_all
      moreover have "t \<le> t'" if "timer (expirations s) k = Some (t', retry)" for k t' retry using earliest Some that by blast
      ultimately show ?thesis using None wait(1) [of t] le [of t] by auto
    qed
  next
    case (Some attempt)
    define d where "d = (case deadline of Some t \<Rightarrow> (if t < attempt then t else attempt) | None \<Rightarrow> attempt)"
    have "timeout = (if attempt \<le> now then 0 else poll_wait now d)"
      using assms(2) nx Some by (auto simp: next_poll_timeout_def d_def split: if_splits)
    then have pos: "0 \<le> timeout" "d \<le> t \<Longrightarrow> now + milliseconds timeout \<le> max now t" for t using wait(1) le by auto
    moreover have "d \<le> attempt" by (simp add: d_def split: option.split)
    moreover have "d \<le> t" if "timer (expirations s) k = Some (t, retry)" for k t retry
    proof (cases deadline)
      case None
      with earliest that show ?thesis by simp
    next
      case (Some a)
      then have "a \<le> t" using earliest that by blast
      with Some show ?thesis by (simp add: d_def)
    qed
    ultimately show ?thesis using Some by auto
  qed
qed

theorem poll_never_oversleeps_witness:
  "fst (next_poll_timeout 0 (empty_socket\<lparr>expirations := example_timers\<rparr>)) \<noteq> - 1"
proof -
  obtain timeout s' where t: "next_poll_timeout 0 (empty_socket\<lparr>expirations := example_timers\<rparr>) = (timeout, s')" by (rule prod.exhaust)
  have "timer example_timers \<noteq> Map.empty" using example_timers_timer by (auto simp: fun_eq_iff)
  then show ?thesis
    using poll_never_oversleeps [of 4 "empty_socket\<lparr>expirations := example_timers\<rparr>", OF _ t] example_timers_ok t by simp
qed

text \<open>An abort queues an ABORT for its own association and keeps the packets of the others, so that after all of them every peer is told.\<close>

lemma remove_association_local: "local_address (remove_association key s) = local_address s"
  by (auto simp: remove_association_def purge_sends_def cancel_expirations_def forget_peer_addresses_def detach_receives_def
      erase_association_def abandon_partial_delivery_def raise_notification_def Let_def split: option.split)

lemma sctp_abort_queue:
  "q \<in> set (control (sends s)) \<Longrightarrow> q_location q \<noteq> key \<Longrightarrow> q \<in> set (control (sends (snd (sctp_abort key reason s))))"
  "length (control (sends (snd (sctp_abort key reason s)))) \<le> Suc (length (control (sends s)))"
  "local_address (snd (sctp_abort key reason s)) = local_address s"
  by (auto simp: sctp_abort_def Let_def send_control_def enqueue_packet_def enqueue_def remove_association_sends remove_association_local purge_def
      purge_one_def split: option.split intro: le_SucI)

definition user_abort :: "Association_Key \<Rightarrow> Association \<Rightarrow> Socket \<Rightarrow> SCTP_Packet" where
  "user_abort key assoc s = build_abort (local_port s) (peer_port key) (peer_ver_tag assoc) False
     [\<lparr>cause_code = CAUSE_USER_INITIATED_ABORT, cause_info = []\<rparr>]"

lemma sctp_abort_tells:
  assumes "associations s key = Some assoc" "peer_ver_tag assoc \<noteq> 0" "length (control (sends s)) < MAX_QUEUED_CONTROL"
  shows "\<exists>q \<in> set (control (sends (snd (sctp_abort key [] s)))). q_location q = key \<and> dl_packet (q_deliverable q) = user_abort key assoc s"
proof -
  have "length (control (purge key (sends s))) < MAX_QUEUED_CONTROL"
    using assms(3) le_less_trans [OF length_filter_le] by (simp add: purge_def purge_one_def)
  then show ?thesis using assms(1,2)
    by (simp add: sctp_abort_def user_abort_def Let_def send_control_def enqueue_packet_def enqueue_def remove_association_sends)
qed

lemma abort_all_tells:
  assumes "distinct keys" "length (control (sends s)) + length keys \<le> MAX_QUEUED_CONTROL" "key \<in> set keys"
    "associations s key = Some assoc" "peer_ver_tag assoc \<noteq> 0"
  shows "\<exists>q \<in> set (control (sends (abort_all keys s))). q_location q = key \<and> dl_packet (q_deliverable q) = user_abort key assoc s"
  using assms unfolding abort_all_def
proof (induction keys arbitrary: s)
  case (Cons k keys)
  let ?s = "snd (sctp_abort k [] s)"
  have kept: "q \<in> set (control (sends (foldl (\<lambda>s key. snd (sctp_abort key [] s)) u ks)))"
    if "q \<in> set (control (sends u))" "q_location q \<notin> set ks" for q u ks
    using that by (induction ks arbitrary: u) (auto simp: sctp_abort_queue(1))
  show ?case
  proof (cases "k = key")
    case True
    then obtain q where "q \<in> set (control (sends ?s))" "q_location q = key" "dl_packet (q_deliverable q) = user_abort key assoc s"
      using sctp_abort_tells [OF Cons.prems(4,5)] Cons.prems(2) by auto
    then show ?thesis using kept [of q ?s keys] Cons.prems(1) True by auto
  next
    case False
    have "length (control (sends ?s)) + length keys \<le> MAX_QUEUED_CONTROL" using sctp_abort_queue(2) [of k "[]" s] Cons.prems(2) by simp
    moreover have "associations ?s key = Some assoc" using Cons.prems(4) False by (simp add: sctp_abort_removes)
    moreover have "user_abort key assoc ?s = user_abort key assoc s" by (simp add: user_abort_def sctp_abort_queue(3))
    ultimately show ?thesis using Cons.IH [of ?s] Cons.prems False by simp
  qed
qed simp

text \<open>C9: A packet the network refuses is not lost and not overtaken: nothing is sent in the pass, the packet stays where it was in its queue, the
  next attempt is 10 ms away, and a SACK that was bundled into it, which the queued copy does not carry, is queued on its own.\<close>

theorem refused_packet_stays:
  assumes "next_packet (clock 63) order (start_transmission_opportunity s) = Inr (Some p, s1)"
    and "serialize_sctp_packet (dl_packet (p_deliverable p)) = Inr bytes" "\<not> network 63 (dl_destination (p_deliverable p)) bytes"
  shows "\<exists>s'. run_sending clock order network s = Inr ([], s') \<and> next_send_attempt (sends s') = clock 63 + milliseconds 10 \<and>
    (\<exists>q \<in> set (queue_for (p_priority p) (sends s')). q_id q = p_id p) \<and>
    (\<forall>sack rest. p_priority p \<noteq> CONTROL \<longrightarrow> pkt_chunks (dl_packet (p_deliverable p)) = sack # rest \<longrightarrow> chunk_type sack = SACK \<longrightarrow>
       length (control (sends s1)) < MAX_QUEUED_CONTROL \<longrightarrow>
       (\<exists>q \<in> set (control (sends s')). q_location q = dl_location (p_deliverable p) \<and> q_chunks q = [sack]))"
proof -
  define s2 where "s2 = s1\<lparr>sends := defer_send (clock 63 + milliseconds 10) (sends s1)\<rparr>"
  have run: "run_sending clock order network s = Inr ([], requeue_bundled_sack p s2)"
  proof -
    have "send_batch (Suc 63) clock order network (start_transmission_opportunity s) = Inr ([], requeue_bundled_sack p s2)"
      unfolding send_batch.simps using assms by (simp add: handle_send_packet_def s2_def)
    then show ?thesis by (simp add: run_sending_def)
  qed
  obtain q where q: "q \<in> set (queue_for (p_priority p) (sends s1))" "q_id q = p_id p" using next_packet_queued [OF assms(1)] by blast
  then have "q \<in> set (queue_for (p_priority p) (sends s2))" by (simp add: s2_def defer_send_def)
  then have "q \<in> set (queue_for (p_priority p) (sends (requeue_bundled_sack p s2)))"
    by (simp add: requeue_bundled_sack_def Let_def send_control_def enqueue_packet_def enqueue_keeps split: list.split)
  moreover have "next_send_attempt (enqueue d prio sq) = next_send_attempt sq" for d prio sq by (simp add: enqueue_def)
  then have "next_send_attempt (sends (requeue_bundled_sack p s2)) = clock 63 + milliseconds 10"
    by (simp add: requeue_bundled_sack_def Let_def send_control_def enqueue_packet_def s2_def defer_send_def split: list.split)
  moreover have "\<exists>q \<in> set (control (sends (requeue_bundled_sack p s2))). q_location q = dl_location (p_deliverable p) \<and> q_chunks q = [sack]"
    if "p_priority p \<noteq> CONTROL" "pkt_chunks (dl_packet (p_deliverable p)) = sack # rest" "chunk_type sack = SACK"
      "length (control (sends s1)) < MAX_QUEUED_CONTROL" for sack rest
  proof -
    define d where "d = \<lparr>dl_location = dl_location (p_deliverable p), dl_destination = dl_destination (p_deliverable p),
      dl_packet = \<lparr>pkt_header = pkt_header (dl_packet (p_deliverable p)), pkt_chunks = [sack]\<rparr>\<rparr>"
    have "sends (requeue_bundled_sack p s2) = enqueue d CONTROL (sends s2)"
      using that by (simp add: requeue_bundled_sack_def send_control_def enqueue_packet_def d_def)
    moreover have "length (control (sends s2)) < MAX_QUEUED_CONTROL" using that(4) by (simp add: s2_def defer_send_def)
    ultimately obtain q where "q \<in> set (control (sends (requeue_bundled_sack p s2)))" "q_deliverable q = d"
      using enqueue_control_packet [of "sends s2" d] by auto
    then show ?thesis by (intro bexI [of _ q]) (simp_all add: d_def)
  qed
  ultimately show ?thesis using run q(2) by blast
qed

definition example_refused :: Socket where
  "example_refused = send_control \<lparr>s_addr = 1, sin_port = 9\<rparr> \<lparr>s_addr = 1, sin_port = 9\<rparr> (build_shutdown_ack 9 9 8) empty_socket"

theorem refused_packet_stays_witness:
  "\<exists>s'. run_sending (\<lambda>_. 0) [] (\<lambda>_ _ _. False) example_refused = Inr ([], s') \<and> next_send_attempt (sends s') = milliseconds 10"
proof -
  have "\<exists>p s1. next_packet 0 [] (start_transmission_opportunity example_refused) = Inr (Some p, s1) \<and>
      dl_packet (p_deliverable p) = build_shutdown_ack 9 9 8"
    by (simp add: next_packet_def send_allowances_def start_transmission_opportunity_def example_refused_def empty_socket_def send_control_def
        enqueue_packet_def refill_new_data_def refill_retransmissions_def peek_def peek_locked_def enqueue_def empty_send_queue_def
        arm_zero_window_probes_def pending_of_def Let_def)
  then obtain p s1 where p: "next_packet ((\<lambda>_. 0) 63) [] (start_transmission_opportunity example_refused) = Inr (Some p, s1)"
    "dl_packet (p_deliverable p) = build_shutdown_ack 9 9 8" by auto
  obtain bytes where "serialize_sctp_packet (dl_packet (p_deliverable p)) = Inr bytes"
    using serialize_sctp_packet_total [of "build_shutdown_ack 9 9 8"] p(2) by auto
  from refused_packet_stays [OF p(1) this, of "\<lambda>_ _ _. False"] show ?thesis by auto
qed

end
