(* ===== verification/Message_Exchange.thy ===== *)
theory Message_Exchange
  imports Association_Setup Event_Loop
begin

text \<open>
  A message from the application of one socket to the application of the other: \<open>sctp_send_data\<close>, the packet \<open>next_packet\<close> builds for the
  wire, \<open>handle_recv_packet\<close> and \<open>sctp_recv_data_from\<close>, on an association that is up and idle.
\<close>

subsection \<open>The receiver takes a whole message\<close>

definition whole_message :: "data_chunk_value \<Rightarrow> bool" where
  "whole_message d \<longleftrightarrow> has_flag d DATA_FLAG_B \<and> has_flag d DATA_FLAG_E \<and> user_data d \<noteq> []"

text \<open>An association that expects a chunk: it is next in TSN order and, unless unordered, next in its stream, and nothing waits.\<close>

definition expecting :: "data_chunk_value \<Rightarrow> Association \<Rightarrow> bool" where
  "expecting d y \<longleftrightarrow> data_tsn d = last_peer_tsn y + 1 \<and> tsn_ooo_buffer y = [] \<and> \<not> ra_open (reassembly y) \<and>
     stream_identifier d < in_streams y \<and> early (inbound_stream y (stream_identifier d)) = [] \<and>
     (has_flag d DATA_FLAG_U \<or> stream_seq_num d = is_next_ssn (inbound_stream y (stream_identifier d)))"

definition taken :: "data_chunk_value \<Rightarrow> Association \<Rightarrow> Association" where
  "taken d y =
     (let i = stream_identifier d; s = inbound_stream y i;
          y1 = y\<lparr>reassembly := \<lparr>ra_open = False, partially_delivered = False, ra_unordered = has_flag d DATA_FLAG_U, ra_stream = i,
                  ra_ssn = stream_seq_num d, ra_bytes = []\<rparr>\<rparr>
      in if has_flag d DATA_FLAG_U then y1 else set_inbound_stream i (s\<lparr>is_next_ssn := is_next_ssn s + 1\<rparr>) y1)"

lemma inbound_stream_keeps [simp]:
  "inbound_stream (y\<lparr>reassembly := m\<rparr>) i = inbound_stream y i" "inbound_stream (y\<lparr>last_peer_tsn := t\<rparr>) i = inbound_stream y i"
  "inbound_stream (y\<lparr>received_since_sack := n\<rparr>) i = inbound_stream y i"
  by (simp_all add: inbound_stream_def)

lemma taken_keeps [simp]:
  "tsn_ooo_buffer (taken d y) = tsn_ooo_buffer y" "last_peer_tsn (taken d y) = last_peer_tsn y" "assoc_state (taken d y) = assoc_state y"
  "\<not> ra_open (reassembly (taken d y))"
  by (simp_all add: taken_def Let_def set_inbound_stream_def)

lemma reassemble_whole:
  assumes "whole_message d" "\<not> ra_open (reassembly y)" "early (inbound_stream y (stream_identifier d)) = []"
    and "has_flag d DATA_FLAG_U \<or> stream_seq_num d = is_next_ssn (inbound_stream y (stream_identifier d))"
  shows "reassemble d True (y, l) = (True, taken d y, l @ [\<lparr>dv_bytes = user_data d, dv_complete = True, dv_stream = stream_identifier d\<rparr>])"
  using assms
  by (auto simp: whole_message_def reassemble_def Let_def order_message_def taken_def hand_up_def partial_delivery_open_def advance_stream_def
      advance_loop.simps)

lemma receive_whole:
  assumes "whole_message d" "expecting d y" "chunk_type c = DATA" "chunk_value c = Data_Value d" "buffered + held_bytes y < RWND"
  shows "\<exists>rx. receive_chunks [c] (start_reception imm buffered y) = rx \<and> deliver_partially rx = rx \<and> rx_have_data rx \<and>
    \<not> rx_violation rx \<and> rx_invalid_streams rx = [] \<and> assoc_state (rx_assoc rx) = assoc_state y \<and>
    rx_delivered rx = [\<lparr>dv_bytes = user_data d, dv_complete = True, dv_stream = stream_identifier d\<rparr>]"
proof -
  note ex = assms(2) [unfolded expecting_def]
  define y0 where "y0 = y\<lparr>received_since_sack := received_since_sack y + of_nat (length (user_data d))\<rparr>"
  let ?delivery = "\<lparr>dv_bytes = user_data d, dv_complete = True, dv_stream = stream_identifier d\<rparr>"
  define y1 where "y1 = taken d (y0\<lparr>last_peer_tsn := data_tsn d\<rparr>)"
  have "reassemble d True (y0\<lparr>last_peer_tsn := data_tsn d\<rparr>, []) = (True, y1, [] @ [?delivery])"
    unfolding y1_def using assms(1) ex by (intro reassemble_whole) (simp_all add: y0_def)
  then have next_taken: "take_next d True (y0\<lparr>last_peer_tsn := data_tsn d\<rparr>, []) = (True, y1\<lparr>last_peer_tsn := last_peer_tsn y1 + 1 - 1\<rparr>, [?delivery])"
    using ex by (simp add: take_next_def read_ooo_buffer_def read_ooo_loop.simps y1_def y0_def)
  have not_old: "\<not> tsn_lte (data_tsn d) (last_peer_tsn y)" "unat (data_tsn d - last_peer_tsn y) = 1"
    using ex by (simp_all add: tsn_lte_def tsn_lt_def)
  define rx where "rx = receive_chunk (ch_flag (chunk_header c)) d (start_reception imm buffered y)"
  have rx: "rx_assoc rx = y1\<lparr>last_peer_tsn := last_peer_tsn y1 + 1 - 1\<rparr>" "rx_have_data rx" "\<not> rx_violation rx" "rx_invalid_streams rx = []"
    "rx_delivered rx = [?delivery]"
    unfolding rx_def receive_chunk_def start_reception_def Let_def
    using ex not_old assms(5) next_taken by (simp_all add: y0_def room_for_def accept_chunk_def)
  have "receive_chunks [c] (start_reception imm buffered y) = rx" using assms(3,4) rx(3) by (simp add: rx_def)
  moreover have "deliver_partially rx = rx" by (simp add: deliver_partially_def rx(1) y1_def)
  moreover have "assoc_state (rx_assoc rx) = assoc_state y" by (simp add: rx(1) y1_def y0_def)
  ultimately show ?thesis using rx by simp
qed

lemma acknowledge_keeps_receives:
  assumes "acknowledge_data now k hole rx s = (f, y')" "assoc_state (rx_assoc rx) = ESTABLISHED"
  shows "receives (f u) = receives u"
proof -
  have sack: "receives (send_sack k u) = receives u" for u
    by (simp add: send_sack_def send_control_def enqueue_packet_def cancel_expiration_def put_association_def split: option.split prod.split)
  show ?thesis
    using assms by (auto simp: acknowledge_data_def Let_def sack schedule_expiration_def split: if_splits)
qed

lemma expecting_paths [simp]: "expecting d (y\<lparr>peer_address_list := ps\<rparr>) = expecting d y" "held_bytes (y\<lparr>peer_address_list := ps\<rparr>) = held_bytes y"
  by (simp_all add: expecting_def inbound_stream_def held_bytes_def)

lemma receiver_takes_message:
  fixes src pa
  defines "k \<equiv> peer_key src pa"
  assumes "pkt_chunks p = [c]" "chunk_type c = DATA" "chunk_value c = Data_Value d" "whole_message d"
    and "src_port (pkt_header p) = pa" "des_port (pkt_header p) = local_port b" "verification_tag (pkt_header p) = this_ver_tag y"
    and "associations b k = Some y" "assoc_state y = ESTABLISHED" "expecting d y" "buffered_bytes k (receives b) + held_bytes y < RWND"
  shows "\<exists>b1. handle_packet now p src b = Returns b1 \<and> receives b1 = push k (user_data d) True (stream_identifier d) (receives b)"
proof -
  obtain ps where rec: "record_encapsulation_port k src b = put_association k (y\<lparr>peer_address_list := ps\<rparr>) b"
    using record_encapsulation_known [OF assms(9), of src] by auto
  define y1 where "y1 = y\<lparr>peer_address_list := ps\<rparr>"
  define b1 where "b1 = put_association k y1 b"
  have b1: "associations b1 k = Some y1" "receives b1 = receives b" by (simp_all add: b1_def put_association_def)
  have more_time: "give_more_time now k b1 = b1" using assms(10) by (simp add: give_more_time_def b1 y1_def)
  obtain rx where rx: "receive_chunks [c] (start_reception False (buffered_bytes k (receives b)) y1) = rx"
    "deliver_partially rx = rx" "rx_have_data rx" "\<not> rx_violation rx" "rx_invalid_streams rx = []" "assoc_state (rx_assoc rx) = assoc_state y1"
    "rx_delivered rx = [\<lparr>dv_bytes = user_data d, dv_complete = True, dv_stream = stream_identifier d\<rparr>]"
    using receive_whole [OF assms(5) _ assms(3,4), of y1 "buffered_bytes k (receives b)" False] assms(11,12) by (auto simp: y1_def)
  have full: "empty_data [c] = None" using assms(3-5) by (simp add: empty_data_def whole_message_def)
  have hd: "handle_data_packet now p k src False b1 = conclude_data now (pkt_header p) k src y1 rx b1"
    using full rx(1-3) assms(2,10) by (simp add: handle_data_packet_def b1 y1_def receives_data_def Let_def)
  obtain f y2 where ack: "acknowledge_data now k (tsn_ooo_buffer y1 \<noteq> []) rx b1 = (f, y2)" by (rule prod.exhaust)
  have "receives (handle_data_packet now p k src False b1) = push k (user_data d) True (stream_identifier d) (receives b)"
    unfolding hd conclude_data_def ack
    using acknowledge_keeps_receives [OF ack] rx(4-7) assms(10) by (simp add: y1_def push_delivery_def put_association_def b1)
  moreover have same: "handle_data_packet now (p\<lparr>pkt_chunks := [c]\<rparr>) k src False b1 = handle_data_packet now p k src False b1"
    using assms(2) by (cases p) simp
  have "handle_packet now p src b = Returns (handle_data_packet now p k src False b1)"
    using assms(2,3,4,6-10) rec more_time same
    by (simp add: handle_packet_def packet_key_def k_def [symmetric] association_key_for_def validate_verification_tag_def accept_packet_def
        process_chunks_def dispatch_chunk_def forming_def y1_def [symmetric] b1_def [symmetric])
  ultimately show ?thesis by blast
qed

lemma read_pushed:
  assumes "rq_pending rq k = None" "length bs \<le> capacity"
  shows "\<exists>read rq'. read_from k capacity (push k bs True stream rq) = (Some (bs, read), rq') \<and> \<not> rd_partial read \<and> rd_stream read = stream"
  using assms by (simp add: read_from_def push_def read_locked_def Let_def)

subsection \<open>The sender builds the packet\<close>

lemma cut_one:
  assumes "outbound x = [m]" "om_offset m = 0" "om_bytes m = data" "length data \<le> 1184" "pmdcs x = DEFAULT_PMDCS"
    and "wire_size (length data) \<le> unat (al_rwnd al)"
  shows "cut_new_data x al = ([next_chunk m (length data) (next_tsn x)], take_chunk (length data) x, al)"
proof -
  have "pad4 (length data) \<le> 1184" using pad4_mono [OF assms(4)] by (simp add: pad4_def)
  then have "cut_size x m (cut_window x al probe 0) = Some (length data)" for probe
    using assms by (auto simp: cut_size_def cut_window_def Let_def full_fragment_def round_down4_def wire_size_def min_def)
  moreover have "cut_loop al (take_chunk (length data) x) cs used = (cs, take_chunk (length data) x, al)" for cs used
    using assms(1-3) by (subst cut_loop.simps) (simp add: take_chunk_def advance_outbound_def)
  ultimately show ?thesis
    unfolding cut_new_data_def using assms(1) by (subst cut_loop.simps) (simp add: Let_def)
qed

lemma decayed_cwnd_pos: "0 < cwnd path \<Longrightarrow> 0 < cwnd (decay_idle_cwnd DEFAULT_PMDCS now path)"
  by (auto simp: decay_idle_cwnd_def Let_def word_less_nat_alt decay_loop_closed)

text \<open>An association with nothing to send and nothing in flight, and its windows open.\<close>

definition idle :: "Association \<Rightarrow> bool" where
  "idle x \<longleftrightarrow> assoc_state x = ESTABLISHED \<and> outbound x = [] \<and> outstanding_data x = [] \<and> burst_count x < MAX_BURST \<and>
     (\<forall>path \<in> set (peer_address_list x). 0 < cwnd path)"

definition nothing_queued :: "time \<Rightarrow> Socket \<Rightarrow> bool" where
  "nothing_queued now s \<longleftrightarrow> control (sends s) = [] \<and> retransmission (sends s) = [] \<and> new_data (sends s) = [] \<and> next_send_attempt (sends s) \<le> now"

lemma data_path_in: "peer_address_list x \<noteq> [] \<Longrightarrow> data_path x < length (peer_address_list x)"
  by (auto simp: data_path_def Let_def primary_def find_path_def split: option.split dest: find_index_Some)

lemma bytes_in_flight_none: "outstanding_data x = [] \<Longrightarrow> bytes_in_flight x path = 0"
  by (simp add: bytes_in_flight_def)

lemma allowance_open:
  assumes "assoc_state x = ESTABLISHED" "outstanding_data x = []" "burst_count x < MAX_BURST" "pmdcs x = DEFAULT_PMDCS"
    and "\<forall>path \<in> set (peer_address_list x). 0 < cwnd path" "peer_address_list x \<noteq> []"
  shows "al_cwnd_open (allowance_of (decay_paths now x))" "\<not> burst_spent (allowance_of (decay_paths now x))"
    "al_rwnd (allowance_of (decay_paths now x)) = peer_rwnd x" "\<not> rwnd_blocked (allowance_of (decay_paths now x))"
    "outstanding_data (decay_paths now x) = []"
proof -
  define x' where "x' = decay_paths now x"
  have x': "outstanding_data x' = []" "burst_count x' = burst_count x" "peer_rwnd x' = peer_rwnd x"
    "peer_address_list x' = map (decay_idle_cwnd DEFAULT_PMDCS now) (peer_address_list x)"
    using assms by (simp_all add: x'_def decay_paths_def transmits_data_def)
  have "data_path x' < length (peer_address_list x')" using assms(6) x'(4) by (intro data_path_in) simp
  then have "0 < cwnd (path_at x' (data_path x'))" using assms(5) x'(4) decayed_cwnd_pos by auto
  then show "al_cwnd_open (allowance_of (decay_paths now x))" "\<not> burst_spent (allowance_of (decay_paths now x))"
    "al_rwnd (allowance_of (decay_paths now x)) = peer_rwnd x" "\<not> rwnd_blocked (allowance_of (decay_paths now x))"
    "outstanding_data (decay_paths now x) = []"
    unfolding x'_def [symmetric] using x' assms(3)
    by (simp_all add: allowance_of_def Let_def cwnd_open_def bytes_in_flight_none word_less_nat_alt word_le_nat_alt)
qed

lemma refill_nothing: "outstanding_data x = [] \<Longrightarrow> associations s k = Some x \<Longrightarrow> refill_retransmissions [k] al s = s"
  by (simp add: refill_retransmissions_def refill_retransmission_def schedule_pending_retransmission_def retransmission_bundle_def)

text \<open>The packet of one DATA chunk, perhaps with the bit that asks for a SACK at once.\<close>

definition carries :: "SCTP_Packet \<Rightarrow> SCTP_Common_Header \<Rightarrow> data_chunk_value \<Rightarrow> bool" where
  "carries p header d \<longleftrightarrow> pkt_header p = header \<and>
     (\<exists>c. pkt_chunks p = [c] \<and> chunk_type c = DATA \<and> chunk_value c = Data_Value d \<and> data_flags d = ch_flag (chunk_header c) AND 7)"

lemma prepare_one:
  assumes "carries (dl_packet dl) h d" "data_flags d AND 8 = 0" "\<not> timer_active (association_timer (dl_location dl) DELAYED_SACK) s"
  shows "\<exists>dl'. prepare_data_packet dl True s = Inr (dl', s) \<and> carries (dl_packet dl') h d"
proof -
  obtain c where c: "pkt_chunks (dl_packet dl) = [c]" "chunk_type c = DATA" "chunk_value c = Data_Value d" "pkt_header (dl_packet dl) = h"
    "data_flags d = ch_flag (chunk_header c) AND 7"
    using assms(1) by (auto simp: carries_def)
  have bits: "(f OR 8) AND 7 = f AND 7" for f :: u8
    by (simp add: bit.conj_disj_distrib2)
  have "carries (ask_immediate_sack 0 (dl_packet dl)) h d"
    using c bits by (simp add: carries_def ask_immediate_sack_def Let_def)
  then show ?thesis
    using assms(1,3) c by (auto simp: prepare_data_packet_def last_data_def Let_def split: option.splits)
qed

lemma next_packet_carries:
  assumes "associations s k = Some x" "outbound x = [m]" "om_offset m = 0" "om_bytes m = data" "length data \<le> 1184" "pmdcs x = DEFAULT_PMDCS"
    and "assoc_state x = ESTABLISHED" "outstanding_data x = []" "burst_count x < MAX_BURST" "peer_address_list x \<noteq> []"
    and "\<forall>path \<in> set (peer_address_list x). 0 < cwnd path" "wire_size (length data) \<le> unat (peer_rwnd x)"
    and "nothing_queued now s" "\<not> timer_active (association_timer k DELAYED_SACK) s"
  shows "\<exists>p s'. next_packet now [k] s = Inr (Some p, s') \<and>
    carries (dl_packet (p_deliverable p)) \<lparr>src_port = local_port s, des_port = peer_port k, verification_tag = peer_ver_tag x, hdr_checksum = 0\<rparr>
      (next_chunk m (length data) (next_tsn x))"
proof -
  define y where "y = decay_paths now x"
  have y: "outbound y = [m]" "pmdcs y = DEFAULT_PMDCS" "next_tsn y = next_tsn x" "peer_ver_tag y = peer_ver_tag x" "assoc_state y = ESTABLISHED"
    using assms(2,6,7) by (simp_all add: y_def decay_paths_def)
  define al where "al = allowance_of y"
  have open_al: "al_cwnd_open al" "\<not> burst_spent al" "al_rwnd al = peer_rwnd x" "\<not> rwnd_blocked al" "outstanding_data y = []"
    unfolding al_def y_def by (rule allowance_open [OF assms(7-9,6,11,10)])+
  obtain als s1 where sa: "send_allowances now s = (als, s1)" by (rule prod.exhaust)
  have s1: "associations s1 k = Some y" "als k = Some al" "sends s1 = sends s" "expirations s1 = expirations s" "local_address s1 = local_address s"
    using sa assms(1) y(5) by (auto simp: send_allowances_def y_def al_def transmits_data_def Let_def)
  let ?d = "next_chunk m (length data) (next_tsn x)"
  have cut: "cut_new_data y al = ([?d], take_chunk (length data) y, al)"
    using cut_one [OF y(1) assms(3-5) y(2), of al] assms(12) open_al(3) y(3) by simp
  define b where "b = enqueue \<lparr>dl_location = k, dl_destination = address (path_at (take_chunk (length data) y) (data_path (take_chunk (length data) y))),
    dl_packet = build_data (local_port s) (peer_port k) (peer_ver_tag x) [?d]\<rparr> NEW_DATA (sends s)"
  define s2 where "s2 = (put_association k (take_chunk (length data) y) s1)\<lparr>sends := b\<rparr>"
  have tag: "peer_ver_tag (take_chunk (length data) y) = peer_ver_tag x" using y(4) by (simp add: take_chunk_def)
  have refilled: "refill_new_data [k] als s1 = (als(k \<mapsto> al), s2)"
    using assms(13) s1 open_al cut tag
    by (simp add: refill_new_data_def refill_one_def nothing_queued_def has_new_data_for_def queue_contains_def enqueue_packet_def s2_def b_def
        put_association_def)
  let ?p = "build_data (local_port s) (peer_port k) (peer_ver_tag x) [?d]"
  have pad: "pad4 (16 + length data) = 16 + pad4 (length data)" unfolding pad4_def by presburger
  have bytes: "data_bytes ?p \<le> unat (al_rwnd al)"
    using assms(3,4,12) open_al(3) by (simp add: data_bytes_def chunk_data_size_def build_data_eq data_chunk_def next_chunk_def wire_size_def data_chunk_wire_size_def pad)
  obtain q where q: "peek now (als(k \<mapsto> al)) b = (Some (pending_of NEW_DATA q), als(k \<mapsto> al), b)" "q_location q = k"
    "dl_packet (q_deliverable q) = ?p"
    using assms(13) open_al bytes
    by (simp add: b_def enqueue_def peek_def peek_locked_def nothing_queued_def admits_def)
  have quiet: "arm_zero_window_probes now [k] (als(k \<mapsto> al)) (s2\<lparr>sends := b\<rparr>) = s2"
    using open_al(4) by (simp add: arm_zero_window_probes_def arm_zero_window_probe_def s2_def)
  have flags: "data_flags ?d AND 8 = 0" "data_flags ?d AND 7 = data_flags ?d" by (simp_all add: next_chunk_def)
  have "carries ?p \<lparr>src_port = local_port s, des_port = peer_port k, verification_tag = peer_ver_tag x, hdr_checksum = 0\<rparr> ?d"
    using flags(2) by (simp add: carries_def build_data_eq data_chunk_def packet_with_header_def)
  moreover have "\<not> timer_active (association_timer k DELAYED_SACK) s2" using assms(14) s1(4) by (simp add: s2_def put_association_def)
  ultimately obtain dl where dl: "prepare_data_packet (q_deliverable q) True s2 = Inr (dl, s2)"
    "carries (dl_packet dl) \<lparr>src_port = local_port s, des_port = peer_port k, verification_tag = peer_ver_tag x, hdr_checksum = 0\<rparr> ?d"
    using prepare_one [of "q_deliverable q" _ ?d s2] flags(1) q(2,3) by fastforce
  have "next_packet now [k] s = Inr (Some ((pending_of NEW_DATA q)\<lparr>p_deliverable := dl\<rparr>), s2)"
    unfolding next_packet_def sa prod.case refill_nothing [OF open_al(5) s1(1)] refilled
    using q(1) quiet dl(1) by (simp add: s2_def pending_of_def)
  then show ?thesis using dl(2) by fastforce
qed

lemma carried_message_received:
  assumes "carries p h d" "whole_message d" "length (user_data d) \<le> 1184" "src_port h = pa" "des_port h = local_port b"
    and "verification_tag h = this_ver_tag y" "kb = peer_key src pa" "associations b kb = Some y" "assoc_state y = ESTABLISHED" "expecting d y"
    and "rq_pending (receives b) kb = None" "held_bytes y < RWND"
  shows "\<exists>bytes b1 read b2. serialize_sctp_packet p = Inr bytes \<and> handle_recv_packet t bytes src b = Returns b1 \<and>
    sctp_recv_data_from kb (length (user_data d)) b1 = (Some (user_data d, read), b2) \<and> \<not> rd_partial read \<and>
    rd_stream read = stream_identifier d"
proof -
  obtain c where c: "pkt_chunks p = [c]" "chunk_type c = DATA" "chunk_value c = Data_Value d" "pkt_header p = h"
    "data_flags d = ch_flag (chunk_header c) AND 7"
    using assms(1) by (auto simp: carries_def)
  have "chunk_ok c"
    using c assms(3) length_data_value_bytes [of d] by (simp add: chunk_ok_def chunk_typed_def del: value_bytes.simps)
  then have good: "list_all chunk_ok (pkt_chunks p)" using c(1) by simp
  obtain bytes where bytes: "serialize_sctp_packet p = Inr bytes" using packets.encodes [OF good] by blast
  obtain b1 where b1: "handle_packet t (on_wire p) src b = Returns b1"
    "receives b1 = push kb (user_data d) True (stream_identifier d) (receives b)"
    using receiver_takes_message [of "on_wire p" "with_wire_length c" d pa b y src t] c assms
    by (auto simp: on_wire_def with_wire_length_def buffered_bytes_def)
  obtain read rq where "read_from kb (length (user_data d)) (receives b1) = (Some (user_data d, read), rq)" "\<not> rd_partial read"
    "rd_stream read = stream_identifier d"
    using read_pushed [OF assms(11), of "user_data d" "length (user_data d)" "stream_identifier d"] b1(2) by auto
  then show ?thesis using bytes handle_recv_serialized [OF good bytes] b1(1) by (auto simp: sctp_recv_data_from_def)
qed

subsection \<open>Properties\<close>

text \<open>C3: A message gets through. On an association that is up on both sides and idle at the sender, a message of at most 1184 bytes that the peer's
  window has room for is accepted by the send call; the next packet the event loop takes carries it; when the bytes of that packet reach
  the peer, its application reads exactly the message that was sent, whole and on the same stream.\<close>

theorem message_gets_through:
  assumes "sock_ok a" "associations a ka = Some x" "idle x" "nothing_queued now a" "\<not> timer_active (association_timer ka DELAYED_SACK) a"
    and "data \<noteq> []" "length data \<le> 1184" "16 + pad4 (length data) \<le> unat (peer_rwnd x)" "stream < out_streams x"
    and "kb = peer_key src (local_port a)" "local_port b = peer_port ka" "associations b kb = Some y" "assoc_state y = ESTABLISHED"
    and "peer_ver_tag x = this_ver_tag y" "last_peer_tsn y + 1 = next_tsn x" "tsn_ooo_buffer y = []" "\<not> ra_open (reassembly y)"
    and "stream < in_streams y" "early (inbound_stream y stream) = []" "is_next_ssn (inbound_stream y stream) = next_ssn x ! unat stream"
    and "rq_pending (receives b) kb = None" "held_bytes y < RWND"
  shows "\<exists>a1 p a2 bytes b1 read b2. sctp_send_data ka data stream unordered a = Some (OK, a1) \<and> next_packet now [ka] a1 = Inr (Some p, a2) \<and>
    serialize_sctp_packet (dl_packet (p_deliverable p)) = Inr bytes \<and> handle_recv_packet t bytes src b = Returns b1 \<and>
    sctp_recv_data_from kb (length data) b1 = (Some (data, read), b2) \<and> \<not> rd_partial read \<and> rd_stream read = stream"
proof -
  have ok: "pmdcs x = DEFAULT_PMDCS" "length (next_ssn x) = unat (out_streams x)" "peer_address_list x \<noteq> []"
    using association_ok [OF assms(1,2)] by (simp_all add: assoc_ok_def)
  note idle = assms(3) [unfolded idle_def]
  have ssn: "unat stream < length (next_ssn x)" using assms(9) ok(2) by (simp add: word_less_nat_alt)
  define m where "m = \<lparr>om_stream = stream, om_ssn = (if unordered then 0 else next_ssn x ! unat stream), om_unordered = unordered,
    om_bytes = data, om_offset = 0\<rparr>"
  define d where "d = next_chunk m (length data) (next_tsn x)"
  obtain x1 where q: "queue_message data stream unordered x = Some x1" "outbound x1 = [m]" "pmdcs x1 = pmdcs x" "assoc_state x1 = assoc_state x"
    "outstanding_data x1 = outstanding_data x" "burst_count x1 = burst_count x" "peer_address_list x1 = peer_address_list x"
    "peer_rwnd x1 = peer_rwnd x" "next_tsn x1 = next_tsn x" "peer_ver_tag x1 = peer_ver_tag x"
    using ssn idle by (simp add: queue_message_def Let_def m_def)
  define a1 where "a1 = put_association ka x1 a"
  have sent: "sctp_send_data ka data stream unordered a = Some (OK, a1)"
    using assms(2,6,9) idle q(1) by (simp add: sctp_send_data_def send_status_def a1_def)
  have a1: "associations a1 ka = Some x1" "nothing_queued now a1" "\<not> timer_active (association_timer ka DELAYED_SACK) a1" "local_port a1 = local_port a"
    using assms(4,5) by (simp_all add: a1_def put_association_def nothing_queued_def)
  let ?h = "\<lparr>src_port = local_port a, des_port = peer_port ka, verification_tag = peer_ver_tag x, hdr_checksum = 0\<rparr>"
  obtain p a2 where p: "next_packet now [ka] a1 = Inr (Some p, a2)" "carries (dl_packet (p_deliverable p)) ?h d"
    using next_packet_carries [OF a1(1) q(2), of data now] a1 q idle ok assms(7,8) unfolding d_def by (auto simp: m_def wire_size_def)
  have d: "user_data d = data" "stream_identifier d = stream" "data_tsn d = next_tsn x" "has_flag d DATA_FLAG_B" "has_flag d DATA_FLAG_E"
    "has_flag d DATA_FLAG_U = unordered" "stream_seq_num d = om_ssn m"
    by (simp_all add: d_def next_chunk_def m_def has_flag_def)
  have "expecting d y" "whole_message d"
    using assms(6,15-20) d by (simp_all add: expecting_def whole_message_def m_def)
  then show ?thesis
    using carried_message_received [OF p(2), of "local_port a" b y kb src t] assms(7,10-14,21,22) d sent p(1) by auto
qed

definition example_sending :: Socket where
  "example_sending = put_association \<lparr>s_addr = 1, sin_port = 9\<rparr> ((example_peer 5 50)\<lparr>peer_rwnd := 65535\<rparr>) empty_socket"

definition example_receiving :: Socket where
  "example_receiving = put_association \<lparr>s_addr = 1, sin_port = 9\<rparr> ((example_peer 50 5)\<lparr>this_ver_tag := 8\<rparr>) empty_socket"

theorem message_gets_through_witness:
  "\<exists>a1 p a2 bytes b1 read b2. sctp_send_data \<lparr>s_addr = 1, sin_port = 9\<rparr> [72, 105] 3 False example_sending = Some (OK, a1) \<and>
     next_packet 0 [\<lparr>s_addr = 1, sin_port = 9\<rparr>] a1 = Inr (Some p, a2) \<and> serialize_sctp_packet (dl_packet (p_deliverable p)) = Inr bytes \<and>
     handle_recv_packet 1 bytes \<lparr>s_addr = 1, sin_port = 9\<rparr> example_receiving = Returns b1 \<and>
     sctp_recv_data_from \<lparr>s_addr = 1, sin_port = 9\<rparr> 2 b1 = (Some ([72, 105], read), b2)"
proof -
  let ?k = "\<lparr>s_addr = 1, sin_port = 9\<rparr> :: sockaddr_in"
  let ?x = "(example_peer 5 50)\<lparr>peer_rwnd := 65535\<rparr>" and ?y = "(example_peer 50 5)\<lparr>this_ver_tag := 8\<rparr>"
  note evaluate = example_sending_def example_receiving_def example_peer_def init_new_association_def blank_association_def make_path_def
    idle_def nothing_queued_def empty_socket_def empty_send_queue_def put_association_def initial_cwnd_def
  have "assoc_ok ?x"
    by (simp add: example_peer_def init_new_association_def blank_association_def assoc_ok_def inbound_ok_def empty_buffer_ok)
  then have ok: "sock_ok example_sending" unfolding example_sending_def by (rule put_ok [OF empty_socket_ok])
  have a: "associations example_sending ?k = Some ?x" "associations example_receiving ?k = Some ?y"
    by (simp_all add: example_sending_def example_receiving_def)
  have kb: "?k = peer_key ?k (local_port example_sending)" by (simp add: evaluate peer_key_def path_key_def)
  have "\<exists>a1 p a2 bytes b1 read b2. sctp_send_data ?k [72, 105] 3 False example_sending = Some (OK, a1) \<and> next_packet 0 [?k] a1 = Inr (Some p, a2) \<and>
     serialize_sctp_packet (dl_packet (p_deliverable p)) = Inr bytes \<and> handle_recv_packet 1 bytes ?k example_receiving = Returns b1 \<and>
     sctp_recv_data_from ?k (length ([72, 105] :: bytes)) b1 = (Some ([72, 105], read), b2) \<and> \<not> rd_partial read \<and> rd_stream read = 3"
    by (rule message_gets_through [OF ok a(1) _ _ _ _ _ _ _ kb _ a(2)])
      (simp_all add: evaluate is_active_def empty_expiration_queue_def pad4_def inbound_stream_def new_inbound_stream_def held_bytes_def
        empty_reassembly_def empty_receive_queue_def)
  then show ?thesis by (simp add: numeral_2_eq_2) blast
qed

end
