(* ===== verification/Socket_Life.thy ===== *)
theory Socket_Life
  imports Event_Loop
begin

text \<open>
  The life of a socket: every call of the application and every pass of the event loop as the steps of one transition system, from the
  socket as it is constructed. The calls that wait are split where they release the lock: closing is its three parts, between which the
  event loop and other threads run. A pass of the event loop is also split into what it does, so that calls of the application may come in
  between. The random bytes of the operating system may be any at any time.
\<close>

text \<open>The overloads that take an address make it the key.\<close>

definition sctp_send_data_at :: "sockaddr_in \<Rightarrow> bytes \<Rightarrow> u16 \<Rightarrow> bool \<Rightarrow> Socket \<Rightarrow> (Sctp_Status \<times> Socket) option" where
  "sctp_send_data_at association_id data stream unordered s = sctp_send_data association_id data stream unordered s"

definition sctp_abort_at :: "sockaddr_in \<Rightarrow> bytes \<Rightarrow> Socket \<Rightarrow> Sctp_Status \<times> Socket" where
  "sctp_abort_at association_id reason s = sctp_abort association_id reason s"

definition sctp_shutdown_at :: "time \<Rightarrow> sockaddr_in \<Rightarrow> Socket \<Rightarrow> Sctp_Status \<times> Socket" where
  "sctp_shutdown_at now association_id s = sctp_shutdown now association_id s"

definition sctp_recv_data_from_at :: "sockaddr_in \<Rightarrow> nat \<Rightarrow> Socket \<Rightarrow> (bytes \<times> Read) option \<times> Socket" where
  "sctp_recv_data_from_at association_id capacity s = sctp_recv_data_from association_id capacity s"

definition get_this_association_key :: "Socket \<Rightarrow> Association_Key" where
  "get_this_association_key s = local_address s"

text \<open>Every call that may come while the event loop runs, and every pass of the loop or part of one, as a step.\<close>

inductive work_step :: "Socket \<Rightarrow> Socket \<Rightarrow> bool" where
  step_entropy: "work_step s (s\<lparr>entropy := bytes\<rparr>)"
| step_linger: "work_step s (sctp_set_linger linger s)"
| step_associate: "sctp_associate ip port udp_port s = Returns (status, key, s') \<Longrightarrow> work_step s s'"
| step_send: "sctp_send_data key data stream unordered s = Some (status, s') \<Longrightarrow> work_step s s'"
| step_recv: "work_step s (snd (sctp_recv_data capacity s))"
| step_recv_from: "work_step s (snd (sctp_recv_data_from key capacity s))"
| step_notification: "work_step s (snd (sctp_recv_notification timeout s))"
| step_subscribe: "work_step s (sctp_subscribe type on s)"
| step_change_heartbeat: "work_step s (snd (sctp_change_heartbeat now key destination enable interval s))"
| step_request_heartbeat: "work_step s (snd (sctp_request_heartbeat now key destination s))"
| step_set_primary: "work_step s (snd (sctp_set_primary key destination s))"
| step_shutdown: "work_step s (snd (sctp_shutdown now key s))"
| step_abort: "work_step s (snd (sctp_abort key reason s))"
| step_datagram: "length data \<le> MAX_UDP_DATAGRAM \<Longrightarrow> handle_recv_packet now data src s = Returns s' \<Longrightarrow> work_step s s'"
| step_expire: "work_step s (run_expire now s)"
| step_sending: "run_sending clock order network s = Inr (sent, s') \<Longrightarrow> work_step s s'"
| step_pass: "pass_ok pass \<Longrightarrow> event_loop_pass pass s = Returns s' \<Longrightarrow> work_step s s'"

text \<open>With the calls that start and stop the socket. Closing is in its parts: the shutdowns, the aborts and the end, with other steps in
  between.\<close>

inductive socket_step :: "Socket \<Rightarrow> Socket \<Rightarrow> bool" where
  step_work: "work_step s s' \<Longrightarrow> socket_step s s'"
| step_bind: "socket_step s (s\<lparr>local_address := service\<rparr>)"
| step_run: "socket_step s (snd (sctp_run bound opened s))"
| step_shutdown_all: "socket_step s (shutdown_all now keys s)"
| step_abort_all: "socket_step s (abort_all keys s)"
| step_end_close: "socket_step s (end_close s)"

text \<open>What the event loop and the other threads make of the socket while a call waits: any number of steps. No other thread binds, runs
  or closes the socket meanwhile.\<close>

definition only_steps :: "(Socket \<Rightarrow> Socket) \<Rightarrow> bool" where
  "only_steps f \<longleftrightarrow> (\<forall>s. work_step\<^sup>*\<^sup>* s (f s))"

text \<open>The socket as the constructor leaves it, whatever \<open>local_address\<close> holds, which it does not initialize.\<close>

definition new_socket :: "sockaddr_in \<Rightarrow> Cookie_Auth \<Rightarrow> bytes \<Rightarrow> Socket" where
  "new_socket service ca bytes =
     \<lparr>running = False, linger_ms = 5000, local_address = service, associations = Map.empty, peer_addresses = Map.empty,
      sends = empty_send_queue, receives = empty_receive_queue, expirations = empty_expiration_queue,
      notifications = new_notification_queue, cookie_authorizer = ca, entropy = bytes\<rparr>"

inductive reachable :: "Socket \<Rightarrow> bool" where
  reach_new: "reachable (new_socket service ca bytes)"
| reach_step: "reachable s \<Longrightarrow> socket_step s s' \<Longrightarrow> reachable s'"

lemma new_socket_ok: "sock_ok (new_socket service ca bytes)"
  by (simp add: sock_ok_parts new_socket_def empty_expiration_queue_def is_active_def queued_ok_def empty_send_queue_def retries_ok_def)

lemma local_address_ok [simp]: "sock_ok (s\<lparr>local_address := service\<rparr>) = sock_ok s"
  by (simp add: sock_ok_parts)

lemma work_step_ok: "work_step s s' \<Longrightarrow> sock_ok s \<Longrightarrow> sock_ok s'"
proof (induction rule: work_step.induct)
  case (step_associate ip port udp_port s status key s')
  then show ?case using sctp_associate_ok [of s ip port udp_port] by simp
next
  case (step_datagram data now src s s')
  then show ?case using handle_recv_packet_ok [of s data now src] by simp
next
  case (step_sending clock order network s sent s')
  then show ?case using run_sending_ok [of s clock order network] by simp
next
  case (step_pass pass s s')
  then show ?case using event_loop_pass_ok [of s pass] by simp
qed (auto simp: sctp_set_linger_def sctp_send_data_ok sctp_recv_ok notification_calls_ok sctp_change_heartbeat_ok
    sctp_request_heartbeat_ok sctp_set_primary_ok sctp_shutdown_ok sctp_abort_ok run_expire_ok)

lemma socket_step_ok: "socket_step s s' \<Longrightarrow> sock_ok s \<Longrightarrow> sock_ok s'"
  by (induction rule: socket_step.induct) (auto simp: sctp_run_def close_all_ok end_close_ok intro: work_step_ok)

lemma reachable_ok: "reachable s \<Longrightarrow> sock_ok s"
  by (induction rule: reachable.induct) (auto simp: new_socket_ok intro: socket_step_ok)

subsection \<open>Closing\<close>

lemma reachable_steps: "work_step\<^sup>*\<^sup>* s s' \<Longrightarrow> reachable s \<Longrightarrow> reachable s'"
  by (induction rule: rtranclp_induct) (auto intro: reach_step step_work)

lemma reachable_only_steps: "reachable s \<Longrightarrow> only_steps f \<Longrightarrow> reachable (f s)"
  using reachable_steps by (auto simp: only_steps_def)

lemma reachable_close:
  assumes "reachable s" "only_steps lingering" "only_steps draining"
  shows "reachable (sctp_close now keys lingering draining linger s)"
proof -
  have "reachable (if 0 < l then lingering (shutdown_all now ks s) else s)" for l ks
    by (simp add: assms(1,2) reachable_only_steps reach_step [OF _ step_shutdown_all])
  moreover have "reachable (draining (abort_all ks s1))" if "reachable s1" for ks s1
    by (rule reachable_only_steps [OF reach_step [OF that step_abort_all] assms(3)])
  ultimately have "reachable (close_associations now keys lingering draining l s)" for l unfolding close_associations_def Let_def by blast
  then show ?thesis using assms(1) by (simp add: sctp_close_def reach_step [OF _ step_end_close])
qed

text \<open>An association that is there after some steps and was not before was added by one of them.\<close>

lemma association_added:
  assumes "work_step\<^sup>*\<^sup>* s s'" "associations s key = None" "associations s' key \<noteq> None"
  shows "\<exists>u v. work_step\<^sup>*\<^sup>* s u \<and> work_step u v \<and> work_step\<^sup>*\<^sup>* v s' \<and> associations u key = None \<and> associations v key \<noteq> None"
  using assms
proof (induction rule: rtranclp_induct)
  case (step v s')
  show ?case
  proof (cases "associations v key = None")
    case True
    then show ?thesis using step by blast
  next
    case False
    then obtain a b where "work_step\<^sup>*\<^sup>* s a" "work_step a b" "work_step\<^sup>*\<^sup>* b v" "associations a key = None" "associations b key \<noteq> None"
      using step.IH [OF step.prems(1)] by blast
    moreover have "work_step\<^sup>*\<^sup>* b s'" using \<open>work_step\<^sup>*\<^sup>* b v\<close> step.hyps(2) by simp
    ultimately show ?thesis by blast
  qed
qed simp

subsection \<open>Properties\<close>

text \<open>C1: The socket never breaks and the event loop never dies: in every state that any sequence of application calls, received datagrams, timer
  expirations, network refusals and random bytes can lead to, the socket is consistent, and the next pass of the event loop throws no
  exception (one would end the process, for the loop's thread catches none) and leaves it consistent, whatever that pass receives.\<close>

theorem reachable_socket_survives:
  assumes "reachable s" "pass_ok pass"
  shows "sock_ok s \<and> (case event_loop_pass pass s of Returns s' \<Rightarrow> sock_ok s' | Throws e \<Rightarrow> False | Starved \<Rightarrow> True)"
  using event_loop_pass_ok [OF reachable_ok [OF assms(1)] assms(2)] reachable_ok [OF assms(1)] by (simp add: outcome_ok_def)

definition example_pass :: Pass where
  "example_pass = \<lparr>pass_now = 0, pass_poll = (\<lambda>_. Polled False True False), pass_datagrams = [([1, 2, 3], \<lparr>s_addr = 1, sin_port = 9\<rparr>)],
     pass_clock = (\<lambda>_. 0), pass_order = [], pass_network = (\<lambda>_ _ _. True)\<rparr>"

theorem reachable_socket_survives_witness:
  "\<exists>s. reachable s \<and> running s \<and>
     (case event_loop_pass example_pass s of Returns s' \<Rightarrow> sock_ok s' | Throws e \<Rightarrow> False | Starved \<Rightarrow> True)"
proof -
  let ?s = "snd (sctp_run True True (new_socket \<lparr>s_addr = 0, sin_port = 9\<rparr> example_auth []))"
  have r: "reachable ?s" by (rule reach_step [OF reach_new step_run])
  have "pass_ok example_pass" by (simp add: pass_ok_def example_pass_def)
  moreover have "running ?s" by (simp add: sctp_run_def new_socket_def)
  ultimately show ?thesis using reachable_socket_survives [OF r, of example_pass] r by blast
qed


text \<open>A socket that runs, and what it is after starting an association.\<close>

definition example_open :: Socket where
  "example_open = snd (sctp_run True True (new_socket \<lparr>s_addr = 0, sin_port = 9\<rparr> example_auth [1, 0, 0, 0, 0, 0, 0, 0]))"

definition after_associate :: "Socket \<Rightarrow> Socket" where
  "after_associate s = (case sctp_associate (Some 1) 2304 None s of Returns (status, key, s') \<Rightarrow> s' | _ \<Rightarrow> s)"

lemma after_associate_steps: "only_steps after_associate"
  unfolding only_steps_def after_associate_def by (auto split: outcome.splits intro: step_associate)

lemma example_open_reachable: "reachable example_open" "running example_open" "associations example_open = Map.empty"
  unfolding example_open_def by (rule reach_step [OF reach_new step_run]) (simp_all add: sctp_run_def new_socket_def)

lemma example_open_associates:
  "running (after_associate example_open)" "dom (associations (after_associate example_open)) = {\<lparr>s_addr = 1, sin_port = 9\<rparr>}"
proof -
  have key: "htons 2304 = 9" "ntohs 9 = 2304" by code_simp+
  show "running (after_associate example_open)" "dom (associations (after_associate example_open)) = {\<lparr>s_addr = 1, sin_port = 9\<rparr>}"
    by (simp_all add: after_associate_def sctp_associate_def draw_tag_def generate_nonzero_tag_def example_open_def new_socket_def sctp_run_def
        load32_def random32_def resize0_def association_key_for_def build_init_def peer_key_def path_key_def
        send_control_def enqueue_packet_def put_association_def key Let_def)
qed


text \<open>The case the theorem leaves open happens: after the aborts, and before it stops the event loop, a close lets in a new association,
  which stays in the closed socket.\<close>

lemma close_can_leave_an_association:
  "\<exists>s draining. reachable s \<and> running s \<and> associations s = Map.empty \<and> only_steps draining \<and>
     associations (sctp_close 0 (\<lambda>_. []) id draining 0 s) \<noteq> Map.empty"
proof (intro exI conjI)
  show "only_steps after_associate" by (rule after_associate_steps)
  have "associations (sctp_close 0 (\<lambda>_. []) id after_associate 0 example_open) = associations (after_associate example_open)"
    using example_open_reachable(2) by (simp add: sctp_close_def close_associations_def close_linger_def abort_all_def end_close_def)
  then show "associations (sctp_close 0 (\<lambda>_. []) id after_associate 0 example_open) \<noteq> Map.empty"
    using example_open_associates(2) by auto
qed (simp_all add: example_open_reachable)

end
