(* ===== verification/Platform_Sockets.thy ===== *)
theory Platform_Sockets
  imports Sctp_Types
begin

text \<open>
  The operating system as the stack uses it (\<open>include/sctp/platform.hpp\<close>), on POSIX and on Windows, and the pair of connected sockets
  that wakes the event loop (\<open>src/wakeup_pair.cpp\<close>).

  A \<open>Kernel\<close> is what the process can see of the system: its open UDP sockets with the address they are bound to, the address they are
  connected to, their flags and the datagrams waiting in them, which socket holds an address, the last error and the number of
  \<open>WSAStartup\<close> calls not yet undone. What the system decides is the parameter \<open>Os\<close>: \<open>os_answer n\<close> is its answer to the \<open>n\<close>-th call, an
  error or a value (the descriptor of a new socket, the port given to a socket bound to port 0, the error code a \<open>close\<close> leaves
  behind, whether a datagram sent finds room). A call on a descriptor that is not open fails whatever the answer, and a descriptor or a
  port that is taken is no answer: the call then fails. \<open>INVALID_SOCKET\<close> is -1, the bit pattern of Windows' \<open>SOCKET (~0)\<close>.
\<close>

subsection \<open>The system\<close>

record Os_Socket =
  so_bound :: "sockaddr_in option"
  so_peer :: "sockaddr_in option"
  so_flags :: u32
  so_queue :: "bytes list"

record Kernel =
  win32 :: bool
  sockets :: "int \<rightharpoonup> Os_Socket"
  bound_at :: "sockaddr_in \<rightharpoonup> int"
  last_error :: int
  startups :: nat
  calls :: nat

record Os =
  os_answer :: "nat \<Rightarrow> int + int"
  inet_pton :: "string \<Rightarrow> u32 option"

abbreviation (input) INVALID_SOCKET :: int where "INVALID_SOCKET \<equiv> - 1"
abbreviation (input) O_NONBLOCK :: u32 where "O_NONBLOCK \<equiv> 2048"

definition os_error :: "Kernel \<Rightarrow> int \<Rightarrow> int \<Rightarrow> int" where
  "os_error k posix winsock = (if win32 k then winsock else posix)"

abbreviation EINTR :: "Kernel \<Rightarrow> int" where "EINTR k \<equiv> os_error k 4 10004"
abbreviation EBADF :: "Kernel \<Rightarrow> int" where "EBADF k \<equiv> os_error k 9 10038"
abbreviation EAGAIN :: "Kernel \<Rightarrow> int" where "EAGAIN k \<equiv> os_error k 11 10035"
abbreviation EINVAL :: "Kernel \<Rightarrow> int" where "EINVAL k \<equiv> os_error k 22 10022"
abbreviation EMFILE :: "Kernel \<Rightarrow> int" where "EMFILE k \<equiv> os_error k 24 10024"
abbreviation EDESTADDRREQ :: "Kernel \<Rightarrow> int" where "EDESTADDRREQ k \<equiv> os_error k 89 10057"
abbreviation EADDRINUSE :: "Kernel \<Rightarrow> int" where "EADDRINUSE k \<equiv> os_error k 98 10048"
abbreviation (input) WSANOTINITIALISED :: int where "WSANOTINITIALISED \<equiv> 10093"

text \<open>The end of a call: it failed with an error, or it worked.\<close>

definition call_failed :: "int \<Rightarrow> Kernel \<Rightarrow> Kernel" where
  "call_failed e k = k\<lparr>last_error := e, calls := Suc (calls k)\<rparr>"

definition call_worked :: "Kernel \<Rightarrow> Kernel" where
  "call_worked k = k\<lparr>calls := Suc (calls k)\<rparr>"

definition set_socket :: "int \<Rightarrow> Os_Socket \<Rightarrow> Kernel \<Rightarrow> Kernel" where
  "set_socket fd so k = k\<lparr>sockets := (sockets k)(fd \<mapsto> so)\<rparr>"

definition answer :: "Os \<Rightarrow> Kernel \<Rightarrow> int + int" where
  "answer os k = os_answer os (calls k)"

text \<open>A call on an open socket: it may change this socket and which addresses are held.\<close>

definition on_socket :: "Os \<Rightarrow> int \<Rightarrow> (Os_Socket \<Rightarrow> int \<Rightarrow> int + (Os_Socket \<times> (sockaddr_in \<rightharpoonup> int))) \<Rightarrow> Kernel \<Rightarrow> bool \<times> Kernel" where
  "on_socket os fd call k =
     (case sockets k fd of
        None \<Rightarrow> (False, call_failed (EBADF k) k)
      | Some so \<Rightarrow>
          (case answer os k of
             Inl e \<Rightarrow> (False, call_failed e k)
           | Inr v \<Rightarrow>
               (case call so v of
                  Inl e \<Rightarrow> (False, call_failed e k)
                | Inr (so', held) \<Rightarrow> (True, set_socket fd so' (call_worked k)\<lparr>bound_at := held\<rparr>))))"

definition sys_socket :: "Os \<Rightarrow> Kernel \<Rightarrow> int \<times> Kernel" where
  "sys_socket os k =
     (case answer os k of
        Inl e \<Rightarrow> (INVALID_SOCKET, call_failed e k)
      | Inr fd \<Rightarrow>
          if fd < 0 \<or> sockets k fd \<noteq> None then (INVALID_SOCKET, call_failed (EMFILE k) k)
          else (fd, set_socket fd \<lparr>so_bound = None, so_peer = None, so_flags = 0, so_queue = []\<rparr> (call_worked k)))"

definition sys_bind :: "Os \<Rightarrow> int \<Rightarrow> sockaddr_in \<Rightarrow> Kernel \<Rightarrow> bool \<times> Kernel" where
  "sys_bind os fd wanted k =
     on_socket os fd (\<lambda>so v.
       let a = (if sin_port wanted = 0 then wanted\<lparr>sin_port := word_of_int v\<rparr> else wanted)
       in if so_bound so \<noteq> None then Inl (EINVAL k)
          else if sin_port a = 0 \<or> bound_at k a \<noteq> None then Inl (EADDRINUSE k)
          else Inr (so\<lparr>so_bound := Some a\<rparr>, (bound_at k)(a \<mapsto> fd))) k"

definition sys_getsockname :: "Os \<Rightarrow> int \<Rightarrow> Kernel \<Rightarrow> sockaddr_in option \<times> Kernel" where
  "sys_getsockname os fd k =
     (case on_socket os fd (\<lambda>so v. Inr (so, bound_at k)) k of
        (worked, k') \<Rightarrow>
          (if worked then Some (case sockets k fd of
                                  Some so \<Rightarrow> (case so_bound so of Some a \<Rightarrow> a | None \<Rightarrow> \<lparr>s_addr = 0, sin_port = 0\<rparr>)
                                | None \<Rightarrow> \<lparr>s_addr = 0, sin_port = 0\<rparr>)
           else None, k'))"

definition sys_connect :: "Os \<Rightarrow> int \<Rightarrow> sockaddr_in \<Rightarrow> Kernel \<Rightarrow> bool \<times> Kernel" where
  "sys_connect os fd peer k = on_socket os fd (\<lambda>so v. Inr (so\<lparr>so_peer := Some peer\<rparr>, bound_at k)) k"

definition sys_getfl :: "Os \<Rightarrow> int \<Rightarrow> Kernel \<Rightarrow> u32 option \<times> Kernel" where
  "sys_getfl os fd k =
     (case on_socket os fd (\<lambda>so v. Inr (so, bound_at k)) k of
        (worked, k') \<Rightarrow> (if worked then map_option so_flags (sockets k fd) else None, k'))"

definition sys_setfl :: "Os \<Rightarrow> int \<Rightarrow> u32 \<Rightarrow> Kernel \<Rightarrow> bool \<times> Kernel" where
  "sys_setfl os fd flags k = on_socket os fd (\<lambda>so v. Inr (so\<lparr>so_flags := flags\<rparr>, bound_at k)) k"

text \<open>\<open>ioctlsocket (s, FIONBIO, 1)\<close>\<close>

definition sys_fionbio :: "Os \<Rightarrow> int \<Rightarrow> Kernel \<Rightarrow> bool \<times> Kernel" where
  "sys_fionbio os fd k = on_socket os fd (\<lambda>so v. Inr (so\<lparr>so_flags := so_flags so OR O_NONBLOCK\<rparr>, bound_at k)) k"

text \<open>A datagram is handed to the socket bound to the address, if there is one and its buffer has room.\<close>

definition deliver :: "sockaddr_in \<Rightarrow> bytes \<Rightarrow> Kernel \<Rightarrow> Kernel" where
  "deliver a data k =
     (case bound_at k a of
        None \<Rightarrow> k
      | Some fd \<Rightarrow>
          (case sockets k fd of
             None \<Rightarrow> k
           | Some so \<Rightarrow> set_socket fd (so\<lparr>so_queue := so_queue so @ [data]\<rparr>) k))"

definition sys_send :: "Os \<Rightarrow> int \<Rightarrow> bytes \<Rightarrow> Kernel \<Rightarrow> bool \<times> Kernel" where
  "sys_send os fd data k =
     (case sockets k fd of
        None \<Rightarrow> (False, call_failed (EBADF k) k)
      | Some so \<Rightarrow>
          (case so_peer so of
             None \<Rightarrow> (False, call_failed (EDESTADDRREQ k) k)
           | Some a \<Rightarrow>
               (case answer os k of
                  Inl e \<Rightarrow> (False, call_failed e k)
                | Inr room \<Rightarrow> (True, if room > 0 then deliver a data (call_worked k) else call_worked k))))"

text \<open>What \<open>recv\<close> returns: a length, an error, or nothing ever, on an empty socket that blocks.\<close>

definition sys_recv :: "Os \<Rightarrow> int \<Rightarrow> nat \<Rightarrow> Kernel \<Rightarrow> (int \<times> Kernel) option" where
  "sys_recv os fd capacity k =
     (case sockets k fd of
        None \<Rightarrow> Some (- 1, call_failed (EBADF k) k)
      | Some so \<Rightarrow>
          (case so_queue so of
             [] \<Rightarrow> if so_flags so AND O_NONBLOCK \<noteq> 0 then Some (- 1, call_failed (EAGAIN k) k) else None
           | data # rest \<Rightarrow>
               (case answer os k of
                  Inl e \<Rightarrow> Some (- 1, call_failed e k)
                | Inr _ \<Rightarrow> Some (int (min capacity (length data)), set_socket fd (so\<lparr>so_queue := rest\<rparr>) (call_worked k)))))"

subsection \<open>The platform layer\<close>

definition sctp_platform_startup :: "Os \<Rightarrow> Kernel \<Rightarrow> bool \<times> Kernel" where
  "sctp_platform_startup os k =
     (if win32 k
      then (case answer os k of
              Inl e \<Rightarrow> (False, call_failed e k)
            | Inr _ \<Rightarrow> (True, (call_worked k)\<lparr>startups := Suc (startups k)\<rparr>))
      else (True, k))"

definition sctp_platform_cleanup :: "Kernel \<Rightarrow> Kernel" where
  "sctp_platform_cleanup k =
     (if win32 k
      then if startups k = 0 then call_failed WSANOTINITIALISED k else (call_worked k)\<lparr>startups := startups k - 1\<rparr>
      else k)"

text \<open>A descriptor is released even when \<open>close\<close> reports an error; no caller reads the result.\<close>

definition sctp_close_socket :: "Os \<Rightarrow> int \<Rightarrow> Kernel \<Rightarrow> Kernel" where
  "sctp_close_socket os fd k =
     (case sockets k fd of
        None \<Rightarrow> call_failed (EBADF k) k
      | Some so \<Rightarrow>
          (call_failed (case answer os k of Inl e \<Rightarrow> e | Inr e \<Rightarrow> e) k)
            \<lparr>sockets := (sockets k)(fd := None),
             bound_at := (case so_bound so of None \<Rightarrow> bound_at k | Some a \<Rightarrow> (bound_at k)(a := None))\<rparr>)"

definition sctp_last_error :: "Kernel \<Rightarrow> int" where
  "sctp_last_error k = last_error k"

definition sctp_set_last_error :: "int \<Rightarrow> Kernel \<Rightarrow> Kernel" where
  "sctp_set_last_error err k = k\<lparr>last_error := err\<rparr>"

definition sctp_error_would_block :: "Kernel \<Rightarrow> int \<Rightarrow> bool" where
  "sctp_error_would_block k err \<longleftrightarrow> err = EAGAIN k"

definition sctp_error_interrupted :: "Kernel \<Rightarrow> int \<Rightarrow> bool" where
  "sctp_error_interrupted k err \<longleftrightarrow> err = EINTR k"

definition sctp_set_nonblocking :: "Os \<Rightarrow> int \<Rightarrow> Kernel \<Rightarrow> bool \<times> Kernel" where
  "sctp_set_nonblocking os s k =
     (if win32 k then sys_fionbio os s k
      else case sys_getfl os s k of
             (None, k1) \<Rightarrow> (False, k1)
           | (Some flags, k1) \<Rightarrow> sys_setfl os s (flags OR O_NONBLOCK) k1)"

definition sctp_parse_ipv4 :: "Os \<Rightarrow> string \<Rightarrow> u32 option" where
  "sctp_parse_ipv4 os ip_address = inet_pton os ip_address"

text \<open>The loop of \<open>random_bytes\<close> over the answers of \<open>getrandom\<close>: bytes, of which it takes what is missing, or an error; \<open>None\<close>
  when the listed answers end first.\<close>

datatype Getrandom = Random bytes | Random_Error int

fun random_bytes :: "Kernel \<Rightarrow> Getrandom list \<Rightarrow> nat \<Rightarrow> bytes \<Rightarrow> (int + bytes) option" where
  "random_bytes k answers len filled =
     (if length filled < len
      then (case answers of
              [] \<Rightarrow> None
            | Random_Error err # rest \<Rightarrow> if err = EINTR k then random_bytes k rest len filled else Some (Inl err)
            | Random bs # rest \<Rightarrow> random_bytes k rest len (filled @ take (len - length filled) bs))
      else Some (Inr filled))"

declare random_bytes.simps [simp del]

subsection \<open>The wakeup pair\<close>

record Wakeup_Pair =
  reader :: int
  writer :: int

definition no_pair :: Wakeup_Pair where
  "no_pair = \<lparr>reader = INVALID_SOCKET, writer = INVALID_SOCKET\<rparr>"

definition wakeup_close :: "Os \<Rightarrow> Wakeup_Pair \<Rightarrow> Kernel \<Rightarrow> Wakeup_Pair \<times> Kernel" where
  "wakeup_close os wp k =
     (let (wp1, k1) = (if reader wp \<noteq> INVALID_SOCKET
                       then (wp\<lparr>reader := INVALID_SOCKET\<rparr>, sctp_close_socket os (reader wp) k) else (wp, k))
      in if writer wp1 \<noteq> INVALID_SOCKET
         then (wp1\<lparr>writer := INVALID_SOCKET\<rparr>, sctp_close_socket os (writer wp1) k1) else (wp1, k1))"

text \<open>The failure path: the error is saved around \<open>close\<close>.\<close>

definition give_up_open :: "Os \<Rightarrow> Wakeup_Pair \<Rightarrow> Kernel \<Rightarrow> bool \<times> Wakeup_Pair \<times> Kernel" where
  "give_up_open os wp k =
     (let err = sctp_last_error k; (wp', k') = wakeup_close os wp k in (False, wp', sctp_set_last_error err k'))"

text \<open>\<open>!sctp_parse_ipv4 (...) || bind (...) == SOCKET_ERROR\<close>, negated.\<close>

definition bind_loopback :: "Os \<Rightarrow> int \<Rightarrow> Kernel \<Rightarrow> bool \<times> Kernel" where
  "bind_loopback os fd k =
     (case sctp_parse_ipv4 os ''127.0.0.1'' of
        None \<Rightarrow> (False, k)
      | Some ip \<Rightarrow> sys_bind os fd \<lparr>s_addr = ip, sin_port = 0\<rparr> k)"

text \<open>\<open>getsockname\<close>, \<open>connect\<close> and the two \<open>sctp_set_nonblocking\<close>, each only if the ones before it worked.\<close>

definition link_pair :: "Os \<Rightarrow> Wakeup_Pair \<Rightarrow> Kernel \<Rightarrow> bool \<times> Kernel" where
  "link_pair os wp k =
     (case sys_getsockname os (reader wp) k of
        (None, k1) \<Rightarrow> (False, k1)
      | (Some wakeup_address, k1) \<Rightarrow>
          (case sys_connect os (writer wp) wakeup_address k1 of
             (False, k2) \<Rightarrow> (False, k2)
           | (True, k2) \<Rightarrow>
               (case sctp_set_nonblocking os (reader wp) k2 of
                  (False, k3) \<Rightarrow> (False, k3)
                | (True, k3) \<Rightarrow> sctp_set_nonblocking os (writer wp) k3)))"

definition wakeup_open :: "Os \<Rightarrow> Wakeup_Pair \<Rightarrow> Kernel \<Rightarrow> bool \<times> Wakeup_Pair \<times> Kernel" where
  "wakeup_open os wp0 k0 =
     (case wakeup_close os wp0 k0 of
        (wp, k) \<Rightarrow>
          (case sys_socket os k of
             (fd, k1) \<Rightarrow>
               let wp1 = wp\<lparr>reader := fd\<rparr>
               in if fd = INVALID_SOCKET then (False, wp1, k1)
                  else case sys_socket os k1 of
                         (fd', k2) \<Rightarrow>
                           let wp2 = wp1\<lparr>writer := fd'\<rparr>
                           in if fd' = INVALID_SOCKET then give_up_open os wp2 k2
                              else case bind_loopback os fd k2 of
                                     (False, k3) \<Rightarrow> give_up_open os wp2 k3
                                   | (True, k3) \<Rightarrow>
                                       (case link_pair os wp2 k3 of
                                          (False, k4) \<Rightarrow> give_up_open os wp2 k4
                                        | (True, k4) \<Rightarrow> (True, wp2, k4))))"

text \<open>\<open>wake\<close> and \<open>drain\<close> also say whether they print an error.\<close>

definition wakeup_wake :: "Os \<Rightarrow> Wakeup_Pair \<Rightarrow> Kernel \<Rightarrow> bool \<times> Kernel" where
  "wakeup_wake os wp k =
     (if writer wp = INVALID_SOCKET then (False, k)
      else case sys_send os (writer wp) [1] k of
             (sent, k') \<Rightarrow> (\<not> sent \<and> \<not> sctp_error_would_block k' (sctp_last_error k'), k'))"

definition queued_at :: "Kernel \<Rightarrow> int \<Rightarrow> bytes list" where
  "queued_at k fd = (case sockets k fd of None \<Rightarrow> [] | Some so \<Rightarrow> so_queue so)"

lemma sys_recv_shrinks: "sys_recv os fd n k = Some (r, k') \<Longrightarrow> 0 < r \<Longrightarrow> length (queued_at k' fd) < length (queued_at k fd)"
  by (auto simp: sys_recv_def queued_at_def set_socket_def call_worked_def split: option.splits list.splits sum.splits if_splits)

function drain_reader :: "Os \<Rightarrow> int \<Rightarrow> Kernel \<Rightarrow> Kernel option" where
  "drain_reader os fd k =
     (case sys_recv os fd 64 k of
        None \<Rightarrow> None
      | Some (r, k') \<Rightarrow> if 0 < r then drain_reader os fd k' else Some k')"
  by pat_completeness auto
termination
  by (relation "measure (\<lambda>(os, fd, k). length (queued_at k fd))") (auto dest: sys_recv_shrinks)

declare drain_reader.simps [simp del]

definition wakeup_drain :: "Os \<Rightarrow> Wakeup_Pair \<Rightarrow> Kernel \<Rightarrow> (bool \<times> Kernel) option" where
  "wakeup_drain os wp k =
     (case drain_reader os (reader wp) k of
        None \<Rightarrow> None
      | Some k' \<Rightarrow> Some (\<not> sctp_error_would_block k' (sctp_last_error k'), k'))"

subsection \<open>What a call may change\<close>

text \<open>\<open>touches fds k k'\<close>: the same sockets are open and only those of \<open>fds\<close> changed.\<close>

definition touches :: "int set \<Rightarrow> Kernel \<Rightarrow> Kernel \<Rightarrow> bool" where
  "touches fds k k' \<longleftrightarrow>
     dom (sockets k') = dom (sockets k) \<and> (\<forall>fd. fd \<notin> fds \<longrightarrow> sockets k' fd = sockets k fd) \<and>
     win32 k' = win32 k \<and> startups k' = startups k"

lemma touches_refl [simp, intro]: "touches fds k k"
  by (simp add: touches_def)

lemma touches_trans: "touches fds k k1 \<Longrightarrow> touches fds k1 k2 \<Longrightarrow> touches fds k k2"
  by (auto simp: touches_def)

lemma touches_mono: "touches fds k k' \<Longrightarrow> fds \<subseteq> fds' \<Longrightarrow> touches fds' k k'"
  by (auto simp: touches_def)

lemma touches_then: "touches {fd} k k1 \<Longrightarrow> touches fds k1 k2 \<Longrightarrow> fd \<in> fds \<Longrightarrow> touches fds k k2"
  by (rule touches_trans [of _ _ k1]) (auto intro: touches_mono)

lemma touches_dom: "touches fds k k' \<Longrightarrow> dom (sockets k') = dom (sockets k)"
  by (simp add: touches_def)

lemma touches_other: "touches fds k k' \<Longrightarrow> fd \<notin> fds \<Longrightarrow> sockets k' fd = sockets k fd"
  by (simp add: touches_def)

lemma call_frame [simp]:
  "sockets (call_failed e k) = sockets k" "bound_at (call_failed e k) = bound_at k" "win32 (call_failed e k) = win32 k"
  "startups (call_failed e k) = startups k" "last_error (call_failed e k) = e" "calls (call_failed e k) = Suc (calls k)"
  "sockets (call_worked k) = sockets k" "bound_at (call_worked k) = bound_at k" "win32 (call_worked k) = win32 k"
  "startups (call_worked k) = startups k" "calls (call_worked k) = Suc (calls k)"
  by (simp_all add: call_failed_def call_worked_def)

lemma set_socket_frame [simp]:
  "sockets (set_socket fd so k) = (sockets k)(fd \<mapsto> so)" "bound_at (set_socket fd so k) = bound_at k"
  "win32 (set_socket fd so k) = win32 k" "startups (set_socket fd so k) = startups k" "calls (set_socket fd so k) = calls k"
  by (simp_all add: set_socket_def)

lemma on_socket_touches: "on_socket os fd call k = (b, k') \<Longrightarrow> touches {fd} k k'"
  by (auto simp: on_socket_def touches_def split: option.splits sum.splits if_splits)

lemma on_socket_True:
  assumes "on_socket os fd call k = (True, k')"
  obtains so v so' where "sockets k fd = Some so" "call so v = Inr (so', bound_at k')" "sockets k' fd = Some so'"
  using assms by (auto simp: on_socket_def split: option.splits sum.splits)

lemma fd_calls_touch:
  "sys_bind os fd a k = (b, k') \<Longrightarrow> touches {fd} k k'"
  "sys_connect os fd a k = (b, k') \<Longrightarrow> touches {fd} k k'"
  "sys_setfl os fd flags k = (b, k') \<Longrightarrow> touches {fd} k k'"
  "sys_fionbio os fd k = (b, k') \<Longrightarrow> touches {fd} k k'"
  "sys_getsockname os fd k = (r, k') \<Longrightarrow> touches {fd} k k'"
  "sys_getfl os fd k = (f, k') \<Longrightarrow> touches {fd} k k'"
  by (auto simp: sys_bind_def sys_connect_def sys_setfl_def sys_fionbio_def sys_getsockname_def sys_getfl_def
      intro: on_socket_touches split: prod.splits)

lemma set_nonblocking_touches: "sctp_set_nonblocking os fd k = (b, k') \<Longrightarrow> touches {fd} k k'"
  by (auto simp: sctp_set_nonblocking_def split: if_splits prod.splits option.splits
      intro: fd_calls_touch touches_trans)

text \<open>A call that reads keeps every socket as it is, and one that sets the flags keeps the rest of the socket.\<close>

lemma getsockname_Some:
  assumes "sys_getsockname os fd k = (Some a, k')" "sockets k fd = Some so" "so_bound so = Some b"
  shows "a = b \<and> sockets k' = sockets k \<and> bound_at k' = bound_at k"
  using assms by (auto simp: sys_getsockname_def on_socket_def split: prod.splits sum.splits if_splits)

lemma connect_True:
  assumes "sys_connect os fd a k = (True, k')"
  obtains so where "sockets k fd = Some so" "sockets k' fd = Some (so\<lparr>so_peer := Some a\<rparr>)" "bound_at k' = bound_at k"
  using assms by (auto simp: sys_connect_def elim: on_socket_True)

definition nonblocking :: "Kernel \<Rightarrow> int \<Rightarrow> bool" where
  "nonblocking k fd = (case sockets k fd of None \<Rightarrow> False | Some so \<Rightarrow> so_flags so AND O_NONBLOCK \<noteq> 0)"

lemma O_NONBLOCK_set: "((flags::u32) OR O_NONBLOCK) AND O_NONBLOCK \<noteq> 0"
proof -
  have "bit ((flags OR O_NONBLOCK) AND O_NONBLOCK) 11" by (simp add: bit_simps)
  then show ?thesis by (metis bit_0_eq bot_apply bot_bool_def)
qed

lemma set_nonblocking_True:
  assumes "sctp_set_nonblocking os fd k = (True, k')"
  obtains so flags where "sockets k fd = Some so" "sockets k' fd = Some (so\<lparr>so_flags := flags\<rparr>)" "bound_at k' = bound_at k"
    "nonblocking k' fd"
proof (cases "win32 k")
  case True
  then show ?thesis using assms that
    by (auto simp: sctp_set_nonblocking_def sys_fionbio_def nonblocking_def O_NONBLOCK_set elim!: on_socket_True)
next
  case False
  then obtain flags k1 where k1: "sys_getfl os fd k = (Some flags, k1)" and k': "sys_setfl os fd (flags OR O_NONBLOCK) k1 = (True, k')"
    using assms by (auto simp: sctp_set_nonblocking_def split: prod.splits option.splits)
  have same: "sockets k1 = sockets k" "bound_at k1 = bound_at k"
    using k1 by (auto simp: sys_getfl_def on_socket_def split: prod.splits option.splits sum.splits if_splits)
  obtain so where "sockets k1 fd = Some so" "sockets k' fd = Some (so\<lparr>so_flags := flags OR O_NONBLOCK\<rparr>)" "bound_at k' = bound_at k1"
    using k' by (auto simp: sys_setfl_def elim!: on_socket_True)
  then show ?thesis using that same by (auto simp: nonblocking_def O_NONBLOCK_set)
qed

lemma socket_created:
  assumes "sys_socket os k = (fd, k')"
  shows "(fd = INVALID_SOCKET \<and> sockets k' = sockets k \<and> bound_at k' = bound_at k) \<or>
    (0 \<le> fd \<and> fd \<notin> dom (sockets k) \<and> bound_at k' = bound_at k \<and>
     sockets k' = (sockets k)(fd \<mapsto> \<lparr>so_bound = None, so_peer = None, so_flags = 0, so_queue = []\<rparr>))"
    "win32 k' = win32 k" "startups k' = startups k"
  using assms by (auto simp: sys_socket_def split: sum.splits if_splits)

subsection \<open>Closing\<close>

lemma close_socket_frame [simp]:
  "sockets (sctp_close_socket os fd k) = (sockets k)(fd := None)" "win32 (sctp_close_socket os fd k) = win32 k"
  "startups (sctp_close_socket os fd k) = startups k"
  by (auto simp: sctp_close_socket_def split: option.splits)

definition pair_sockets :: "Wakeup_Pair \<Rightarrow> int set" where
  "pair_sockets wp = {reader wp, writer wp} - {INVALID_SOCKET}"

lemma wakeup_close_exact:
  assumes "wakeup_close os wp k = (wp', k')"
  shows "wp' = no_pair" "sockets k' = sockets k |` (- pair_sockets wp)" "win32 k' = win32 k" "startups k' = startups k"
proof -
  show "wp' = no_pair" using assms
    by (auto simp: wakeup_close_def no_pair_def Let_def split: if_splits)
  show "sockets k' = sockets k |` (- pair_sockets wp)" using assms
    by (auto simp: wakeup_close_def pair_sockets_def restrict_map_def Let_def fun_eq_iff split: if_splits)
  show "win32 k' = win32 k" "startups k' = startups k" using assms
    by (auto simp: wakeup_close_def Let_def split: if_splits)
qed

lemma give_up_open_exact:
  assumes "give_up_open os wp k = (b, wp', k')"
  shows "\<not> b" "wp' = no_pair" "sockets k' = sockets k |` (- pair_sockets wp)" "last_error k' = last_error k"
    "win32 k' = win32 k" "startups k' = startups k"
proof -
  obtain wp1 k1 where c: "wakeup_close os wp k = (wp1, k1)" by (rule prod.exhaust)
  then have "b = False" "wp' = wp1" "k' = k1\<lparr>last_error := last_error k\<rparr>"
    using assms by (auto simp: give_up_open_def sctp_last_error_def sctp_set_last_error_def)
  then show "\<not> b" "wp' = no_pair" "sockets k' = sockets k |` (- pair_sockets wp)" "last_error k' = last_error k"
      "win32 k' = win32 k" "startups k' = startups k"
    using wakeup_close_exact [OF c] by simp_all
qed

subsection \<open>Opening the pair\<close>

text \<open>A pair that works: two open sockets, the writer connected to the address the reader holds, and neither blocks.\<close>

definition linked :: "Kernel \<Rightarrow> Wakeup_Pair \<Rightarrow> bool" where
  "linked k wp =
     (case sockets k (writer wp) of
        None \<Rightarrow> False
      | Some so \<Rightarrow> (case so_peer so of None \<Rightarrow> False | Some a \<Rightarrow> bound_at k a = Some (reader wp)))"

definition pair_open :: "Kernel \<Rightarrow> Wakeup_Pair \<Rightarrow> bool" where
  "pair_open k wp \<longleftrightarrow>
     reader wp \<noteq> writer wp \<and> 0 \<le> reader wp \<and> 0 \<le> writer wp \<and> linked k wp \<and>
     nonblocking k (reader wp) \<and> nonblocking k (writer wp)"

text \<open>The calls that open a pair up to the first that fails, with nothing released.\<close>

definition open_attempt :: "Os \<Rightarrow> Kernel \<Rightarrow> bool \<times> Kernel" where
  "open_attempt os k =
     (case sys_socket os k of
        (fd, k1) \<Rightarrow>
          if fd = INVALID_SOCKET then (False, k1)
          else case sys_socket os k1 of
                 (fd', k2) \<Rightarrow>
                   if fd' = INVALID_SOCKET then (False, k2)
                   else case bind_loopback os fd k2 of
                          (False, k3) \<Rightarrow> (False, k3)
                        | (True, k3) \<Rightarrow> link_pair os \<lparr>reader = fd, writer = fd'\<rparr> k3)"

lemma bind_loopback_touches: "bind_loopback os fd k = (b, k') \<Longrightarrow> touches {fd} k k'"
  by (auto simp: bind_loopback_def intro: fd_calls_touch split: option.splits)

lemma bind_loopback_True:
  assumes "bind_loopback os fd k = (True, k')"
  obtains so a where "sockets k' fd = Some so" "so_bound so = Some a" "bound_at k' a = Some fd"
proof -
  obtain ip where "sys_bind os fd \<lparr>s_addr = ip, sin_port = 0\<rparr> k = (True, k')"
    using assms by (auto simp: bind_loopback_def split: option.splits)
  then obtain so a where "sockets k' fd = Some (so\<lparr>so_bound := Some a\<rparr>)" "bound_at k' = (bound_at k)(a \<mapsto> fd)"
    unfolding sys_bind_def by (elim on_socket_True) (auto simp: Let_def split: if_splits)
  then show ?thesis by (intro that [of "so\<lparr>so_bound := Some a\<rparr>" a]) simp_all
qed

lemma link_pair_touches:
  assumes "link_pair os wp k = (b, k')"
  shows "touches {reader wp, writer wp} k k'"
proof -
  let ?fds = "{reader wp, writer wp}"
  obtain found k1 where k1: "sys_getsockname os (reader wp) k = (found, k1)" by (rule prod.exhaust)
  have "touches ?fds k1 k'"
  proof (cases found)
    case (Some a)
    obtain b2 k2 where k2: "sys_connect os (writer wp) a k1 = (b2, k2)" by (rule prod.exhaust)
    obtain b3 k3 where k3: "sctp_set_nonblocking os (reader wp) k2 = (b3, k3)" by (rule prod.exhaust)
    have "touches ?fds k3 k'" if "b2" "b3"
      using assms k1 k2 k3 Some that
      by (auto simp: link_pair_def intro: touches_mono [OF set_nonblocking_touches])
    then have "touches ?fds k2 k'" if "b2"
      using assms k1 k2 k3 Some that touches_then [OF set_nonblocking_touches [OF k3]]
      by (cases b3) (auto simp: link_pair_def intro: touches_mono [OF set_nonblocking_touches [OF k3]])
    then show ?thesis
      using assms k1 k2 Some touches_then [OF fd_calls_touch(2) [OF k2]]
      by (cases b2) (auto simp: link_pair_def intro: touches_mono [OF fd_calls_touch(2) [OF k2]])
  qed (use assms k1 in \<open>simp add: link_pair_def\<close>)
  then show ?thesis by (rule touches_then [OF fd_calls_touch(5) [OF k1]]) simp
qed

lemma link_pair_True:
  assumes link: "link_pair os wp k = (True, k')" and "reader wp \<noteq> writer wp" "0 \<le> reader wp" "0 \<le> writer wp"
    and r: "sockets k (reader wp) = Some so" "so_bound so = Some a" "bound_at k a = Some (reader wp)"
  shows "pair_open k' wp"
proof -
  obtain b k1 k2 k3 where k1: "sys_getsockname os (reader wp) k = (Some b, k1)"
    and k2: "sys_connect os (writer wp) b k1 = (True, k2)" and k3: "sctp_set_nonblocking os (reader wp) k2 = (True, k3)"
    and k4: "sctp_set_nonblocking os (writer wp) k3 = (True, k')"
    using link by (auto simp: link_pair_def split: prod.splits option.splits bool.splits)
  have b: "b = a" "bound_at k1 = bound_at k" using getsockname_Some [OF k1 r(1,2)] by simp_all
  obtain w where w: "sockets k2 (writer wp) = Some (w\<lparr>so_peer := Some a\<rparr>)" "bound_at k2 = bound_at k"
    using k2 b by (auto elim: connect_True)
  obtain so1 flags1 where nb: "bound_at k3 = bound_at k2" "nonblocking k3 (reader wp)"
    using k3 by (rule set_nonblocking_True)
  have w3: "sockets k3 (writer wp) = sockets k2 (writer wp)"
    using touches_other [OF set_nonblocking_touches [OF k3]] assms(2) by simp
  obtain so2 flags2 where so2: "sockets k3 (writer wp) = Some so2" "sockets k' (writer wp) = Some (so2\<lparr>so_flags := flags2\<rparr>)"
    "bound_at k' = bound_at k3" "nonblocking k' (writer wp)"
    using k4 by (rule set_nonblocking_True)
  have "nonblocking k' (reader wp)"
    using nb(2) touches_other [OF set_nonblocking_touches [OF k4], of "reader wp"] assms(2) by (simp add: nonblocking_def)
  moreover have "so2 = w\<lparr>so_peer := Some a\<rparr>" using so2(1) w(1) w3 by simp
  then have "linked k' wp" using so2(2,3) w(2) nb(1) r(3) by (simp add: linked_def)
  ultimately show ?thesis using so2(4) assms(2-4) by (simp add: pair_open_def)
qed

lemma pair_sockets_valid: "0 \<le> fd \<Longrightarrow> 0 \<le> fd' \<Longrightarrow> pair_sockets \<lparr>reader = fd, writer = fd'\<rparr> = {fd, fd'}"
  by (auto simp: pair_sockets_def)

text \<open>After two new sockets, calls on them alone give the old sockets back once both are closed.\<close>

lemma touches_new_pair:
  assumes "touches {fd, fd'} k2 k3" "sockets k2 = (sockets k)(fd \<mapsto> so, fd' \<mapsto> so')" "fd \<notin> dom (sockets k)" "fd' \<notin> dom (sockets k)"
  shows "sockets k3 |` (- {fd, fd'}) = sockets k"
proof
  fix x
  show "(sockets k3 |` (- {fd, fd'})) x = sockets k x"
    using assms by (cases "x \<in> {fd, fd'}") (auto simp: touches_def restrict_map_def)
qed

text \<open>What \<open>open\<close> may leave, given the pair it starts from: a working pair of new sockets beside the sockets that were there, or these
  alone.\<close>

definition opened_or_nothing :: "Kernel \<Rightarrow> Wakeup_Pair \<Rightarrow> bool \<Rightarrow> Wakeup_Pair \<Rightarrow> Kernel \<Rightarrow> bool" where
  "opened_or_nothing k wp ok wp' k' \<longleftrightarrow>
     (let kept = sockets k |` (- pair_sockets wp)
      in win32 k' = win32 k \<and> startups k' = startups k \<and>
         (if ok then pair_open k' wp' \<and> pair_sockets wp' \<inter> dom kept = {} \<and> sockets k' |` (- pair_sockets wp') = kept
          else wp' = no_pair \<and> sockets k' = kept))"

lemma restrict_map_UNIV [simp]: "m |` UNIV = m"
  by (simp add: restrict_map_def)

lemma no_pair_sockets [simp]: "pair_sockets no_pair = {}"
  by (simp add: pair_sockets_def no_pair_def)

lemma abandoned:
  assumes "give_up_open os wp2 k2 = (b, wp', k')" "sockets k2 |` (- pair_sockets wp2) = sockets k" "win32 k2 = win32 k" "startups k2 = startups k"
  shows "\<not> b" "last_error k' = last_error k2" "opened_or_nothing k no_pair b wp' k'"
  using give_up_open_exact [OF assms(1)] assms(2-4) by (simp_all add: opened_or_nothing_def)

text \<open>The part of \<open>open\<close> that works on the two new sockets.\<close>

lemma open_new_sockets:
  assumes new: "sockets k2 = (sockets k)(fd \<mapsto> so, fd' \<mapsto> so')" "win32 k2 = win32 k" "startups k2 = startups k"
    and fds: "0 \<le> fd" "0 \<le> fd'" "fd \<noteq> fd'" "fd \<notin> dom (sockets k)" "fd' \<notin> dom (sockets k)"
    and l: "bind_loopback os fd k2 = (b3, k3)" and wp2: "wp2 = \<lparr>reader = fd, writer = fd'\<rparr>" and p: "link_pair os wp2 k3 = (b4, k4)"
    and k1: "k1 = (if b3 then k4 else k3)"
    and res: "(b, wp', k') = (if b3 \<and> b4 then (True, wp2, k1) else give_up_open os wp2 k1)"
  shows "b = (b3 \<and> b4)" "last_error k' = last_error k1" "opened_or_nothing k no_pair b wp' k'"
proof -
  have ps: "pair_sockets wp2 = {fd, fd'}" using fds by (simp add: wp2 pair_sockets_valid)
  have t3: "touches {fd, fd'} k2 k3" using bind_loopback_touches [OF l] by (rule touches_mono) simp
  have "touches {fd, fd'} k3 k4" using link_pair_touches [OF p] by (simp add: wp2)
  then have t: "touches {fd, fd'} k2 k1" using t3 touches_trans by (auto simp: k1)
  have old: "sockets k1 |` (- pair_sockets wp2) = sockets k" using touches_new_pair [OF t new(1) fds(4,5)] by (simp add: ps)
  have same: "win32 k1 = win32 k" "startups k1 = startups k" using t new by (simp_all add: touches_def)
  show "b = (b3 \<and> b4)" "last_error k' = last_error k1" "opened_or_nothing k no_pair b wp' k'"
  proof (atomize (full), cases "b3 \<and> b4")
    case True
    then obtain so1 a where "sockets k3 fd = Some so1" "so_bound so1 = Some a" "bound_at k3 a = Some fd"
      using l by (auto elim: bind_loopback_True)
    then have "pair_open k1 wp2" using p True fds link_pair_True [of os wp2 k3 k4 so1 a] by (simp add: wp2 k1)
    then show "b = (b3 \<and> b4) \<and> last_error k' = last_error k1 \<and> opened_or_nothing k no_pair b wp' k'"
      using res True old same fds by (simp add: opened_or_nothing_def ps)
  next
    case False
    then have "give_up_open os wp2 k1 = (b, wp', k')" using res by (metis (full_types))
    from abandoned [OF this old same] False
    show "b = (b3 \<and> b4) \<and> last_error k' = last_error k1 \<and> opened_or_nothing k no_pair b wp' k'" by simp
  qed
qed

lemma wakeup_open_closed:
  assumes op: "wakeup_open os no_pair k = (b, wp', k')" and at: "open_attempt os k = (b1, k1)"
  shows "b = b1 \<and> last_error k' = last_error k1 \<and> opened_or_nothing k no_pair b wp' k'"
proof -
  have c: "wakeup_close os no_pair k = (no_pair, k)" by (simp add: wakeup_close_def no_pair_def)
  obtain fd k2 where s: "sys_socket os k = (fd, k2)" by (rule prod.exhaust)
  obtain fd' k3 where s': "sys_socket os k2 = (fd', k3)" by (rule prod.exhaust)
  obtain b4 k4 where l: "bind_loopback os fd k3 = (b4, k4)" by (rule prod.exhaust)
  obtain b5 k5 where p: "link_pair os \<lparr>reader = fd, writer = fd'\<rparr> k4 = (b5, k5)" by (rule prod.exhaust)
  note simps = wakeup_open_def open_attempt_def c [unfolded no_pair_def] s s' l p no_pair_def
  consider "fd = INVALID_SOCKET" | "fd \<noteq> INVALID_SOCKET" "fd' = INVALID_SOCKET" | "fd \<noteq> INVALID_SOCKET" "fd' \<noteq> INVALID_SOCKET"
    by blast
  then show ?thesis
  proof cases
    case 1
    then have "b = False" "b1 = False" "wp' = no_pair" "k' = k2" "k1 = k2" using op at by (simp_all add: simps)
    then show ?thesis using 1 socket_created [OF s] by (simp add: opened_or_nothing_def)
  next
    case 2
    then have a: "give_up_open os \<lparr>reader = fd, writer = - 1\<rparr> k3 = (b, wp', k')" "b1 = False" "k1 = k3"
      using op at by (simp_all add: simps)
    have "sockets k3 |` (- pair_sockets \<lparr>reader = fd, writer = - 1\<rparr>) = sockets k"
      using 2 socket_created(1) [OF s] socket_created(1) [OF s'] by (auto simp: pair_sockets_def restrict_map_def fun_eq_iff)
    from abandoned [OF a(1) this] show ?thesis using a socket_created(2,3) [OF s] socket_created(2,3) [OF s'] by simp
  next
    case 3
    let ?so = "\<lparr>so_bound = None, so_peer = None, so_flags = 0, so_queue = []\<rparr>"
    have fds: "0 \<le> fd" "0 \<le> fd'" "fd \<noteq> fd'" "fd \<notin> dom (sockets k)" "fd' \<notin> dom (sockets k)"
      and new: "sockets k3 = (sockets k)(fd \<mapsto> ?so, fd' \<mapsto> ?so)"
      using 3 socket_created(1) [OF s] socket_created(1) [OF s'] by auto
    have r: "k1 = (if b4 then k5 else k4)" "b1 = (b4 \<and> b5)"
        "(b, wp', k') = (if b4 \<and> b5 then (True, \<lparr>reader = fd, writer = fd'\<rparr>, k1) else give_up_open os \<lparr>reader = fd, writer = fd'\<rparr> k1)"
      using op at 3 by (simp_all add: simps Let_def split: bool.splits)
    have "win32 k3 = win32 k" "startups k3 = startups k" using socket_created(2,3) [OF s] socket_created(2,3) [OF s'] by simp_all
    from open_new_sockets [OF new this fds l refl p r(1,3)] r(2) show ?thesis by blast
  qed
qed

lemma wakeup_open_sound:
  assumes "wakeup_open os wp k = (ok, wp', k')"
  shows "opened_or_nothing k wp ok wp' k'" "(ok, last_error k') = apsnd last_error (open_attempt os (snd (wakeup_close os wp k)))"
proof -
  obtain wp0 k0 where c: "wakeup_close os wp k = (wp0, k0)" by (rule prod.exhaust)
  obtain b1 k1 where at: "open_attempt os k0 = (b1, k1)" by (rule prod.exhaust)
  have "wakeup_close os no_pair k0 = (no_pair, k0)" by (simp add: wakeup_close_def no_pair_def)
  then have op: "wakeup_open os no_pair k0 = (ok, wp', k')"
    using c wakeup_close_exact(1) [OF c] assms by (simp add: wakeup_open_def)
  show "opened_or_nothing k wp ok wp' k'" "(ok, last_error k') = apsnd last_error (open_attempt os (snd (wakeup_close os wp k)))"
    using wakeup_open_closed [OF op at] wakeup_close_exact [OF c] c at
    by (simp_all add: opened_or_nothing_def Let_def split: if_splits)
qed

text \<open>C12: Opening the wakeup pair is all or nothing, whatever the system answers: the old pair is closed; then either there are two new
  sockets that work together, or none, and the error code is that of the call that failed although closing overwrites it. The other
  sockets of the process stay as they are.\<close>

theorem wakeup_open_all_or_nothing:
  "case wakeup_open os wp k of (ok, wp', k') \<Rightarrow>
     opened_or_nothing k wp ok wp' k' \<and> (ok, last_error k') = apsnd last_error (open_attempt os (snd (wakeup_close os wp k)))"
  using wakeup_open_sound [of os wp k] by (auto split: prod.split)

subsection \<open>Waking the event loop\<close>

lemma deliver_frame [simp]:
  "bound_at (deliver a data k) = bound_at k" "win32 (deliver a data k) = win32 k" "calls (deliver a data k) = calls k"
  by (simp_all add: deliver_def split: option.splits)

text \<open>A change of queues alone keeps the pair.\<close>

lemma pair_open_queue:
  assumes "pair_open k wp" "sockets k fd = Some so" "sockets k' = (sockets k)(fd \<mapsto> so\<lparr>so_queue := q\<rparr>)" "bound_at k' = bound_at k"
  shows "pair_open k' wp"
  using assms by (auto simp: pair_open_def linked_def nonblocking_def split: option.splits)

lemma wake_delivers:
  assumes "pair_open k wp" "answer os k = Inr room" "0 < room" "wakeup_wake os wp k = (told, k')"
  shows "\<not> told" "queued_at k' (reader wp) = queued_at k (reader wp) @ [[1]]" "pair_open k' wp" "calls k' = Suc (calls k)" "win32 k' = win32 k"
proof -
  obtain w a r where w: "sockets k (writer wp) = Some w" "so_peer w = Some a" "bound_at k a = Some (reader wp)"
    and r: "sockets k (reader wp) = Some r" and fd: "writer wp \<noteq> INVALID_SOCKET"
    using assms(1) by (auto simp: pair_open_def linked_def nonblocking_def split: option.splits)
  have k': "told = False" "k' = deliver a [1] (call_worked k)"
    using assms(2-4) w fd by (auto simp: wakeup_wake_def sys_send_def)
  then have s: "sockets k' = (sockets k)(reader wp \<mapsto> r\<lparr>so_queue := so_queue r @ [[1]]\<rparr>)"
    using w(3) r by (simp add: deliver_def)
  then show "\<not> told" "queued_at k' (reader wp) = queued_at k (reader wp) @ [[1]]" "calls k' = Suc (calls k)" "win32 k' = win32 k"
    using k' r by (simp_all add: queued_at_def)
  show "pair_open k' wp" using pair_open_queue [OF assms(1) r s] k' by simp
qed

lemma drain_reader_empties:
  assumes "pair_open k wp" "[] \<notin> set (queued_at k (reader wp))" "\<forall>n\<ge>calls k. \<exists>v>0. os_answer os n = Inr v"
  shows "\<exists>k'. drain_reader os (reader wp) k = Some k' \<and> queued_at k' (reader wp) = [] \<and> pair_open k' wp \<and> last_error k' = EAGAIN k'"
  using assms
proof (induction "queued_at k (reader wp)" arbitrary: k)
  case Nil
  then obtain so where so: "sockets k (reader wp) = Some so" "so_queue so = []" "so_flags so AND O_NONBLOCK \<noteq> 0"
    by (auto simp: pair_open_def nonblocking_def queued_at_def split: option.splits)
  then have "sys_recv os (reader wp) 64 k = Some (- 1, call_failed (EAGAIN k) k)" by (simp add: sys_recv_def)
  moreover have "pair_open (call_failed (EAGAIN k) k) wp"
    using Nil(2) by (simp add: pair_open_def linked_def nonblocking_def cong: option.case_cong)
  ultimately show ?case using so by (simp add: drain_reader.simps [of os "reader wp" k] queued_at_def os_error_def)
next
  case (Cons data rest)
  obtain v where v: "os_answer os (calls k) = Inr v" using Cons.prems(3) by blast
  obtain so where so: "sockets k (reader wp) = Some so" "so_queue so = data # rest"
    using Cons.hyps(2) by (auto simp: queued_at_def split: option.splits)
  define k1 where "k1 = set_socket (reader wp) (so\<lparr>so_queue := rest\<rparr>) (call_worked k)"
  have "sys_recv os (reader wp) 64 k = Some (int (min 64 (length data)), k1)"
    using so v by (simp add: sys_recv_def answer_def k1_def)
  moreover have "data \<noteq> []" using Cons.prems(2) so by (auto simp: queued_at_def)
  ultimately have loop: "drain_reader os (reader wp) k = drain_reader os (reader wp) k1"
    by (simp add: drain_reader.simps [of os "reader wp" k])
  have k1: "queued_at k1 (reader wp) = rest" "pair_open k1 wp"
    using pair_open_queue [OF Cons.prems(1) so(1), of k1 rest] by (simp_all add: k1_def queued_at_def)
  have "[] \<notin> set rest" using Cons.prems(2) Cons.hyps(2) by (metis list.set_intros(2))
  moreover have "calls k1 = Suc (calls k)" by (simp add: k1_def)
  ultimately show ?case unfolding loop using Cons.hyps(1) [of k1] k1 Cons.prems(3) by simp
qed

lemma wake_touches: "touches UNIV k (snd (wakeup_wake os wp k))"
  by (auto simp: wakeup_wake_def sys_send_def deliver_def touches_def split: option.splits sum.splits prod.splits)

lemma recv_touches: "sys_recv os fd n k = Some (r, k') \<Longrightarrow> touches UNIV k k'"
  by (auto simp: sys_recv_def touches_def split: option.splits sum.splits list.splits if_splits)

lemma drain_reader_touches: "drain_reader os fd k = Some k' \<Longrightarrow> touches UNIV k k'"
proof (induction os fd k rule: drain_reader.induct)
  case (1 os fd k)
  show ?case
  proof (cases "sys_recv os fd 64 k")
    case (Some result)
    then obtain r k1 where k1: "sys_recv os fd 64 k = Some (r, k1)" by (cases result) simp
    then have "drain_reader os fd k = (if 0 < r then drain_reader os fd k1 else Some k1)" by (simp add: drain_reader.simps [of os fd k])
    then have "k' = k1 \<or> touches UNIV k1 k'" using 1(1) [OF k1 refl] 1(2) by (auto split: if_splits)
    then show ?thesis using recv_touches [OF k1] touches_trans by blast
  qed (use 1(2) in \<open>simp add: drain_reader.simps [of os fd k]\<close>)
qed

lemma drain_touches: "wakeup_drain os wp k = Some (told, k') \<Longrightarrow> touches UNIV k k'"
  by (auto simp: wakeup_drain_def split: option.splits dest: drain_reader_touches)

text \<open>C14: A wakeup is not lost and does not linger: with a pair that works and a system that takes the datagram, \<open>wake\<close> makes the reader
  readable, and \<open>drain\<close> then ends, having emptied it, without reporting an error.\<close>

theorem wake_then_drain:
  assumes "pair_open k wp" "[] \<notin> set (queued_at k (reader wp))" "\<forall>n\<ge>calls k. \<exists>v>0. os_answer os n = Inr v"
  shows "\<exists>k1 k2. wakeup_wake os wp k = (False, k1) \<and> queued_at k1 (reader wp) = queued_at k (reader wp) @ [[1]] \<and>
    wakeup_drain os wp k1 = Some (False, k2) \<and> queued_at k2 (reader wp) = [] \<and> pair_open k2 wp"
proof -
  obtain told k1 where k1: "wakeup_wake os wp k = (told, k1)" by (rule prod.exhaust)
  obtain room where "answer os k = Inr room" "0 < room" using assms(3) by (auto simp: answer_def)
  note w = wake_delivers [OF assms(1) this k1]
  obtain k2 where "drain_reader os (reader wp) k1 = Some k2" "queued_at k2 (reader wp) = []" "pair_open k2 wp" "last_error k2 = EAGAIN k2"
    using drain_reader_empties [OF w(3), of os] w assms(2,3) by auto
  then show ?thesis using k1 w by (simp add: wakeup_drain_def sctp_error_would_block_def sctp_last_error_def)
qed

definition example_os :: Os where
  "example_os = \<lparr>os_answer = (\<lambda>n. Inr (int n + 3)), inet_pton = (\<lambda>_. Some 16777343)\<rparr>"

definition example_kernel :: "bool \<Rightarrow> nat \<Rightarrow> Kernel" where
  "example_kernel windows n =
     \<lparr>win32 = windows, sockets = Map.empty, bound_at = Map.empty, last_error = 0, startups = n, calls = 0\<rparr>"

lemma example_pair:
  "let (ok, wp, k) = wakeup_open example_os no_pair (example_kernel False 0) in pair_open k wp \<and> queued_at k (reader wp) = []"
  by code_simp

theorem wake_then_drain_witness:
  "let (ok, wp, k) = wakeup_open example_os no_pair (example_kernel False 0)
   in \<exists>k1 k2. wakeup_wake example_os wp k = (False, k1) \<and> queued_at k1 (reader wp) = [[1]] \<and>
        wakeup_drain example_os wp k1 = Some (False, k2) \<and> queued_at k2 (reader wp) = []"
proof -
  obtain ok wp k where e: "wakeup_open example_os no_pair (example_kernel False 0) = (ok, wp, k)" by (metis prod.exhaust)
  have "pair_open k wp" "queued_at k (reader wp) = []" using example_pair e by simp_all
  moreover have "\<forall>n\<ge>calls k. \<exists>v>0. os_answer example_os n = Inr v" by (simp add: example_os_def)
  ultimately show ?thesis using wake_then_drain [of k wp example_os] e by auto
qed

subsection \<open>Random bytes\<close>

text \<open>\<open>random_bytes\<close> gives the first \<open>len\<close> bytes of what \<open>getrandom\<close> returns, interruptions skipped, unless an error comes before
  there are enough.\<close>

fun random_stream :: "Kernel \<Rightarrow> Getrandom list \<Rightarrow> bytes \<times> int option" where
  "random_stream k [] = ([], None)"
| "random_stream k (Random bs # rest) = apfst ((@) bs) (random_stream k rest)"
| "random_stream k (Random_Error err # rest) = (if err = EINTR k then random_stream k rest else ([], Some err))"

lemma random_bytes_stream:
  "length filled \<le> len \<Longrightarrow>
   random_bytes k answers len filled =
     (case random_stream k answers of (stream, failure) \<Rightarrow>
        if len \<le> length filled + length stream then Some (Inr (take len (filled @ stream))) else map_option Inl failure)"
proof (induction k answers arbitrary: filled rule: random_stream.induct)
  case (2 k bs rest)
  define filled' where "filled' = filled @ take (len - length filled) bs"
  have "random_bytes k (Random bs # rest) len filled = random_bytes k rest len filled'"
    using 2(2) by (cases "length filled < len") (simp_all add: filled'_def random_bytes.simps [of k "Random bs # rest"] random_bytes.simps [of k rest len filled])
  also have "\<dots> = (case random_stream k rest of (stream, failure) \<Rightarrow>
        if len \<le> length filled' + length stream then Some (Inr (take len (filled' @ stream))) else map_option Inl failure)"
    using 2(2) by (intro 2(1)) (simp add: filled'_def)
  finally show ?case using 2(2) by (auto simp: filled'_def min_def split: prod.splits)
next
  case (3 k err rest)
  then show ?case by (auto simp: random_bytes.simps [of k "Random_Error err # rest"] split: prod.splits)
qed (auto simp: random_bytes.simps)

end
