(* ===== verification/Socket_Resources.thy ===== *)
theory Socket_Resources
  imports Socket_Life Platform_Sockets
begin

text \<open>
  The socket object with what it owns of the operating system (\<open>src/socket_api.cpp\<close>): construction, \<open>sctp_bind\<close>, \<open>sctp_run\<close>,
  \<open>sctp_close\<close> and the destructor with every system call and every way they fail, around the protocol state of \<open>Socket_State\<close>. A
  life of the object is any sequence of these calls, of wakeups and of steps of the protocol; the invariant says that it owns exactly the
  descriptors it opened and has not closed.
\<close>

subsection \<open>The object\<close>

text \<open>\<open>event_loop_thread\<close> says whether the thread object is joinable.\<close>

record SCTP_Socket =
  core :: Socket
  platform_started :: bool
  udp_socket :: int
  wakeup :: Wakeup_Pair
  event_loop_thread :: bool

definition socket_construct :: "Os \<Rightarrow> Socket \<Rightarrow> Kernel \<Rightarrow> SCTP_Socket \<times> Kernel" where
  "socket_construct os members k =
     (let obj = \<lparr>core = members, platform_started = False, udp_socket = INVALID_SOCKET, wakeup = no_pair, event_loop_thread = False\<rparr>
      in case sctp_platform_startup os k of
           (False, k1) \<Rightarrow> (obj, k1)
         | (True, k1) \<Rightarrow>
             (case sys_socket os k1 of
                (fd, k2) \<Rightarrow>
                  if fd = INVALID_SOCKET then (obj, sctp_platform_cleanup k2)
                  else (obj\<lparr>platform_started := True, udp_socket := fd\<rparr>, k2)))"

definition socket_bind :: "Os \<Rightarrow> string \<Rightarrow> int \<Rightarrow> SCTP_Socket \<Rightarrow> Kernel \<Rightarrow> bool \<times> SCTP_Socket \<times> Kernel" where
  "socket_bind os ip_address port obj k =
     (case sctp_parse_ipv4 os ip_address of
        None \<Rightarrow> (False, obj, k)
      | Some ip \<Rightarrow>
          let service = \<lparr>s_addr = ip, sin_port = htons (word_of_int port)\<rparr>
          in case sys_bind os (udp_socket obj) service k of
               (False, k1) \<Rightarrow>
                 (False, obj\<lparr>udp_socket := INVALID_SOCKET, platform_started := False\<rparr>,
                  sctp_platform_cleanup (sctp_close_socket os (udp_socket obj) k1))
             | (True, k1) \<Rightarrow> (True, obj\<lparr>core := (core obj)\<lparr>local_address := service\<rparr>\<rparr>, k1))"

text \<open>\<open>sctp_run\<close> returns, rethrows what the constructor of \<open>std::thread\<close> threw, or, when it assigns to a thread object that is still
  joinable, terminates the process. \<open>spawned\<close> says whether the thread could be created.\<close>

datatype Run_Result = Ran bool | Rethrown | Terminated

definition socket_run :: "Os \<Rightarrow> bool \<Rightarrow> SCTP_Socket \<Rightarrow> Kernel \<Rightarrow> Run_Result \<times> SCTP_Socket \<times> Kernel" where
  "socket_run os spawned obj k =
     (if running (core obj) \<or> udp_socket obj = INVALID_SOCKET then (Ran False, obj, k)
      else
        case sctp_set_nonblocking os (udp_socket obj) k of
          (False, k1) \<Rightarrow> (Ran False, obj, k1)
        | (True, k1) \<Rightarrow>
            (case wakeup_open os (wakeup obj) k1 of
               (opened, wp, k2) \<Rightarrow>
                 let obj1 = obj\<lparr>wakeup := wp\<rparr>
                 in if \<not> opened then (Ran False, obj1, k2)
                    else if \<not> spawned
                    then (case wakeup_close os wp k2 of
                            (wp', k3) \<Rightarrow> (Rethrown, obj1\<lparr>core := (core obj)\<lparr>running := False\<rparr>, wakeup := wp'\<rparr>, k3))
                    else if event_loop_thread obj then (Terminated, obj1\<lparr>core := (core obj)\<lparr>running := True\<rparr>\<rparr>, k2)
                    else (Ran True, obj1\<lparr>core := (core obj)\<lparr>running := True\<rparr>, event_loop_thread := True\<rparr>, k2)))"

definition wake_event_loop :: "Os \<Rightarrow> SCTP_Socket \<Rightarrow> Kernel \<Rightarrow> Kernel" where
  "wake_event_loop os obj k = snd (wakeup_wake os (wakeup obj) k)"

text \<open>The thread ends when it finds \<open>running\<close> false; \<open>join\<close> waits for that.\<close>

definition join_event_loop :: "Os \<Rightarrow> SCTP_Socket \<Rightarrow> Kernel \<Rightarrow> SCTP_Socket \<times> Kernel" where
  "join_event_loop os obj k =
     (if event_loop_thread obj then (obj\<lparr>event_loop_thread := False\<rparr>, wake_event_loop os obj k) else (obj, k))"

definition release_sockets :: "Os \<Rightarrow> SCTP_Socket \<Rightarrow> Kernel \<Rightarrow> SCTP_Socket \<times> Kernel" where
  "release_sockets os obj k =
     (case wakeup_close os (wakeup obj) k of
        (wp, k1) \<Rightarrow>
          let obj1 = obj\<lparr>wakeup := wp\<rparr>;
              (obj2, k2) = (if udp_socket obj \<noteq> INVALID_SOCKET
                            then (obj1\<lparr>udp_socket := INVALID_SOCKET\<rparr>, sctp_close_socket os (udp_socket obj) k1) else (obj1, k1))
          in if platform_started obj then (obj2\<lparr>platform_started := False\<rparr>, sctp_platform_cleanup k2) else (obj2, k2))"

definition socket_close ::
    "Os \<Rightarrow> time \<Rightarrow> (Socket \<Rightarrow> Association_Key list) \<Rightarrow> (Socket \<Rightarrow> Socket) \<Rightarrow> (Socket \<Rightarrow> Socket) \<Rightarrow> int \<Rightarrow> SCTP_Socket \<Rightarrow> Kernel \<Rightarrow>
     SCTP_Socket \<times> Kernel" where
  "socket_close os now keys lingering draining linger obj k =
     (case join_event_loop os obj k of
        (obj1, k1) \<Rightarrow> release_sockets os (obj1\<lparr>core := sctp_close now keys lingering draining linger (core obj)\<rparr>) k1)"

text \<open>The destructor closes with the socket's own linger time.\<close>

definition socket_destruct ::
    "Os \<Rightarrow> time \<Rightarrow> (Socket \<Rightarrow> Association_Key list) \<Rightarrow> (Socket \<Rightarrow> Socket) \<Rightarrow> (Socket \<Rightarrow> Socket) \<Rightarrow> SCTP_Socket \<Rightarrow> Kernel \<Rightarrow> SCTP_Socket \<times> Kernel" where
  "socket_destruct os now keys lingering draining = socket_close os now keys lingering draining USE_SOCKET_LINGER"

subsection \<open>Its life\<close>

inductive object_step :: "Os \<Rightarrow> SCTP_Socket \<times> Kernel \<Rightarrow> SCTP_Socket \<times> Kernel \<Rightarrow> bool" for os where
  obj_bind: "socket_bind os ip port obj k = (b, obj', k') \<Longrightarrow> object_step os (obj, k) (obj', k')"
| obj_run: "socket_run os spawned obj k = (r, obj', k') \<Longrightarrow> r \<noteq> Terminated \<Longrightarrow> object_step os (obj, k) (obj', k')"
| obj_close: "only_steps lingering \<Longrightarrow> only_steps draining \<Longrightarrow> socket_close os now keys lingering draining linger obj k = (obj', k') \<Longrightarrow> object_step os (obj, k) (obj', k')"
| obj_wake: "object_step os (obj, k) (obj, wake_event_loop os obj k)"
| obj_drain: "wakeup_drain os (wakeup obj) k = Some (told, k') \<Longrightarrow> object_step os (obj, k) (obj, k')"
| obj_work: "work_step (core obj) s \<Longrightarrow> running s \<longrightarrow> running (core obj) \<Longrightarrow> object_step os (obj, k) (obj\<lparr>core := s\<rparr>, k)"

text \<open>\<open>others\<close> are the descriptors of the rest of the process, \<open>n\<close> its calls of \<open>WSAStartup\<close>.\<close>

inductive lifetime :: "Os \<Rightarrow> int set \<Rightarrow> nat \<Rightarrow> SCTP_Socket \<times> Kernel \<Rightarrow> bool" for os others n where
  life_start: "dom (sockets k) = others \<Longrightarrow> INVALID_SOCKET \<notin> others \<Longrightarrow> startups k = n \<Longrightarrow>
    lifetime os others n (socket_construct os (new_socket service ca bytes) k)"
| life_step: "lifetime os others n state \<Longrightarrow> object_step os state state' \<Longrightarrow> lifetime os others n state'"

definition udp_held :: "SCTP_Socket \<Rightarrow> int set" where
  "udp_held obj = {udp_socket obj} - {INVALID_SOCKET}"

definition held :: "SCTP_Socket \<Rightarrow> int set" where
  "held obj = udp_held obj \<union> pair_sockets (wakeup obj)"

definition sound_pair :: "Wakeup_Pair \<Rightarrow> bool" where
  "sound_pair wp \<longleftrightarrow> wp = no_pair \<or> 0 \<le> reader wp \<and> 0 \<le> writer wp \<and> reader wp \<noteq> writer wp"

definition accounted :: "int set \<Rightarrow> nat \<Rightarrow> SCTP_Socket \<Rightarrow> Kernel \<Rightarrow> bool" where
  "accounted others n obj k \<longleftrightarrow>
     dom (sockets k) = others \<union> held obj \<and> others \<inter> held obj = {} \<and> INVALID_SOCKET \<notin> others \<and>
     udp_held obj \<inter> pair_sockets (wakeup obj) = {} \<and> sound_pair (wakeup obj) \<and>
     (platform_started obj \<longleftrightarrow> udp_socket obj \<noteq> INVALID_SOCKET) \<and>
     (running (core obj) \<longrightarrow> event_loop_thread obj \<and> wakeup obj \<noteq> no_pair) \<and>
     startups k \<le> n + (if win32 k \<and> platform_started obj then 1 else 0)"

subsection \<open>The account is kept\<close>

lemma cleanup_frame [simp]:
  "sockets (sctp_platform_cleanup k) = sockets k" "win32 (sctp_platform_cleanup k) = win32 k"
  "startups (sctp_platform_cleanup k) = (if win32 k then startups k - 1 else startups k)"
  by (simp_all add: sctp_platform_cleanup_def)

lemma startup_frame:
  assumes "sctp_platform_startup os k = (b, k')"
  shows "sockets k' = sockets k" "win32 k' = win32 k" "startups k' = (if win32 k \<and> b then Suc (startups k) else startups k)"
  using assms by (auto simp: sctp_platform_startup_def split: if_splits sum.splits)

lemma accountedD:
  assumes "accounted others n obj k"
  shows "dom (sockets k) = others \<union> held obj" "others \<inter> held obj = {}" "INVALID_SOCKET \<notin> others"
    "udp_held obj \<inter> pair_sockets (wakeup obj) = {}" "sound_pair (wakeup obj)"
    "platform_started obj \<longleftrightarrow> udp_socket obj \<noteq> INVALID_SOCKET"
    "startups k \<le> n + (if win32 k \<and> platform_started obj then 1 else 0)"
  using assms unfolding accounted_def by blast+

lemma accounted_touches: "accounted others n obj k \<Longrightarrow> touches fds k k' \<Longrightarrow> accounted others n obj k'"
  unfolding accounted_def touches_def by (elim conjE) (simp only: simp_thms)

lemma accounted_core:
  "accounted others n obj k \<Longrightarrow> running s \<longrightarrow> running (core obj) \<Longrightarrow> accounted others n (obj\<lparr>core := s\<rparr>) k"
  by (auto simp: accounted_def held_def udp_held_def)

lemma accounted_without_udp:
  assumes "accounted others n obj k" "sockets k' = (sockets k)(udp_socket obj := None)" "win32 k' = win32 k"
    "startups k' = (if win32 k then startups k - 1 else startups k)"
  shows "accounted others n (obj\<lparr>udp_socket := INVALID_SOCKET, platform_started := False\<rparr>) k'"
proof -
  note d = accountedD [OF assms(1)]
  have "dom (sockets k') = others \<union> pair_sockets (wakeup obj)"
    using d(1-4) by (cases "udp_socket obj = INVALID_SOCKET") (auto simp: assms(2) held_def udp_held_def pair_sockets_def)
  moreover have "startups k' \<le> n" using d(7) assms(4) by (auto split: if_splits)
  ultimately show ?thesis using assms(1) d(2,3) by (auto simp: accounted_def held_def udp_held_def)
qed

lemma accounted_construct:
  assumes "dom (sockets k) = others" "INVALID_SOCKET \<notin> others" "startups k = n" "\<not> running members"
    "socket_construct os members k = (obj, k')"
  shows "accounted others n obj k'"
proof -
  obtain b k1 where k1: "sctp_platform_startup os k = (b, k1)" by (rule prod.exhaust)
  obtain fd k2 where k2: "sys_socket os k1 = (fd, k2)" by (rule prod.exhaust)
  show ?thesis
    using assms startup_frame [OF k1] socket_created [OF k2] k1 k2
    by (cases b) (auto simp: socket_construct_def accounted_def held_def udp_held_def sound_pair_def split: if_splits)
qed

lemma accounted_bind:
  assumes ok: "accounted others n obj k" and bind: "socket_bind os ip port obj k = (b, obj', k')"
  shows "accounted others n obj' k'"
proof (cases "sctp_parse_ipv4 os ip")
  case (Some a)
  obtain b1 k1 where k1: "sys_bind os (udp_socket obj) \<lparr>s_addr = a, sin_port = htons (word_of_int port)\<rparr> k = (b1, k1)"
    by (rule prod.exhaust)
  have ok1: "accounted others n obj k1" using accounted_touches [OF ok fd_calls_touch(1) [OF k1]] .
  show ?thesis
  proof (cases b1)
    case True
    then have "obj' = obj\<lparr>core := (core obj)\<lparr>local_address := \<lparr>s_addr = a, sin_port = htons (word_of_int port)\<rparr>\<rparr>\<rparr>" "k' = k1"
      using bind Some k1 by (auto simp: socket_bind_def)
    then show ?thesis using accounted_core [OF ok1] by simp
  next
    case False
    then have "obj' = obj\<lparr>udp_socket := INVALID_SOCKET, platform_started := False\<rparr>"
        "k' = sctp_platform_cleanup (sctp_close_socket os (udp_socket obj) k1)"
      using bind Some k1 by (auto simp: socket_bind_def)
    then show ?thesis using accounted_without_udp [OF ok1] by simp
  qed
qed (use assms in \<open>simp add: socket_bind_def\<close>)

lemma pair_open_sockets: "pair_open k wp \<Longrightarrow> pair_sockets wp \<subseteq> dom (sockets k) \<and> wp \<noteq> no_pair \<and> sound_pair wp"
  by (auto simp: pair_open_def pair_sockets_def nonblocking_def no_pair_def sound_pair_def split: option.splits)

lemma opened_or_nothing_dom:
  assumes "opened_or_nothing k wp b wp' k'"
  shows "win32 k' = win32 k" "startups k' = startups k" "sound_pair wp'" "wp' = no_pair \<longleftrightarrow> \<not> b"
    "dom (sockets k') = dom (sockets k) - pair_sockets wp \<union> pair_sockets wp'" "pair_sockets wp' \<inter> (dom (sockets k) - pair_sockets wp) = {}"
proof -
  show "dom (sockets k') = dom (sockets k) - pair_sockets wp \<union> pair_sockets wp'"
  proof (cases b)
    case True
    then have "pair_sockets wp' \<subseteq> dom (sockets k')" "dom (sockets k' |` (- pair_sockets wp')) = dom (sockets k |` (- pair_sockets wp))"
      using assms pair_open_sockets [of k' wp'] by (simp_all only: opened_or_nothing_def Let_def if_True simp_thms)
    then show ?thesis unfolding dom_restrict by blast
  next
    case False
    then show ?thesis using assms by (auto simp: opened_or_nothing_def Let_def)
  qed
  show "win32 k' = win32 k" "startups k' = startups k" "sound_pair wp'" "wp' = no_pair \<longleftrightarrow> \<not> b"
    using assms pair_open_sockets [of k' wp'] by (auto simp: opened_or_nothing_def Let_def sound_pair_def split: if_splits)
  show "pair_sockets wp' \<inter> (dom (sockets k) - pair_sockets wp) = {}"
    using assms by (auto simp only: opened_or_nothing_def Let_def no_pair_sockets dom_restrict split: if_splits)
qed

text \<open>With another pair, of which only the sockets count.\<close>

lemma accounted_pair:
  assumes ok: "accounted others n obj k" and opened: "opened_or_nothing k (wakeup obj) b (wakeup obj') k'"
    and same: "udp_socket obj' = udp_socket obj" "platform_started obj' = platform_started obj"
    and runs: "running (core obj') \<longrightarrow> event_loop_thread obj' \<and> b"
  shows "accounted others n obj' k'"
proof -
  note d = accountedD [OF ok]
  note k' = opened_or_nothing_dom [OF opened]
  have u: "udp_held obj' = udp_held obj" by (simp add: udp_held_def same)
  have kept: "dom (sockets k) - pair_sockets (wakeup obj) = others \<union> udp_held obj" using d(1,2,4) by (auto simp: held_def)
  have "dom (sockets k') = others \<union> held obj'" "others \<inter> held obj' = {}" "udp_held obj' \<inter> pair_sockets (wakeup obj') = {}"
    using k'(5,6) kept d(2) u by (auto simp: held_def)
  then show ?thesis using k'(1-4) d(3,6,7) same runs by (simp add: accounted_def)
qed

lemma close_gives_nothing: "wakeup_close os wp k = (wp', k') \<Longrightarrow> opened_or_nothing k wp False wp' k'"
  using wakeup_close_exact [of os wp k wp' k'] by (simp add: opened_or_nothing_def)

lemma accounted_run:
  assumes ok: "accounted others n obj k" and run: "socket_run os spawned obj k = (r, obj', k')" and "r \<noteq> Terminated"
  shows "accounted others n obj' k'"
proof (cases "running (core obj) \<or> udp_socket obj = INVALID_SOCKET")
  case False
  obtain b1 k1 where k1: "sctp_set_nonblocking os (udp_socket obj) k = (b1, k1)" by (rule prod.exhaust)
  have ok1: "accounted others n obj k1" using accounted_touches [OF ok set_nonblocking_touches [OF k1]] .
  obtain b2 wp k2 where k2: "wakeup_open os (wakeup obj) k1 = (b2, wp, k2)" by (metis prod.exhaust)
  obtain wp' k3 where k3: "wakeup_close os wp k2 = (wp', k3)" by (rule prod.exhaust)
  note opened = wakeup_open_sound(1) [OF k2]
  have ok2: "accounted others n (obj\<lparr>wakeup := wp\<rparr>) k2" by (rule accounted_pair [OF ok1]) (use opened False in simp_all)
  have ok3: "accounted others n (obj\<lparr>core := (core obj)\<lparr>running := False\<rparr>, wakeup := wp'\<rparr>) k3"
    by (rule accounted_pair [OF ok2]) (use close_gives_nothing [OF k3] in simp_all)
  have okt: "accounted others n (obj\<lparr>wakeup := wp, core := (core obj)\<lparr>running := True\<rparr>, event_loop_thread := True\<rparr>) k2" if b2
    by (rule accounted_pair [OF ok1]) (use opened that in simp_all)
  show ?thesis
  proof (cases "b1 \<and> b2")
    case True
    then show ?thesis using run False k1 k2 k3 ok3 okt assms(3) by (auto simp: socket_run_def Let_def split: if_splits)
  next
    case no: False
    then show ?thesis using run False k1 k2 ok1 ok2 by (cases b1) (auto simp: socket_run_def)
  qed
qed (use assms in \<open>auto simp: socket_run_def split: if_splits\<close>)

lemma accounted_join:
  assumes "accounted others n obj k" "join_event_loop os obj k = (obj', k')" "\<not> running s"
  shows "accounted others n (obj'\<lparr>core := s\<rparr>) k'" "udp_socket obj' = udp_socket obj" "event_loop_thread obj' = False"
proof -
  have "accounted others n obj k'"
    using accounted_touches [OF assms(1) wake_touches] assms(1,2) by (auto simp: join_event_loop_def wake_event_loop_def split: if_splits)
  moreover have "obj' = obj\<lparr>event_loop_thread := False\<rparr>" using assms(2) by (auto simp: join_event_loop_def split: if_splits)
  ultimately show "accounted others n (obj'\<lparr>core := s\<rparr>) k'" "udp_socket obj' = udp_socket obj" "event_loop_thread obj' = False"
    using assms(3) by (auto simp: accounted_def held_def udp_held_def)
qed

lemma accounted_release:
  assumes ok: "accounted others n obj k" and rel: "release_sockets os obj k = (obj', k')" and "\<not> running (core obj)"
  shows "obj' = obj\<lparr>wakeup := no_pair, udp_socket := INVALID_SOCKET, platform_started := False\<rparr>" "accounted others n obj' k'"
    "win32 k' = win32 k" "startups k' = (if win32 k \<and> platform_started obj then startups k - 1 else startups k)"
proof -
  obtain wp k1 where k1: "wakeup_close os (wakeup obj) k = (wp, k1)" by (rule prod.exhaust)
  note frame = wakeup_close_exact [OF k1]
  have ok1: "accounted others n (obj\<lparr>wakeup := wp\<rparr>) k1"
    by (rule accounted_pair [OF ok]) (use close_gives_nothing [OF k1] assms(3) in simp_all)
  have st: "platform_started obj \<longleftrightarrow> udp_socket obj \<noteq> INVALID_SOCKET" using accountedD(6) [OF ok] .
  show obj': "obj' = obj\<lparr>wakeup := no_pair, udp_socket := INVALID_SOCKET, platform_started := False\<rparr>"
    using rel k1 st frame(1) by (auto simp: release_sockets_def)
  show "win32 k' = win32 k" "startups k' = (if win32 k \<and> platform_started obj then startups k - 1 else startups k)"
    using rel k1 st frame(3,4) by (auto simp: release_sockets_def split: if_splits)
  show "accounted others n obj' k'"
  proof (cases "udp_socket obj = INVALID_SOCKET")
    case True
    then show ?thesis using rel k1 st ok1 by (simp add: release_sockets_def)
  next
    case False
    then have "k' = sctp_platform_cleanup (sctp_close_socket os (udp_socket obj) k1)" using rel k1 st by (auto simp: release_sockets_def)
    then show ?thesis using accounted_without_udp [OF ok1, of k'] obj' frame(1) by simp
  qed
qed

lemma sctp_close_stops: "\<not> running (sctp_close now keys lingering draining linger s)"
  by (simp add: sctp_close_def end_close_def)

lemma accounted_close:
  assumes ok: "accounted others n obj k" and close: "socket_close os now keys lingering draining linger obj k = (obj', k')"
  shows "accounted others n obj' k'" "held obj' = {}" "\<not> event_loop_thread obj'" "\<not> platform_started obj'"
    "core obj' = sctp_close now keys lingering draining linger (core obj)"
proof -
  let ?s = "sctp_close now keys lingering draining linger (core obj)"
  obtain obj1 k1 where k1: "join_event_loop os obj k = (obj1, k1)" by (rule prod.exhaust)
  have stopped: "\<not> running ?s" by (rule sctp_close_stops)
  note ok1 = accounted_join [OF ok k1 stopped]
  have rel: "release_sockets os (obj1\<lparr>core := ?s\<rparr>) k1 = (obj', k')" using close k1 by (simp add: socket_close_def)
  note rel' = accounted_release [OF ok1(1) rel]
  show "accounted others n obj' k'" "held obj' = {}" "\<not> event_loop_thread obj'" "\<not> platform_started obj'" "core obj' = ?s"
    using rel' ok1(3) stopped by (simp_all add: held_def udp_held_def)
qed

lemma object_step_accounted: "object_step os (obj, k) (obj', k') \<Longrightarrow> accounted others n obj k \<Longrightarrow> accounted others n obj' k'"
proof (induction "(obj, k)" "(obj', k')" arbitrary: obj k obj' k' rule: object_step.induct)
  case (obj_wake obj k)
  then show ?case using accounted_touches [OF _ wake_touches] by (simp add: wake_event_loop_def)
qed (auto intro: accounted_bind accounted_run accounted_close(1) accounted_core accounted_touches [OF _ drain_touches])

lemma lifetime_accounted: "lifetime os others n (obj, k) \<Longrightarrow> accounted others n obj k"
proof (induction "(obj, k)" arbitrary: obj k rule: lifetime.induct)
  case (life_start k service ca bytes)
  have "\<not> running (new_socket service ca bytes)" by (simp add: new_socket_def)
  from accounted_construct [OF life_start(1-3) this life_start(4)] show ?case .
next
  case (life_step state)
  then show ?case by (cases state) (auto intro: object_step_accounted)
qed


subsection \<open>The object refines the protocol state\<close>

text \<open>What \<open>sctp_run\<close> does to the protocol state is what \<open>Event_Loop\<close> says of it.\<close>

lemma socket_run_core:
  "case socket_run os spawned obj k of (r, obj', k') \<Rightarrow>
     (case r of
        Ran b \<Rightarrow> (b, core obj') = sctp_run (udp_socket obj \<noteq> INVALID_SOCKET) b (core obj)
      | Rethrown \<Rightarrow> core obj' = core obj
      | Terminated \<Rightarrow> True)"
proof -
  have same: "(core obj)\<lparr>running := False\<rparr> = core obj" if "\<not> running (core obj)"
    using that by (simp add: Socket.surjective [of "core obj", symmetric])
  show ?thesis
    by (auto simp: socket_run_def sctp_run_def same Let_def split: prod.splits bool.splits)
qed

lemma socket_bind_core:
  "socket_bind os ip port obj k = (b, obj', k') \<Longrightarrow> core obj' = core obj \<or> (\<exists>service. core obj' = (core obj)\<lparr>local_address := service\<rparr>)"
  by (auto simp: socket_bind_def Let_def split: option.splits prod.splits bool.splits)

lemma socket_close_core:
  "socket_close os now keys lingering draining linger obj k = (obj', k') \<Longrightarrow> core obj' = sctp_close now keys lingering draining linger (core obj)"
  by (auto simp: socket_close_def release_sockets_def Let_def split: prod.splits if_splits)

lemma object_step_reachable: "object_step os (obj, k) (obj', k') \<Longrightarrow> reachable (core obj) \<Longrightarrow> reachable (core obj')"
proof (induction "(obj, k)" "(obj', k')" arbitrary: obj k obj' k' rule: object_step.induct)
  case (obj_bind ip port obj k b obj' k')
  then show ?case using socket_bind_core [OF obj_bind(1)] reach_step [OF _ step_bind] by auto
next
  case (obj_run spawned obj k r obj' k')
  have run: "reachable (snd (sctp_run bound opened (core obj)))" for bound opened using obj_run(3) reach_step step_run by blast
  show ?case using socket_run_core [where os = os and spawned = spawned and obj = obj and k = k] obj_run run
    by (cases r) (auto, metis snd_conv)
next
  case (obj_close lingering draining now keys linger obj k obj' k')
  then show ?case using socket_close_core [OF obj_close(3)] reachable_close by simp
qed (auto intro: reach_step step_work)

lemma lifetime_reachable: "lifetime os others n (obj, k) \<Longrightarrow> reachable (core obj)"
proof (induction "(obj, k)" arbitrary: obj k rule: lifetime.induct)
  case (life_start k service ca bytes)
  then have "core obj = new_socket service ca bytes"
    by (auto simp: socket_construct_def Let_def split: prod.splits bool.splits if_splits)
  then show ?case using reach_new by simp
next
  case (life_step state)
  then show ?case by (cases state) (auto intro: object_step_reachable)
qed

subsection \<open>Properties\<close>

text \<open>C11: A socket leaks nothing, whatever the system answers and whatever sequence of binding, running, closing, wakeups and protocol steps its
  life is: it always owns exactly the descriptors that are open beside those of the rest of the process, its protocol state is
  consistent, and once it is closed none of its descriptors is open, its thread is joined and the calls of \<open>WSAStartup\<close> are undone.\<close>

theorem socket_leaks_nothing:
  assumes "lifetime os others n (obj, k)" "socket_close os now keys lingering draining linger obj k = (obj', k')"
  shows "dom (sockets k) = others \<union> held obj \<and> others \<inter> held obj = {} \<and> sock_ok (core obj) \<and>
    dom (sockets k') = others \<and> \<not> event_loop_thread obj' \<and> startups k' \<le> n"
proof -
  have ok: "accounted others n obj k" by (rule lifetime_accounted [OF assms(1)])
  note closed = accounted_close [OF ok assms(2)]
  have "sock_ok (core obj)" by (rule reachable_ok [OF lifetime_reachable [OF assms(1)]])
  then show ?thesis using accountedD(1,2) [OF ok] accountedD(1,7) [OF closed(1)] closed(2-4) by simp
qed

definition example_object :: "SCTP_Socket \<times> Kernel" where
  "example_object = socket_construct example_os (new_socket \<lparr>s_addr = 0, sin_port = 0\<rparr> example_auth []) (example_kernel False 0)"

definition example_running :: "Run_Result \<times> SCTP_Socket \<times> Kernel" where
  "example_running = (case example_object of (obj, k) \<Rightarrow> socket_run example_os True obj k)"

lemma example_runs:
  "fst example_running = Ran True" "held (fst (snd example_running)) = {3, 6, 7}" "running (core (fst (snd example_running)))"
  by code_simp+

lemma example_life: "lifetime example_os {} 0 (snd example_running)"
proof -
  have "lifetime example_os {} 0 example_object"
    unfolding example_object_def by (rule life_start) (simp_all add: example_kernel_def)
  moreover have "object_step example_os example_object (snd example_running)"
    using obj_run [of example_os True "fst example_object" "snd example_object" "fst example_running"
        "fst (snd example_running)" "snd (snd example_running)"] example_runs(1)
    by (simp add: example_running_def split_beta)
  ultimately show ?thesis by (rule life_step)
qed

theorem socket_leaks_nothing_witness:
  "let (r, obj, k) = example_running; (obj', k') = socket_close example_os 0 (\<lambda>_. []) id id 0 obj k
   in dom (sockets k) = {3, 6, 7} \<and> dom (sockets k') = {}"
proof -
  obtain r obj k where e: "example_running = (r, obj, k)" by (metis prod.exhaust)
  obtain obj' k' where c: "socket_close example_os 0 (\<lambda>_. []) id id 0 obj k = (obj', k')" by (rule prod.exhaust)
  have "lifetime example_os {} 0 (obj, k)" using example_life unfolding e snd_conv .
  from socket_leaks_nothing [OF this c] show ?thesis using example_runs(2) c unfolding e by simp
qed

text \<open>Exactly when a call of \<open>sctp_run\<close> ends the process: the thread object still holds an event loop that has ended by itself, and
  everything else that \<open>sctp_run\<close> needs works.\<close>

lemma run_terminates_iff:
  "fst (socket_run os spawned obj k) = Terminated \<longleftrightarrow>
     \<not> running (core obj) \<and> udp_socket obj \<noteq> INVALID_SOCKET \<and> event_loop_thread obj \<and> spawned \<and>
     (case sctp_set_nonblocking os (udp_socket obj) k of (b, k1) \<Rightarrow> b \<and> fst (wakeup_open os (wakeup obj) k1))"
  by (auto simp: socket_run_def Let_def split: prod.splits bool.splits)

definition failed_poll :: Pass where
  "failed_poll = \<lparr>pass_now = 0, pass_poll = (\<lambda>_. Poll_Failed), pass_datagrams = [], pass_clock = (\<lambda>_. 0), pass_order = [],
     pass_network = (\<lambda>_ _ _. True)\<rparr>"

text \<open>C13: When \<open>poll\<close> fails the event loop stops the socket and ends, but its thread stays joinable until \<open>sctp_close\<close>. So at any moment of the
  life of a running socket: if the next \<open>poll\<close> of its loop fails, the pass leaves it stopped, in a state that is again one of its life,
  and calling \<open>sctp_run\<close>, whose check of \<open>running\<close> lets the call pass, terminates the process whenever the system calls of \<open>sctp_run\<close>
  succeed and the socket still has its UDP socket.\<close>

theorem run_after_failed_poll_terminates:
  assumes "lifetime os others n (obj, k)" "running (core obj)" "udp_socket obj \<noteq> INVALID_SOCKET"
    and "pass_ok pass" "\<And>timeout. pass_poll pass timeout = Poll_Failed"
    and "sctp_set_nonblocking os (udp_socket obj) k = (True, k1)" "wakeup_open os (wakeup obj) k1 = (True, wp, k2)"
  shows "\<exists>s. event_loop_pass pass (core obj) = Returns s \<and> \<not> running s \<and> lifetime os others n (obj\<lparr>core := s\<rparr>, k) \<and>
    fst (socket_run os True (obj\<lparr>core := s\<rparr>) k) = Terminated"
proof -
  define s where "s = (snd (next_poll_timeout (pass_now pass) (core obj)))\<lparr>running := False\<rparr>"
  have pass: "event_loop_pass pass (core obj) = Returns s" using assms(2,5) by (simp add: event_loop_pass_def s_def split_beta)
  have stopped: "\<not> running s" by (simp add: s_def)
  have "object_step os (obj, k) (obj\<lparr>core := s\<rparr>, k)" using step_pass [OF assms(4) pass] stopped by (simp add: obj_work)
  then have "lifetime os others n (obj\<lparr>core := s\<rparr>, k)" by (rule life_step [OF assms(1)])
  moreover have "event_loop_thread obj" using lifetime_accounted [OF assms(1)] assms(2) by (simp add: accounted_def)
  then have "fst (socket_run os True (obj\<lparr>core := s\<rparr>) k) = Terminated" using stopped assms(3,6,7) by (simp add: run_terminates_iff)
  ultimately show ?thesis using pass stopped by blast
qed

theorem run_after_failed_poll_terminates_witness:
  "let (r, obj, k) = example_running in
     \<exists>s. event_loop_pass failed_poll (core obj) = Returns s \<and> \<not> running s \<and> lifetime example_os {} 0 (obj\<lparr>core := s\<rparr>, k) \<and>
         fst (socket_run example_os True (obj\<lparr>core := s\<rparr>) k) = Terminated"
proof -
  obtain r obj k where e: "example_running = (r, obj, k)" by (metis prod.exhaust)
  have calls: "case example_running of (r, obj, k) \<Rightarrow> udp_socket obj \<noteq> INVALID_SOCKET \<and>
      (case sctp_set_nonblocking example_os (udp_socket obj) k of (b, k1) \<Rightarrow> b \<and> fst (wakeup_open example_os (wakeup obj) k1))"
    by code_simp
  then obtain k1 wp k2 where "udp_socket obj \<noteq> INVALID_SOCKET" "sctp_set_nonblocking example_os (udp_socket obj) k = (True, k1)"
      "wakeup_open example_os (wakeup obj) k1 = (True, wp, k2)"
    unfolding e by (auto simp: split_beta) (metis prod.collapse)
  moreover have "pass_ok failed_poll" by (simp add: pass_ok_def failed_poll_def)
  moreover have "lifetime example_os {} 0 (obj, k)" using example_life unfolding e snd_conv .
  moreover have "running (core obj)" using example_runs(3) unfolding e by simp
  ultimately show ?thesis
    unfolding e Let_def prod.case by (intro run_after_failed_poll_terminates) (simp_all add: failed_poll_def)
qed

text \<open>Binding fails for good: a second call, after a failed one or after a failed constructor, undoes a \<open>WSAStartup\<close> that is not the
  socket's own.\<close>

lemma bind_without_socket:
  assumes "accounted others n obj k" "udp_socket obj = INVALID_SOCKET" "inet_pton os ip = Some a" "socket_bind os ip port obj k = (b, obj', k')"
  shows "\<not> b" "startups k' = (if win32 k then startups k - 1 else startups k)"
proof -
  have "sockets k (- 1) = None" using accountedD(1,3) [OF assms(1)] assms(2) by (auto simp: held_def udp_held_def pair_sockets_def)
  then show "\<not> b" "startups k' = (if win32 k then startups k - 1 else startups k)"
    using assms(2-4) by (auto simp: socket_bind_def sctp_parse_ipv4_def sys_bind_def on_socket_def)
qed

text \<open>A second call on a socket that is bound fails and closes it, also while its event loop runs.\<close>

lemma bind_twice_closes:
  assumes "sockets k (udp_socket obj) = Some so" "so_bound so \<noteq> None" "inet_pton os ip = Some a" "socket_bind os ip port obj k = (b, obj', k')"
  shows "\<not> b" "udp_socket obj' = INVALID_SOCKET" "sockets k' (udp_socket obj) = None" "core obj' = core obj"
proof -
  obtain k1 where "sys_bind os (udp_socket obj) \<lparr>s_addr = a, sin_port = htons (word_of_int port)\<rparr> k = (False, k1)"
    using assms(1,2) by (cases "answer os k") (simp_all add: sys_bind_def on_socket_def Let_def)
  then show "\<not> b" "udp_socket obj' = INVALID_SOCKET" "sockets k' (udp_socket obj) = None" "core obj' = core obj"
    using assms(3,4) by (auto simp: socket_bind_def sctp_parse_ipv4_def)
qed

end
