(* ===== verification/Fuzz_Targets.thy ===== *)
theory Fuzz_Targets
  imports Handshake
begin

text \<open>
  The two fuzz targets (\<open>fuzz/fuzz_packet.cpp\<close>, \<open>fuzz/fuzz_state_cookie.cpp\<close>) as functions of their input: what they check, and that
  the checks hold for every input and not only for those a fuzzer tries. A target passes, aborts, or dies of an error that it does not
  catch; a read outside a buffer is never caught. The authorizer of the second target outlives a run, so a run starts from any authorizer.
\<close>

declare add_2_eq_Suc [simp del] add_2_eq_Suc' [simp del]

datatype Fuzz_Result = Passed | Aborted | Crashed sctp_error

definition after :: "Fuzz_Result \<Rightarrow> Fuzz_Result \<Rightarrow> Fuzz_Result" where
  "after r r' = (if r = Passed then r' else r)"

text \<open>A call inside \<open>try\<close> whose handler returns, and a call outside.\<close>

definition caught :: "'a res \<Rightarrow> ('a \<Rightarrow> Fuzz_Result) \<Rightarrow> Fuzz_Result" where
  "caught m f = (case m of Inl e \<Rightarrow> if e = Out_Of_Bounds then Crashed e else Passed | Inr x \<Rightarrow> f x)"

definition uncaught :: "'a res \<Rightarrow> ('a \<Rightarrow> Fuzz_Result) \<Rightarrow> Fuzz_Result" where
  "uncaught m f = (case m of Inl e \<Rightarrow> Crashed e | Inr x \<Rightarrow> f x)"

lemma fuzz_simps [simp]:
  "after Passed r = r" "after Aborted r = Aborted" "after (Crashed e) r = Crashed e"
  "caught (Inr x) f = f x" "uncaught (Inr x) f = f x" "uncaught (Inl e) f = Crashed e"
  by (simp_all add: after_def caught_def uncaught_def)

subsection \<open>Packets\<close>

text \<open>\<open>std::variant::index\<close>\<close>

fun value_index :: "Chunk_Value_Type \<Rightarrow> nat" where
  "value_index (Init_Value v) = 0"
| "value_index (Cookie_Echo_Value v) = 1"
| "value_index Empty_Value = 2"
| "value_index (Data_Value v) = 3"
| "value_index (Sack_Value v) = 4"
| "value_index (Error_Value v) = 5"
| "value_index (Shutdown_Value v) = 6"
| "value_index (Heartbeat_Value v) = 7"
| "value_index (Unknown_Value v) = 8"

definition fuzz_init_parameters :: "SCTP_Chunk \<Rightarrow> Fuzz_Result" where
  "fuzz_init_parameters chunk =
     (if chunk_type chunk \<noteq> INIT \<and> chunk_type chunk \<noteq> INIT_ACK then Passed
      else case chunk_value chunk of
             Init_Value v \<Rightarrow>
               uncaught (scan_parameters (optional_parameters v) [PARAM_STATE_COOKIE, PARAM_IPV4_ADDRESS, PARAM_COOKIE_PRESERVATIVE]) (\<lambda>scan.
                 if list_ex (\<lambda>tlv. length tlv mod 4 \<noteq> 0) (reported scan) then Aborted
                 else uncaught (find_parameter (recognized scan) PARAM_STATE_COOKIE) (\<lambda>found.
                        uncaught (find_ipv4_addresses (recognized scan)) (\<lambda>found. Passed)))
           | _ \<Rightarrow> Crashed Bad_Variant_Access)"

fun fuzz_all_parameters :: "SCTP_Chunk list \<Rightarrow> Fuzz_Result" where
  "fuzz_all_parameters [] = Passed"
| "fuzz_all_parameters (chunk # rest) = after (fuzz_init_parameters chunk) (fuzz_all_parameters rest)"

definition same_chunks :: "SCTP_Chunk list \<Rightarrow> SCTP_Chunk list \<Rightarrow> bool" where
  "same_chunks xs ys \<longleftrightarrow>
     length xs = length ys \<and>
     list_all2 (\<lambda>x y. chunk_type x = chunk_type y \<and> value_index (chunk_value x) = value_index (chunk_value y)) xs ys"

definition fuzz_packet :: "bytes \<Rightarrow> Fuzz_Result" where
  "fuzz_packet data =
     caught (deserialize_sctp_packet data) (\<lambda>packet.
       after (fuzz_all_parameters (pkt_chunks packet))
         (caught (serialize_sctp_packet packet) (\<lambda>wire.
            uncaught (deserialize_sctp_packet wire) (\<lambda>again.
              if same_chunks (pkt_chunks again) (pkt_chunks packet) then Passed else Aborted))))"

subsection \<open>What parses can be serialized\<close>

lemma pad4_le: "pad4 n \<le> n + 3"
  using pad4_less [of n] by simp

lemma unat_u16_le: "unat (l::u16) \<le> UINT16_MAX"
  using unat_u16_less [of l] by simp

lemma find_parameter_at_fits:
  "find_parameter_at params type i = Inr (Some info) \<Longrightarrow> 4 + length info \<le> length params \<and> param_fits info"
  using find_parameter_at_small [of params type i] by (simp add: res_ok_def param_fits_def)

text \<open>The causes read so far take as many bytes again as were consumed.\<close>

lemma deserialize_error_chunk_at_fits:
  assumes "deserialize_error_chunk_at data i out = Inr cs" "length (error_bytes out) = i" "i \<le> length data + 3"
    "list_all (\<lambda>c. param_fits (cause_info c)) out"
  shows "length (error_bytes cs) \<le> length data + 3 \<and> list_all (\<lambda>c. param_fits (cause_info c)) cs"
  using assms
proof (induction data i out rule: deserialize_error_chunk_at.induct)
  case (1 data i out)
  show ?case
  proof (cases "i + 4 \<le> length data")
    case True
    obtain t l where rd: "read16 data i = Inr t" "read16 data (i + 2) = Inr l"
      using True read16_in [of i data] read16_in [of "i + 2" data] by auto
    have l: "4 \<le> unat l" "i + unat l \<le> length data"
      using "1.prems"(1) True rd by (auto simp: deserialize_error_chunk_at.simps [of data i out] not_less split: if_splits)
    define c where "c = \<lparr>cause_code = t, cause_info = take (unat l - 4) (drop (i + 4) data)\<rparr>"
    have c: "length (cause_info c) = unat l - 4" using l by (simp add: c_def)
    have "deserialize_error_chunk_at data (i + pad4 (unat l)) (out @ [c]) = Inr cs"
      using "1.prems"(1) True rd l by (simp add: deserialize_error_chunk_at.simps [of data i out] c_def)
    moreover have "length (error_bytes (out @ [c])) = i + pad4 (unat l)" using "1.prems"(2) l(1) c by (simp add: error_bytes_def)
    moreover have "i + pad4 (unat l) \<le> length data + 3" using l(2) pad4_le [of "unat l"] by linarith
    moreover have "param_fits (cause_info c)" using c l(1) unat_u16_le [of l] by (simp add: param_fits_def)
    ultimately show ?thesis using "1.IH" [OF True rd] l "1.prems"(4) by (simp add: c_def)
  qed (use "1.prems" in \<open>simp add: deserialize_error_chunk_at.simps [of data i out]\<close>)
qed

lemma read_gap_ack_blocks_fits:
  "read_gap_ack_blocks data i n first e = Inr bs \<Longrightarrow> length bs = n \<and> gap_blocks_ok first e bs"
  by (induction n arbitrary: i first e bs) (auto simp: res_simps not_less split: if_splits)

lemma read_duplicate_tsns_length: "read_duplicate_tsns data i n = Inr ts \<Longrightarrow> length ts = n"
  by (induction n arbitrary: i ts) (auto simp: res_simps)

lemma deserialize_sack_fits:
  "deserialize_sack_chunk data = Inr v \<Longrightarrow> sack_ok v \<and> length (value_bytes (Sack_Value v)) = length data"
  by (auto simp: deserialize_sack_chunk_def res_simps sack_ok_def split: if_splits
      dest!: read_gap_ack_blocks_fits read_duplicate_tsns_length)

lemma deserialize_init_fits: "deserialize_init_chunk data = Inr v \<Longrightarrow> length (value_bytes (Init_Value v)) = length data"
  by (auto simp: deserialize_init_chunk_def serialize_init_chunk_def append16_def append32_def res_simps split: if_splits)

lemma deserialize_data_fits: "deserialize_data_chunk data = Inr v \<Longrightarrow> length (value_bytes (Data_Value v)) = length data"
  by (auto simp: deserialize_data_chunk_def serialize_data_chunk_def append16_def append32_def res_simps split: if_splits)

lemma deserialize_shutdown_fits: "deserialize_shutdown_chunk data = Inr v \<Longrightarrow> length (value_bytes (Shutdown_Value v)) = length data"
  by (auto simp: deserialize_shutdown_chunk_def split: if_splits)

lemma deserialize_heartbeat_fits:
  assumes "deserialize_heartbeat_chunk data = Inr info"
  shows "param_fits info \<and> length (value_bytes (Heartbeat_Value info)) \<le> length data + 3"
proof -
  have "find_parameter_at data PARAM_HEARTBEAT_INFO 0 = Inr (Some info)"
    using assms by (auto simp: deserialize_heartbeat_chunk_def find_parameter_def res_simps split: option.splits)
  from find_parameter_at_fits [OF this] show ?thesis using pad4_le [of "4 + length info"] by simp
qed

lemma deserialize_error_fits:
  "deserialize_error_chunk data = Inr cs \<Longrightarrow>
   list_all (\<lambda>c. param_fits (cause_info c)) cs \<and> length (value_bytes (Error_Value cs)) \<le> length data + 3"
  using deserialize_error_chunk_at_fits [of data 0 "[]" cs] by (simp add: deserialize_error_chunk_def error_bytes_def)

lemma parsed_value_fits:
  assumes "deserialize_chunk_value t body = Inr v"
  shows "length (value_bytes v) \<le> length body + 3" "t \<noteq> DATA \<Longrightarrow> value_ok f v"
proof -
  have t: "value_typed t v" by (rule deserialize_chunk_value_typed [OF assms])
  show "length (value_bytes v) \<le> length body + 3"
  proof (cases v)
    case (Init_Value i)
    then show ?thesis using t assms deserialize_init_fits [of body i] by (auto simp: deserialize_chunk_value_def res_simps)
  next
    case (Data_Value d)
    then show ?thesis using t assms deserialize_data_fits [of body d] by (auto simp: deserialize_chunk_value_def res_simps)
  next
    case (Sack_Value s)
    then show ?thesis using t assms deserialize_sack_fits [of body s] by (auto simp: deserialize_chunk_value_def res_simps)
  next
    case (Error_Value cs)
    then show ?thesis using t assms deserialize_error_fits [of body cs] by (auto simp: deserialize_chunk_value_def res_simps)
  next
    case (Shutdown_Value n)
    then show ?thesis using t assms deserialize_shutdown_fits [of body n] by (auto simp: deserialize_chunk_value_def res_simps)
  next
    case (Heartbeat_Value info)
    then show ?thesis using t assms deserialize_heartbeat_fits [of body info] by (auto simp: deserialize_chunk_value_def res_simps)
  qed (use t assms in \<open>auto simp: deserialize_chunk_value_def deserialize_cookie_echo_chunk_def split: if_splits\<close>)
  show "value_ok f v" if "t \<noteq> DATA"
  proof (cases v)
    case (Sack_Value s)
    then show ?thesis using t assms deserialize_sack_fits [of body s] by (auto simp: deserialize_chunk_value_def res_simps)
  next
    case (Error_Value cs)
    then show ?thesis using t assms deserialize_error_fits [of body cs] by (auto simp: deserialize_chunk_value_def res_simps)
  next
    case (Heartbeat_Value info)
    then show ?thesis using t assms deserialize_heartbeat_fits [of body info] by (auto simp: deserialize_chunk_value_def res_simps)
  qed (use t that in auto)
qed

lemma parsed_chunk_ok:
  assumes "deserialize_chunk_value t body = Inr v0" "take_data_flags t f v0 = Inr v" "length body + 7 \<le> UINT16_MAX"
  shows "chunk_ok \<lparr>chunk_header = \<lparr>ch_type = t, ch_flag = f, ch_length = l\<rparr>, chunk_value = v\<rparr>"
proof -
  have t: "value_typed t v0" by (rule deserialize_chunk_value_typed [OF assms(1)])
  note fits = parsed_value_fits [OF assms(1)]
  show ?thesis
  proof (cases "t = DATA")
    case True
    then obtain d where v0: "v0 = Data_Value d" using t by (cases v0) auto
    then have "v = Data_Value (d\<lparr>data_flags := f AND 7\<rparr>)" using assms(2) True by (auto simp: take_data_flags_def)
    then show ?thesis using fits(1) v0 True assms(3) by (simp add: chunk_ok_def chunk_typed_def serialize_data_chunk_def)
  next
    case False
    then have "v = v0" using assms(2) by (simp add: take_data_flags_def)
    then show ?thesis using fits(1) fits(2) [OF False] t assms(3) by (simp add: chunk_ok_def chunk_typed_def)
  qed
qed

text \<open>Every chunk the loop returns was read from a body that lies after the common header.\<close>

lemma deserialize_chunks_ok:
  assumes "length data \<le> UINT16_MAX"
  shows "deserialize_chunks data i out = Inr cs \<Longrightarrow> 12 \<le> i \<Longrightarrow> list_all chunk_ok out \<Longrightarrow> list_all chunk_ok cs"
proof (induction "length data - i" arbitrary: i out rule: less_induct)
  case less
  show ?case
  proof (cases "i < length data")
    case False
    then show ?thesis using less.prems by (simp add: deserialize_chunks.simps [of data i out])
  next
    case True
    then have four: "4 \<le> length data - i" using less.prems(1) by (auto simp: deserialize_chunks.simps [of data i out] split: if_splits)
    have "i + 2 + 2 \<le> length data" using four True by linarith
    then obtain l where "read16 data (i + 2) = Inr l" using read16_in by blast
    then obtain t f where rd: "read8 data i = Inr t" "read8 data (i + 1) = Inr f" "read16 data (i + 2) = Inr l"
      using that [of "data ! i" "data ! (i + 1)"] True \<open>i + 2 + 2 \<le> length data\<close> by (simp add: read8_def)
    have l: "4 \<le> unat l" "unat l - 4 \<le> length data - (i + 4)"
      using less.prems(1) True four rd by (auto simp: deserialize_chunks.simps [of data i out] Let_def not_less split: if_splits)
    define body where "body = take (unat l - 4) (drop (i + 4) data)"
    obtain v0 v where v: "deserialize_chunk_value t body = Inr v0" "take_data_flags t f v0 = Inr v"
      using less.prems(1) True four rd l
      by (auto simp: deserialize_chunks.simps [of data i out] Let_def res_simps body_def [symmetric])
    define c where "c = \<lparr>chunk_header = \<lparr>ch_type = t, ch_flag = f, ch_length = l\<rparr>, chunk_value = v\<rparr>"
    define nxt where "nxt = i + 4 + (unat l - 4) + (if pad4 (unat l) - unat l \<le> length data - (i + 4 + (unat l - 4))
      then pad4 (unat l) - unat l else length data - (i + 4 + (unat l - 4)))"
    have "deserialize_chunks data nxt (out @ [c]) = Inr cs"
      using less.prems(1) True four rd l v
      by (simp add: deserialize_chunks.simps [of data i out] Let_def body_def [symmetric] c_def nxt_def split: if_splits)
    moreover have "length body + 7 \<le> UINT16_MAX" using assms less.prems(2) l four by (simp add: body_def)
    then have "chunk_ok c" using parsed_chunk_ok [OF v] by (simp add: c_def)
    moreover have "i < nxt" by (simp add: nxt_def)
    ultimately show ?thesis using less.hyps [of nxt "out @ [c]"] less.prems(2,3) True by simp
  qed
qed

lemma parsed_packet_ok:
  assumes "deserialize_sctp_packet data = Inr pkt" "length data \<le> UINT16_MAX"
  shows "list_all chunk_ok (pkt_chunks pkt)"
  using assms deserialize_chunks_ok [OF assms(2), of 12 "[]"]
  by (auto simp: deserialize_sctp_packet_def res_simps split: if_splits)


subsection \<open>The packet target passes\<close>

lemma scan_reports_padded:
  "scan_parameters_at params known i scan = Inr scan' \<Longrightarrow> list_all (\<lambda>tlv. length tlv mod 4 = 0) (reported scan) \<Longrightarrow>
   list_all (\<lambda>tlv. length tlv mod 4 = 0) (reported scan')"
proof (induction params known i scan rule: scan_parameters_at.induct)
  case (1 params known i scan)
  have pad: "length (resize0 (pad4 n) xs) mod 4 = 0" for n xs by (simp add: pad4_mod)
  show ?case
  proof (cases "i + 4 \<le> length params")
    case True
    obtain t l where rd: "read16 params i = Inr t" "read16 params (i + 2) = Inr l"
      using True read16_in [of i params] read16_in [of "i + 2" params] by auto
    show ?thesis using "1.prems" "1.IH" [OF True rd refl] True rd pad
      by (auto simp add: scan_parameters_at.simps [of params known i scan] Let_def split: if_splits)
  qed (use "1.prems" in \<open>simp add: scan_parameters_at.simps [of params known i scan]\<close>)
qed

lemma fuzz_init_parameters_passes: "chunk_typed c \<Longrightarrow> fuzz_init_parameters c = Passed"
proof -
  assume typed: "chunk_typed c"
  show ?thesis
  proof (cases "chunk_type c = INIT \<or> chunk_type c = INIT_ACK")
    case True
    then obtain v where v: "chunk_value c = Init_Value v" using typed by (cases "chunk_value c") (auto simp: chunk_typed_def)
    let ?known = "[PARAM_STATE_COOKIE, PARAM_IPV4_ADDRESS, PARAM_COOKIE_PRESERVATIVE]"
    obtain scan where s: "scan_parameters (optional_parameters v) ?known = Inr scan"
      using scan_parameters_at_total unfolding scan_parameters_def by blast
    then have "list_all (\<lambda>tlv. length tlv mod 4 = 0) (reported scan)"
      using scan_reports_padded by (fastforce simp: scan_parameters_def)
    then have "\<not> list_ex (\<lambda>tlv. length tlv mod 4 \<noteq> 0) (reported scan)" by (auto simp: list_all_iff list_ex_iff)
    moreover obtain r1 r2 where "find_parameter (recognized scan) PARAM_STATE_COOKIE = Inr r1" "find_ipv4_addresses (recognized scan) = Inr r2"
      using find_parameter_total find_ipv4_addresses_at_total unfolding find_ipv4_addresses_def by metis
    ultimately show ?thesis using s v by (simp add: fuzz_init_parameters_def)
  qed (simp add: fuzz_init_parameters_def)
qed

lemma fuzz_all_parameters_pass: "list_all chunk_typed cs \<Longrightarrow> fuzz_all_parameters cs = Passed"
  by (induction cs) (simp_all add: fuzz_init_parameters_passes)

lemma same_chunks_wire_length: "same_chunks (map with_wire_length cs) cs"
  by (simp add: same_chunks_def list_all2_conv_all_nth with_wire_length_def)

text \<open>C23: No input that fits a UDP datagram (65535 bytes) makes the packet fuzz target fail: parsing, scanning the parameters of every INIT
  and serializing stay inside their buffers and every reported parameter is padded to a multiple of four bytes; and whatever parses is
  serialized, without an exception, to bytes that parse again to the packet with the lengths and the checksum the serializer wrote, chunk
  for chunk of the same types and alternatives. The target would also pass if the serializer threw, so the second half is stated on the
  codec. Larger inputs can fail: see \<open>fuzz_packet_fails_past_the_bound\<close> below.\<close>

theorem fuzz_packet_passes:
  assumes "length data \<le> UINT16_MAX"
  shows "fuzz_packet data = Passed \<and>
    (case deserialize_sctp_packet data of
       Inl e \<Rightarrow> True
     | Inr pkt \<Rightarrow> \<exists>wire. serialize_sctp_packet pkt = Inr wire \<and> deserialize_sctp_packet wire = Inr (on_wire pkt) \<and>
                        same_chunks (pkt_chunks (on_wire pkt)) (pkt_chunks pkt))"
proof (cases "deserialize_sctp_packet data")
  case (Inl e)
  then show ?thesis using deserialize_sctp_packet_safe [of data] by (simp add: fuzz_packet_def caught_def parse_safe_def)
next
  case (Inr pkt)
  have ok: "list_all chunk_ok (pkt_chunks pkt)" by (rule parsed_packet_ok [OF Inr assms])
  then have typed: "list_all chunk_typed (pkt_chunks pkt)" by (simp add: list_all_iff chunk_ok_def)
  obtain wire where "serialize_sctp_packet pkt = Inr wire" "deserialize_sctp_packet wire = Inr (on_wire pkt)"
    using packets.codec_roundtrip [OF ok] by (auto simp: res_simps)
  then show ?thesis
    using Inr fuzz_all_parameters_pass [OF typed] same_chunks_wire_length [of "pkt_chunks pkt"] by (simp add: fuzz_packet_def on_wire_def)
qed

subsection \<open>State cookies\<close>

text \<open>\<open>data[i] << 8 | data[i + 1]\<close> cut to 16 bits, and \<open>read32\<close> of the target.\<close>

definition fuzz_read16 :: "bytes \<Rightarrow> nat \<Rightarrow> u16" where
  "fuzz_read16 p i = push_bit 8 (ucast (p ! i)) OR ucast (p ! (i + 1))"

definition fuzz_read32 :: "bytes \<Rightarrow> nat \<Rightarrow> u32" where
  "fuzz_read32 p i =
     push_bit 24 (ucast (p ! i)) OR push_bit 16 (ucast (p ! (i + 1))) OR push_bit 8 (ucast (p ! (i + 2))) OR ucast (p ! (i + 3))"

text \<open>The header and the source that the target makes up from the cookie.\<close>

definition echoed_packet :: "bytes \<Rightarrow> SCTP_Common_Header \<times> sockaddr_in" where
  "echoed_packet data =
     (if length data \<ge> STATE_COOKIE_SIZE
      then (\<lparr>src_port = fuzz_read16 data 16, des_port = fuzz_read16 data 18, verification_tag = fuzz_read32 data 28, hdr_checksum = 0\<rparr>,
            \<lparr>s_addr = htonl (fuzz_read32 data 20), sin_port = htons (fuzz_read16 data 24)\<rparr>)
      else (\<lparr>src_port = 0, des_port = 0, verification_tag = 0, hdr_checksum = 0\<rparr>, \<lparr>s_addr = 0, sin_port = 0\<rparr>))"

definition fuzz_echoed :: "Cookie_Auth \<Rightarrow> time \<Rightarrow> bytes \<Rightarrow> Fuzz_Result" where
  "fuzz_echoed authorizer now data =
     (case echoed_packet data of
        (header, src) \<Rightarrow>
          uncaught (verify authorizer now data header src) (\<lambda>(result, out, staleness_us).
            if result = VALID then Aborted
            else uncaught (deserialize_state_cookie data) (\<lambda>parsed.
                   case parsed of
                     None \<Rightarrow> Passed
                   | Some out \<Rightarrow>
                       uncaught (serialize_state_cookie out) (\<lambda>wire.
                         if wire[2 := data ! 2, 3 := data ! 3] \<noteq> data then Aborted else Passed))))"

definition init_of_fuzz :: "bytes \<Rightarrow> init_chunk_value" where
  "init_of_fuzz data =
     \<lparr>initiate_tag = fuzz_read32 data 10, init_a_rwnd = fuzz_read32 data 14, init_out_streams = fuzz_read16 data 18,
      init_in_streams = fuzz_read16 data 20, initial_tsn = fuzz_read32 data 22, optional_parameters = drop 26 data\<rparr>"

definition fuzz_header :: "bytes \<Rightarrow> SCTP_Common_Header" where
  "fuzz_header data = \<lparr>src_port = fuzz_read16 data 0, des_port = fuzz_read16 data 2, verification_tag = 0, hdr_checksum = 0\<rparr>"

definition fuzz_source :: "bytes \<Rightarrow> sockaddr_in" where
  "fuzz_source data = \<lparr>s_addr = htonl (fuzz_read32 data 4), sin_port = htons (fuzz_read16 data 8)\<rparr>"

text \<open>The addresses of the INIT other than its source, each once.\<close>

definition add_address :: "u32 \<Rightarrow> u32 list \<Rightarrow> u32 \<Rightarrow> u32 list" where
  "add_address own addresses a = (if a \<noteq> own \<and> a \<notin> set addresses then addresses @ [a] else addresses)"

definition fuzz_addresses :: "bytes \<Rightarrow> u32 list res" where
  "fuzz_addresses data =
     bind_res (scan_parameters (optional_parameters (init_of_fuzz data)) [PARAM_IPV4_ADDRESS]) (\<lambda>scan.
     bind_res (find_ipv4_addresses (recognized scan)) (\<lambda>found.
       Inr (foldl (add_address (ntohl (s_addr (fuzz_source data)))) [] found)))"

definition fuzz_local_tag :: "bytes \<Rightarrow> u32" where
  "fuzz_local_tag data = initiate_tag (init_of_fuzz data) XOR 0x5A5A5A5A"

definition fuzz_cookie :: "bytes \<Rightarrow> time \<Rightarrow> time \<Rightarrow> Cookie_Auth \<Rightarrow> bytes \<Rightarrow> u32 list \<Rightarrow> Cookie_Auth \<times> bytes res" where
  "fuzz_cookie fresh t_rotate t_created authorizer data addresses =
     generate fresh t_rotate t_created authorizer (fuzz_header data) (init_of_fuzz data) (fuzz_source data) (fuzz_local_tag data)
       (NOT (initial_tsn (init_of_fuzz data))) 0 0 0 addresses"

definition fuzz_from :: "bytes \<Rightarrow> u32 list \<Rightarrow> sockaddr_in" where
  "fuzz_from data addresses =
     (if addresses \<noteq> []
      then (fuzz_source data)\<lparr>s_addr := htonl (addresses ! (unat (init_a_rwnd (init_of_fuzz data)) mod length addresses))\<rparr>
      else fuzz_source data)"

text \<open>\<open>cookie[cookie.size() - 1 - init.a_rwnd % cookie.size()] ^= 1\<close>\<close>

definition flip_at :: "bytes \<Rightarrow> bytes \<Rightarrow> nat" where
  "flip_at data cookie = length cookie - 1 - unat (init_a_rwnd (init_of_fuzz data)) mod length cookie"

definition flipped :: "bytes \<Rightarrow> bytes \<Rightarrow> bytes" where
  "flipped data cookie = cookie[flip_at data cookie := cookie ! flip_at data cookie XOR 1]"

text \<open>The clock is read by \<open>rotate_if_due\<close>, by \<open>generate\<close> and by each \<open>verify\<close>; \<open>fresh\<close> are the bytes of a new secret.\<close>

definition fuzz_generated :: "bytes \<Rightarrow> time \<Rightarrow> time \<Rightarrow> time \<Rightarrow> time \<Rightarrow> Cookie_Auth \<Rightarrow> bytes \<Rightarrow> Fuzz_Result" where
  "fuzz_generated fresh t_rotate t_created t_first t_second authorizer data =
     (if length data < 26 then Passed
      else
        uncaught (fuzz_addresses data) (\<lambda>addresses.
          case fuzz_cookie fresh t_rotate t_created authorizer data addresses of
            (ca, made) \<Rightarrow>
              uncaught made (\<lambda>cookie.
                let init = init_of_fuzz data;
                    header = (fuzz_header data)\<lparr>verification_tag := fuzz_local_tag data\<rparr>;
                    from = fuzz_from data addresses
                in uncaught (verify ca t_first cookie header from) (\<lambda>(result, parsed, staleness_us).
                     case parsed of
                       None \<Rightarrow> Aborted
                     | Some out \<Rightarrow>
                         if result \<noteq> VALID \<or> ck_peer_addresses out \<noteq> addresses \<or> ck_peer_ver_tag out \<noteq> initiate_tag init
                            \<or> peer_initial_tsn out \<noteq> initial_tsn init \<or> peer_in_streams out \<noteq> init_in_streams init
                         then Aborted
                         else uncaught (verify ca t_second (flipped data cookie) header from) (\<lambda>(result, parsed, staleness_us).
                                if result = VALID then Aborted else Passed)))))"

text \<open>The entry point: the first byte picks the mode.\<close>

definition fuzz_state_cookie :: "bytes \<Rightarrow> time \<Rightarrow> time \<Rightarrow> time \<Rightarrow> time \<Rightarrow> Cookie_Auth \<Rightarrow> bytes \<Rightarrow> Fuzz_Result" where
  "fuzz_state_cookie fresh t_rotate t_created t_first t_second authorizer data =
     (case data of
        [] \<Rightarrow> Passed
      | mode # rest \<Rightarrow>
          if mode mod 2 = 0 then fuzz_echoed authorizer t_first rest
          else fuzz_generated fresh t_rotate t_created t_first t_second authorizer rest)"

subsection \<open>The cookie target fails only on a forged MAC\<close>

lemma verify_parsed:
  assumes "deserialize_state_cookie cookie = Inr parsed"
  shows "\<exists>r stale. verify ca t cookie header src = Inr (r, parsed, stale)"
proof (cases parsed)
  case (Some c)
  show ?thesis
  proof (cases "secret_for ca (secret_generation c)")
    case (Some secret)
    have "deserialize_state_cookie cookie = Inr (Some c)" using assms \<open>parsed = Some c\<close> by simp
    then show ?thesis using Some \<open>parsed = Some c\<close> by (simp add: verify_def cookie_ranges Let_def)
  qed (use assms Some in \<open>simp add: verify_def\<close>)
qed (use assms in \<open>simp add: verify_def\<close>)

lemma verify_total:
  obtains parsed r stale where "deserialize_state_cookie cookie = Inr parsed" "verify ca t cookie header src = Inr (r, parsed, stale)"
proof -
  obtain parsed where p: "deserialize_state_cookie cookie = Inr parsed"
    using state_cookie_exact [of cookie] by (cases "deserialize_state_cookie cookie") auto
  then show thesis using verify_parsed [OF p] that by blast
qed

lemma verify_valid_mac:
  assumes "verify ca t cookie header src = Inr (VALID, out, stale)"
  obtains c secret where "deserialize_state_cookie cookie = Inr (Some c)" "secret_for ca (secret_generation c) = Some secret"
    "drop (length cookie - 32) cookie = hmac_sha256 secret (take (length cookie - 32) cookie)"
proof -
  obtain parsed r st where p: "deserialize_state_cookie cookie = Inr parsed" "verify ca t cookie header src = Inr (r, parsed, st)"
    by (rule verify_total)
  have "parsed \<noteq> None" using assms p(1) by (cases parsed) (simp_all add: verify_def)
  then obtain c where "out = Some c" using assms p by auto
  then show thesis using assms that verify_valid_eq by blast
qed

definition signed_under :: "Cookie_Auth \<Rightarrow> bytes \<Rightarrow> bool" where
  "signed_under ca cookie \<longleftrightarrow>
     (case deserialize_state_cookie cookie of
        Inr (Some c) \<Rightarrow>
          (case secret_for ca (secret_generation c) of
             None \<Rightarrow> False
           | Some secret \<Rightarrow> drop (length cookie - 32) cookie = hmac_sha256 secret (take (length cookie - 32) cookie))
      | _ \<Rightarrow> False)"

lemma fuzz_echoed_cases: "fuzz_echoed ca t data = Passed \<or> fuzz_echoed ca t data = Aborted \<and> signed_under ca data"
proof -
  obtain header src where e: "echoed_packet data = (header, src)" by (rule prod.exhaust)
  obtain parsed result stale where p: "deserialize_state_cookie data = Inr parsed" and v: "verify ca t data header src = Inr (result, parsed, stale)"
    by (rule verify_total)
  show ?thesis
  proof (cases "result = VALID")
    case True
    have "signed_under ca data" by (rule verify_valid_mac [OF v [unfolded True]]) (simp add: signed_under_def)
    then show ?thesis using e v True by (simp add: fuzz_echoed_def)
  next
    case False
    show ?thesis
    proof (cases parsed)
      case (Some c)
      then obtain wire where "serialize_state_cookie c = Inr wire" "wire[2 := data ! 2, 3 := data ! 3] = data"
        using cookie_reserializes p by blast
      then show ?thesis using e v False p Some by (simp add: fuzz_echoed_def)
    qed (use e v False p in \<open>simp add: fuzz_echoed_def\<close>)
  qed
qed


lemma find_ipv4_length: "find_ipv4_addresses_at params 0 [] = Inr found \<Longrightarrow> length found \<le> length params"
  using find_ipv4_addresses_at_few [of "[]" params 0] by (simp add: res_ok_def)

lemma scan_recognized_length:
  "scan_parameters_at params known 0 \<lparr>recognized = [], reported = []\<rparr> = Inr scan \<Longrightarrow> length (recognized scan) \<le> length params"
  using scan_parameters_at_short [of "\<lparr>recognized = [], reported = []\<rparr>" params 0 known] by (simp add: res_ok_def)

lemma add_address_length: "length (foldl (add_address own) addresses found) \<le> length addresses + length found"
proof (induction found arbitrary: addresses)
  case (Cons a found)
  have "length (add_address own addresses a) \<le> Suc (length addresses)" by (simp add: add_address_def)
  with Cons [of "add_address own addresses a"] show ?case by simp
qed simp

lemma fuzz_addresses_bounded:
  obtains addresses where "fuzz_addresses data = Inr addresses" "length addresses \<le> length data"
proof -
  obtain scan where s: "scan_parameters_at (drop 26 data) [PARAM_IPV4_ADDRESS] 0 \<lparr>recognized = [], reported = []\<rparr> = Inr scan"
    using scan_parameters_at_total by blast
  obtain found where f: "find_ipv4_addresses_at (recognized scan) 0 [] = Inr found" using find_ipv4_addresses_at_total by blast
  let ?addresses = "foldl (add_address (ntohl (s_addr (fuzz_source data)))) [] found"
  have "length ?addresses \<le> length data"
    using add_address_length [of "ntohl (s_addr (fuzz_source data))" "[]" found] find_ipv4_length [OF f] scan_recognized_length [OF s] by simp
  moreover have "fuzz_addresses data = Inr ?addresses"
    using s f by (simp add: fuzz_addresses_def init_of_fuzz_def scan_parameters_def find_ipv4_addresses_def)
  ultimately show thesis using that by blast
qed

lemma xor_1_neq: "(b :: u8) XOR 1 \<noteq> b"
proof
  assume "b XOR 1 = b"
  then have "bit (b XOR 1) 0 = bit b 0" by simp
  then show False by (simp add: bit_simps)
qed

text \<open>A signed cookie with one bit changed verifies only if the change is in the body and the MACs of the two bodies agree.\<close>

definition collides :: "Cookie_Auth \<Rightarrow> bytes \<Rightarrow> bytes \<Rightarrow> bool" where
  "collides ca cookie cookie' \<longleftrightarrow>
     take (length cookie - 32) cookie' \<noteq> take (length cookie - 32) cookie \<and> signed_under ca cookie' \<and>
     drop (length cookie - 32) cookie' = drop (length cookie - 32) cookie"

lemma flipped_verifies_only_on_collision:
  assumes cookie: "signed_under ca cookie" and valid: "verify ca t (flipped data cookie) header src = Inr (VALID, out, stale)"
  shows "collides ca cookie (flipped data cookie)"
proof -
  define n pos cookie' where "n = length cookie - 32" and "pos = flip_at data cookie" and "cookie' = flipped data cookie"
  have len: "length cookie' = length cookie" by (simp add: cookie'_def flipped_def)
  obtain c secret where c: "deserialize_state_cookie cookie = Inr (Some c)" "secret_for ca (secret_generation c) = Some secret"
      "drop n cookie = hmac_sha256 secret (take n cookie)"
    using cookie by (auto simp: signed_under_def n_def split: sum.splits option.splits)
  have big: "96 \<le> length cookie" using state_cookie_exact [of cookie] c(1) by simp
  then have pos: "pos < length cookie" by (simp add: pos_def flip_at_def)
  have at: "cookie' = cookie[pos := cookie ! pos XOR 1]" by (simp add: cookie'_def flipped_def pos_def)
  obtain c' secret' where c': "deserialize_state_cookie cookie' = Inr (Some c')" "secret_for ca (secret_generation c') = Some secret'"
      "drop n cookie' = hmac_sha256 secret' (take n cookie')"
    by (rule verify_valid_mac [OF valid, folded cookie'_def, unfolded len, folded n_def]) (rule that)
  then have signed: "signed_under ca cookie'" by (simp add: signed_under_def len n_def)
  have "pos < n"
  proof (rule ccontr)
    assume "\<not> pos < n"
    then have same: "take n cookie' = take n cookie" by (simp add: at)
    moreover have "1 < n" using big by (simp add: n_def)
    then have "cookie' ! 1 = cookie ! 1" using same by (metis nth_take)
    then have "secret_generation c' = secret_generation c" using parsed_generation [OF c(1)] parsed_generation [OF c'(1)] by simp
    ultimately have "drop n cookie' = drop n cookie" using c c' by simp
    then have "cookie' = cookie" using same by (metis append_take_drop_id)
    then show False using xor_1_neq pos at by (metis nth_list_update_eq)
  qed
  then have "take n cookie' ! pos \<noteq> take n cookie ! pos" using pos xor_1_neq by (simp add: at)
  moreover have "drop n cookie' = drop n cookie" using \<open>pos < n\<close> by (simp add: at)
  ultimately show ?thesis using signed by (auto simp: collides_def n_def cookie'_def)
qed


lemma rotated_secret: "secret_for (rotate_if_due fresh t ca) (generation (rotate_if_due fresh t ca)) = Some (current_secret (rotate_if_due fresh t ca))"
  by (simp add: secret_for_def rotate_initialized)

text \<open>The first check of the target: the cookie it generates verifies and carries back what was put into it.\<close>

lemma fuzz_cookie_verifies:
  assumes "length addresses \<le> UINT16_MAX" "0 \<le> t_created" "t_created \<le> t_first" "t_first < 2 ^ 63" "t_first - t_created \<le> seconds 60"
    and made: "fuzz_cookie fresh t_rotate t_created ca data addresses = (ca1, made)"
  obtains cookie out where "made = Inr cookie" "signed_under ca1 cookie"
    "verify ca1 t_first cookie ((fuzz_header data)\<lparr>verification_tag := fuzz_local_tag data\<rparr>) (fuzz_from data addresses) = Inr (VALID, Some out, 0)"
    "ck_peer_addresses out = addresses" "ck_peer_ver_tag out = initiate_tag (init_of_fuzz data)"
    "peer_initial_tsn out = initial_tsn (init_of_fuzz data)" "peer_in_streams out = init_in_streams (init_of_fuzz data)"
proof -
  define c where "c = cookie_for ca1 t_created (fuzz_header data) (init_of_fuzz data) (fuzz_source data) (fuzz_local_tag data)
    (NOT (initial_tsn (init_of_fuzz data))) 0 0 0 addresses"
  define cookie where "cookie = signed_cookie (current_secret ca1) c"
  define out where "out = c\<lparr>mac := hmac_sha256 (current_secret ca1) (serialize_cookie_fields c @ tsn_bytes (ck_peer_addresses c))\<rparr>"
  have ca1: "ca1 = rotate_if_due fresh t_rotate ca" and ck: "made = Inr cookie"
    using made by (auto simp: fuzz_cookie_def generate_eq c_def cookie_def)
  have secret: "secret_for ca1 (generation ca1) = Some (current_secret ca1)" by (simp add: ca1 rotated_secret)
  have from_ok: "ntohl (s_addr (fuzz_from data addresses)) = peer_ipv4 c \<or> ntohl (s_addr (fuzz_from data addresses)) \<in> set (ck_peer_addresses c)"
    by (simp add: fuzz_from_def c_def cookie_for_def)
  have life: "t_first - t_created \<le> microseconds (cookie_lifespan 0)" using assms(5) cookie_lifespan_bounds [of 0] by linarith
  have v: "verify ca1 t_first cookie ((fuzz_header data)\<lparr>verification_tag := fuzz_local_tag data\<rparr>) (fuzz_from data addresses) = Inr (VALID, Some out, 0)"
    unfolding cookie_def out_def using secret assms(1) from_ok signed_cookie_age [OF assms(2-4) life]
    by (intro verify_signed) (simp_all add: c_def cookie_for_def)
  have "signed_under ca1 cookie" by (rule verify_valid_mac [OF v]) (simp add: signed_under_def)
  then show thesis using that [OF ck _ v] by (simp add: out_def c_def cookie_for_def)
qed

lemma fuzz_generated_passes:
  assumes "length data \<le> UINT16_MAX" "0 \<le> t_created" "t_created \<le> t_first" "t_first < 2 ^ 63" "t_first - t_created \<le> seconds 60"
    and unforged: "\<And>addresses cookie. fuzz_addresses data = Inr addresses \<Longrightarrow>
      fuzz_cookie fresh t_rotate t_created ca data addresses = (rotate_if_due fresh t_rotate ca, Inr cookie) \<Longrightarrow>
      \<not> collides (rotate_if_due fresh t_rotate ca) cookie (flipped data cookie)"
  shows "fuzz_generated fresh t_rotate t_created t_first t_second ca data = Passed"
proof -
  let ?header = "(fuzz_header data)\<lparr>verification_tag := fuzz_local_tag data\<rparr>"
  obtain addresses where a: "fuzz_addresses data = Inr addresses" "length addresses \<le> length data" by (rule fuzz_addresses_bounded)
  obtain ca1 made where made: "fuzz_cookie fresh t_rotate t_created ca data addresses = (ca1, made)" by (rule prod.exhaust)
  have ca1: "ca1 = rotate_if_due fresh t_rotate ca" using made by (auto simp: fuzz_cookie_def generate_eq)
  obtain cookie out where ck: "made = Inr cookie" and signed: "signed_under ca1 cookie"
    and v: "verify ca1 t_first cookie ?header (fuzz_from data addresses) = Inr (VALID, Some out, 0)"
    and out: "ck_peer_addresses out = addresses" "ck_peer_ver_tag out = initiate_tag (init_of_fuzz data)"
      "peer_initial_tsn out = initial_tsn (init_of_fuzz data)" "peer_in_streams out = init_in_streams (init_of_fuzz data)"
    by (rule fuzz_cookie_verifies [OF order_trans [OF a(2) assms(1)] assms(2-5) made]) (rule that)
  obtain parsed result stale where v2: "verify ca1 t_second (flipped data cookie) ?header (fuzz_from data addresses) = Inr (result, parsed, stale)"
    by (rule verify_total)
  have "result \<noteq> VALID"
    using flipped_verifies_only_on_collision [OF signed] v2 unforged [OF a(1)] made ck ca1 by blast
  then show ?thesis using a(1) made ck v v2 out by (simp add: fuzz_generated_def Let_def)
qed

text \<open>What a fuzzer would have to find: in the first mode a cookie whose MAC is right under a secret of the authorizer, in the second a
  cookie that keeps its MAC although one bit of its body changes.\<close>

definition unforged :: "bytes \<Rightarrow> time \<Rightarrow> time \<Rightarrow> Cookie_Auth \<Rightarrow> bytes \<Rightarrow> bool" where
  "unforged fresh t_rotate t_created ca data \<longleftrightarrow>
     (case data of
        [] \<Rightarrow> True
      | mode # rest \<Rightarrow>
          if mode mod 2 = 0 then \<not> signed_under ca rest
          else \<forall>addresses cookie. fuzz_addresses rest = Inr addresses \<longrightarrow>
                 fuzz_cookie fresh t_rotate t_created ca rest addresses = (rotate_if_due fresh t_rotate ca, Inr cookie) \<longrightarrow>
                 \<not> collides (rotate_if_due fresh t_rotate ca) cookie (flipped rest cookie))"

text \<open>C24: No input of at most 65535 bytes makes the state-cookie fuzz target fail, when the clock does not run backwards and at most
  60 seconds pass between the generation of a cookie and its first check, unless a MAC is forged: an echoed cookie is rejected and, if it
  parses, serializes back byte for byte but for the two reserved bytes; a generated cookie verifies from every address of the INIT and
  carries its fields back, and with one bit changed it is rejected. The size bound is needed as well: an INIT with more than 65535
  distinct addresses, in an input of over half a megabyte, would overflow the 16-bit count of the cookie.\<close>

theorem fuzz_state_cookie_passes:
  assumes "length data \<le> UINT16_MAX" "0 \<le> t_created" "t_created \<le> t_first" "t_first < 2 ^ 63" "t_first - t_created \<le> seconds 60"
    and "unforged fresh t_rotate t_created ca data"
  shows "fuzz_state_cookie fresh t_rotate t_created t_first t_second ca data = Passed"
proof (cases data)
  case (Cons mode rest)
  show ?thesis
  proof (cases "mode mod 2 = 0")
    case True
    then show ?thesis using fuzz_echoed_cases [of ca t_first rest] assms(6) Cons by (auto simp: fuzz_state_cookie_def unforged_def)
  next
    case False
    have "fuzz_generated fresh t_rotate t_created t_first t_second ca rest = Passed"
      by (rule fuzz_generated_passes) (use assms Cons False in \<open>auto simp: unforged_def\<close>)
    then show ?thesis using Cons False by (simp add: fuzz_state_cookie_def)
  qed
qed (simp add: fuzz_state_cookie_def)

theorem fuzz_state_cookie_passes_witness:
  "fuzz_state_cookie [] 0 0 (seconds 1) (seconds 1) example_auth (1 # replicate 26 0) = Passed"
proof -
  have "init_a_rwnd (init_of_fuzz (replicate 26 0)) = 0" by (simp add: init_of_fuzz_def fuzz_read32_def)
  then have "\<not> collides ca cookie (flipped (replicate 26 0) cookie)" for ca cookie
    by (simp add: collides_def flipped_def flip_at_def)
  then have "unforged [] 0 0 example_auth (1 # replicate 26 0)" by (simp add: unforged_def)
  then show ?thesis using fuzz_state_cookie_passes [of "1 # replicate 26 0" 0 "seconds 1" "[]" 0 example_auth "seconds 1"] by simp
qed

text \<open>A COOKIE ACK in a packet without a valid checksum, which the codec does not look at.\<close>

theorem fuzz_packet_passes_witness:
  "\<exists>pkt wire. deserialize_sctp_packet (replicate 12 0 @ [11, 0, 0, 4]) = Inr pkt \<and> pkt_chunks pkt \<noteq> [] \<and>
     serialize_sctp_packet pkt = Inr wire \<and> fuzz_packet (replicate 12 0 @ [11, 0, 0, 4]) = Passed"
proof -
  let ?d = "replicate 12 0 @ [11, 0, 0, 4]"
  have "(case deserialize_sctp_packet ?d of Inl e \<Rightarrow> False | Inr pkt \<Rightarrow> pkt_chunks pkt \<noteq> [])" by code_simp
  then obtain pkt where "deserialize_sctp_packet ?d = Inr pkt" "pkt_chunks pkt \<noteq> []" by (auto split: sum.splits)
  then show ?thesis using fuzz_packet_passes [of ?d] by auto
qed

subsection \<open>The bound on the datagram is needed\<close>

text \<open>Past the largest UDP datagram the target does fail: an ERROR chunk of 65535 bytes whose only cause leaves out its padding parses, but
  written back with the padding its length is 65536, which the 16-bit length field takes as 0, and the serializer cuts the chunk away.\<close>

definition unpadded_error :: "bytes \<Rightarrow> bytes" where
  "unpadded_error info = replicate 12 0 @ [OP_ERROR, 0, 255, 255, 0, 1, 255, 251] @ info"

lemma unpadded_error_parses:
  assumes "length info = 65527"
  shows "deserialize_chunks (unpadded_error info) 12 [] =
    Inr [\<lparr>chunk_header = \<lparr>ch_type = OP_ERROR, ch_flag = 0, ch_length = 65535\<rparr>,
          chunk_value = Error_Value [\<lparr>cause_code = 1, cause_info = info\<rparr>]\<rparr>]"
proof -
  let ?d = "unpadded_error info" and ?body = "[0, 1, 255, 251] @ info"
  have len: "length ?d = 65547" using assms by (simp add: unpadded_error_def)
  have lengths: "mem16 (htons 65535) = [255, 255]" "mem16 (htons 65531) = [255, 251]" "mem16 (htons 1) = [0, 1]" by code_simp+
  have rd: "read8 ?d 12 = Inr 9" "read8 ?d 13 = Inr 0" "read16 ?d 14 = Inr 65535"
    using read8_at [of "replicate 12 0" 9] read8_at [of "replicate 12 0 @ [9]" 0] read16_at [of "replicate 12 0 @ [9, 0]" 65535]
    by (simp_all add: unpadded_error_def lengths)
  have body: "take 65531 (drop 16 ?d) = ?body" using assms by (simp add: unpadded_error_def)
  have e: "read16 ?body 0 = Inr 1" "read16 ?body 2 = Inr 65531"
    using read16_at [of "[]" 1 "[255, 251] @ info"] read16_at [of "[0, 1]" 65531 info] by (simp_all add: lengths numeral_2_eq_2)
  have "deserialize_error_chunk ?body = Inr [\<lparr>cause_code = 1, cause_info = info\<rparr>]"
    using assms e by (simp add: deserialize_error_chunk_def deserialize_error_chunk_at.simps pad4_def)
  then have v: "deserialize_chunk_value 9 ?body = Inr (Error_Value [\<lparr>cause_code = 1, cause_info = info\<rparr>])"
    by (simp add: deserialize_chunk_value_def)
  show ?thesis
    using rd len body v assms
    by (simp add: deserialize_chunks.simps [of ?d 12] take_data_flags_def Let_def pad4_def deserialize_chunks.simps [of ?d 65547])
qed


lemma unpadded_error_vanishes:
  assumes "length info = 65527"
  shows "serialize_chunk \<lparr>chunk_header = \<lparr>ch_type = OP_ERROR, ch_flag = 0, ch_length = 65535\<rparr>,
           chunk_value = Error_Value [\<lparr>cause_code = 1, cause_info = info\<rparr>]\<rparr> out = Inr out"
proof -
  have "param_fits info" using assms by (simp add: param_fits_def)
  then have "serialize_error_chunk [\<lparr>cause_code = 1, cause_info = info\<rparr>] (out @ [0, 0, 0, 0]) = Inr ((out @ [0, 0, 0, 0]) @ param_bytes 1 info)"
    by (simp add: append_parameter_eq)
  moreover have "length (param_bytes 1 info) = 65532" using assms by (simp add: pad4_def)
  moreover have "replicate 4 (0::u8) = [0, 0, 0, 0]" by (simp add: numeral_eq_Suc)
  ultimately show ?thesis by (simp add: serialize_chunk_def serialize_chunk_body_def resize0_def pad4_def Let_def)
qed

lemma fuzz_packet_fails_past_the_bound:
  assumes "length info = 65527"
  shows "fuzz_packet (unpadded_error info) = Aborted"
proof -
  let ?c = "\<lparr>chunk_header = \<lparr>ch_type = OP_ERROR, ch_flag = 0, ch_length = 65535\<rparr>, chunk_value = Error_Value [\<lparr>cause_code = 1, cause_info = info\<rparr>]\<rparr>"
  obtain h where p: "deserialize_sctp_packet (unpadded_error info) = Inr \<lparr>pkt_header = h, pkt_chunks = [?c]\<rparr>"
    using assms unpadded_error_parses [OF assms]
    by (auto simp: deserialize_sctp_packet_def unpadded_error_def reads_in read_checksum_le_def)
  let ?empty = "\<lparr>pkt_header = h, pkt_chunks = []\<rparr>"
  have "serialize_sctp_packet \<lparr>pkt_header = h, pkt_chunks = [?c]\<rparr> = serialize_sctp_packet ?empty"
    by (simp add: serialize_sctp_packet_def unpadded_error_vanishes [OF assms])
  moreover obtain wire where "serialize_sctp_packet ?empty = Inr wire" "deserialize_sctp_packet wire = Inr (on_wire ?empty)"
    using packets.codec_roundtrip [of ?empty] by (auto simp: res_simps)
  moreover have "fuzz_all_parameters [?c] = Passed" by (simp add: fuzz_init_parameters_def)
  ultimately show ?thesis using p by (simp add: fuzz_packet_def on_wire_def same_chunks_def)
qed

end
