(* ===== verification/Spec2Isabelle.thy ===== *)
theory Spec2Isabelle
  imports Codec_Contract Serial_Arith Ordered_Map Checksum Wire_Codec State_Cookie_Codec Hmac Cookie_Auth Builders
    Send_Queue Receive_Queue Expiration_Queue Notification_Queue Association Data_Reception
    Congestion Sack_Processing
    Data_Sending Socket_State Socket_Timers Teardown Data_Transfer Path_Management Handshake Packet_Input
    Outgoing_Packets Association_Setup Association_Teardown Event_Loop Message_Exchange Socket_Life
    Platform_Sockets Socket_Resources Fuzz_Targets
begin

text \<open>
  A verification library for an SCTP stack over UDP (RFC 9260 over RFC 6951) written in C++: \<open>include/sctp\<close> is its public interface,
  \<open>src\<close> its implementation. The definitions translate the code function by function, with the names of the source; the lemmas show
  what the parts promise each other and what the whole socket does.

  \<^bold>\<open>The program.\<close> An application owns an \<open>SCTP_Socket\<close> and calls it from any thread; one thread runs \<open>event_loop\<close>: poll,
  receive and handle datagrams (\<open>socket_handlers.cpp\<close>), let timers expire (\<open>socket_timers.cpp\<close>), send (\<open>socket_event_loop.cpp\<close>). The
  socket keeps a map from peers to associations and four queues, each with its own lock: packets to send, messages received, timers and
  notifications. Packets are built by \<open>builders.cpp\<close>, written and parsed by \<open>serialize.cpp\<close>, checked by \<open>checksum.cpp\<close>; the state of a
  handshake travels in a cookie that \<open>cookie_auth.cpp\<close> signs with \<open>hmac.cpp\<close>.

  \<^bold>\<open>Vocabulary.\<close> \<open>Sctp_Prelude\<close>: words at the width of the code's integers, byte order, padding. \<open>Sctp_Types\<close>: the structs and
  enumerators of \<open>sctp.hpp\<close>; a read or copy outside a buffer, a wrong variant alternative and every exception are values of
  \<open>sctp_error\<close>, so a fallible function returns an error or a result. \<open>Serial_Arith\<close>: circular comparison (\<open>utils.hpp\<close>), with the locale \<open>serial_order\<close>
  interpreted for TSNs and SSNs. \<open>Ordered_Map\<close>: \<open>std::map\<close> with a comparison object as a sorted list of entries, over the locale
  \<open>key_order\<close>.

  \<^bold>\<open>Bytes.\<close> \<open>Checksum\<close>: the table-driven CRC-32C equals the bit-by-bit one. \<open>Wire_Codec\<close>: parsing any bytes is safe (fields are read
  and ranges copied through \<open>read8\<close> to \<open>read32\<close> and \<open>read_range\<close>, which fail outside the buffer, so every guard of the parsers counts), serializing
  and parsing gives the packet back, parameters are scanned as RFC 9260 3.2.1 says. \<open>State_Cookie_Codec\<close>: the same for the cookie. Both
  codecs interpret the locale \<open>codec\<close> of \<open>Codec_Contract\<close>. \<open>Hmac\<close>: the block loop and the padding buffer compute SHA-256 as
  FIPS 180-4 defines it. \<open>Cookie_Auth\<close>: a cookie verifies exactly when it was signed under a retained secret, matches and is fresh, across
  rotations. \<open>Builders\<close>: every packet builder, and what a packet of DATA takes on the wire.

  \<^bold>\<open>Queues.\<close> \<open>Send_Queue\<close>: priorities, gating, and that a commit removes only the packet that was peeked whatever other threads did
  in between. \<open>Notification_Queue\<close> interprets the locale \<open>item_stream\<close> of \<open>Stream_Contract\<close>: what was read followed by what is unread is
  what was put in. \<open>Receive_Queue\<close> interprets \<open>item_trace\<close>: over all its operations, the discarding ones included, it refines a tape of bytes
  per association. \<open>Expiration_Queue\<close>: the heap with generations refines a map from timers to deadlines; the
  heap algorithms of the standard library are used through the locale \<open>min_heap\<close>.

  \<^bold>\<open>An association.\<close> \<open>Association\<close>: the record of \<open>association.hpp\<close>, its creation and the choice of paths. \<open>Data_Reception\<close>:
  duplicates, reordering, reassembly, delivery in stream order, the SACK and the advertised window. \<open>Congestion\<close> and
  \<open>Sack_Processing\<close>: what a SACK acknowledges, renegs and grows, Fast Retransmit, the retransmission timeout. \<open>Data_Sending\<close>: messages
  cut into chunks, what was sent, what is retransmitted.

  \<^bold>\<open>The socket.\<close> \<open>Socket_State\<close>: its members, aliases, timers, queues and notifications, and the invariant \<open>sock_ok\<close>: timers and
  aliases belong to associations, every association is well formed, every queued packet can be serialized. \<open>Outgoing_Packets\<close>: which
  packets can. \<open>Socket_Timers\<close>, \<open>Teardown\<close>, \<open>Data_Transfer\<close>, \<open>Path_Management\<close>, \<open>Handshake\<close> and \<open>Packet_Input\<close>: every expiration
  handler, chunk handler and call of the interface, each with the lemma that it keeps the invariant and never throws. \<open>Event_Loop\<close>: what
  may be sent, the packets built just before they go, a refused send, the poll timeout, opening and closing. \<open>Socket_Life\<close>: all of it as
  one transition system, whose reachable states satisfy the invariant, and what closing leaves when the event loop and other threads take
  any of its steps meanwhile. \<open>Association_Setup\<close>: two sockets and the wire between them carry
  out the four-way handshake. \<open>Association_Teardown\<close>: they shut the association down in three packets, over the same wire. \<open>Message_Exchange\<close>: a message goes from the send call of one to the receive call of the other.

  \<^bold>\<open>How code becomes definitions.\<close> A class is a record and a method a function from the record to its result and the new record. A
  critical section is one step; a call that waits is modelled from the moment its wait returns, and closing is split where it lets the
  event loop run. Clock readings, the outcomes of \<open>poll\<close>, \<open>sendto\<close> and \<open>recvfrom\<close>, and the order in which an unordered map is walked are
  arguments. The random bytes of the operating system are a list in the socket; a draw of a tag that is not zero may exhaust it, which is
  the outcome \<open>Starved\<close> and not an error of the program.

  \<^bold>\<open>Bounds.\<close> Loops of the code are structural recursions or functions with a termination proof; the parsers end because every step
  advances the offset. A batch of the event loop has the code's own bound of 64 packets or datagrams, so no fuel is chosen anywhere. A
  datagram is at most 65535 bytes, the buffer the code receives into. Packet identifiers are 64-bit: that they differ is shown for fewer
  than \<open>2 ^ 64\<close> operations.

  \<^bold>\<open>The operating system.\<close> \<open>Platform_Sockets\<close>: the wrappers of \<open>platform.hpp\<close> for POSIX and Windows and the wakeup pair, over a
  kernel whose every answer is a parameter; opening the pair is all or nothing and keeps the error code, a wakeup reaches the reader, and
  draining ends. \<open>Socket_Resources\<close>: constructor, binding, running, closing and destructor of the socket object around the protocol
  state; over any life of the object it owns exactly the descriptors it opened, and closing leaves none.

  \<^bold>\<open>Fuzz targets.\<close> \<open>Fuzz_Targets\<close>: the two targets under \<open>fuzz\<close> as functions; the checks they make hold for every input of
  at most 65535 bytes; for a cookie, within 60 seconds of its generation and unless a MAC is forged. Past that size the packet target fails on the input
  given there.

  \<^bold>\<open>Not modelled.\<close> The code behind the system calls: a parameter. Condition variables: they change no state of the model. Messages
  printed on errors and \<open>sctp_error_string\<close>. The text form of addresses, which the platform parses. \<open>examples/loopback.cpp\<close> and the
  tests, which only call the library. Two member functions on one object at the same time other than through the locks.
\<close>

end
